(* ===== verification/Prelude.thy ===== *)
theory Prelude
  imports Main "HOL-Library.Word"
begin

text \<open>
  Shared vocabulary of the development.

  \<^item> Rust's \<open>Result\<close> is the sum type with \<open>Ok\<close> for \<open>Inr\<close> and \<open>Err\<close> for \<open>Inl\<close>.
  \<^item> Wire fields and bytes are machine words. Index arithmetic on \<open>u64\<close> (and \<open>usize\<close>, 64 bits on
    every target of the repository) is on natural numbers below \<open>U64\<close>, with the wrap-around of
    a release build written out: \<open>wadd\<close>, \<open>wsub\<close>, \<open>wmul\<close> wrap, \<open>cadd\<close>, \<open>csub\<close>, \<open>cmul\<close> are
    \<open>checked_add\<close> and its kin. \<open>i64\<close> values are integers between \<open>I64_MIN\<close> and \<open>I64_MAX\<close>.
  \<^item> Byte slices are lists; \<open>slice xs a n\<close> is \<open>xs[a..a + n]\<close>.
  \<^item> Mixed-radix numbers (\<open>ravel\<close>, \<open>unravel\<close>) are the C-order numbering of array positions that
    the selection walk and the chunk grid both rely on.
\<close>

named_theorems wrap_simps \<open>machine arithmetic that does not overflow is plain arithmetic\<close>
named_theorems slice_simps \<open>slices of byte lists\<close>

type_synonym u8 = "8 word"
type_synonym u16 = "16 word"
type_synonym u32 = "32 word"
type_synonym u64 = "64 word"
type_synonym bytes = "8 word list"

abbreviation Ok :: "'a \<Rightarrow> 'e + 'a" where "Ok \<equiv> Inr"
abbreviation Err :: "'e \<Rightarrow> 'e + 'a" where "Err \<equiv> Inl"

section \<open>Results\<close>

definition res_bind :: "'e + 'a \<Rightarrow> ('a \<Rightarrow> 'e + 'b) \<Rightarrow> 'e + 'b" where
  "res_bind r f = (case r of Err e \<Rightarrow> Err e | Ok x \<Rightarrow> f x)"

definition res_map :: "('a \<Rightarrow> 'b) \<Rightarrow> 'e + 'a \<Rightarrow> 'e + 'b" where
  "res_map f r = (case r of Err e \<Rightarrow> Err e | Ok x \<Rightarrow> Ok (f x))"

definition map_err :: "('e \<Rightarrow> 'f) \<Rightarrow> 'e + 'a \<Rightarrow> 'f + 'a" where
  "map_err f r = (case r of Err e \<Rightarrow> Err (f e) | Ok x \<Rightarrow> Ok x)"

definition ok_or :: "'a option \<Rightarrow> 'e \<Rightarrow> 'e + 'a" where
  "ok_or x e = (case x of None \<Rightarrow> Err e | Some y \<Rightarrow> Ok y)"

text \<open>\<open>iter().map(f).collect::<Result<_>>()\<close>: the first error wins.\<close>

fun res_traverse :: "('a \<Rightarrow> 'e + 'b) \<Rightarrow> 'a list \<Rightarrow> 'e + 'b list" where
  "res_traverse f [] = Ok []"
| "res_traverse f (x # xs) =
     (case f x of Err e \<Rightarrow> Err e
      | Ok y \<Rightarrow> (case res_traverse f xs of Err e \<Rightarrow> Err e | Ok ys \<Rightarrow> Ok (y # ys)))"

lemma res_bind_simps [simp]:
  "res_bind (Ok x) f = f x" "res_bind (Err e) f = Err e"
  by (simp_all add: res_bind_def)

lemma res_map_simps [simp]:
  "res_map g (Ok x) = Ok (g x)" "res_map g (Err e) = Err e"
  by (simp_all add: res_map_def)

lemma map_err_simps [simp]:
  "map_err g (Ok x) = Ok x" "map_err g (Err e) = Err (g e)"
  by (simp_all add: map_err_def)

lemma ok_or_simps [simp]:
  "ok_or (Some x) e = Ok x" "ok_or None e = Err e"
  by (simp_all add: ok_or_def)

lemma res_bind_Ok: "res_bind r f = Ok y \<longleftrightarrow> (\<exists>x. r = Ok x \<and> f x = Ok y)"
  by (cases r) simp_all

lemma res_map_Ok: "res_map f r = Ok y \<longleftrightarrow> (\<exists>x. r = Ok x \<and> y = f x)"
  by (cases r) auto

lemma map_err_Ok [simp]: "map_err f r = Ok y \<longleftrightarrow> r = Ok y"
  by (cases r) simp_all

lemma ok_or_Ok [simp]: "ok_or x e = Ok y \<longleftrightarrow> x = Some y"
  by (cases x) simp_all

lemma res_traverse_Ok:
  "res_traverse f xs = Ok ys \<Longrightarrow> list_all2 (\<lambda>x y. f x = Ok y) xs ys"
  by (induction xs arbitrary: ys) (auto split: sum.splits)

lemma res_traverse_map: "(\<And>x. x \<in> set xs \<Longrightarrow> f x = Ok (g x)) \<Longrightarrow> res_traverse f xs = Ok (map g xs)"
  by (induction xs) auto

lemma res_traverse_Err:
  "res_traverse f xs = Err e \<Longrightarrow> \<exists>x \<in> set xs. f x = Err e"
  by (induction xs) (auto split: sum.splits)

section \<open>Machine arithmetic on natural numbers\<close>

definition U64 :: nat where "U64 = 2 ^ 64"
definition U32 :: nat where "U32 = 2 ^ 32"

definition wadd :: "nat \<Rightarrow> nat \<Rightarrow> nat" where "wadd a b = (a + b) mod U64"
definition wsub :: "nat \<Rightarrow> nat \<Rightarrow> nat" where "wsub a b = (a + U64 - b mod U64) mod U64"
definition wmul :: "nat \<Rightarrow> nat \<Rightarrow> nat" where "wmul a b = (a * b) mod U64"

definition cadd :: "nat \<Rightarrow> nat \<Rightarrow> nat option" where
  "cadd a b = (if a + b < U64 then Some (a + b) else None)"
definition csub :: "nat \<Rightarrow> nat \<Rightarrow> nat option" where
  "csub a b = (if b \<le> a then Some (a - b) else None)"
definition cmul :: "nat \<Rightarrow> nat \<Rightarrow> nat option" where
  "cmul a b = (if a * b < U64 then Some (a * b) else None)"

definition sat_add :: "nat \<Rightarrow> nat \<Rightarrow> nat" where "sat_add a b = min (a + b) (U64 - 1)"
definition sat_mul :: "nat \<Rightarrow> nat \<Rightarrow> nat" where "sat_mul a b = min (a * b) (U64 - 1)"

definition div_ceil :: "nat \<Rightarrow> nat \<Rightarrow> nat" where
  "div_ceil a b = (if a mod b > 0 then a div b + 1 else a div b)"

definition I64_MAX :: int where "I64_MAX = 2 ^ 63 - 1"
definition I64_MIN :: int where "I64_MIN = - (2 ^ 63)"

definition is_i64 :: "int \<Rightarrow> bool" where "is_i64 i \<longleftrightarrow> I64_MIN \<le> i \<and> i \<le> I64_MAX"

definition i64_of_u64 :: "nat \<Rightarrow> int option" where
  "i64_of_u64 n = (if int n \<le> I64_MAX then Some (int n) else None)"

definition i64_sat_add :: "int \<Rightarrow> int \<Rightarrow> int" where
  "i64_sat_add a b = max I64_MIN (min I64_MAX (a + b))"

definition i64_cmul :: "int \<Rightarrow> int \<Rightarrow> int option" where
  "i64_cmul a b = (if is_i64 (a * b) then Some (a * b) else None)"

text \<open>\<open>x as u64\<close> of a signed value: two's complement.\<close>

definition u64_of_i64 :: "int \<Rightarrow> nat" where "u64_of_i64 i = nat (i mod 2 ^ 64)"

lemma U64_pos [simp]: "0 < U64" "U64 \<noteq> 0"
  by (simp_all add: U64_def)

lemma U64_gt: "n < 2 ^ 63 \<Longrightarrow> n < U64" "n < 2 ^ 32 \<Longrightarrow> n < U64"
  by (simp_all add: U64_def)

lemma wadd_eq [wrap_simps]: "a + b < U64 \<Longrightarrow> wadd a b = a + b"
  by (simp add: wadd_def)

lemma wmul_eq [wrap_simps]: "a * b < U64 \<Longrightarrow> wmul a b = a * b"
  by (simp add: wmul_def)

lemma wsub_eq [wrap_simps]:
  assumes "b \<le> a" "a < U64"
  shows "wsub a b = a - b"
proof -
  have "a + U64 - b mod U64 = (a - b) + U64"
    using assms by simp
  then show ?thesis
    using assms(2) by (simp only: wsub_def mod_add_self2) (simp add: less_imp_diff_less)
qed

lemma wadd_less [simp]: "wadd a b < U64" by (simp add: wadd_def)
lemma wmul_less [simp]: "wmul a b < U64" by (simp add: wmul_def)

lemma cadd_Some: "cadd a b = Some c \<longleftrightarrow> c = a + b \<and> a + b < U64"
  by (auto simp: cadd_def)
lemma cmul_Some: "cmul a b = Some c \<longleftrightarrow> c = a * b \<and> a * b < U64"
  by (auto simp: cmul_def)
lemma csub_Some: "csub a b = Some c \<longleftrightarrow> c = a - b \<and> b \<le> a"
  by (auto simp: csub_def)
lemma cadd_None: "cadd a b = None \<longleftrightarrow> U64 \<le> a + b"
  by (auto simp: cadd_def)
lemma cmul_None: "cmul a b = None \<longleftrightarrow> U64 \<le> a * b"
  by (auto simp: cmul_def)

lemmas checked_simps = cadd_Some cmul_Some csub_Some cadd_None cmul_None

lemma div_ceil_bounds:
  assumes "0 < b"
  shows "a \<le> div_ceil a b * b" "div_ceil a b * b < a + b" "a div b \<le> div_ceil a b"
proof -
  have dm: "a div b * b + a mod b = a" by simp
  have lt: "a mod b < b" using assms by simp
  have *: "div_ceil a b * b = (if a mod b > 0 then a div b * b + b else a div b * b)"
    by (simp add: div_ceil_def)
  show "a \<le> div_ceil a b * b" "div_ceil a b * b < a + b"
    using dm lt unfolding * by (split if_split, linarith)+
  show "a div b \<le> div_ceil a b" by (simp add: div_ceil_def)
qed

lemma div_ceil_le:
  assumes "0 < b" "a \<le> n * b"
  shows "div_ceil a b \<le> n"
proof -
  have "div_ceil a b * b < (n + 1) * b"
    using div_ceil_bounds(2) [OF assms(1), of a] assms(2) by simp
  then show ?thesis
    by (metis Suc_eq_plus1 less_Suc_eq_le mult_less_cancel2)
qed

lemma u64_of_i64_nonneg: "0 \<le> i \<Longrightarrow> i < 2 ^ 64 \<Longrightarrow> u64_of_i64 i = nat i"
  by (simp add: u64_of_i64_def)

lemma int_u64_of_i64: "int (u64_of_i64 i) = i mod int U64"
  by (simp add: u64_of_i64_def U64_def)


section \<open>Slices\<close>

definition slice :: "'a list \<Rightarrow> nat \<Rightarrow> nat \<Rightarrow> 'a list" where
  "slice xs a n = take n (drop a xs)"

text \<open>\<open>dst[a..a + ys.len()].copy_from_slice(ys)\<close>.\<close>

definition write_at :: "'a list \<Rightarrow> nat \<Rightarrow> 'a list \<Rightarrow> 'a list" where
  "write_at xs a ys = take a xs @ ys @ drop (a + length ys) xs"

lemma length_slice [slice_simps]: "length (slice xs a n) = min n (length xs - a)"
  by (simp add: slice_def min.commute)

lemma length_slice_within [simp]: "a + n \<le> length xs \<Longrightarrow> length (slice xs a n) = n"
  by (simp add: slice_def)

lemma nth_slice [simp]: "i < n \<Longrightarrow> a + n \<le> length xs \<Longrightarrow> slice xs a n ! i = xs ! (a + i)"
  by (simp add: slice_def)

lemma slice_zero [simp]: "slice xs a 0 = []"
  by (simp add: slice_def)

lemma slice_all [simp]: "slice xs 0 (length xs) = xs"
  by (simp add: slice_def)

lemma slice_add: "slice xs a (m + n) = slice xs a m @ slice xs (a + m) n"
  by (simp add: slice_def take_add add.commute)

lemma slice_slice: "b + n \<le> m \<Longrightarrow> slice (slice xs a m) b n = slice xs (a + b) n"
  by (simp add: slice_def drop_take take_take add.commute)

lemma slice_eq_map_nth:
  "a + n \<le> length xs \<Longrightarrow> slice xs a n = map (\<lambda>i. xs ! (a + i)) [0..<n]"
  by (rule nth_equalityI) simp_all

lemma slice_map: "slice (map f xs) a n = map f (slice xs a n)"
  by (simp add: slice_def take_map drop_map)

lemma slice_upt: "a + n \<le> m \<Longrightarrow> slice [0..<m] a n = [a..<a + n]"
  by (simp add: slice_def take_upt)

lemma length_write_at [simp]: "a + length ys \<le> length xs \<Longrightarrow> length (write_at xs a ys) = length xs"
  by (simp add: write_at_def)

lemma write_at_Nil [simp]: "write_at xs a [] = xs"
  by (simp add: write_at_def)

lemma write_at_whole: "length ys = length xs \<Longrightarrow> write_at xs 0 ys = ys"
  by (simp add: write_at_def)

lemma slice_write_at_same [simp]:
  "a + length ys \<le> length xs \<Longrightarrow> slice (write_at xs a ys) a (length ys) = ys"
  by (simp add: slice_def write_at_def)

lemma slice_write_at_other:
  assumes "a + length ys \<le> length xs" "b + n \<le> a \<or> a + length ys \<le> b"
  shows "slice (write_at xs a ys) b n = slice xs b n"
proof (cases "b + n \<le> a")
  case True
  then show ?thesis using assms(1)
    by (simp add: slice_def write_at_def drop_take take_take min_absorb1)
next
  case False
  with assms(2) have "a + length ys \<le> b" by simp
  then show ?thesis using assms(1)
    by (simp add: slice_def write_at_def drop_drop)
qed

lemma take_write_at: "a \<le> length xs \<Longrightarrow> take (a + length ys) (write_at xs a ys) = take a xs @ ys"
  by (simp add: write_at_def)

lemma drop_write_at:
  "a + length ys \<le> length xs \<Longrightarrow> drop (a + length ys) (write_at xs a ys) = drop (a + length ys) xs"
  by (simp add: write_at_def)

text \<open>Two adjacent writes are one write.\<close>

lemma write_at_append:
  assumes "a + length ys + length zs \<le> length xs"
  shows "write_at (write_at xs a ys) (a + length ys) zs = write_at xs a (ys @ zs)"
  using assms by (simp add: write_at_def ac_simps)

lemma write_at_slice_of: "a + n \<le> length xs \<Longrightarrow> write_at xs a (slice xs a n) = xs"
  by (simp add: write_at_def slice_def) (metis append_assoc append_take_drop_id add.commute drop_drop)

text \<open>Elements of one size laid end to end.\<close>

lemma length_concat_const:
  "(\<And>x. x \<in> set xs \<Longrightarrow> length (f x) = s) \<Longrightarrow> length (concat (map f xs)) = length xs * s"
  by (induction xs) simp_all

lemma slice_concat_const:
  assumes "\<And>x. x \<in> set xs \<Longrightarrow> length (f x) = s" "a + n \<le> length xs"
  shows "slice (concat (map f xs)) (a * s) (n * s) = concat (map f (slice xs a n))"
proof -
  define us vs ws where uvw: "us = take a xs" "vs = slice xs a n" "ws = drop (a + n) xs"
  have xs: "xs = us @ vs @ ws"
    by (simp add: uvw slice_def) (metis append_take_drop_id add.commute drop_drop)
  have len: "length us = a" "length vs = n" using assms(2) by (simp_all add: uvw)
  have "length (concat (map f us)) = a * s" "length (concat (map f vs)) = n * s"
    using assms(1) len xs by (auto intro!: length_concat_const [THEN trans])
  then show ?thesis
    using len by (simp add: slice_def xs)
qed

section \<open>Little-endian bytes\<close>

fun le_nat :: "nat \<Rightarrow> nat \<Rightarrow> bytes" where
  "le_nat 0 x = []"
| "le_nat (Suc n) x = of_nat (x mod 256) # le_nat n (x div 256)"

fun nat_le :: "bytes \<Rightarrow> nat" where
  "nat_le [] = 0"
| "nat_le (b # bs) = unat b + 256 * nat_le bs"

definition to_le :: "'a::len word \<Rightarrow> bytes" where
  "to_le w = le_nat (LENGTH('a) div 8) (unat w)"

definition of_le :: "bytes \<Rightarrow> 'a::len word" where
  "of_le bs = of_nat (nat_le bs)"

lemma length_le_nat [simp]: "length (le_nat n x) = n"
  by (induction n arbitrary: x) simp_all

lemma unat_byte [simp]: "unat (of_nat (x mod 256) :: u8) = x mod 256"
  by (simp add: unat_of_nat)

lemma nat_le_le_nat: "nat_le (le_nat n x) = x mod 256 ^ n"
  by (induction n arbitrary: x) (simp_all add: mod_mult2_eq)

lemma nat_le_less: "nat_le bs < 256 ^ length bs"
proof (induction bs)
  case (Cons b bs)
  have "unat b < 256" using unsigned_less [of b] by simp
  with Cons show ?case by simp
qed simp

lemma le_nat_nat_le [simp]: "le_nat (length bs) (nat_le bs) = bs"
proof (induction bs)
  case (Cons b bs)
  have "unat b < 256" using unsigned_less [of b] by simp
  with Cons show ?case by simp
qed simp

lemma length_to_le [simp]: "length (to_le (w :: 'a::len word)) = LENGTH('a) div 8"
  by (simp add: to_le_def)

lemma byte_power: "(256 :: nat) ^ n = 2 ^ (8 * n)"
  by (simp add: power_mult)

lemma of_le_to_le:
  assumes "8 * (LENGTH('a) div 8) = LENGTH('a::len)"
  shows "of_le (to_le (w :: 'a word)) = w"
proof -
  have "(256 :: nat) ^ (LENGTH('a) div 8) = 2 ^ LENGTH('a)"
    using assms by (simp add: byte_power)
  then show ?thesis
    using unsigned_less [of w] by (simp add: of_le_def to_le_def nat_le_le_nat)
qed

lemma to_le_of_le:
  assumes "length bs = LENGTH('a) div 8" "8 * (LENGTH('a) div 8) = LENGTH('a::len)"
  shows "to_le (of_le bs :: 'a word) = bs"
proof -
  have "(256 :: nat) ^ length bs = 2 ^ LENGTH('a)"
    using assms by (simp add: byte_power)
  then have "nat_le bs < 2 ^ LENGTH('a)"
    using nat_le_less [of bs] by simp
  then show ?thesis
    using assms(1) by (simp add: of_le_def to_le_def unat_of_nat flip: assms(1))
qed

lemma le_roundtrip [simp]:
  "of_le (to_le (a :: u8)) = a" "of_le (to_le (b :: u16)) = b"
  "of_le (to_le (c :: u32)) = c" "of_le (to_le (d :: u64)) = d"
  by (simp_all add: of_le_to_le)


section \<open>Mixed-radix numbering of array positions\<close>

fun ravel :: "nat list \<Rightarrow> nat list \<Rightarrow> nat" where
  "ravel (d # ds) (c # cs) = c * prod_list ds + ravel ds cs"
| "ravel _ _ = 0"

fun unravel :: "nat list \<Rightarrow> nat \<Rightarrow> nat list" where
  "unravel [] n = []"
| "unravel (d # ds) n = (n div prod_list ds mod d) # unravel ds n"

text \<open>The loop of the source: axes from the last to the first, \<open>rest % d\<close> then \<open>rest /= d\<close>.\<close>

fun unravel_rev :: "nat list \<Rightarrow> nat \<Rightarrow> nat list" where
  "unravel_rev [] rest = []"
| "unravel_rev (d # ds) rest = (rest mod d) # unravel_rev ds (rest div d)"

definition in_dims :: "nat list \<Rightarrow> nat list \<Rightarrow> bool" where
  "in_dims ds cs = list_all2 (\<lambda>c d. c < d) cs ds"

lemma in_dims_simps [simp]:
  "in_dims [] cs \<longleftrightarrow> cs = []"
  "in_dims (d # ds) (c # cs) \<longleftrightarrow> c < d \<and> in_dims ds cs"
  "in_dims ds [] \<longleftrightarrow> ds = []"
  by (auto simp: in_dims_def)

lemma in_dims_length: "in_dims ds cs \<Longrightarrow> length cs = length ds"
  by (simp add: in_dims_def list_all2_lengthD)

lemma unravel_rev_snoc:
  "unravel_rev (ds @ [d]) n = unravel_rev ds n @ [n div prod_list ds mod d]"
  by (induction ds arbitrary: n) (simp_all add: div_mult2_eq)

lemma unravel_loop: "rev (unravel_rev (rev ds) n) = unravel ds n"
  by (induction ds) (simp_all add: unravel_rev_snoc)

lemma length_unravel [simp]: "length (unravel ds n) = length ds"
  by (induction ds) simp_all

lemma ravel_unravel: "ravel ds (unravel ds n) = n mod prod_list ds"
  by (induction ds) (simp_all add: mod_mult2_eq mult.commute [of _ "prod_list _"])

lemma ravel_less: "in_dims ds cs \<Longrightarrow> ravel ds cs < prod_list ds"
proof (induction ds cs rule: ravel.induct)
  case (1 d ds c cs)
  then have "ravel ds cs < prod_list ds" and c: "Suc c \<le> d" by simp_all
  then have "c * prod_list ds + ravel ds cs < Suc c * prod_list ds" by simp
  also have "\<dots> \<le> d * prod_list ds" using c by (rule mult_le_mono1)
  finally show ?case by simp
qed simp_all

lemma unravel_add_mult: "unravel ds (n + k * prod_list ds) = unravel ds n"
proof (induction ds arbitrary: k)
  case (Cons d ds)
  have e: "n + k * (d * prod_list ds) = n + (k * d) * prod_list ds" by simp
  show ?case
  proof (cases "prod_list ds = 0")
    case False
    then show ?thesis by (simp only: unravel.simps prod_list.Cons e Cons div_mult_self1) simp
  qed simp
qed simp

lemma unravel_ravel: "in_dims ds cs \<Longrightarrow> unravel ds (ravel ds cs) = cs"
proof (induction ds cs rule: ravel.induct)
  case (1 d ds c cs)
  then have "ravel ds cs < prod_list ds" by (simp add: ravel_less)
  moreover have "unravel ds (c * prod_list ds + ravel ds cs) = cs"
    using 1 by (simp add: unravel_add_mult add.commute [of "c * _"])
  ultimately show ?case using 1 by simp
qed simp_all

lemma in_dims_unravel: "n < prod_list ds \<Longrightarrow> in_dims ds (unravel ds n)"
proof (induction ds arbitrary: n)
  case (Cons d ds)
  have "0 < d" "0 < prod_list ds" using Cons.prems by (auto intro!: Nat.gr0I)
  then have "in_dims ds (unravel ds (n mod prod_list ds))" by (intro Cons.IH) simp
  moreover have "unravel ds n = unravel ds (n mod prod_list ds)"
    using unravel_add_mult [of ds "n mod prod_list ds" "n div prod_list ds"] by simp
  ultimately show ?case using \<open>0 < d\<close> by simp
qed simp

text \<open>\<open>fold(0, |n, (c, d)| n * d + c)\<close>.\<close>

lemma foldl_ravel:
  "length cs = length ds \<Longrightarrow>
   foldl (\<lambda>n (c, d). n * d + c) k (zip cs ds) = k * prod_list ds + ravel ds cs"
  by (induction cs ds arbitrary: k rule: list_induct2) (simp_all add: algebra_simps)

lemma upt_blocks: "[0..<m * n] = concat (map (\<lambda>i. map (\<lambda>j. i * n + j) [0..<n]) [0..<m])"
proof (induction m)
  case (Suc m)
  have "[0..<Suc m * n] = [0..<m * n] @ [m * n..<m * n + n]"
    using upt_add_eq_append [of 0 "m * n" n] by (simp only: mult_Suc add.commute [of n])
  moreover have "[m * n..<m * n + n] = map (\<lambda>j. m * n + j) [0..<n]"
    by (rule nth_equalityI) simp_all
  ultimately show ?case using Suc by (simp only: upt_Suc_append map_append concat_append) simp
qed simp

text \<open>C order: the \<open>n\<close>-th combination is the one \<open>unravel\<close> picks.\<close>

lemma product_lists_unravel:
  "product_lists xss =
   map (\<lambda>n. map2 (!) xss (unravel (map length xss) n)) [0..<prod_list (map length xss)]"
proof (induction xss)
  case (Cons xs xss)
  let ?P = "prod_list (map length xss)"
  let ?h = "\<lambda>n. map2 (!) (xs # xss) (unravel (map length (xs # xss)) n)"
  have row: "map ?h (map (\<lambda>j. i * ?P + j) [0..<?P]) = map (Cons (xs ! i)) (product_lists xss)"
    if "i < length xs" for i
    using that by (auto simp: Cons unravel_add_mult add.commute [of "i * _"])
  have "map ?h [0..<length xs * ?P]
      = concat (map (\<lambda>i. map ?h (map (\<lambda>j. i * ?P + j) [0..<?P])) [0..<length xs])"
    unfolding upt_blocks map_concat by (simp only: map_map comp_def)
  also have "\<dots> = concat (map (\<lambda>i. map (Cons (xs ! i)) (product_lists xss)) [0..<length xs])"
    using row by (intro arg_cong [where f = concat] map_cong refl) auto
  also have "\<dots> = concat (map (\<lambda>x. map (Cons x) (product_lists xss)) (map ((!) xs) [0..<length xs]))"
    by (simp only: map_map comp_def)
  also have "map ((!) xs) [0..<length xs] = xs" by (rule map_nth)
  finally show ?case by simp
qed simp

lemma length_product_lists: "length (product_lists xss) = prod_list (map length xss)"
  by (subst product_lists_unravel) simp

lemma prod_list_pos: "0 \<notin> set ds \<Longrightarrow> 0 < prod_list (ds :: nat list)"
  by (induction ds) auto

lemma prod_list_mono:
  "list_all2 (\<le>) xs (ys :: nat list) \<Longrightarrow> prod_list xs \<le> prod_list ys"
  by (induction rule: list_all2_induct) (simp_all add: mult_le_mono)

end
