(* ===== verification/Errors.thy ===== *)
theory Errors
  imports Prelude
begin

text \<open>
  The error types of the four crates and how they are classified
  (\<open>aex-core/src/error.rs\<close>, \<open>aex-wire/src/error.rs\<close>, \<open>aex-server/src/error.rs\<close>,
  \<open>aex-client/src/error.rs\<close>). The human-readable message of an error is left out: every
  decision in the code is made on the variant and its class, never on the text.
  \<open>io::ErrorKind\<close> keeps the kinds the code tells apart and one for all others; the gRPC status
  codes are those of \<open>tonic::Code\<close>.
\<close>

section \<open>Error classes\<close>

datatype error_class =
  Class_Ok | Class_Protocol | Class_Auth | Class_Plan | Class_Request | Class_Transient
| Class_Permanent

fun class_as_u8 :: "error_class \<Rightarrow> u8" where
  "class_as_u8 Class_Ok = 0"
| "class_as_u8 Class_Protocol = 1"
| "class_as_u8 Class_Auth = 2"
| "class_as_u8 Class_Plan = 3"
| "class_as_u8 Class_Request = 4"
| "class_as_u8 Class_Transient = 5"
| "class_as_u8 Class_Permanent = 6"

definition class_from_u8 :: "u8 \<Rightarrow> error_class" where
  "class_from_u8 v =
     (if v = 0 then Class_Ok
      else if v = 1 then Class_Protocol
      else if v = 2 then Class_Auth
      else if v = 3 then Class_Plan
      else if v = 4 then Class_Request
      else if v = 5 then Class_Transient
      else Class_Permanent)"

lemma class_from_as_u8 [simp]: "class_from_u8 (class_as_u8 c) = c"
  by (cases c) (simp_all add: class_from_u8_def)

lemma class_as_u8_inject [simp]: "class_as_u8 c = class_as_u8 d \<longleftrightarrow> c = d"
  by (metis class_from_as_u8)

section \<open>Core errors\<close>

datatype io_kind =
  Io_NotFound | Io_PermissionDenied | Io_InvalidData | Io_UnexpectedEof
| Io_Interrupted | Io_TimedOut | Io_WouldBlock | Io_WriteZero | Io_Other

datatype aex_error =
  UnsupportedDType | UnsupportedNpy | MalformedNpy | UnsupportedHdf5 | MalformedHdf5
| UnsupportedZarr | MalformedZarr | BadSelection | UnsupportedSelection | BadFunction
| NotFound | NotAGroup
| OutOfRange (or_offset: nat) (or_len: nat) (or_total: nat)
| BadBlock
| AexIo io_kind

fun aex_class :: "aex_error \<Rightarrow> error_class" where
  "aex_class UnsupportedDType = Class_Request"
| "aex_class UnsupportedNpy = Class_Request"
| "aex_class UnsupportedHdf5 = Class_Request"
| "aex_class UnsupportedZarr = Class_Request"
| "aex_class BadSelection = Class_Request"
| "aex_class UnsupportedSelection = Class_Request"
| "aex_class BadFunction = Class_Request"
| "aex_class NotFound = Class_Request"
| "aex_class NotAGroup = Class_Request"
| "aex_class (OutOfRange _ _ _) = Class_Request"
| "aex_class MalformedNpy = Class_Permanent"
| "aex_class MalformedHdf5 = Class_Permanent"
| "aex_class MalformedZarr = Class_Permanent"
| "aex_class BadBlock = Class_Protocol"
| "aex_class (AexIo k) =
     (case k of
        Io_NotFound \<Rightarrow> Class_Request
      | Io_PermissionDenied \<Rightarrow> Class_Request
      | Io_InvalidData \<Rightarrow> Class_Permanent
      | Io_UnexpectedEof \<Rightarrow> Class_Permanent
      | _ \<Rightarrow> Class_Transient)"

text \<open>\<open>?\<close> on a result of the standard library.\<close>

definition io :: "io_kind + 'a \<Rightarrow> aex_error + 'a" where "io r = map_err AexIo r"

section \<open>Wire errors\<close>

datatype wire_error =
  WireProtocol
| WireOutOfRange (wor_offset: nat) (wor_len: nat) (wor_capacity: nat)
| WireOverlap (wov_offset: nat) (wov_len: nat)
| WireIo io_kind

fun wire_class :: "wire_error \<Rightarrow> error_class" where
  "wire_class WireProtocol = Class_Protocol"
| "wire_class (WireOutOfRange _ _ _) = Class_Request"
| "wire_class (WireOverlap _ _) = Class_Request"
| "wire_class (WireIo _) = Class_Transient"

section \<open>Server errors and their status codes\<close>

datatype server_error =
  SrvConfig | SrvProtocol | SrvAuth | SrvBadRequest | SrvNoSuchPlan | SrvPathNotAllowed
| SrvExhausted | SrvRandom | SrvCore aex_error | SrvIo io_kind | SrvTransport

fun server_class :: "server_error \<Rightarrow> error_class" where
  "server_class SrvProtocol = Class_Protocol"
| "server_class SrvAuth = Class_Auth"
| "server_class SrvNoSuchPlan = Class_Plan"
| "server_class SrvBadRequest = Class_Request"
| "server_class SrvPathNotAllowed = Class_Request"
| "server_class SrvExhausted = Class_Transient"
| "server_class (SrvCore e) = aex_class e"
| "server_class (SrvIo k) = aex_class (AexIo k)"
| "server_class SrvConfig = Class_Permanent"
| "server_class SrvRandom = Class_Permanent"
| "server_class SrvTransport = Class_Permanent"

datatype grpc_code =
  Code_Ok | Code_Cancelled | Code_Unknown | Code_InvalidArgument | Code_DeadlineExceeded
| Code_NotFound | Code_AlreadyExists | Code_PermissionDenied | Code_ResourceExhausted
| Code_FailedPrecondition | Code_Aborted | Code_OutOfRange | Code_Unimplemented | Code_Internal
| Code_Unavailable | Code_DataLoss | Code_Unauthenticated

fun code_of_class :: "error_class \<Rightarrow> grpc_code" where
  "code_of_class Class_Ok = Code_Internal"
| "code_of_class Class_Protocol = Code_Internal"
| "code_of_class Class_Auth = Code_Unauthenticated"
| "code_of_class Class_Plan = Code_FailedPrecondition"
| "code_of_class Class_Request = Code_InvalidArgument"
| "code_of_class Class_Transient = Code_Unavailable"
| "code_of_class Class_Permanent = Code_DataLoss"

fun status_code :: "server_error \<Rightarrow> grpc_code" where
  "status_code SrvPathNotAllowed = Code_PermissionDenied"
| "status_code (SrvCore NotFound) = Code_NotFound"
| "status_code (SrvCore (AexIo Io_NotFound)) = Code_NotFound"
| "status_code (SrvCore (AexIo Io_PermissionDenied)) = Code_PermissionDenied"
| "status_code other = code_of_class (server_class other)"

section \<open>Client errors\<close>

datatype client_error =
  CliServer error_class grpc_code
| CliData error_class
| CliTransport
| CliProtocol
| CliBadRequest
| CliIo io_kind

fun client_class :: "client_error \<Rightarrow> error_class option" where
  "client_class (CliServer c _) = Some c"
| "client_class (CliData c) = Some c"
| "client_class _ = None"

definition needs_reprepare :: "client_error \<Rightarrow> bool" where
  "needs_reprepare e \<longleftrightarrow> client_class e = Some Class_Plan"

definition is_retryable :: "client_error \<Rightarrow> bool" where
  "is_retryable e \<longleftrightarrow> client_class e = Some Class_Transient"

fun client_of_wire :: "wire_error \<Rightarrow> client_error" where
  "client_of_wire (WireIo k) = CliIo k"
| "client_of_wire other = CliData (wire_class other)"

fun class_of :: "grpc_code \<Rightarrow> error_class" where
  "class_of Code_Ok = Class_Ok"
| "class_of Code_Internal = Class_Protocol"
| "class_of Code_Unauthenticated = Class_Auth"
| "class_of Code_FailedPrecondition = Class_Plan"
| "class_of Code_InvalidArgument = Class_Request"
| "class_of Code_NotFound = Class_Request"
| "class_of Code_PermissionDenied = Class_Request"
| "class_of Code_Unavailable = Class_Transient"
| "class_of _ = Class_Permanent"

definition client_of_status :: "grpc_code \<Rightarrow> client_error" where
  "client_of_status code = CliServer (class_of code) code"

section \<open>Classes survive the control plane\<close>

lemma aex_class_not_Ok: "aex_class e \<noteq> Class_Ok"
  by (cases e) (simp_all split: io_kind.splits)

lemma server_class_not_Ok: "server_class e \<noteq> Class_Ok"
  by (cases e) (simp_all add: aex_class_not_Ok split: io_kind.splits)

lemma class_of_code_of_class: "c \<noteq> Class_Ok \<Longrightarrow> class_of (code_of_class c) = c"
  by (cases c) simp_all

lemma class_of_status_code: "class_of (status_code e) = server_class e"
  by (induction e rule: status_code.induct)
     (simp_all add: class_of_code_of_class aex_class_not_Ok split: io_kind.splits)

end
