(* ===== verification/Dtype.thy ===== *)
theory Dtype
  imports Errors
begin

text \<open>
  Element types (\<open>aex-core/src/dtype.rs\<close>). \<open>npyz::TypeStr\<close> is a third-party type: the model
  carries what its three accessors return (\<open>num_bytes\<close>, \<open>endianness\<close>, \<open>type_char\<close>), and the
  parser from a \<open>descr\<close> string is an argument.
\<close>

datatype dtype =
  Int8 | Int16 | Int32 | Int64 | Uint8 | Uint16 | Uint32 | Uint64
| Float16 | Float32 | Float64 | Complex64 | Complex128 | Bool

definition ALL_DTYPES :: "dtype list" where
  "ALL_DTYPES =
     [Int8, Int16, Int32, Int64, Uint8, Uint16, Uint32, Uint64,
      Float16, Float32, Float64, Complex64, Complex128, Bool]"

fun itemsize :: "dtype \<Rightarrow> nat" where
  "itemsize Int8 = 1" | "itemsize Uint8 = 1" | "itemsize Bool = 1"
| "itemsize Int16 = 2" | "itemsize Uint16 = 2" | "itemsize Float16 = 2"
| "itemsize Int32 = 4" | "itemsize Uint32 = 4" | "itemsize Float32 = 4"
| "itemsize Int64 = 8" | "itemsize Uint64 = 8" | "itemsize Float64 = 8"
| "itemsize Complex64 = 8"
| "itemsize Complex128 = 16"

fun descr :: "dtype \<Rightarrow> string" where
  "descr Bool = ''|b1''" | "descr Int8 = ''|i1''" | "descr Int16 = ''<i2''"
| "descr Int32 = ''<i4''" | "descr Int64 = ''<i8''" | "descr Uint8 = ''|u1''"
| "descr Uint16 = ''<u2''" | "descr Uint32 = ''<u4''" | "descr Uint64 = ''<u8''"
| "descr Float16 = ''<f2''" | "descr Float32 = ''<f4''" | "descr Float64 = ''<f8''"
| "descr Complex64 = ''<c8''" | "descr Complex128 = ''<c16''"

fun as_i32 :: "dtype \<Rightarrow> int" where
  "as_i32 Int8 = 0" | "as_i32 Int16 = 1" | "as_i32 Int32 = 2" | "as_i32 Int64 = 3"
| "as_i32 Uint8 = 4" | "as_i32 Uint16 = 5" | "as_i32 Uint32 = 6" | "as_i32 Uint64 = 7"
| "as_i32 Float16 = 8" | "as_i32 Float32 = 9" | "as_i32 Float64 = 10"
| "as_i32 Complex64 = 11" | "as_i32 Complex128 = 12" | "as_i32 Bool = 13"

definition dtype_from_i32 :: "int \<Rightarrow> aex_error + dtype" where
  "dtype_from_i32 v = ok_or (find (\<lambda>d. as_i32 d = v) ALL_DTYPES) UnsupportedDType"

definition dtype_from_name :: "string \<Rightarrow> dtype option" where
  "dtype_from_name name =
     (if name = ''bool'' then Some Bool
      else if name = ''int8'' then Some Int8
      else if name = ''int16'' then Some Int16
      else if name = ''int32'' then Some Int32
      else if name = ''int64'' then Some Int64
      else if name = ''uint8'' then Some Uint8
      else if name = ''uint16'' then Some Uint16
      else if name = ''uint32'' then Some Uint32
      else if name = ''uint64'' then Some Uint64
      else if name = ''float16'' then Some Float16
      else if name = ''float32'' then Some Float32
      else if name = ''float64'' then Some Float64
      else if name = ''complex64'' then Some Complex64
      else if name = ''complex128'' then Some Complex128
      else None)"

datatype endianness = Endian_Little | Endian_Big | Endian_Irrelevant

datatype type_char =
  TC_Bool | TC_Int | TC_Uint | TC_Float | TC_Complex | TC_TimeDelta | TC_DateTime
| TC_ByteStr | TC_UnicodeStr | TC_RawData

record type_str =
  ts_type_char :: type_char
  ts_endianness :: endianness
  ts_num_bytes :: "nat option"

fun dtype_of_char :: "type_char \<Rightarrow> nat \<Rightarrow> dtype option" where
  "dtype_of_char TC_Bool n = (if n = 1 then Some Bool else None)"
| "dtype_of_char TC_Int n =
     (if n = 1 then Some Int8 else if n = 2 then Some Int16
      else if n = 4 then Some Int32 else if n = 8 then Some Int64 else None)"
| "dtype_of_char TC_Uint n =
     (if n = 1 then Some Uint8 else if n = 2 then Some Uint16
      else if n = 4 then Some Uint32 else if n = 8 then Some Uint64 else None)"
| "dtype_of_char TC_Float n =
     (if n = 2 then Some Float16 else if n = 4 then Some Float32
      else if n = 8 then Some Float64 else None)"
| "dtype_of_char TC_Complex n =
     (if n = 8 then Some Complex64 else if n = 16 then Some Complex128 else None)"
| "dtype_of_char _ n = None"

definition dtype_from_type_str :: "type_str \<Rightarrow> aex_error + dtype" where
  "dtype_from_type_str ts =
     (case ts_num_bytes ts of
        None \<Rightarrow> Err UnsupportedDType
      | Some n \<Rightarrow>
          if n > 1 \<and> ts_endianness ts = Endian_Big then Err UnsupportedDType
          else ok_or (dtype_of_char (ts_type_char ts) n) UnsupportedDType)"

definition dtype_from_descr :: "(string \<Rightarrow> type_str option) \<Rightarrow> string \<Rightarrow> aex_error + dtype" where
  "dtype_from_descr parse s =
     (case parse s of None \<Rightarrow> Err UnsupportedDType | Some ts \<Rightarrow> dtype_from_type_str ts)"

section \<open>Facts\<close>

lemma itemsize_pos [simp]: "0 < itemsize d" "itemsize d \<noteq> 0"
  by (cases d; simp)+

lemma itemsize_le: "itemsize d \<le> 16"
  by (cases d) simp_all

lemma itemsize_cases: "itemsize d \<in> {1, 2, 4, 8, 16}"
  by (cases d) simp_all

lemma dtype_from_as_i32 [simp]: "dtype_from_i32 (as_i32 d) = Ok d"
  by (cases d) (simp_all add: dtype_from_i32_def ALL_DTYPES_def)

lemma dtype_from_i32_Ok: "dtype_from_i32 v = Ok d \<longleftrightarrow> v = as_i32 d"
proof
  assume "dtype_from_i32 v = Ok d"
  then show "v = as_i32 d" by (auto simp: dtype_from_i32_def find_Some_iff)
qed simp

lemma dtype_from_i32_Err: "dtype_from_i32 v = Err e \<longleftrightarrow> e = UnsupportedDType \<and> v \<notin> {0..13}"
proof -
  have "find (\<lambda>d. as_i32 d = v) ALL_DTYPES = None \<longleftrightarrow> v \<notin> {0..13}"
    by (auto simp: find_None_iff ALL_DTYPES_def) presburger
  then show ?thesis
    by (cases "find (\<lambda>d. as_i32 d = v) ALL_DTYPES") (auto simp: dtype_from_i32_def)
qed

lemma as_i32_range: "0 \<le> as_i32 d" "as_i32 d < 14"
  by (cases d; simp)+

lemma dtype_of_char_size: "dtype_of_char c n = Some d \<Longrightarrow> itemsize d = n"
  by (cases c) (auto split: if_splits)

lemma dtype_from_type_str_size:
  "dtype_from_type_str ts = Ok d \<Longrightarrow> ts_num_bytes ts = Some (itemsize d)"
  by (auto simp: dtype_from_type_str_def dest: dtype_of_char_size split: option.splits if_splits)

end
