(* ===== verification/Quality.thy ===== *)
theory Quality
  imports Dtype
begin

unbundle bit_operations_syntax

text \<open>
  Encodings, codecs and the negotiation of a transfer's quality
  (\<open>aex-core/src/quality.rs\<close>, the conversions of \<open>aex-proto/src/convert.rs\<close>).
  A build is described by its Cargo features. An \<open>f64\<close> is its IEEE bit pattern: the code only
  asks whether a bound is finite and positive.
\<close>

record build =
  feat_sz :: bool
  feat_zfp :: bool

type_synonym f64 = "64 word"

definition f64_exponent :: "f64 \<Rightarrow> u64" where "f64_exponent x = drop_bit 52 x AND 0x7FF"
definition f64_fraction :: "f64 \<Rightarrow> u64" where "f64_fraction x = x AND 0xFFFFFFFFFFFFF"
definition f64_sign :: "f64 \<Rightarrow> bool" where "f64_sign x = bit x 63"

definition f64_is_finite :: "f64 \<Rightarrow> bool" where
  "f64_is_finite x \<longleftrightarrow> f64_exponent x \<noteq> 0x7FF"
definition f64_is_nan :: "f64 \<Rightarrow> bool" where
  "f64_is_nan x \<longleftrightarrow> f64_exponent x = 0x7FF \<and> f64_fraction x \<noteq> 0"
definition f64_is_zero :: "f64 \<Rightarrow> bool" where
  "f64_is_zero x \<longleftrightarrow> f64_exponent x = 0 \<and> f64_fraction x = 0"
definition f64_gt_zero :: "f64 \<Rightarrow> bool" where
  "f64_gt_zero x \<longleftrightarrow> \<not> f64_is_nan x \<and> \<not> f64_is_zero x \<and> \<not> f64_sign x"
definition f64_lt_zero :: "f64 \<Rightarrow> bool" where
  "f64_lt_zero x \<longleftrightarrow> \<not> f64_is_nan x \<and> \<not> f64_is_zero x \<and> f64_sign x"

section \<open>Encodings and codecs\<close>

datatype encoding = Exact | DtypeCast | ErrorBound

fun encoding_as_u8 :: "encoding \<Rightarrow> u8" where
  "encoding_as_u8 Exact = 0" | "encoding_as_u8 DtypeCast = 1" | "encoding_as_u8 ErrorBound = 2"

definition encoding_from_u8 :: "u8 \<Rightarrow> encoding option" where
  "encoding_from_u8 v =
     (if v = 0 then Some Exact else if v = 1 then Some DtypeCast
      else if v = 2 then Some ErrorBound else None)"

fun encoding_as_i32 :: "encoding \<Rightarrow> int" where
  "encoding_as_i32 e = uint (encoding_as_u8 e)"

definition encoding_from_i32 :: "int \<Rightarrow> encoding option" where
  "encoding_from_i32 v = (if v < 0 \<or> v > 255 then None else encoding_from_u8 (word_of_int v))"

fun encoding_supported :: "build \<Rightarrow> encoding \<Rightarrow> bool" where
  "encoding_supported b Exact = True"
| "encoding_supported b ErrorBound = (feat_sz b \<or> feat_zfp b)"
| "encoding_supported b DtypeCast = True"

definition ALL_ENCODINGS :: "encoding list" where
  "ALL_ENCODINGS = [Exact, DtypeCast, ErrorBound]"

datatype codec = Raw | Sz | Zfp | Gzip

fun codec_as_u8 :: "codec \<Rightarrow> u8" where
  "codec_as_u8 Raw = 0" | "codec_as_u8 Sz = 1" | "codec_as_u8 Zfp = 2" | "codec_as_u8 Gzip = 3"

fun codec_as_u32 :: "codec \<Rightarrow> u32" where
  "codec_as_u32 c = ucast (codec_as_u8 c)"

definition codec_from_u8 :: "u8 \<Rightarrow> codec option" where
  "codec_from_u8 v =
     (if v = 0 then Some Raw else if v = 1 then Some Sz
      else if v = 2 then Some Zfp else if v = 3 then Some Gzip else None)"

definition codec_from_u32 :: "u32 \<Rightarrow> codec option" where
  "codec_from_u32 v = (if v > 255 then None else codec_from_u8 (ucast v))"

fun is_error_bounded :: "codec \<Rightarrow> bool" where
  "is_error_bounded Sz = True" | "is_error_bounded Zfp = True" | "is_error_bounded _ = False"

fun codec_supported :: "build \<Rightarrow> codec \<Rightarrow> bool" where
  "codec_supported b Raw = True" | "codec_supported b Gzip = True"
| "codec_supported b Sz = feat_sz b" | "codec_supported b Zfp = feat_zfp b"

definition ALL_CODECS :: "codec list" where "ALL_CODECS = [Raw, Sz, Zfp, Gzip]"

definition DEFAULT_LOSSY :: "build \<Rightarrow> codec" where
  "DEFAULT_LOSSY b = (if feat_sz b then Sz else Zfp)"

definition supported_codecs :: "build \<Rightarrow> u32" where
  "supported_codecs b =
     foldl (\<lambda>mask c. mask OR push_bit (unat (codec_as_u32 c)) 1) 0
       (filter (codec_supported b) ALL_CODECS)"

definition supported_encodings :: "build \<Rightarrow> u32" where
  "supported_encodings b =
     foldl (\<lambda>mask e. mask OR push_bit (unat (encoding_as_u8 e)) 1) 0
       (filter (encoding_supported b) ALL_ENCODINGS)"

section \<open>Quality specifications\<close>

record quality_spec =
  q_encoding :: encoding
  q_cast_dtype :: "dtype option"
  q_abs_error_bound :: "f64 option"
  q_rel_error_bound :: "f64 option"
  q_codec :: "codec option"

definition exact :: quality_spec where
  "exact = \<lparr>q_encoding = Exact, q_cast_dtype = None, q_abs_error_bound = None,
            q_rel_error_bound = None, q_codec = None\<rparr>"

definition is_exact :: "quality_spec \<Rightarrow> bool" where
  "is_exact q \<longleftrightarrow> q_encoding q = Exact"

definition filter_opt :: "('a \<Rightarrow> bool) \<Rightarrow> 'a option \<Rightarrow> 'a option" where
  "filter_opt p x = (case x of None \<Rightarrow> None | Some y \<Rightarrow> if p y then Some y else None)"

definition unwrap_or :: "'a option \<Rightarrow> 'a \<Rightarrow> 'a" where
  "unwrap_or x d = (case x of None \<Rightarrow> d | Some y \<Rightarrow> y)"

definition codec_of :: "build \<Rightarrow> quality_spec \<Rightarrow> codec" where
  "codec_of b q =
     (case q_encoding q of
        ErrorBound \<Rightarrow> unwrap_or (filter_opt is_error_bounded (q_codec q)) (DEFAULT_LOSSY b)
      | _ \<Rightarrow> unwrap_or
              (filter_opt (\<lambda>c. \<not> is_error_bounded c \<and> codec_supported b c) (q_codec q)) Raw)"

definition can_apply :: "build \<Rightarrow> quality_spec \<Rightarrow> dtype \<Rightarrow> bool" where
  "can_apply b q d =
     (case q_encoding q of
        Exact \<Rightarrow> True
      | ErrorBound \<Rightarrow>
          codec_supported b (codec_of b q)
          \<and> (d = Float32 \<or> d = Float64)
          \<and> q_rel_error_bound q = None
          \<and> (case q_abs_error_bound q of
               None \<Rightarrow> False
             | Some bound \<Rightarrow> f64_is_finite bound \<and> f64_gt_zero bound)
      | DtypeCast \<Rightarrow>
          d = Float64 \<and> q_cast_dtype q = Some Float32
          \<or> d = Float32 \<and> q_cast_dtype q = Some Float16)"

definition applied :: "build \<Rightarrow> quality_spec \<Rightarrow> dtype \<Rightarrow> quality_spec" where
  "applied b q d = (if can_apply b q d then q else exact)"

definition wire_dtype :: "build \<Rightarrow> quality_spec \<Rightarrow> dtype \<Rightarrow> dtype" where
  "wire_dtype b q d =
     (case q_encoding q of
        DtypeCast \<Rightarrow> if can_apply b q d then unwrap_or (q_cast_dtype q) d else d
      | _ \<Rightarrow> d)"

definition eps :: "quality_spec \<Rightarrow> f64 option" where
  "eps q = (if q_encoding q = ErrorBound then q_abs_error_bound q else None)"

section \<open>The control plane's form of a quality\<close>

record proto_quality =
  pq_encoding :: int
  pq_cast_dtype :: "int option"
  pq_abs_error_bound :: "f64 option"
  pq_rel_error_bound :: "f64 option"

definition quality_to_proto :: "quality_spec \<Rightarrow> proto_quality" where
  "quality_to_proto q =
     \<lparr>pq_encoding = encoding_as_i32 (q_encoding q),
      pq_cast_dtype = map_option as_i32 (q_cast_dtype q),
      pq_abs_error_bound = q_abs_error_bound q,
      pq_rel_error_bound = q_rel_error_bound q\<rparr>"

definition quality_from_proto :: "proto_quality option \<Rightarrow> quality_spec" where
  "quality_from_proto pq =
     (case pq of
        None \<Rightarrow> exact
      | Some p \<Rightarrow>
          (case encoding_from_i32 (pq_encoding p) of
             None \<Rightarrow> exact
           | Some e \<Rightarrow>
               \<lparr>q_encoding = e,
                q_cast_dtype =
                  Option.bind (pq_cast_dtype p)
                    (\<lambda>d. case dtype_from_i32 d of Ok t \<Rightarrow> Some t | Err _ \<Rightarrow> None),
                q_abs_error_bound = pq_abs_error_bound p,
                q_rel_error_bound = pq_rel_error_bound p,
                q_codec = None\<rparr>))"

section \<open>Facts\<close>

lemma encoding_from_as_u8 [simp]: "encoding_from_u8 (encoding_as_u8 e) = Some e"
  by (cases e) (simp_all add: encoding_from_u8_def)

lemma codec_from_as_u8 [simp]: "codec_from_u8 (codec_as_u8 c) = Some c"
  by (cases c) (simp_all add: codec_from_u8_def)

lemma encoding_from_as_i32 [simp]: "encoding_from_i32 (encoding_as_i32 e) = Some e"
  by (cases e) (simp_all add: encoding_from_i32_def encoding_from_u8_def)

lemma codec_from_as_u32 [simp]: "codec_from_u32 (codec_as_u32 c) = Some c"
  by (cases c) (simp_all add: codec_from_u32_def codec_from_u8_def)

lemma encoding_from_u8_Some: "encoding_from_u8 v = Some e \<Longrightarrow> v = encoding_as_u8 e"
  by (auto simp: encoding_from_u8_def split: if_splits)

lemma codec_from_u8_Some: "codec_from_u8 v = Some c \<Longrightarrow> v = codec_as_u8 c"
  by (auto simp: codec_from_u8_def split: if_splits)

lemma unwrap_or_simps [simp]: "unwrap_or None d = d" "unwrap_or (Some x) d = x"
  by (simp_all add: unwrap_or_def)

lemma filter_opt_simps [simp]:
  "filter_opt p None = None" "filter_opt p (Some x) = (if p x then Some x else None)"
  by (simp_all add: filter_opt_def)

lemma exact_fields [simp]:
  "q_encoding exact = Exact" "q_codec exact = None" "q_abs_error_bound exact = None"
  by (simp_all add: exact_def)

lemma can_apply_exact [simp]: "can_apply b exact d"
  by (simp add: can_apply_def)

lemma can_apply_applied: "can_apply b (applied b q d) d"
  by (simp add: applied_def)

lemma wire_dtype_exact [simp]: "wire_dtype b exact d = d"
  by (simp add: wire_dtype_def)

lemma wire_dtype_cases:
  "wire_dtype b q d = d \<or> d = Float64 \<and> wire_dtype b q d = Float32
   \<or> d = Float32 \<and> wire_dtype b q d = Float16"
  by (auto simp: wire_dtype_def can_apply_def split: encoding.splits)

lemma codec_of_lossy: "is_error_bounded (codec_of b q) \<longleftrightarrow> q_encoding q = ErrorBound"
  by (cases "q_codec q") (auto simp: codec_of_def DEFAULT_LOSSY_def split: encoding.splits)

lemma codec_of_applied_supported: "codec_supported b (codec_of b (applied b q d))"
proof (cases "q_encoding (applied b q d) = ErrorBound")
  case True
  then show ?thesis
    using can_apply_applied [of b q d] by (simp add: can_apply_def)
next
  case False
  then show ?thesis
    by (cases "q_codec (applied b q d)") (auto simp: codec_of_def split: encoding.splits)
qed

end
