(* ===== verification/Selection.thy ===== *)
theory Selection
  imports Quality
begin

text \<open>
  Normalising a selection against a shape (\<open>aex-core/src/selection.rs\<close>, \<open>resolve\<close> and the
  functions under it). The entries of the source's \<open>entries\<close> vector, the axes, the advanced group
  and the output shape are those of the code. \<open>unreachable!\<close> and an index out of a vector panic
  in Rust; here they are HOL's unspecified values, of which nothing can be proved, and the lemmas
  on \<open>resolve\<close> show that no selection reaches them.
\<close>

section \<open>Data\<close>

datatype index =
  Single int
| Slice "int option" "int option" "int option"
| Fancy "int list"
| Ellipsis
| NewAxis

definition index_full :: index where "index_full = Slice None None None"

definition index_range :: "int \<Rightarrow> int \<Rightarrow> index" where
  "index_range start stop = Slice (Some start) (Some stop) None"

fun consumes_axis :: "index \<Rightarrow> bool" where
  "consumes_axis Ellipsis = False"
| "consumes_axis NewAxis = False"
| "consumes_axis _ = True"

datatype axis_sel =
  Point nat
| Range nat nat int
| Listed "nat list"

definition whole :: "nat \<Rightarrow> axis_sel" where "whole dim = Range 0 dim 1"

fun sel_len :: "axis_sel \<Rightarrow> nat" where
  "sel_len (Point _) = 1"
| "sel_len (Range _ len _) = len"
| "sel_len (Listed indices) = length indices"

fun out_len :: "axis_sel \<Rightarrow> nat option" where
  "out_len (Point _) = None"
| "out_len other = Some (sel_len other)"

definition follows :: "nat \<Rightarrow> nat \<times> nat \<Rightarrow> bool" where
  "follows f p = (case p of (i, x) \<Rightarrow> cadd f (i + 1) = Some x)"

fun as_run :: "axis_sel \<Rightarrow> (nat \<times> nat) option" where
  "as_run (Point i) = Some (i, 1)"
| "as_run (Range start len step) =
     (if len = 0 then Some (0, 0)
      else if len = 1 then Some (start, 1)
      else if step = 1 then Some (start, len)
      else None)"
| "as_run (Listed []) = Some (0, 0)"
| "as_run (Listed (f # rest)) =
     (if list_all (follows f) (enumerate 0 rest) then Some (f, length (f # rest)) else None)"

record advanced =
  adv_axes :: "nat list"
  adv_len :: nat
  adv_adjacent :: bool

record resolved =
  rs_axes :: "axis_sel list"
  rs_out_shape :: "nat list"
  rs_advanced :: "advanced option"

text \<open>\<open>iter().product()\<close> multiplies as a release build does.\<close>

definition wprod :: "nat list \<Rightarrow> nat" where "wprod xs = foldl wmul 1 xs"

definition num_elements :: "resolved \<Rightarrow> nat" where
  "num_elements r = wprod (rs_out_shape r)"

datatype entry = Axis axis_sel bool | New

section \<open>One axis\<close>

definition normalize_index :: "int \<Rightarrow> int \<Rightarrow> aex_error + nat" where
  "normalize_index i dim =
     (let folded = (if i < 0 then i64_sat_add i dim else i) in
      if folded < 0 \<or> folded \<ge> dim then Err BadSelection else Ok (u64_of_i64 folded))"

definition clamp_bound :: "int \<Rightarrow> int \<Rightarrow> int \<Rightarrow> int \<Rightarrow> int" where
  "clamp_bound dim lower upper bound =
     (let folded = (if bound < 0 then i64_sat_add bound dim else bound) in
      max lower (min upper folded))"

definition slice_step :: "int option \<Rightarrow> int" where "slice_step step = unwrap_or step 1"

definition slice_start :: "int option \<Rightarrow> int \<Rightarrow> int \<Rightarrow> int" where
  "slice_start start step dim =
     (let lower = (if step > 0 then 0 else -1); upper = (if step > 0 then dim else dim - 1) in
      case start of
        Some bound \<Rightarrow> clamp_bound dim lower upper bound
      | None \<Rightarrow> if step > 0 then 0 else dim - 1)"

definition slice_stop :: "int option \<Rightarrow> int \<Rightarrow> int \<Rightarrow> int" where
  "slice_stop stop step dim =
     (let lower = (if step > 0 then 0 else -1); upper = (if step > 0 then dim else dim - 1) in
      case stop of
        Some bound \<Rightarrow> clamp_bound dim lower upper bound
      | None \<Rightarrow> if step > 0 then dim else -1)"

definition slice_count :: "int \<Rightarrow> int \<Rightarrow> int \<Rightarrow> int" where
  "slice_count start stop step =
     (let distance = (if step > 0 then stop - start else start - stop) in
      if distance > 0 then 1 + (distance - 1) div \<bar>step\<bar> else 0)"

definition resolve_slice ::
    "int option \<Rightarrow> int option \<Rightarrow> int option \<Rightarrow> int \<Rightarrow> aex_error + axis_sel" where
  "resolve_slice start stop step dim =
     (let step = slice_step step in
      if step = 0 then Err BadSelection
      else
        let start = slice_start start step dim;
            stop = slice_stop stop step dim;
            len = slice_count start stop step in
        if len = 0 then Ok (Range 0 0 step)
        else Ok (Range (u64_of_i64 start) (nat (len mod 2 ^ 64)) step))"

definition resolve_axis :: "index \<Rightarrow> nat \<Rightarrow> aex_error + axis_sel" where
  "resolve_axis ix dim =
     (case i64_of_u64 dim of
        None \<Rightarrow> Err BadSelection
      | Some dim_i64 \<Rightarrow>
          (case ix of
             Single i \<Rightarrow> res_map Point (normalize_index i dim_i64)
           | Fancy list \<Rightarrow> res_map Listed (res_traverse (\<lambda>i. normalize_index i dim_i64) list)
           | Slice start stop step \<Rightarrow> resolve_slice start stop step dim_i64
           | _ \<Rightarrow> undefined))"

section \<open>The whole selection\<close>

text \<open>The first pass of \<open>expand\<close>: \<open>(consuming, has_ellipsis, has_array)\<close>.\<close>

fun scan_indices :: "index list \<Rightarrow> nat \<times> bool \<times> bool \<Rightarrow> aex_error + (nat \<times> bool \<times> bool)" where
  "scan_indices [] s = Ok s"
| "scan_indices (Ellipsis # rest) (consuming, has_ellipsis, has_array) =
     (if has_ellipsis then Err BadSelection
      else scan_indices rest (consuming, True, has_array))"
| "scan_indices (other # rest) (consuming, has_ellipsis, has_array) =
     scan_indices rest
       (if consumes_axis other then consuming + 1 else consuming, has_ellipsis,
        (case other of Fancy _ \<Rightarrow> True | _ \<Rightarrow> has_array))"

definition wholes :: "nat list \<Rightarrow> nat \<Rightarrow> nat \<Rightarrow> entry list" where
  "wholes shape axis implied =
     map (\<lambda>a. Axis (whole (shape ! a)) False) [axis..<axis + implied]"

definition joins_group :: "bool \<Rightarrow> index \<Rightarrow> bool" where
  "joins_group has_array ix \<longleftrightarrow>
     has_array \<and> (case ix of Single _ \<Rightarrow> True | Fancy _ \<Rightarrow> True | _ \<Rightarrow> False)"

text \<open>The second pass; the second component is the axis reached.\<close>

fun expand_loop ::
    "nat list \<Rightarrow> bool \<Rightarrow> nat \<Rightarrow> index list \<Rightarrow> nat \<Rightarrow> aex_error + (entry list \<times> nat)" where
  "expand_loop shape has_array implied [] axis = Ok ([], axis)"
| "expand_loop shape has_array implied (ix # rest) axis =
     (case ix of
        NewAxis \<Rightarrow>
          res_map (\<lambda>(es, a). (New # es, a)) (expand_loop shape has_array implied rest axis)
      | Ellipsis \<Rightarrow>
          res_map (\<lambda>(es, a). (wholes shape axis implied @ es, a))
            (expand_loop shape has_array implied rest (axis + implied))
      | other \<Rightarrow>
          res_bind (resolve_axis other (shape ! axis)) (\<lambda>sel.
            res_map (\<lambda>(es, a). (Axis sel (joins_group has_array other) # es, a))
              (expand_loop shape has_array implied rest (axis + 1))))"

definition expand :: "nat list \<Rightarrow> index list \<Rightarrow> aex_error + entry list" where
  "expand shape indices =
     res_bind (scan_indices indices (0, False, False)) (\<lambda>(consuming, has_ellipsis, has_array).
       let ndim = length shape in
       if consuming > ndim then Err BadSelection
       else
         let implied = ndim - consuming in
         res_map (\<lambda>(es, axis). if has_ellipsis then es else es @ wholes shape axis implied)
           (expand_loop shape has_array implied indices 0))"

definition broadcast_step :: "aex_error + nat \<Rightarrow> nat \<Rightarrow> aex_error + nat" where
  "broadcast_step acc len =
     res_bind acc (\<lambda>result.
       if len = 1 then Ok result
       else if result \<noteq> 1 \<and> result \<noteq> len then Err BadSelection
       else Ok len)"

definition broadcast_len :: "nat list \<Rightarrow> aex_error + nat" where
  "broadcast_len lengths = foldl broadcast_step (Ok 1) lengths"

text \<open>The loop of \<open>resolve\<close> over the entries: axes, group, positions, lengths.\<close>

fun collect ::
    "nat \<Rightarrow> nat \<Rightarrow> entry list \<Rightarrow> axis_sel list \<times> nat list \<times> nat list \<times> nat list" where
  "collect pos ax [] = ([], [], [], [])"
| "collect pos ax (New # es) = collect (Suc pos) ax es"
| "collect pos ax (Axis sel adv # es) =
     (let (axes, group, positions, lengths) = collect (Suc pos) (Suc ax) es in
      if adv
      then (sel # axes, ax # group, pos # positions,
            (case sel of Listed list \<Rightarrow> length list # lengths | _ \<Rightarrow> lengths))
      else (sel # axes, group, positions, lengths))"

fun consecutive :: "nat list \<Rightarrow> bool" where
  "consecutive (a # b # rest) = (b = a + 1 \<and> consecutive (b # rest))"
| "consecutive _ = True"

text \<open>The loop of \<open>out_shape\<close>, \<open>adv\<close> being the group's length when it is adjacent.\<close>

fun out_dims :: "nat \<Rightarrow> entry list \<Rightarrow> nat option \<Rightarrow> nat option \<Rightarrow> nat list" where
  "out_dims pos [] adv first_pos = []"
| "out_dims pos (New # es) adv first_pos = 1 # out_dims (Suc pos) es adv first_pos"
| "out_dims pos (Axis sel True # es) adv first_pos =
     (case adv of
        Some len \<Rightarrow> (if Some pos = first_pos then len # out_dims (Suc pos) es adv first_pos
                     else out_dims (Suc pos) es adv first_pos)
      | None \<Rightarrow> out_dims (Suc pos) es adv first_pos)"
| "out_dims pos (Axis sel False # es) adv first_pos =
     (case out_len sel of
        Some len \<Rightarrow> len # out_dims (Suc pos) es adv first_pos
      | None \<Rightarrow> out_dims (Suc pos) es adv first_pos)"

definition out_shape :: "entry list \<Rightarrow> advanced option \<Rightarrow> nat option \<Rightarrow> nat list" where
  "out_shape entries adv first_pos =
     (case adv of
        None \<Rightarrow> out_dims 0 entries None first_pos
      | Some a \<Rightarrow>
          if adv_adjacent a then out_dims 0 entries (Some (adv_len a)) first_pos
          else adv_len a # out_dims 0 entries None first_pos)"

definition first_of :: "'a list \<Rightarrow> 'a option" where
  "first_of xs = (case xs of [] \<Rightarrow> None | x # _ \<Rightarrow> Some x)"

definition resolve :: "nat list \<Rightarrow> index list \<Rightarrow> aex_error + resolved" where
  "resolve shape indices =
     res_bind (expand shape indices) (\<lambda>entries.
       let (axes, group, positions, lengths) = collect 0 0 entries in
       res_map
         (\<lambda>adv. \<lparr>rs_axes = axes, rs_out_shape = out_shape entries adv (first_of positions),
                 rs_advanced = adv\<rparr>)
         (if group = [] then Ok None
          else res_map (\<lambda>len. Some \<lparr>adv_axes = group, adv_len = len,
                                  adv_adjacent = consecutive positions\<rparr>)
                 (broadcast_len lengths)))"

section \<open>Whether a selection is one run\<close>

definition walks_independently :: "resolved \<Rightarrow> bool" where
  "walks_independently r =
     (case rs_advanced r of
        None \<Rightarrow> True
      | Some a \<Rightarrow>
          adv_adjacent a
          \<and> length (filter (\<lambda>axis. sel_len (rs_axes r ! axis) > 1) (adv_axes a)) \<le> 1)"

definition U128 :: nat where "U128 = 2 ^ 128"

fun traverse_opt :: "('a \<Rightarrow> 'b option) \<Rightarrow> 'a list \<Rightarrow> 'b list option" where
  "traverse_opt f [] = Some []"
| "traverse_opt f (x # xs) =
     (case f x of None \<Rightarrow> None | Some y \<Rightarrow> map_option (Cons y) (traverse_opt f xs))"

text \<open>Past the first axis that takes more than one, every axis takes all of its own.\<close>

fun rest_whole :: "nat list \<Rightarrow> (nat \<times> nat) list \<Rightarrow> bool" where
  "rest_whole (d # shape) ((start, len) # runs) = (start = 0 \<and> len = d \<and> rest_whole shape runs)"
| "rest_whole _ _ = True"

fun no_gaps :: "nat list \<Rightarrow> (nat \<times> nat) list \<Rightarrow> bool" where
  "no_gaps (d # shape) ((start, len) # runs) =
     (if len > 1 then rest_whole shape runs else no_gaps shape runs)"
| "no_gaps _ _ = True"

definition u64_of_u128 :: "nat \<Rightarrow> nat option" where
  "u64_of_u128 n = (if n < U64 then Some n else None)"

definition run_offset :: "nat list \<Rightarrow> (nat \<times> nat) list \<Rightarrow> nat" where
  "run_offset shape runs =
     foldl (\<lambda>offset (d, (start, _)). (offset * d + start) mod U128) 0 (zip shape runs)"

definition run_len :: "(nat \<times> nat) list \<Rightarrow> nat" where
  "run_len runs = foldl (\<lambda>len (_, l). (len * l) mod U128) 1 runs"

definition contiguous_run :: "nat list \<Rightarrow> axis_sel list \<Rightarrow> (nat \<times> nat) option" where
  "contiguous_run shape axes =
     Option.bind (traverse_opt as_run axes) (\<lambda>runs.
       if \<exists>r \<in> set runs. snd r = 0 then Some (0, 0)
       else if \<not> no_gaps shape runs then None
       else Option.bind (u64_of_u128 (run_offset shape runs)) (\<lambda>offset.
              Option.bind (u64_of_u128 (run_len runs)) (\<lambda>len. Some (offset, len))))"

end
