(* ===== verification/Gather.thy ===== *)
theory Gather
  imports Selection
begin

text \<open>
  Reading a selection that is not one run of bytes (\<open>Gathered\<close>, \<open>Stretch\<close>, \<open>Span\<close> and the
  functions around them in \<open>aex-core/src/selection.rs\<close>). \<open>for_each_stretch\<close> calls a closure once
  per stretch, in order, and stops at its first error; the model returns the list of the calls, and
  the reader folds its state over it. The outer loop takes fuel; \<open>stretch_rows_enough\<close> shows that
  as many rounds as there are elements are enough.
\<close>

definition SPAN_GAP_BYTES :: nat where "SPAN_GAP_BYTES = 4096"
definition SPAN_MAX_BYTES :: nat where "SPAN_MAX_BYTES = 2 ^ 20"

section \<open>The walk over the output dimensions\<close>

datatype dim = Stride nat int | Offsets "nat list"

record gathered =
  g_base :: nat
  g_dims :: "dim list"

fun dim_len :: "dim \<Rightarrow> nat" where
  "dim_len (Stride len _) = len"
| "dim_len (Offsets offsets) = length offsets"

fun dim_term :: "dim \<Rightarrow> nat \<Rightarrow> nat" where
  "dim_term (Stride _ step) k = wmul k (u64_of_i64 step)"
| "dim_term (Offsets offsets) k = offsets ! k"

record stretch =
  st_src :: nat
  st_step :: int
  st_count :: nat

text \<open>\<open>prefix[i + 1]\<close> is the source element with the dimensions past \<open>i\<close> at 0.\<close>

fun prefix_from :: "nat \<Rightarrow> dim list \<Rightarrow> nat list \<Rightarrow> nat list" where
  "prefix_from acc [] ks = [acc]"
| "prefix_from acc (d # ds) [] = [acc]"
| "prefix_from acc (d # ds) (k # ks) = acc # prefix_from (wadd acc (dim_term d k)) ds ks"

definition refresh :: "dim list \<Rightarrow> nat list \<Rightarrow> nat list \<Rightarrow> nat \<Rightarrow> nat list" where
  "refresh dims prefix index from =
     take from prefix @ prefix_from (prefix ! from) (drop from dims) (drop from index)"

fun odometer :: "nat list \<Rightarrow> nat list \<Rightarrow> nat \<Rightarrow> nat list \<times> nat" where
  "odometer lens index 0 = (index, 0)"
| "odometer lens index (Suc i) =
     (let index = index[i := index ! i + 1] in
      if index ! i < lens ! i then (index, i)
      else odometer lens (index[i := 0]) i)"

definition stretch_stride :: "dim \<Rightarrow> nat \<Rightarrow> nat" where
  "stretch_stride inner isz =
     (case inner of Stride _ step \<Rightarrow> wmul (nat \<bar>step\<bar>) isz | Offsets _ \<Rightarrow> U64 - 1)"

definition per_stretch :: "dim \<Rightarrow> nat \<Rightarrow> nat \<Rightarrow> nat" where
  "per_stretch inner isz take_n =
     (if (case inner of Stride _ step \<Rightarrow> step = 1 | Offsets _ \<Rightarrow> False) then take_n
      else if stretch_stride inner isz \<le> SPAN_GAP_BYTES
        then max 1 (SPAN_MAX_BYTES div stretch_stride inner isz)
      else 1)"

lemma per_stretch_pos: "0 < take_n \<Longrightarrow> 0 < per_stretch inner isz take_n"
  by (simp add: per_stretch_def less_max_iff_disj)

text \<open>The pieces of one row: \<open>take_n\<close> elements from index \<open>k\<close> of the innermost dimension.\<close>

function row_pieces :: "dim \<Rightarrow> nat \<Rightarrow> nat \<Rightarrow> nat \<Rightarrow> nat \<Rightarrow> nat \<Rightarrow> stretch list" where
  "row_pieces inner row k isz take_n i =
     (if i < take_n then
        let n = min (per_stretch inner isz take_n) (take_n - i) in
        \<lparr>st_src = wadd row (dim_term inner (k + i)),
         st_step = (case inner of Stride _ step \<Rightarrow> step | Offsets _ \<Rightarrow> 1),
         st_count = n\<rparr>
        # row_pieces inner row k isz take_n (i + n)
      else [])"
  by pat_completeness auto
termination
proof (relation "measure (\<lambda>(inner, row, k, isz, take_n, i). take_n - i)", goal_cases)
  case (2 inner row k isz take_n i n)
  then have "0 < n" using per_stretch_pos [of take_n inner isz] by auto
  with 2 show ?case by simp
qed simp

declare row_pieces.simps [simp del]

text \<open>
  One round of the walk, per row of the innermost dimension: the row's pieces, how many elements
  they hold, and the index and prefix past the row.
\<close>

definition row_step ::
    "dim list \<Rightarrow> nat \<Rightarrow> nat list \<Rightarrow> nat list \<Rightarrow> nat \<Rightarrow> nat
     \<Rightarrow> stretch list \<times> nat \<times> nat list \<times> nat list" where
  "row_step dims isz index prefix done count =
     (let ndim = length dims;
          inner = last dims;
          k = index ! (ndim - 1);
          take_n = min (dim_len inner - k) (count - done);
          pieces = row_pieces inner (prefix ! (ndim - 1)) k isz take_n 0;
          advanced = odometer (map dim_len dims) (index[ndim - 1 := 0]) (ndim - 1)
      in (pieces, take_n, fst advanced, refresh dims prefix (fst advanced) (snd advanced)))"

primrec stretch_rows ::
    "nat \<Rightarrow> dim list \<Rightarrow> nat \<Rightarrow> nat list \<Rightarrow> nat list \<Rightarrow> nat \<Rightarrow> nat \<Rightarrow> stretch list option" where
  "stretch_rows 0 dims isz index prefix done count =
     (if done < count then None else Some [])"
| "stretch_rows (Suc fuel) dims isz index prefix done count =
     (if done < count then
        (case row_step dims isz index prefix done count of
           (pieces, take_n, index', prefix') \<Rightarrow>
             map_option ((@) pieces)
               (stretch_rows fuel dims isz index' prefix' (done + take_n) count))
      else Some [])"

definition normalize_stretch :: "stretch \<Rightarrow> stretch" where
  "normalize_stretch s = (if st_count s = 1 then s\<lparr>st_step := 1\<rparr> else s)"

definition absorbs :: "stretch \<Rightarrow> stretch \<Rightarrow> bool" where
  "absorbs p s \<longleftrightarrow>
     st_step p = 1 \<and> st_step s = 1 \<and> wadd (st_src p) (st_count p) = st_src s"

text \<open>\<open>hold\<close>: the stretch held back after \<open>s\<close>, and the one handed over, if any.\<close>

definition hold :: "stretch option \<Rightarrow> stretch \<Rightarrow> stretch option \<times> stretch list" where
  "hold pending s =
     (let s = normalize_stretch s in
      case pending of
        None \<Rightarrow> (Some s, [])
      | Some p \<Rightarrow>
          if absorbs p s then (Some (p\<lparr>st_count := wadd (st_count p) (st_count s)\<rparr>), [])
          else (Some s, [p]))"

fun hold_all :: "stretch option \<Rightarrow> stretch list \<Rightarrow> stretch list" where
  "hold_all pending [] = (case pending of None \<Rightarrow> [] | Some s \<Rightarrow> [s])"
| "hold_all pending (s # ss) =
     (let (pending', out) = hold pending s in out @ hold_all pending' ss)"

definition for_each_stretch :: "gathered \<Rightarrow> nat \<Rightarrow> nat \<Rightarrow> nat \<Rightarrow> stretch list option" where
  "for_each_stretch g isz first count =
     (if count = 0 then Some []
      else if g_dims g = [] then Some [\<lparr>st_src = g_base g, st_step = 1, st_count = 1\<rparr>]
      else
        let dims = g_dims g;
            index = rev (unravel_rev (rev (map dim_len dims)) first);
            prefix = refresh dims (replicate (length dims + 1) (g_base g)) index 0
        in map_option (hold_all None)
             (stretch_rows count dims isz index prefix 0 count))"

section \<open>Spans\<close>

definition extent :: "stretch \<Rightarrow> nat \<times> nat" where
  "extent s =
     (let l = wadd (st_src s) (wmul (wsub (st_count s) 1) (u64_of_i64 (st_step s))) in
      (min (st_src s) l, wadd (max (st_src s) l) 1))"

record span =
  sp_lo :: nat
  sp_hi :: nat
  sp_out_at :: nat
  sp_out_count :: nat

definition span_join :: "span \<Rightarrow> nat \<Rightarrow> nat \<Rightarrow> nat \<Rightarrow> nat \<Rightarrow> span option" where
  "span_join w lo hi count isz =
     (let gap = SPAN_GAP_BYTES div isz;
          new_lo = min (sp_lo w) lo;
          new_hi = max (sp_hi w) hi;
          near = (wadd hi gap \<ge> sp_lo w \<and> lo \<le> wadd (sp_hi w) gap)
      in if \<not> near \<or> wmul (wsub new_hi new_lo) isz > SPAN_MAX_BYTES then None
         else Some (w\<lparr>sp_lo := new_lo, sp_hi := new_hi,
                      sp_out_count := wadd (sp_out_count w) count\<rparr>))"

text \<open>\<open>read_src\<close> reads a number of bytes at a byte offset of the source.\<close>

type_synonym read_src = "nat \<Rightarrow> nat \<Rightarrow> aex_error + bytes"

definition strided :: "nat \<Rightarrow> bytes \<Rightarrow> nat \<Rightarrow> int \<Rightarrow> nat \<Rightarrow> bytes" where
  "strided n src from step count =
     concat (map (\<lambda>i. slice src (nat ((int from + int i * (step * int n)) mod 2 ^ 64)) n) [0..<count])"

definition take_strided :: "nat \<Rightarrow> bytes \<Rightarrow> nat \<Rightarrow> int \<Rightarrow> nat \<Rightarrow> bytes" where
  "take_strided n src from step isz = strided isz src from step (n div isz)"

text \<open>The bytes one stretch contributes, cut out of the span that was read.\<close>

definition cut :: "span \<Rightarrow> nat \<Rightarrow> bytes \<Rightarrow> stretch \<Rightarrow> bytes" where
  "cut w isz scratch s =
     (let n = wmul (st_count s) isz;
          from = wmul (wsub (st_src s) (sp_lo w)) isz
      in if st_step s = 1 then slice scratch from n
         else take_strided n scratch from (st_step s) isz)"

fun cut_all :: "span \<Rightarrow> nat \<Rightarrow> bytes \<Rightarrow> stretch list \<Rightarrow> nat \<Rightarrow> bytes \<Rightarrow> bytes" where
  "cut_all w isz scratch [] pos out = out"
| "cut_all w isz scratch (s # ss) pos out =
     cut_all w isz scratch ss (wadd pos (wmul (st_count s) isz))
       (write_at out pos (cut w isz scratch s))"

definition copy_span ::
    "span \<Rightarrow> nat \<Rightarrow> stretch list \<Rightarrow> bytes \<Rightarrow> read_src \<Rightarrow> aex_error + bytes" where
  "copy_span w isz stretches out read_src =
     (let at = wmul (sp_out_at w) isz;
          n = wmul (sp_out_count w) isz;
          direct = res_map (\<lambda>got. write_at out at got) (read_src (wmul (sp_lo w) isz) n);
          pieces = res_map (\<lambda>scratch. cut_all w isz scratch stretches at out)
            (read_src (wmul (sp_lo w) isz) (wmul (wsub (sp_hi w) (sp_lo w)) isz))
      in case stretches of
           [only] \<Rightarrow> if st_step only = 1 then direct else pieces
         | _ \<Rightarrow> pieces)"

text \<open>The closure's state: the open span, the stretches held for it, elements handed over, output.\<close>

record reading =
  rd_span :: "span option"
  rd_held :: "stretch list"
  rd_out_at :: nat
  rd_out :: bytes

definition read_step :: "nat \<Rightarrow> read_src \<Rightarrow> stretch \<Rightarrow> reading \<Rightarrow> aex_error + reading" where
  "read_step isz read_src s rd =
     (let (lo, hi) = extent s;
          fresh = \<lparr>sp_lo = lo, sp_hi = hi, sp_out_at = rd_out_at rd, sp_out_count = st_count s\<rparr>;
          push = (\<lambda>rd. rd\<lparr>rd_held := rd_held rd @ [s],
                           rd_out_at := wadd (rd_out_at rd) (st_count s)\<rparr>)
      in case rd_span rd of
           None \<Rightarrow> Ok (push (rd\<lparr>rd_span := Some fresh\<rparr>))
         | Some w \<Rightarrow>
             (case span_join w lo hi (st_count s) isz of
                Some w' \<Rightarrow> Ok (push (rd\<lparr>rd_span := Some w'\<rparr>))
              | None \<Rightarrow>
                  res_map (\<lambda>out. push (rd\<lparr>rd_span := Some fresh, rd_held := [], rd_out := out\<rparr>))
                    (copy_span w isz (rd_held rd) (rd_out rd) read_src)))"

fun read_stretches ::
    "nat \<Rightarrow> read_src \<Rightarrow> stretch list \<Rightarrow> reading \<Rightarrow> aex_error + reading" where
  "read_stretches isz read_src [] rd = Ok rd"
| "read_stretches isz read_src (s # ss) rd =
     res_bind (read_step isz read_src s rd) (read_stretches isz read_src ss)"

definition finish_reading :: "nat \<Rightarrow> read_src \<Rightarrow> reading \<Rightarrow> aex_error + bytes" where
  "finish_reading isz read_src rd =
     (case rd_span rd of
        None \<Rightarrow> Ok (rd_out rd)
      | Some w \<Rightarrow> copy_span w isz (rd_held rd) (rd_out rd) read_src)"

text \<open>
  \<open>Gathered::read\<close>. The result is the content of \<open>dst\<close> after the call, \<open>None\<close> a walk that ran
  out of fuel.
\<close>

definition gathered_read ::
    "gathered \<Rightarrow> nat \<Rightarrow> nat \<Rightarrow> bytes \<Rightarrow> read_src \<Rightarrow> (aex_error + bytes) option" where
  "gathered_read g isz offset dst read_src =
     (let end = wadd offset (length dst);
          first = offset div isz;
          count = wsub (div_ceil end isz) first;
          skip = wsub offset (wmul first isz);
          aligned = (skip = 0 \<and> end mod isz = 0);
          out = (if aligned then dst else replicate (wmul count isz) 0)
      in map_option
           (\<lambda>stretches.
              res_map (\<lambda>out. if aligned then out else slice out skip (length dst))
                (res_bind
                  (read_stretches isz read_src stretches
                    \<lparr>rd_span = None, rd_held = [], rd_out_at = 0, rd_out = out\<rparr>)
                  (finish_reading isz read_src)))
           (for_each_stretch g isz first count))"

end
