(* ===== verification/Gather_Walk.thy ===== *)
theory Gather_Walk
  imports Gather
begin

text \<open>
  The walk of \<open>for_each_stretch\<close> names every selected element once and in output order. Elements
  are integers here: \<open>base + \<Sum> index * step\<close> without wrap-around, of which the walk's \<open>u64\<close>
  arithmetic computes the residue.
\<close>

fun term_int :: "dim \<Rightarrow> nat \<Rightarrow> int" where
  "term_int (Stride _ step) k = int k * step"
| "term_int (Offsets offsets) k = int (offsets ! k)"

definition walk_int :: "int \<Rightarrow> dim list \<Rightarrow> nat \<Rightarrow> int" where
  "walk_int B dims n = B + sum_list (map2 term_int dims (unravel (map dim_len dims) n))"

definition stretch_ints :: "stretch \<Rightarrow> int list" where
  "stretch_ints s = map (\<lambda>j. int (st_src s) + int j * st_step s) [0..<st_count s]"

definition in_source :: "nat \<Rightarrow> int list \<Rightarrow> bool" where
  "in_source N xs \<longleftrightarrow> (\<forall>x \<in> set xs. 0 \<le> x \<and> x < int N)"

lemma in_source_simps [simp]:
  "in_source N []" "in_source N (x # xs) \<longleftrightarrow> 0 \<le> x \<and> x < int N \<and> in_source N xs"
  "in_source N (xs @ ys) \<longleftrightarrow> in_source N xs \<and> in_source N ys"
  by (auto simp: in_source_def)

lemma int_wadd: "int (wadd a b) = (int a + int b) mod int U64"
  by (simp add: wadd_def zmod_int)

lemma int_wmul: "int (wmul a b) = (int a * int b) mod int U64"
  by (simp add: wmul_def zmod_int)

lemma int_dim_term: "int (dim_term d k) mod int U64 = term_int d k mod int U64"
proof (cases d)
  case (Stride len step)
  then show ?thesis by (simp add: int_wmul int_u64_of_i64 mod_mult_right_eq)
qed simp

lemma int_wadd_term: "int (wadd a (dim_term d k)) = (int a + term_int d k) mod int U64"
  by (metis int_dim_term int_wadd mod_add_right_eq)

lemma mod_U64_exact: "0 \<le> x \<Longrightarrow> x < int U64 \<Longrightarrow> x mod int U64 = x"
  by simp

section \<open>Prefixes\<close>

lemma length_prefix_from: "length ks = length ds \<Longrightarrow> length (prefix_from acc ds ks) = Suc (length ds)"
  by (induction acc ds ks rule: prefix_from.induct) simp_all

lemma prefix_from_nth:
  "length ks = length ds \<Longrightarrow> i \<le> length ds \<Longrightarrow> acc < U64 \<Longrightarrow>
   int (prefix_from acc ds ks ! i) =
     (int acc + sum_list (map2 term_int (take i ds) (take i ks))) mod int U64"
proof (induction acc ds ks arbitrary: i rule: prefix_from.induct)
  case (3 acc d ds k ks)
  show ?case
  proof (cases i)
    case (Suc j)
    have "int (prefix_from acc (d # ds) (k # ks) ! i) =
        (int (wadd acc (dim_term d k)) + sum_list (map2 term_int (take j ds) (take j ks))) mod int U64"
      using 3 Suc by simp
    then show ?thesis by (simp add: Suc int_wadd_term mod_add_left_eq add.assoc)
  qed (use 3 in simp)
qed simp_all

lemma prefix_from_split:
  "length ks = length ds \<Longrightarrow> i \<le> length ds \<Longrightarrow>
   prefix_from acc ds ks =
     take i (prefix_from acc ds ks) @ prefix_from (prefix_from acc ds ks ! i) (drop i ds) (drop i ks)"
proof (induction acc ds ks arbitrary: i rule: prefix_from.induct)
  case (3 acc d ds k ks)
  then show ?case by (cases i) simp_all
qed simp_all

lemma prefix_from_agree:
  "length ks = length ds \<Longrightarrow> length ks' = length ds \<Longrightarrow> i \<le> length ds \<Longrightarrow> take i ks = take i ks' \<Longrightarrow>
   take (Suc i) (prefix_from acc ds ks) = take (Suc i) (prefix_from acc ds ks')"
proof (induction acc ds ks arbitrary: i ks' rule: prefix_from.induct)
  case (3 acc d ds k ks)
  obtain k' ks'' where ks': "ks' = k' # ks''" using "3.prems"(2) by (cases ks') auto
  show ?case
  proof (cases i)
    case (Suc j)
    then have k: "k' = k" and j: "take j ks = take j ks''" using "3.prems"(4) ks' by simp_all
    have "take (Suc j) (prefix_from (wadd acc (dim_term d k)) ds ks)
        = take (Suc j) (prefix_from (wadd acc (dim_term d k)) ds ks'')"
      by (rule "3.IH" [OF _ _ _ j]) (use "3.prems"(1-3) ks' Suc in simp_all)
    then show ?thesis using ks' Suc k by simp
  qed (simp add: ks')
qed simp_all

lemma refresh_prefix:
  assumes len: "length ks = length ds" "length ks' = length ds" "i \<le> length ds"
    and eq: "take i ks = take i ks'"
  shows "refresh ds (prefix_from acc ds ks) ks' i = prefix_from acc ds ks'"
proof -
  have t: "take (Suc i) (prefix_from acc ds ks) = take (Suc i) (prefix_from acc ds ks')"
    using len eq by (rule prefix_from_agree)
  then have "prefix_from acc ds ks ! i = prefix_from acc ds ks' ! i"
    by (metis lessI nth_take)
  moreover have "take i (prefix_from acc ds ks) = take i (prefix_from acc ds ks')"
    using arg_cong [OF t, of "take i"] by simp
  ultimately show ?thesis
    using prefix_from_split [OF len(2,3), of acc] by (simp add: refresh_def)
qed

section \<open>The odometer\<close>

lemma unravel_snoc: "unravel (ls @ [l]) q = unravel ls (q div l) @ [q mod l]"
proof -
  have "unravel (ls @ [l]) q = rev (unravel_rev (l # rev ls) q)"
    using unravel_loop [of "ls @ [l]" q] by simp
  then show ?thesis using unravel_loop [of ls "q div l"] by simp
qed

lemma odometer_unravel:
  assumes "\<forall>l \<in> set ls. 0 < l"
  shows "\<exists>i. odometer (ls @ ls') (unravel ls q @ xs) (length ls) = (unravel ls (Suc q) @ xs, i)
    \<and> i \<le> length ls \<and> take i (unravel ls q) = take i (unravel ls (Suc q))"
  using assms
proof (induction ls arbitrary: ls' q xs rule: rev_induct)
  case (snoc l ls)
  have l: "0 < l" using snoc.prems by simp
  show ?case
  proof (cases "Suc (q mod l) < l")
    case True
    then have m: "Suc q mod l = Suc (q mod l)" by (simp add: mod_Suc)
    then have "Suc q div l = q div l" by (simp add: div_Suc)
    note m this
    with True show ?thesis
      by (intro exI [of _ "length ls"]) (simp add: unravel_snoc nth_append list_update_append)
  next
    case False
    then have "Suc (q mod l) = l" using mod_less_divisor [OF l, of q] by linarith
    then have m: "Suc q mod l = 0" by (simp add: mod_Suc)
    then have "Suc q div l = Suc (q div l)" by (simp add: div_Suc)
    note sq = this m
    obtain i where i: "odometer (ls @ (l # ls')) (unravel ls (q div l) @ (0 # xs)) (length ls)
        = (unravel ls (Suc (q div l)) @ (0 # xs), i)" "i \<le> length ls"
      "take i (unravel ls (q div l)) = take i (unravel ls (Suc (q div l)))"
      using snoc.IH [of "l # ls'" "q div l" "0 # xs"] snoc.prems by auto
    have "odometer ((ls @ [l]) @ ls') (unravel (ls @ [l]) q @ xs) (length (ls @ [l]))
        = odometer (ls @ (l # ls')) (unravel ls (q div l) @ (0 # xs)) (length ls)"
      using False by (simp add: unravel_snoc nth_append list_update_append)
    with i sq show ?thesis
      by (intro exI [of _ i]) (simp add: unravel_snoc)
  qed
qed simp

section \<open>One row\<close>

lemma row_pieces_ints:
  assumes row: "int row = R mod int U64"
    and range: "\<forall>j \<in> {i..<take_n}. 0 \<le> R + term_int inner (k + j) \<and> R + term_int inner (k + j) < int U64"
  shows "concat (map stretch_ints (row_pieces inner row k isz take_n i)) =
      map (\<lambda>j. R + term_int inner (k + j)) [i..<take_n]
    \<and> (\<forall>s \<in> set (row_pieces inner row k isz take_n i). 0 < st_count s)"
  using range
proof (induction "take_n - i" arbitrary: i rule: less_induct)
  case less
  show ?case
  proof (cases "i < take_n")
    case False
    then show ?thesis by (simp add: row_pieces.simps [of _ _ _ _ _ i])
  next
    case True
    let ?n = "min (per_stretch inner isz take_n) (take_n - i)"
    let ?step = "case inner of Stride _ step \<Rightarrow> step | Offsets _ \<Rightarrow> 1"
    let ?src = "wadd row (dim_term inner (k + i))"
    have n: "0 < ?n" "i + ?n \<le> take_n"
      using True per_stretch_pos [of take_n inner isz] by auto
    have src: "int ?src = R + term_int inner (k + i)"
      using less.prems True
      by (simp add: int_wadd_term row mod_add_left_eq)
    have "int ?src + int j * ?step = R + term_int inner (k + (i + j))" if "j < ?n" for j
    proof (cases inner)
      case (Stride len step)
      with src show ?thesis by (simp add: algebra_simps)
    next
      case (Offsets os)
      then have "?n \<le> 1"
        by (simp add: per_stretch_def stretch_stride_def SPAN_GAP_BYTES_def U64_def)
      with that have "j = 0" by linarith
      then show ?thesis by (simp add: src)
    qed
    then have piece: "map (\<lambda>j. int ?src + int j * ?step) [0..<?n]
        = map (\<lambda>j. R + term_int inner (k + j)) [i..<i + ?n]"
      by (intro nth_equalityI) simp_all
    have "\<forall>j \<in> {i + ?n..<take_n}. 0 \<le> R + term_int inner (k + j)
        \<and> R + term_int inner (k + j) < int U64"
      using less.prems by auto
    moreover have "take_n - (i + ?n) < take_n - i" using n True by linarith
    ultimately have IH: "concat (map stretch_ints (row_pieces inner row k isz take_n (i + ?n))) =
        map (\<lambda>j. R + term_int inner (k + j)) [i + ?n..<take_n]"
      "\<forall>s \<in> set (row_pieces inner row k isz take_n (i + ?n)). 0 < st_count s"
      using less.hyps by blast+
    have split: "[i..<take_n] = [i..<i + ?n] @ [i + ?n..<take_n]"
      using n(2) upt_add_eq_append [of i "i + ?n" "take_n - (i + ?n)"] by simp
    show ?thesis
      using True n piece IH
      by (simp add: row_pieces.simps [of _ _ _ _ _ i] Let_def split stretch_ints_def)
  qed
qed


section \<open>All rows\<close>

definition walk_state :: "nat \<Rightarrow> dim list \<Rightarrow> nat \<Rightarrow> nat list \<Rightarrow> nat list \<Rightarrow> bool" where
  "walk_state base dims p index prefix \<longleftrightarrow>
     index = unravel (map dim_len dims) p \<and> prefix = prefix_from base dims index"

lemma walk_int_row:
  assumes "p mod dim_len inner + j < dim_len inner"
  shows "walk_int B (ups @ [inner]) (p + j) =
    B + sum_list (map2 term_int ups (unravel (map dim_len ups) (p div dim_len inner)))
      + term_int inner (p mod dim_len inner + j)"
proof -
  have "p + j = p div dim_len inner * dim_len inner + (p mod dim_len inner + j)"
    by simp
  with assms have "(p + j) div dim_len inner = p div dim_len inner"
    "(p + j) mod dim_len inner = p mod dim_len inner + j"
    by (metis add.right_neutral div_less div_mult_self3 not_less_zero)
       (metis assms mod_add_left_eq mod_less)
  then show ?thesis by (simp add: walk_int_def unravel_snoc)
qed

lemma row_step_correct:
  assumes dims: "dims = ups @ [inner]" and pos: "\<forall>d \<in> set dims. 0 < dim_len d"
    and base: "base < U64" "int base = B mod int U64"
    and st: "walk_state base dims p index prefix"
    and more: "d < count"
    and range: "\<forall>n \<in> {p..<p + (count - d)}. 0 \<le> walk_int B dims n \<and> walk_int B dims n < int U64"
    and step: "row_step dims isz index prefix d count = (pieces, take_n, index', prefix')"
  shows "0 < take_n" "take_n \<le> count - d"
    "concat (map stretch_ints pieces) = map (walk_int B dims) [p..<p + take_n]"
    "\<forall>s \<in> set pieces. 0 < st_count s"
    "d + take_n < count \<Longrightarrow> walk_state base dims (p + take_n) index' prefix'"
proof -
  define L k q where "L = dim_len inner" and "k = p mod L" and "q = p div L"
  define us where "us = unravel (map dim_len ups) q"
  have L: "0 < L" using pos dims by (simp add: L_def)
  have k: "k < L" using L by (simp add: k_def)
  have index: "index = us @ [k]" and prefix: "prefix = prefix_from base dims index"
    using st by (simp_all add: walk_state_def dims unravel_snoc us_def q_def k_def L_def)
  have len: "length us = length ups" by (simp add: us_def)
  have t: "take_n = min (L - k) (count - d)" and
    pieces: "pieces = row_pieces inner (prefix ! length ups) k isz take_n 0"
    using step len by (auto simp: row_step_def Let_def dims index L_def nth_append)
  show "0 < take_n" "take_n \<le> count - d" using t k more by auto
  let ?R = "B + sum_list (map2 term_int ups us)"
  have row: "int (prefix ! length ups) = ?R mod int U64"
    using prefix_from_nth [of index dims "length ups" base] base
    by (simp add: prefix dims index len mod_add_left_eq)
  have elem: "?R + term_int inner (k + j) = walk_int B dims (p + j)" if "j < take_n" for j
  proof -
    have "k + j < L" using that t by linarith
    then show ?thesis
      using walk_int_row [of p inner j B ups] by (simp add: dims us_def q_def k_def L_def)
  qed
  have "\<forall>j \<in> {0..<take_n}. 0 \<le> ?R + term_int inner (k + j) \<and> ?R + term_int inner (k + j) < int U64"
    using range elem t by auto
  from row_pieces_ints [OF row this]
  have P: "concat (map stretch_ints pieces) = map (\<lambda>j. ?R + term_int inner (k + j)) [0..<take_n]"
    "\<forall>s \<in> set pieces. 0 < st_count s"
    using pieces by auto
  have "map (\<lambda>j. ?R + term_int inner (k + j)) [0..<take_n] = map (walk_int B dims) [p..<p + take_n]"
    using elem by (intro nth_equalityI) simp_all
  with P show "concat (map stretch_ints pieces) = map (walk_int B dims) [p..<p + take_n]"
    "\<forall>s \<in> set pieces. 0 < st_count s" by simp_all
  assume "d + take_n < count"
  then have full: "take_n = L - k" using t more by linarith
  have "p = L * q + k" by (simp add: k_def q_def)
  then have "p + take_n = L * Suc q" using full k by simp
  then have next_p: "unravel (map dim_len dims) (p + take_n) = unravel (map dim_len ups) (Suc q) @ [0]"
    using L by (simp add: dims unravel_snoc L_def [symmetric])
  obtain i where od: "odometer (map dim_len ups @ [L]) (us @ [0]) (length ups)
      = (unravel (map dim_len ups) (Suc q) @ [0], i)" "i \<le> length ups"
    "take i us = take i (unravel (map dim_len ups) (Suc q))"
    using odometer_unravel [of "map dim_len ups" "[L]" q "[0]"] pos dims by (auto simp: us_def)
  have "index[length dims - 1 := 0] = us @ [0]"
    by (simp add: index dims list_update_append len)
  then have new: "index' = unravel (map dim_len ups) (Suc q) @ [0]" "prefix' = refresh dims prefix index' i"
    using step od(1) by (auto simp: row_step_def Let_def dims L_def)
  have "refresh dims prefix index' i = prefix_from base dims index'"
    unfolding prefix
    by (rule refresh_prefix) (use od len in \<open>simp_all add: index new dims\<close>)
  with new next_p show "walk_state base dims (p + take_n) index' prefix'"
    by (simp add: walk_state_def)
qed

text \<open>As many rounds as elements are enough, and they name the elements in order.\<close>

lemma stretch_rows_enough:
  assumes dims: "dims = ups @ [inner]" and pos: "\<forall>d \<in> set dims. 0 < dim_len d"
    and base: "base < U64" "int base = B mod int U64"
  shows "walk_state base dims p index prefix \<Longrightarrow> count - d \<le> fuel \<Longrightarrow>
    \<forall>n \<in> {p..<p + (count - d)}. 0 \<le> walk_int B dims n \<and> walk_int B dims n < int U64 \<Longrightarrow>
    \<exists>ss. stretch_rows fuel dims isz index prefix d count = Some ss
      \<and> concat (map stretch_ints ss) = map (walk_int B dims) [p..<p + (count - d)]
      \<and> (\<forall>s \<in> set ss. 0 < st_count s)"
proof (induction fuel arbitrary: p index prefix d)
  case (Suc fuel)
  show ?case
  proof (cases "d < count")
    case True
    obtain pieces take_n index' prefix' where step:
      "row_step dims isz index prefix d count = (pieces, take_n, index', prefix')"
      by (metis prod_cases4)
    note row = row_step_correct [OF dims pos base Suc.prems(1) True Suc.prems(3) step]
    have split: "[p..<p + (count - d)] = [p..<p + take_n] @ [p + take_n..<p + (count - d)]"
      using upt_add_eq_append [of p "p + take_n" "count - d - take_n"] row(2)
      by (simp only: add.assoc le_add_diff_inverse le_add1)
    show ?thesis
    proof (cases "d + take_n < count")
      case more: True
      have eq: "p + take_n + (count - (d + take_n)) = p + (count - d)" using more by linarith
      have "\<forall>n \<in> {p + take_n..<p + take_n + (count - (d + take_n))}.
          0 \<le> walk_int B dims n \<and> walk_int B dims n < int U64"
        using Suc.prems(3) eq by auto
      moreover have "count - (d + take_n) \<le> fuel" using Suc.prems(2) row(1) more by linarith
      ultimately obtain ss where
        "stretch_rows fuel dims isz index' prefix' (d + take_n) count = Some ss"
        "concat (map stretch_ints ss) = map (walk_int B dims) [p + take_n..<p + (count - d)]"
        "\<forall>s \<in> set ss. 0 < st_count s"
        using Suc.IH [OF row(5) [OF more]] eq by metis
      then show ?thesis using True step row(3,4) split by auto
    next
      case False
      then have "take_n = count - d" using row(2) by linarith
      moreover have "stretch_rows fuel dims isz index' prefix' (d + take_n) count = Some []"
        using False by (cases fuel) simp_all
      ultimately show ?thesis using True step row(3,4) by auto
    qed
  qed (simp add: Suc.prems)
qed simp

section \<open>Joining consecutive stretches\<close>

lemma length_stretch_ints [simp]: "length (stretch_ints s) = st_count s"
  by (simp add: stretch_ints_def)

lemma stretch_ints_normalize [simp]: "stretch_ints (normalize_stretch s) = stretch_ints s"
  by (simp add: normalize_stretch_def stretch_ints_def)

lemma st_count_normalize [simp]: "st_count (normalize_stretch s) = st_count s"
  by (simp add: normalize_stretch_def)

definition held_ints :: "stretch option \<Rightarrow> int list" where
  "held_ints p = (case p of None \<Rightarrow> [] | Some s \<Rightarrow> stretch_ints s)"

lemma absorb_ints:
  assumes "absorbs p s" "in_source N (stretch_ints p)" "in_source N (stretch_ints s)"
    "0 < st_count p" "0 < st_count s" "N < U64" "st_count p + st_count s < U64"
  shows "stretch_ints (p\<lparr>st_count := wadd (st_count p) (st_count s)\<rparr>) = stretch_ints p @ stretch_ints s"
proof -
  have "int (st_src p) + int (st_count p - 1) * st_step p \<in> set (stretch_ints p)"
    unfolding stretch_ints_def set_map
    by (rule image_eqI [where x = "st_count p - 1"]) (use assms(4) in simp_all)
  then have "int (st_src p) + int (st_count p - 1) < int N"
    using assms(1,2) by (auto simp: in_source_def absorbs_def)
  then have "st_src p + st_count p < U64" using assms(4,6) by linarith
  then have src: "st_src s = st_src p + st_count p"
    using assms(1) by (simp add: absorbs_def wadd_eq)
  have "[0..<st_count p + st_count s] = [0..<st_count p] @ map (\<lambda>j. st_count p + j) [0..<st_count s]"
    by (intro nth_equalityI) (auto simp: nth_append)
  then show ?thesis
    using assms(1,7) src by (simp add: stretch_ints_def wadd_eq absorbs_def comp_def add.assoc)
qed

lemma hold_all_ints:
  assumes "N < U64"
  shows "in_source N (held_ints p) \<Longrightarrow> in_source N (concat (map stretch_ints ss)) \<Longrightarrow>
    (case p of None \<Rightarrow> True | Some s \<Rightarrow> 0 < st_count s) \<Longrightarrow> \<forall>s \<in> set ss. 0 < st_count s \<Longrightarrow>
    length (held_ints p) + length (concat (map stretch_ints ss)) < U64 \<Longrightarrow>
    concat (map stretch_ints (hold_all p ss)) = held_ints p @ concat (map stretch_ints ss)
    \<and> (\<forall>s \<in> set (hold_all p ss). 0 < st_count s)"
proof (induction ss arbitrary: p)
  case Nil
  then show ?case by (auto simp: held_ints_def split: option.splits)
next
  case (Cons s ss)
  show ?case
  proof (cases p)
    case None
    have "concat (map stretch_ints (hold_all (Some (normalize_stretch s)) ss))
        = held_ints (Some (normalize_stretch s)) @ concat (map stretch_ints ss)
      \<and> (\<forall>s \<in> set (hold_all (Some (normalize_stretch s)) ss). 0 < st_count s)"
      by (rule Cons.IH) (use Cons.prems None in \<open>simp_all add: held_ints_def\<close>)
    then show ?thesis using None by (simp add: hold_def held_ints_def Let_def)
  next
    case (Some h)
    show ?thesis
    proof (cases "absorbs h (normalize_stretch s)")
      case True
      let ?j = "h\<lparr>st_count := wadd (st_count h) (st_count s)\<rparr>"
      have c: "st_count h + st_count s < U64" using Cons.prems(5) Some by (simp add: held_ints_def)
      have ints: "stretch_ints ?j = stretch_ints h @ stretch_ints s"
        using absorb_ints [OF True] Cons.prems Some assms c by (simp add: held_ints_def)
      have "0 < st_count ?j" using c Cons.prems(3) Some by (simp add: wadd_eq)
      moreover have "length (stretch_ints ?j) = st_count h + st_count s"
        using ints by simp
      ultimately have "concat (map stretch_ints (hold_all (Some ?j) ss))
          = held_ints (Some ?j) @ concat (map stretch_ints ss)
        \<and> (\<forall>s \<in> set (hold_all (Some ?j) ss). 0 < st_count s)"
        by (intro Cons.IH) (use Cons.prems Some ints in \<open>simp_all add: held_ints_def\<close>)
      then show ?thesis using Some True ints by (simp add: hold_def held_ints_def Let_def)
    next
      case False
      have "concat (map stretch_ints (hold_all (Some (normalize_stretch s)) ss))
          = held_ints (Some (normalize_stretch s)) @ concat (map stretch_ints ss)
        \<and> (\<forall>s \<in> set (hold_all (Some (normalize_stretch s)) ss). 0 < st_count s)"
        by (rule Cons.IH) (use Cons.prems Some in \<open>simp_all add: held_ints_def\<close>)
      then show ?thesis using Some False Cons.prems(3)
        by (simp add: hold_def held_ints_def Let_def)
    qed
  qed
qed

text \<open>What \<open>for_each_stretch\<close> hands over: the selected elements, once each and in output order.\<close>

lemma for_each_stretch_ints:
  assumes pos: "\<forall>d \<in> set (g_dims g). 0 < dim_len d"
    and base: "g_base g < U64" "int (g_base g) = B mod int U64"
    and N: "N < U64" and count: "count < U64"
    and total: "first + count \<le> prod_list (map dim_len (g_dims g))"
    and range: "\<forall>n \<in> {first..<first + count}. 0 \<le> walk_int B (g_dims g) n \<and> walk_int B (g_dims g) n < int N"
  shows "\<exists>ss. for_each_stretch g isz first count = Some ss
    \<and> concat (map stretch_ints ss) = map (walk_int B (g_dims g)) [first..<first + count]
    \<and> (\<forall>s \<in> set ss. 0 < st_count s)"
proof (cases "count = 0")
  case True
  then show ?thesis by (simp add: for_each_stretch_def)
next
  case c: False
  show ?thesis
  proof (cases "g_dims g = []")
    case True
    with total c have fc: "first = 0" "count = 1" by simp_all
    have "int (g_base g) = B" using range base N True fc by (simp add: walk_int_def)
    then show ?thesis using True fc by (simp add: for_each_stretch_def stretch_ints_def walk_int_def)
  next
    case False
    then obtain ups inner where dims: "g_dims g = ups @ [inner]" by (metis append_butlast_last_id)
    let ?dims = "g_dims g"
    let ?index = "rev (unravel_rev (rev (map dim_len ?dims)) first)"
    let ?prefix = "refresh ?dims (replicate (length ?dims + 1) (g_base g)) ?index 0"
    have st: "walk_state (g_base g) ?dims first ?index ?prefix"
      by (simp add: walk_state_def unravel_loop refresh_def)
    have r64: "\<forall>n \<in> {first..<first + (count - 0)}. 0 \<le> walk_int B ?dims n \<and> walk_int B ?dims n < int U64"
      using range N by force
    obtain ss where ss: "stretch_rows count ?dims isz ?index ?prefix 0 count = Some ss"
      "concat (map stretch_ints ss) = map (walk_int B ?dims) [first..<first + count]"
      "\<forall>s \<in> set ss. 0 < st_count s"
      using stretch_rows_enough [OF dims pos base st _ r64] by (metis diff_le_self minus_nat.diff_0)
    have "in_source N (concat (map stretch_ints ss))"
      using range unfolding ss(2) by (auto simp: in_source_def)
    moreover have "length (concat (map stretch_ints ss)) < U64" using ss(2) count by simp
    ultimately have "concat (map stretch_ints (hold_all None ss)) = concat (map stretch_ints ss)
        \<and> (\<forall>s \<in> set (hold_all None ss). 0 < st_count s)"
      using hold_all_ints [OF N, of None ss] ss(3) by (simp add: held_ints_def)
    then show ?thesis using c False ss by (auto simp: for_each_stretch_def Let_def)
  qed
qed

end
