(* ===== verification/Gather_Read.thy ===== *)
theory Gather_Read
  imports Gather_Walk
begin

text \<open>
  Reading a gathered selection returns the selected elements' bytes, whatever spans the reads are
  joined into. \<open>byte_source\<close> is the contract of the \<open>read_src\<close> closure every backend hands to
  \<open>SelectionLayout::read_with\<close>: it fills the buffer with the source's own bytes.
\<close>

definition elem_bytes :: "nat \<Rightarrow> bytes \<Rightarrow> int \<Rightarrow> bytes" where
  "elem_bytes isz src x = slice src (nat x * isz) isz"

definition elems_bytes :: "nat \<Rightarrow> bytes \<Rightarrow> int list \<Rightarrow> bytes" where
  "elems_bytes isz src xs = concat (map (elem_bytes isz src) xs)"

lemma elems_bytes_simps [simp]:
  "elems_bytes isz src [] = []"
  "elems_bytes isz src (xs @ ys) = elems_bytes isz src xs @ elems_bytes isz src ys"
  by (simp_all add: elems_bytes_def)

lemma length_elems_bytes:
  assumes "in_source N xs" "N * isz \<le> length src"
  shows "length (elems_bytes isz src xs) = length xs * isz"
proof -
  have "length (elem_bytes isz src x) = isz" if "x \<in> set xs" for x
  proof -
    have "nat x + 1 \<le> N" using assms(1) that by (force simp: in_source_def)
    then have "(nat x + 1) * isz \<le> N * isz" by (rule mult_le_mono1)
    then show ?thesis using assms(2) by (simp add: elem_bytes_def)
  qed
  then show ?thesis by (simp add: elems_bytes_def length_concat_const)
qed

text \<open>Consecutive elements are one run of bytes.\<close>

lemma elems_bytes_run:
  "elems_bytes isz src (map (\<lambda>j. int a + int j) [0..<n]) = slice src (a * isz) (n * isz)"
proof (induction n)
  case (Suc n)
  have "slice src (a * isz) (Suc n * isz) = slice src (a * isz) (n * isz) @ slice src ((a + n) * isz) isz"
    using slice_add [of src "a * isz" "n * isz" isz] by (simp add: algebra_simps)
  with Suc show ?case by (simp add: elems_bytes_def elem_bytes_def nat_add_distrib)
qed (simp add: elems_bytes_def)

section \<open>Extents\<close>

lemma stretch_last:
  assumes "in_source N (stretch_ints s)" "0 < st_count s" "N < U64"
  shows "int (wadd (st_src s) (wmul (wsub (st_count s) 1) (u64_of_i64 (st_step s)))) =
    int (st_src s) + int (st_count s - 1) * st_step s"
    (is "int ?l = ?x")
proof (cases "st_count s < U64")
  case True
  have "?x \<in> set (stretch_ints s)"
    unfolding stretch_ints_def set_map
    by (rule image_eqI [where x = "st_count s - 1"]) (use assms(2) in simp_all)
  then have "0 \<le> ?x" "?x < int U64" using assms(1,3) by (auto simp: in_source_def)
  moreover have "int ?l = ?x mod int U64"
    using assms(2) True
    by (simp add: int_wadd int_wmul int_u64_of_i64 wsub_eq mod_add_right_eq mod_mult_right_eq)
  ultimately show ?thesis by simp
next
  case False
  have "(\<lambda>j. int (st_src s) + int j * st_step s) ` {0..<st_count s} \<subseteq> {0..<int N}"
    using assms(1) by (auto simp: in_source_def stretch_ints_def)
  then have fin: "card ((\<lambda>j. int (st_src s) + int j * st_step s) ` {0..<st_count s}) \<le> N"
    using card_mono [of "{0..<int N}"] by fastforce
  have "st_step s = 0"
  proof (rule ccontr)
    assume "st_step s \<noteq> 0"
    then have "inj_on (\<lambda>j. int (st_src s) + int j * st_step s) {0..<st_count s}"
      by (auto simp: inj_on_def)
    with fin have "st_count s \<le> N" by (simp add: card_image)
    with False assms(3) show False by simp
  qed
  moreover have "int (st_src s) < int N"
    using assms(1,2) by (auto simp: in_source_def stretch_ints_def dest: bspec [of _ _ 0])
  ultimately show ?thesis using assms(3) by (simp add: int_wadd int_wmul u64_of_i64_def)
qed

lemma extent_covers:
  assumes src: "in_source N (stretch_ints s)" and pos: "0 < st_count s" and N: "N < U64"
    and e: "extent s = (lo, hi)"
  shows "\<forall>x \<in> set (stretch_ints s). int lo \<le> x \<and> x < int hi" "hi \<le> N"
    "st_step s = 1 \<Longrightarrow> lo = st_src s \<and> hi = st_src s + st_count s"
proof -
  let ?l = "wadd (st_src s) (wmul (wsub (st_count s) 1) (u64_of_i64 (st_step s)))"
  have l: "int ?l = int (st_src s) + int (st_count s - 1) * st_step s"
    using stretch_last [OF src pos N] .
  have inN: "int (st_src s) + int j * st_step s < int N" if "j < st_count s" for j
    using src that by (auto simp: in_source_def stretch_ints_def)
  have "st_src s < N" "?l < N"
    using inN [of 0] inN [of "st_count s - 1"] pos l by simp_all
  then have m: "max (st_src s) ?l + 1 \<le> N" by simp
  then have hi: "hi = max (st_src s) ?l + 1" and lo: "lo = min (st_src s) ?l"
    using e N by (auto simp: extent_def Let_def wadd_eq)
  show "hi \<le> N" using hi m by simp
  have between: "min 0 (int (st_count s - 1) * st_step s) \<le> int j * st_step s
      \<and> int j * st_step s \<le> max 0 (int (st_count s - 1) * st_step s)" if "j < st_count s" for j
  proof (cases "0 \<le> st_step s")
    case True
    then have "0 \<le> int j * st_step s" "int j * st_step s \<le> int (st_count s - 1) * st_step s"
      using that by (auto intro!: mult_right_mono)
    then show ?thesis by linarith
  next
    case False
    then have "int j * st_step s \<le> 0" "int (st_count s - 1) * st_step s \<le> int j * st_step s"
      using that by (auto intro!: mult_right_mono_neg simp: mult_nonneg_nonpos)
    then show ?thesis by linarith
  qed
  show "\<forall>x \<in> set (stretch_ints s). int lo \<le> x \<and> x < int hi"
  proof
    fix x assume "x \<in> set (stretch_ints s)"
    then obtain j where "j < st_count s" "x = int (st_src s) + int j * st_step s"
      by (auto simp: stretch_ints_def)
    with between [of j] l show "int lo \<le> x \<and> x < int hi" unfolding hi lo by linarith
  qed
  show "st_step s = 1 \<Longrightarrow> lo = st_src s \<and> hi = st_src s + st_count s"
  proof -
    assume "st_step s = 1"
    then have "int (st_count s - 1) * st_step s = int (st_count s - 1)" by simp
    with l have "int ?l = int (st_src s + (st_count s - 1))" by (simp only: of_nat_add)
    then have "?l = st_src s + (st_count s - 1)" by (simp only: of_nat_eq_iff)
    then show ?thesis using pos unfolding hi lo by simp
  qed
qed

section \<open>Cutting stretches out of a span\<close>

definition counts :: "stretch list \<Rightarrow> nat" where "counts ss = sum_list (map st_count ss)"

lemma counts_simps [simp]:
  "counts [] = 0" "counts (s # ss) = st_count s + counts ss" "counts (ss @ ts) = counts ss + counts ts"
  by (simp_all add: counts_def)

lemma length_concat_ints: "length (concat (map stretch_ints ss)) = counts ss"
  by (induction ss) simp_all

lemma cut_correct:
  assumes src: "in_source N (stretch_ints s)" and pos: "0 < st_count s" "0 < isz"
    and N: "N * isz \<le> length src" "length src < U64"
    and cover: "\<forall>x \<in> set (stretch_ints s). int (sp_lo w) \<le> x \<and> x < int (sp_hi w)" "sp_hi w \<le> N"
    and count: "st_count s * isz < U64"
  shows "cut w isz (slice src (sp_lo w * isz) ((sp_hi w - sp_lo w) * isz)) s =
    elems_bytes isz src (stretch_ints s)"
proof -
  let ?lo = "sp_lo w" and ?hi = "sp_hi w"
  have elem: "int ?lo \<le> int (st_src s) + int j * st_step s \<and> int (st_src s) + int j * st_step s < int ?hi"
    if "j < st_count s" for j
    using cover(1) that by (auto simp: stretch_ints_def)
  from elem [of 0] pos have lo: "?lo \<le> st_src s" "st_src s < ?hi" by simp_all
  have "st_src s \<le> st_src s * isz" "(st_src s - ?lo) * isz \<le> st_src s * isz"
    "st_src s * isz \<le> N * isz"
    using pos lo cover(2) by simp_all
  then have bounds: "st_src s < U64" "(st_src s - ?lo) * isz < U64"
    using N by linarith+
  then have frm: "wmul (wsub (st_src s) ?lo) isz = (st_src s - ?lo) * isz"
    using lo by (simp add: wsub_eq wmul_eq)
  have n: "wmul (st_count s) isz = st_count s * isz" using count by (simp add: wmul_eq)
  show ?thesis
  proof (cases "st_step s = 1")
    case True
    have "int (st_src s) + int (st_count s - 1) < int ?hi"
      using elem [of "st_count s - 1"] pos(1) True by simp
    then have last: "st_src s + st_count s \<le> ?hi" using pos(1) by linarith
    have "(st_src s - ?lo) * isz + st_count s * isz = (st_src s - ?lo + st_count s) * isz"
      by (simp add: algebra_simps)
    also have "\<dots> \<le> (?hi - ?lo) * isz"
      using last lo by (intro mult_le_mono1) linarith
    finally have within: "(st_src s - ?lo) * isz + st_count s * isz \<le> (?hi - ?lo) * isz" .
    have "?lo * isz + (st_src s - ?lo) * isz = st_src s * isz"
      using lo by (simp flip: add_mult_distrib)
    then show ?thesis
      using True n frm slice_slice [OF within, of src "?lo * isz"]
      by (simp add: cut_def stretch_ints_def elems_bytes_run)
  next
    case False
    have piece: "slice (slice src (?lo * isz) ((?hi - ?lo) * isz))
        (nat ((int ((st_src s - ?lo) * isz) + int j * (st_step s * int isz)) mod 2 ^ 64)) isz
      = elem_bytes isz src (int (st_src s) + int j * st_step s)" if "j < st_count s" for j
    proof -
      define x where "x = nat (int (st_src s) + int j * st_step s)"
      have xi: "int x = int (st_src s) + int j * st_step s"
        using elem [OF that] by (simp add: x_def)
      then have x: "int x = int (st_src s) + int j * st_step s" "?lo \<le> x" "x < ?hi"
        using elem [OF that] by linarith+
      have "int ((st_src s - ?lo) * isz) + int j * (st_step s * int isz) = (int x - int ?lo) * int isz"
        using lo x(1) by (simp add: algebra_simps)
      also have "\<dots> = int ((x - ?lo) * isz)" using x(2) by simp
      finally have e: "int ((st_src s - ?lo) * isz) + int j * (st_step s * int isz) = int ((x - ?lo) * isz)" .
      have "(x - ?lo) * isz \<le> N * isz" using x(3) cover(2) by (intro mult_le_mono1) simp
      then have "(x - ?lo) * isz < U64" using N by linarith
      then have "nat (int ((x - ?lo) * isz) mod 2 ^ 64) = (x - ?lo) * isz"
        by (simp add: U64_def flip: of_nat_mult)
      moreover have "(x - ?lo + 1) * isz \<le> (?hi - ?lo) * isz"
        using x(2,3) by (intro mult_le_mono1) linarith
      then have "(x - ?lo) * isz + isz \<le> (?hi - ?lo) * isz" by simp
      moreover have "?lo * isz + (x - ?lo) * isz = x * isz"
        using x(2) by (simp flip: add_mult_distrib)
      ultimately show ?thesis
        using slice_slice [of "(x - ?lo) * isz" isz "(?hi - ?lo) * isz" src "?lo * isz"]
        by (simp only: e) (simp add: elem_bytes_def flip: x(1))
    qed
    have "cut w isz (slice src (?lo * isz) ((?hi - ?lo) * isz)) s =
        concat (map (\<lambda>j. slice (slice src (?lo * isz) ((?hi - ?lo) * isz))
          (nat ((int ((st_src s - ?lo) * isz) + int j * (st_step s * int isz)) mod 2 ^ 64)) isz)
          [0..<st_count s])"
      using False n frm pos(2) by (simp add: cut_def take_strided_def strided_def)
    also have "\<dots> = concat (map (\<lambda>j. elem_bytes isz src (int (st_src s) + int j * st_step s))
        [0..<st_count s])"
      using piece by (intro arg_cong [where f = concat] map_cong refl) simp
    finally show ?thesis by (simp add: elems_bytes_def stretch_ints_def comp_def)
  qed
qed


lemma length_stretches_bytes:
  "(\<And>s. s \<in> set ss \<Longrightarrow> length (elems_bytes isz src (stretch_ints s)) = st_count s * isz) \<Longrightarrow>
   length (elems_bytes isz src (concat (map stretch_ints ss))) = counts ss * isz"
  by (induction ss) (simp_all add: algebra_simps)

lemma cut_all_correct:
  assumes each: "\<And>s. s \<in> set ss \<Longrightarrow>
      cut w isz scratch s = elems_bytes isz src (stretch_ints s)
      \<and> length (elems_bytes isz src (stretch_ints s)) = st_count s * isz"
  shows "pos + counts ss * isz \<le> length out \<Longrightarrow> length out < U64 \<Longrightarrow>
    cut_all w isz scratch ss pos out =
      write_at out pos (elems_bytes isz src (concat (map stretch_ints ss)))"
  using each
proof (induction ss arbitrary: pos out)
  case (Cons s ss)
  let ?b = "elems_bytes isz src (stretch_ints s)"
  have b: "cut w isz scratch s = ?b" "length ?b = st_count s * isz" using Cons.prems(3) by simp_all
  have le: "pos + st_count s * isz + counts ss * isz \<le> length out"
    using Cons.prems(1) by (simp add: algebra_simps)
  then have w: "wmul (st_count s) isz = st_count s * isz" "wadd pos (st_count s * isz) = pos + st_count s * isz"
    using Cons.prems(2) by (simp_all add: wmul_eq wadd_eq)
  have rest: "length (elems_bytes isz src (concat (map stretch_ints ss))) = counts ss * isz"
    using Cons.prems(3) by (intro length_stretches_bytes) simp
  have "cut_all w isz scratch ss (pos + st_count s * isz) (write_at out pos ?b)
      = write_at (write_at out pos ?b) (pos + st_count s * isz)
          (elems_bytes isz src (concat (map stretch_ints ss)))"
    by (rule Cons.IH) (use le b Cons.prems(2,3) in simp_all)
  also have "\<dots> = write_at out pos (?b @ elems_bytes isz src (concat (map stretch_ints ss)))"
    using write_at_append [of pos ?b _ out] le b rest by simp
  finally show ?case using b w by simp
qed simp

section \<open>The contract of a source\<close>

locale byte_source =
  fixes read_src :: read_src
    and src :: bytes
  assumes read_ok: "a + n \<le> length src \<Longrightarrow> read_src a n = Ok (slice src a n)"
    and src_small: "length src < U64"
begin

definition span_ok :: "nat \<Rightarrow> nat \<Rightarrow> span \<Rightarrow> stretch list \<Rightarrow> bool" where
  "span_ok isz N w hs \<longleftrightarrow>
     hs \<noteq> [] \<and> (\<forall>s \<in> set hs. 0 < st_count s)
     \<and> in_source N (concat (map stretch_ints hs))
     \<and> (\<forall>x \<in> set (concat (map stretch_ints hs)). int (sp_lo w) \<le> x \<and> x < int (sp_hi w))
     \<and> sp_hi w \<le> N
     \<and> (\<forall>s. hs = [s] \<longrightarrow> st_step s = 1 \<longrightarrow> sp_lo w = st_src s)
     \<and> sp_out_count w = counts hs"

lemma span_ok_lo: "span_ok isz N w hs \<Longrightarrow> sp_lo w < sp_hi w"
proof -
  assume ok: "span_ok isz N w hs"
  then obtain s ss where "hs = s # ss" by (auto simp: span_ok_def neq_Nil_conv)
  with ok have s: "s \<in> set hs" "0 < st_count s" by (auto simp: span_ok_def)
  then have "int (st_src s) \<in> set (concat (map stretch_ints hs))"
    by (auto simp: stretch_ints_def intro!: bexI [of _ s] image_eqI [of _ _ 0])
  with ok show ?thesis by (force simp: span_ok_def)
qed

lemma copy_span_correct:
  assumes ok: "span_ok isz N w hs" and isz: "0 < isz" "N * isz \<le> length src"
    and out: "(sp_out_at w + counts hs) * isz \<le> length out" "length out < U64"
  shows "copy_span w isz hs out read_src =
    Ok (write_at out (sp_out_at w * isz) (elems_bytes isz src (concat (map stretch_ints hs))))"
proof -
  let ?data = "elems_bytes isz src (concat (map stretch_ints hs))"
  have len: "length ?data = counts hs * isz"
    using ok length_elems_bytes [OF _ isz(2), of "concat (map stretch_ints hs)"]
    by (simp only: span_ok_def length_concat_ints)
  have bnd: "sp_out_at w * isz + counts hs * isz \<le> length out"
    using out(1) by (simp add: algebra_simps)
  then have at: "wmul (sp_out_at w) isz = sp_out_at w * isz" "wmul (counts hs) isz = counts hs * isz"
    using out(2) by (simp_all add: wmul_eq)
  have hi: "sp_hi w * isz \<le> length src"
    using ok isz(2) by (meson le_trans mult_le_mono1 span_ok_def)
  have lo: "sp_lo w < sp_hi w" using ok by (rule span_ok_lo)
  then have "sp_lo w * isz \<le> sp_hi w * isz" by simp
  moreover have "sp_hi w \<le> sp_hi w * isz" using isz(1) by simp
  moreover have "(sp_hi w - sp_lo w) * isz \<le> sp_hi w * isz" by simp
  ultimately have sz: "sp_lo w * isz < U64" "sp_hi w < U64" "(sp_hi w - sp_lo w) * isz < U64"
    using hi src_small by linarith+
  have lohi: "sp_lo w * isz + (sp_hi w - sp_lo w) * isz = sp_hi w * isz"
    using lo by (simp flip: add_mult_distrib)
  show ?thesis
  proof (cases "\<exists>s. hs = [s] \<and> st_step s = 1")
    case True
    then obtain s where s: "hs = [s]" "st_step s = 1" by blast
    then have slo: "sp_lo w = st_src s" and pos: "0 < st_count s" using ok by (auto simp: span_ok_def)
    have "int (st_src s) + int (st_count s - 1) * st_step s \<in> set (stretch_ints s)"
      unfolding stretch_ints_def set_map
      by (rule image_eqI [where x = "st_count s - 1"]) (use pos in simp_all)
    then have "int (st_src s) + int (st_count s - 1) < int N"
      using ok s by (auto simp: span_ok_def in_source_def)
    then have "st_src s + st_count s \<le> N" using pos by linarith
    then have "(st_src s + st_count s) * isz \<le> length src"
      using isz(2) by (meson le_trans mult_le_mono1)
    then have "read_src (sp_lo w * isz) (counts hs * isz) = Ok (slice src (sp_lo w * isz) (counts hs * isz))"
      using s slo by (intro read_ok) (simp add: algebra_simps)
    moreover have "stretch_ints s = map (\<lambda>j. int (st_src s) + int j) [0..<st_count s]"
      using s by (simp add: stretch_ints_def)
    ultimately show ?thesis
      using s slo ok at sz by (simp add: copy_span_def Let_def wmul_eq elems_bytes_run span_ok_def)
  next
    case False
    let ?scratch = "slice src (sp_lo w * isz) ((sp_hi w - sp_lo w) * isz)"
    have read: "read_src (sp_lo w * isz) ((sp_hi w - sp_lo w) * isz) = Ok ?scratch"
      using lohi hi by (intro read_ok) simp
    have "cut w isz ?scratch s = elems_bytes isz src (stretch_ints s)
        \<and> length (elems_bytes isz src (stretch_ints s)) = st_count s * isz" if "s \<in> set hs" for s
    proof -
      have src_s: "in_source N (stretch_ints s)" using ok that by (auto simp: span_ok_def in_source_def)
      have "st_count s \<le> counts hs" using that by (simp add: counts_def member_le_sum_list)
      then have "st_count s * isz \<le> counts hs * isz" by simp
      then have "st_count s * isz < U64" using bnd out(2) by linarith
      then show ?thesis
        using cut_correct [OF src_s _ isz(1,2) src_small, of w] ok that isz(2) src_s
        by (auto simp: span_ok_def length_elems_bytes)
    qed
    then have "cut_all w isz ?scratch hs (sp_out_at w * isz) out = write_at out (sp_out_at w * isz) ?data"
      by (intro cut_all_correct) (use bnd out(2) in auto)
    then have pieces: "res_map (\<lambda>scratch. cut_all w isz scratch hs (sp_out_at w * isz) out)
        (read_src (sp_lo w * isz) ((sp_hi w - sp_lo w) * isz)) = Ok (write_at out (sp_out_at w * isz) ?data)"
      by (simp add: read)
    have w: "wsub (sp_hi w) (sp_lo w) = sp_hi w - sp_lo w" using lo sz by (simp add: wsub_eq)
    have "copy_span w isz hs out read_src = res_map (\<lambda>scratch. cut_all w isz scratch hs (sp_out_at w * isz) out)
        (read_src (sp_lo w * isz) ((sp_hi w - sp_lo w) * isz))"
      using False at sz w by (auto simp: copy_span_def Let_def wmul_eq split: list.split)
    with pieces show ?thesis by simp
  qed
qed

definition reading_inv :: "nat \<Rightarrow> nat \<Rightarrow> nat \<Rightarrow> reading \<Rightarrow> stretch list \<Rightarrow> bool" where
  "reading_inv tot isz N rd ps \<longleftrightarrow>
     rd_out_at rd = counts ps \<and> counts ps \<le> tot \<and> length (rd_out rd) = tot * isz
     \<and> (case rd_span rd of
          None \<Rightarrow> ps = [] \<and> rd_held rd = []
        | Some w \<Rightarrow>
            \<exists>qs. ps = qs @ rd_held rd \<and> sp_out_at w = counts qs \<and> span_ok isz N w (rd_held rd)
              \<and> take (counts qs * isz) (rd_out rd) = elems_bytes isz src (concat (map stretch_ints qs)))"

lemma reading_inv_flush:
  assumes inv: "reading_inv tot isz N rd ps" and w: "rd_span rd = Some w"
    and isz: "0 < isz" "N * isz \<le> length src" and tot: "tot * isz < U64"
  obtains out where "copy_span w isz (rd_held rd) (rd_out rd) read_src = Ok out"
    "length out = tot * isz"
    "take (counts ps * isz) out = elems_bytes isz src (concat (map stretch_ints ps))"
proof -
  obtain qs where qs: "ps = qs @ rd_held rd" "sp_out_at w = counts qs" "span_ok isz N w (rd_held rd)"
    "take (counts qs * isz) (rd_out rd) = elems_bytes isz src (concat (map stretch_ints qs))"
    and len: "length (rd_out rd) = tot * isz" and le: "counts ps \<le> tot"
    using inv w by (auto simp: reading_inv_def)
  let ?data = "elems_bytes isz src (concat (map stretch_ints (rd_held rd)))"
  have data: "length ?data = counts (rd_held rd) * isz"
    using qs(3) length_elems_bytes [OF _ isz(2), of "concat (map stretch_ints (rd_held rd))"]
    by (simp only: span_ok_def length_concat_ints)
  have "(counts qs + counts (rd_held rd)) * isz \<le> tot * isz"
    using le qs(1) by (intro mult_le_mono1) simp
  then have bnd: "counts qs * isz + length ?data \<le> length (rd_out rd)"
    using data len by (simp add: algebra_simps)
  have "copy_span w isz (rd_held rd) (rd_out rd) read_src
      = Ok (write_at (rd_out rd) (counts qs * isz) ?data)"
    using copy_span_correct [OF qs(3) isz, of "rd_out rd"] bnd data qs(2) tot len
    by (simp add: algebra_simps)
  moreover have "take (counts ps * isz) (write_at (rd_out rd) (counts qs * isz) ?data)
      = elems_bytes isz src (concat (map stretch_ints ps))"
    using take_write_at [of "counts qs * isz" "rd_out rd" ?data] bnd data qs(1,4)
    by (simp add: algebra_simps)
  moreover have "length (write_at (rd_out rd) (counts qs * isz) ?data) = tot * isz"
    using bnd len by simp
  ultimately show thesis using that by blast
qed

lemma read_step_correct:
  assumes inv: "reading_inv tot isz N rd ps"
    and s: "in_source N (stretch_ints s)" "0 < st_count s" "counts ps + st_count s \<le> tot"
    and isz: "0 < isz" "N * isz \<le> length src" and tot: "tot * isz < U64"
  shows "\<exists>rd'. read_step isz read_src s rd = Ok rd' \<and> reading_inv tot isz N rd' (ps @ [s])"
proof -
  have "N \<le> N * isz" "tot \<le> tot * isz" using isz(1) by simp_all
  then have N: "N < U64" and t: "tot < U64" using isz(2) src_small tot by linarith+
  obtain lo hi where e: "extent s = (lo, hi)" by force
  note cov = extent_covers [OF s(1,2) N e]
  let ?fresh = "\<lparr>sp_lo = lo, sp_hi = hi, sp_out_at = counts ps, sp_out_count = st_count s\<rparr>"
  have fresh: "span_ok isz N ?fresh [s]"
    using cov s by (auto simp: span_ok_def)
  have at: "rd_out_at rd = counts ps" "wadd (counts ps) (st_count s) = counts ps + st_count s"
    using inv s(3) t by (simp_all add: reading_inv_def wadd_eq)
  show ?thesis
  proof (cases "rd_span rd")
    case None
    then have "ps = []" "rd_held rd = []" using inv by (simp_all add: reading_inv_def)
    then show ?thesis using None inv fresh s(3) at
      by (simp add: read_step_def e Let_def reading_inv_def)
  next
    case (Some w)
    then obtain qs where qs: "ps = qs @ rd_held rd" "sp_out_at w = counts qs"
      "span_ok isz N w (rd_held rd)"
      "take (counts qs * isz) (rd_out rd) = elems_bytes isz src (concat (map stretch_ints qs))"
      using inv by (auto simp: reading_inv_def)
    show ?thesis
    proof (cases "span_join w lo hi (st_count s) isz")
      case None
      obtain out where out: "copy_span w isz (rd_held rd) (rd_out rd) read_src = Ok out"
        "length out = tot * isz"
        "take (counts ps * isz) out = elems_bytes isz src (concat (map stretch_ints ps))"
        using reading_inv_flush [OF inv Some isz tot] .
      let ?rd = "rd\<lparr>rd_span := Some ?fresh, rd_out := out, rd_held := [s],
        rd_out_at := counts ps + st_count s\<rparr>"
      have "reading_inv tot isz N ?rd (ps @ [s])"
        using out(2,3) fresh s(3) by (auto simp: reading_inv_def)
      then show ?thesis using Some None out(1) at by (simp add: read_step_def e Let_def)
    next
      case join: (Some w')
      have "counts (rd_held rd) + st_count s < U64" using qs(1) s(3) t by simp
      then have w': "w' = w\<lparr>sp_lo := min (sp_lo w) lo, sp_hi := max (sp_hi w) hi,
          sp_out_count := counts (rd_held rd) + st_count s\<rparr>"
        using join qs(3) by (auto simp: span_join_def Let_def span_ok_def wadd_eq split: if_splits)
      have "span_ok isz N w' (rd_held rd @ [s])"
        using qs(3) cov(1,2) s(1,2) unfolding w' by (force simp: span_ok_def)
      then have "reading_inv tot isz N (rd\<lparr>rd_span := Some w', rd_held := rd_held rd @ [s],
          rd_out_at := counts ps + st_count s\<rparr>) (ps @ [s])"
        using inv qs s(3) by (auto simp: reading_inv_def w' intro!: exI [of _ qs])
      then show ?thesis using Some join at by (simp add: read_step_def e Let_def)
    qed
  qed
qed

lemma read_stretches_correct:
  assumes isz: "0 < isz" "N * isz \<le> length src" and tot: "tot * isz < U64"
  shows "reading_inv tot isz N rd ps \<Longrightarrow> in_source N (concat (map stretch_ints ss)) \<Longrightarrow>
    \<forall>s \<in> set ss. 0 < st_count s \<Longrightarrow> counts ps + counts ss \<le> tot \<Longrightarrow>
    \<exists>rd'. read_stretches isz read_src ss rd = Ok rd' \<and> reading_inv tot isz N rd' (ps @ ss)"
proof (induction ss arbitrary: rd ps)
  case (Cons s ss)
  have s: "in_source N (stretch_ints s)" "0 < st_count s" "counts ps + st_count s \<le> tot"
    using Cons.prems by simp_all
  obtain rd' where rd': "read_step isz read_src s rd = Ok rd'" "reading_inv tot isz N rd' (ps @ [s])"
    using read_step_correct [OF Cons.prems(1) s isz tot] by blast
  from Cons.IH [OF rd'(2)] Cons.prems rd'(1) show ?case by simp
qed simp

text \<open>The two phases together: every element handed over ends up in the output, in order.\<close>

lemma read_all_stretches:
  assumes isz: "0 < isz" "N * isz \<le> length src" and tot: "tot * isz < U64"
    and ss: "in_source N (concat (map stretch_ints ss))" "\<forall>s \<in> set ss. 0 < st_count s" "counts ss = tot"
    and out: "length out = tot * isz"
  shows "res_bind (read_stretches isz read_src ss
        \<lparr>rd_span = None, rd_held = [], rd_out_at = 0, rd_out = out\<rparr>) (finish_reading isz read_src)
    = Ok (elems_bytes isz src (concat (map stretch_ints ss)))"
proof -
  have "reading_inv tot isz N \<lparr>rd_span = None, rd_held = [], rd_out_at = 0, rd_out = out\<rparr> []"
    using out by (simp add: reading_inv_def)
  from read_stretches_correct [OF isz tot this ss(1,2)] ss(3)
  obtain rd where rd: "read_stretches isz read_src ss
      \<lparr>rd_span = None, rd_held = [], rd_out_at = 0, rd_out = out\<rparr> = Ok rd"
    "reading_inv tot isz N rd ss" by auto
  show ?thesis
  proof (cases "rd_span rd")
    case None
    then have "ss = []" "length (rd_out rd) = tot * isz" using rd(2) by (simp_all add: reading_inv_def)
    then show ?thesis using rd(1) None ss(3) by (simp add: finish_reading_def)
  next
    case (Some w)
    obtain out' where "copy_span w isz (rd_held rd) (rd_out rd) read_src = Ok out'"
      "length out' = tot * isz"
      "take (counts ss * isz) out' = elems_bytes isz src (concat (map stretch_ints ss))"
      using reading_inv_flush [OF rd(2) Some isz tot] .
    then show ?thesis using rd(1) Some ss(3) by (simp add: finish_reading_def)
  qed
qed

text \<open>
  \<open>Gathered::read\<close> fills the buffer with the asked-for bytes of the stream of selected elements,
  on element boundaries or not.
\<close>

lemma gathered_read_correct:
  assumes pos: "\<forall>d \<in> set (g_dims g). 0 < dim_len d"
    and base: "g_base g < U64" "int (g_base g) = B mod int U64"
    and tot: "tot \<le> prod_list (map dim_len (g_dims g))" "tot * isz < U64"
    and range: "\<forall>n < tot. 0 \<le> walk_int B (g_dims g) n \<and> walk_int B (g_dims g) n < int N"
    and isz: "0 < isz" "N * isz \<le> length src"
    and within: "offset + length dst \<le> tot * isz"
  shows "gathered_read g isz offset dst read_src =
    Some (Ok (slice (elems_bytes isz src (map (walk_int B (g_dims g)) [0..<tot])) offset (length dst)))"
proof -
  let ?E = "walk_int B (g_dims g)"
  define first where "first = offset div isz"
  define last where "last = div_ceil (offset + length dst) isz"
  define count where "count = last - first"
  have last: "last \<le> tot" unfolding last_def using isz(1) within by (rule div_ceil_le)
  have "offset div isz \<le> (offset + length dst) div isz" by (simp add: div_le_mono)
  also have "\<dots> \<le> last" unfolding last_def using isz(1) by (rule div_ceil_bounds)
  finally have fl: "first \<le> last" by (simp add: first_def)
  then have fc: "first + count = last" by (simp add: count_def)
  have "N \<le> N * isz" "tot \<le> tot * isz" "last * isz \<le> tot * isz" "first * isz \<le> offset"
    using isz(1) last by (simp_all add: first_def)
  moreover have "count * isz \<le> last * isz" by (intro mult_le_mono1) (simp add: count_def)
  ultimately have sizes: "N < U64" "count < U64" "count * isz < U64" "last < U64"
    "offset + length dst < U64" "first * isz \<le> offset" "offset < U64" "first * isz < U64"
    using isz(2) src_small tot(2) within last fc by linarith+
  define skip where "skip = offset - first * isz"
  have w: "wadd offset (length dst) = offset + length dst" "wsub last first = count"
    "wsub offset (wmul first isz) = skip" "wmul count isz = count * isz"
    using sizes fl by (simp_all add: wadd_eq wsub_eq wmul_eq count_def skip_def)
  obtain ss where ss: "for_each_stretch g isz first count = Some ss"
    "concat (map stretch_ints ss) = map ?E [first..<first + count]" "\<forall>s \<in> set ss. 0 < st_count s"
    using for_each_stretch_ints [OF pos base sizes(1,2), of first isz] range fc last tot(1) by auto
  have src_ok: "in_source N (concat (map stretch_ints ss))"
    unfolding ss(2) using range fc last by (auto simp: in_source_def)
  have cnt: "counts ss = count" using arg_cong [OF ss(2), of length] by (simp add: length_concat_ints del: length_concat)
  let ?data = "elems_bytes isz src (concat (map stretch_ints ss))"
  have all: "in_source N (map ?E [0..<tot])" using range by (auto simp: in_source_def)
  have data: "?data = slice (elems_bytes isz src (map ?E [0..<tot])) (first * isz) (count * isz)"
  proof -
    have "length (elem_bytes isz src x) = isz" if "x \<in> set (map ?E [0..<tot])" for x
    proof -
      have "in_source N [x]" using all that unfolding in_source_def by auto
      then show ?thesis
        using length_elems_bytes [of N "[x]" isz src] isz(2) by (simp add: elems_bytes_def)
    qed
    then have "slice (elems_bytes isz src (map ?E [0..<tot])) (first * isz) (count * isz)
        = elems_bytes isz src (slice (map ?E [0..<tot]) first count)"
      unfolding elems_bytes_def using fc last by (intro slice_concat_const) auto
    then show ?thesis using fc last by (simp add: ss(2) slice_map slice_upt)
  qed
  have cut: "skip + length dst \<le> count * isz" "first * isz + skip = offset"
  proof -
    show "first * isz + skip = offset" using sizes(6) by (simp add: skip_def)
    have "offset + length dst \<le> last * isz" unfolding last_def using isz(1) by (rule div_ceil_bounds)
    moreover have "first * isz + count * isz = last * isz" using fc by (simp flip: add_mult_distrib)
    ultimately show "skip + length dst \<le> count * isz" using \<open>first * isz + skip = offset\<close> by linarith
  qed
  define aligned where "aligned = (skip = 0 \<and> (offset + length dst) mod isz = 0)"
  have al: "length dst = count * isz \<and> skip = 0" if aligned
  proof -
    have s0: "skip = 0" and m: "(offset + length dst) mod isz = 0" using that by (auto simp: aligned_def)
    then have "last * isz = offset + length dst" by (auto simp: last_def div_ceil_def)
    moreover have "first * isz + count * isz = last * isz" using fc by (simp flip: add_mult_distrib)
    ultimately show ?thesis using s0 cut(2) by linarith
  qed
  let ?out = "if aligned then dst else replicate (count * isz) 0"
  have outlen: "length ?out = count * isz" using al by auto
  have run: "res_bind (read_stretches isz read_src ss
        \<lparr>rd_span = None, rd_held = [], rd_out_at = 0, rd_out = ?out\<rparr>) (finish_reading isz read_src) = Ok ?data"
    using read_all_stretches [OF isz sizes(3) src_ok ss(3) cnt outlen] .
  have "gathered_read g isz offset dst read_src =
      Some (Ok (if aligned then ?data else slice ?data skip (length dst)))"
  proof (cases aligned)
    case True
    with run have "res_bind (read_stretches isz read_src ss
        \<lparr>rd_span = None, rd_held = [], rd_out_at = 0, rd_out = dst\<rparr>) (finish_reading isz read_src) = Ok ?data"
      by simp
    then show ?thesis
      using ss(1) w True by (simp add: gathered_read_def Let_def aligned_def
          first_def [symmetric] last_def [symmetric] del: map_map)
  next
    case False
    with run have "res_bind (read_stretches isz read_src ss
        \<lparr>rd_span = None, rd_held = [], rd_out_at = 0, rd_out = replicate (count * isz) 0\<rparr>)
        (finish_reading isz read_src) = Ok ?data"
      by simp
    then show ?thesis
      using ss(1) w False by (auto simp add: gathered_read_def Let_def aligned_def
          first_def [symmetric] last_def [symmetric] simp del: map_map)
  qed
  moreover have "(if aligned then ?data else slice ?data skip (length dst)) = slice ?data skip (length dst)"
    using al data cnt length_elems_bytes [OF src_ok isz(2)] by (simp add: length_concat_ints slice_def del: length_concat)
  moreover have "slice ?data skip (length dst) =
      slice (elems_bytes isz src (map ?E [0..<tot])) offset (length dst)"
    unfolding data slice_slice [OF cut(1)] cut(2) ..
  ultimately show ?thesis by simp
qed

end

end
