(* ===== verification/Layout.thy ===== *)
theory Layout
  imports Gather_Read
begin

text \<open>
  \<open>SelectionLayout\<close> (\<open>aex-core/src/selection.rs\<close>): a selection resolved into a logical byte
  stream, \<open>Gathered::new\<close>, and the reads through it. The two narrowing casts are here as well:
  \<open>f64 as f32\<close> is the language's and written out on bit patterns, \<open>half::f16::from_f32\<close> is a
  third-party function and an argument.
\<close>

section \<open>Building the gathered walk\<close>

fun c_strides :: "nat list \<Rightarrow> nat list option" where
  "c_strides [] = Some []"
| "c_strides [d] = Some [1]"
| "c_strides (d # e # ds) =
     (case c_strides (e # ds) of
        None \<Rightarrow> None
      | Some ss \<Rightarrow> map_option (\<lambda>s. s # ss) (cmul (hd ss) e))"

type_synonym gather_state = "nat \<times> dim list \<times> nat option"

definition range_dim :: "nat \<Rightarrow> nat \<Rightarrow> int \<Rightarrow> aex_error + dim" where
  "range_dim stride len step =
     (case Option.bind (i64_of_u64 stride) (\<lambda>s. i64_cmul s step) of
        None \<Rightarrow> Err BadSelection
      | Some st \<Rightarrow> Ok (Stride len st))"

text \<open>One axis outside or inside the group, with its number and stride.\<close>

definition gather_axis ::
    "nat list \<Rightarrow> nat \<times> nat \<times> axis_sel \<Rightarrow> gather_state \<Rightarrow> aex_error + gather_state" where
  "gather_axis grp item st =
     (case item of (axis, stride, sel) \<Rightarrow>
      case st of (base, dims, group_at) \<Rightarrow>
        if axis \<in> set grp then Ok (base, dims, Some (unwrap_or group_at (length dims)))
        else case sel of
          Point i \<Rightarrow> Ok (wadd base (wmul i stride), dims, group_at)
        | Range start len step \<Rightarrow>
            let base = wadd base (wmul start stride) in
            if len > 1 then res_map (\<lambda>d. (base, dims @ [d], group_at)) (range_dim stride len step)
            else Ok (base, dims, group_at)
        | Listed _ \<Rightarrow> undefined)"

fun gather_loop ::
    "nat list \<Rightarrow> (nat \<times> nat \<times> axis_sel) list \<Rightarrow> gather_state \<Rightarrow> aex_error + gather_state" where
  "gather_loop grp [] st = Ok st"
| "gather_loop grp (item # rest) st =
     res_bind (gather_axis grp item st) (gather_loop grp rest)"

definition add_offsets :: "nat \<Rightarrow> nat list \<Rightarrow> nat list \<Rightarrow> nat list" where
  "add_offsets stride offsets list =
     map2 (\<lambda>offset i. wadd offset (wmul i stride)) (take (length list) offsets) list
     @ drop (length list) offsets"

definition group_axis :: "nat \<times> axis_sel \<Rightarrow> nat \<times> nat list \<Rightarrow> nat \<times> nat list" where
  "group_axis item st =
     (case item of (stride, sel) \<Rightarrow>
      case st of (base, offsets) \<Rightarrow>
        (case sel of
           Point i \<Rightarrow> (wadd base (wmul i stride), offsets)
         | Listed list \<Rightarrow>
             if length list = 1 then (wadd base (wmul (list ! 0) stride), offsets)
             else (base, add_offsets stride offsets list)
         | Range _ _ _ \<Rightarrow> undefined))"

definition insert_at :: "nat \<Rightarrow> 'a \<Rightarrow> 'a list \<Rightarrow> 'a list" where
  "insert_at i x xs = take i xs @ x # drop i xs"

definition gathered_new :: "nat list \<Rightarrow> resolved \<Rightarrow> aex_error + gathered" where
  "gathered_new shape r =
     (case c_strides shape of
        None \<Rightarrow> Err BadSelection
      | Some strides \<Rightarrow>
          let axes = rs_axes r;
              grp = (case rs_advanced r of None \<Rightarrow> [] | Some a \<Rightarrow> adv_axes a)
          in res_map
               (\<lambda>(base, dims, group_at).
                  case rs_advanced r of
                    None \<Rightarrow> \<lparr>g_base = base, g_dims = dims\<rparr>
                  | Some a \<Rightarrow>
                      let (base, offsets) =
                            foldl (\<lambda>st axis. group_axis (strides ! axis, axes ! axis) st)
                              (base, replicate (adv_len a) 0) (adv_axes a);
                          at = (if adv_adjacent a then unwrap_or group_at 0 else 0)
                      in \<lparr>g_base = base,
                          g_dims = (if adv_len a > 1 then insert_at at (Offsets offsets) dims
                                    else dims)\<rparr>)
               (gather_loop grp (zip [0..<length axes] (zip strides axes)) (0, [], None)))"

section \<open>The layout\<close>

datatype layout_kind =
  Contiguous nat nat
| Gathered gathered

record layout =
  lay_out_shape :: "nat list"
  lay_dtype :: dtype
  lay_src_dtype :: dtype
  lay_total_bytes :: nat
  lay_quality :: quality_spec
  lay_kind :: layout_kind

definition understood :: "build \<Rightarrow> quality_spec \<Rightarrow> dtype \<Rightarrow> bool" where
  "understood b q d =
     (case q_encoding q of
        DtypeCast \<Rightarrow> wire_dtype b q d \<noteq> d
      | _ \<Rightarrow> True)"

definition layout_resolve ::
    "build \<Rightarrow> nat list \<Rightarrow> dtype \<Rightarrow> index list \<Rightarrow> quality_spec \<Rightarrow> aex_error + layout" where
  "layout_resolve b shape d indices q =
     (let wire = wire_dtype b q d in
      if \<not> understood b q d then Err UnsupportedSelection
      else res_bind (resolve shape indices) (\<lambda>r.
        case cmul (num_elements r) (itemsize wire) of
          None \<Rightarrow> Err BadSelection
        | Some total_bytes \<Rightarrow>
            res_map
              (\<lambda>kind. \<lparr>lay_out_shape = rs_out_shape r, lay_dtype = wire, lay_src_dtype = d,
                       lay_total_bytes = total_bytes, lay_quality = q, lay_kind = kind\<rparr>)
              (case (if walks_independently r then contiguous_run shape (rs_axes r) else None) of
                 Some (offset_elements, len_elements) \<Rightarrow>
                   Ok (Contiguous (wmul offset_elements (itemsize d)) total_bytes)
               | None \<Rightarrow> res_map Gathered (gathered_new shape r))))"

definition check_range :: "layout \<Rightarrow> nat \<Rightarrow> nat \<Rightarrow> aex_error + unit" where
  "check_range lay offset len =
     (case cadd offset len of
        None \<Rightarrow> Err (OutOfRange offset len (lay_total_bytes lay))
      | Some end \<Rightarrow>
          if end > lay_total_bytes lay then Err (OutOfRange offset len (lay_total_bytes lay))
          else Ok ())"

definition row_bytes :: "layout \<Rightarrow> nat option" where
  "row_bytes lay =
     (if lay_out_shape lay = [] then None
      else Option.bind (cmul (last (lay_out_shape lay)) (itemsize (lay_dtype lay)))
             (\<lambda>row. if row > 0 then Some row else None))"

definition source_run :: "layout \<Rightarrow> nat \<Rightarrow> nat \<Rightarrow> (nat \<times> nat) option" where
  "source_run lay offset len =
     (case lay_kind lay of
        Contiguous src_offset _ \<Rightarrow>
          Option.bind (csub (lay_total_bytes lay) offset) (\<lambda>left.
            let len = min len left in
            if len = 0 then None
            else
              let wide = itemsize (lay_src_dtype lay);
                  narrow = itemsize (lay_dtype lay);
                  first = offset div narrow;
                  count = wsub (div_ceil (wadd offset len) narrow) first
              in Some (wadd src_offset (wmul first wide), wmul count wide))
      | Gathered _ \<Rightarrow> None)"

section \<open>Casting\<close>

definition nat_of_bool :: "bool \<Rightarrow> nat" where "nat_of_bool b = (if b then 1 else 0)"

text \<open>Drop \<open>shift\<close> low bits of \<open>m\<close>, to nearest, ties to even.\<close>

definition round_shift :: "nat \<Rightarrow> nat \<Rightarrow> nat" where
  "round_shift m shift =
     (let q = m div 2 ^ shift; r = m mod 2 ^ shift in
      if 2 * r > 2 ^ shift \<or> 2 * r = 2 ^ shift \<and> odd q then q + 1 else q)"

text \<open>The magnitude of \<open>x as f32\<close> from the exponent and fraction fields of an \<open>f64\<close>.\<close>

definition f32_magnitude :: "nat \<Rightarrow> nat \<Rightarrow> nat" where
  "f32_magnitude e m =
     (if e = 2047 then
        (if m = 0 then 0x7F800000 else 0x7FC00000 + (m div 2 ^ 29) mod 2 ^ 22)
      else if e = 0 then 0
      else if e > 1023 + 127 then 0x7F800000
      else if e \<ge> 897 then (e - 897) * 2 ^ 23 + round_shift (2 ^ 52 + m) 29
      else round_shift (2 ^ 52 + m) (29 + (897 - e)))"

definition f64_to_f32 :: "f64 \<Rightarrow> u32" where
  "f64_to_f32 x =
     of_nat (nat_of_bool (f64_sign x) * 2 ^ 31
             + f32_magnitude (unat (f64_exponent x)) (unat (f64_fraction x)))"

definition chunks_exact :: "nat \<Rightarrow> 'a list \<Rightarrow> 'a list list" where
  "chunks_exact n xs = map (\<lambda>i. slice xs (i * n) n) [0..<length xs div n]"

definition cast_elem :: "(bytes \<Rightarrow> bytes) \<Rightarrow> dtype \<Rightarrow> dtype \<Rightarrow> (nat \<times> nat \<times> (bytes \<Rightarrow> bytes)) option" where
  "cast_elem f16_from_f32 frm to_dtype =
     (if frm = Float64 \<and> to_dtype = Float32
        then Some (8, 4, \<lambda>wide. to_le (f64_to_f32 (of_le wide)))
      else if frm = Float32 \<and> to_dtype = Float16 then Some (4, 2, f16_from_f32)
      else None)"

text \<open>
  \<open>cast_into\<close> overwrites as many elements of \<open>dst\<close> as both sides have; the caller sizes them alike.
\<close>

definition cast_into :: "(bytes \<Rightarrow> bytes) \<Rightarrow> dtype \<Rightarrow> dtype \<Rightarrow> bytes \<Rightarrow> bytes \<Rightarrow> aex_error + bytes" where
  "cast_into f16_from_f32 frm to_dtype src dst =
     (case cast_elem f16_from_f32 frm to_dtype of
        None \<Rightarrow> Err UnsupportedSelection
      | Some (wide, narrow, f) \<Rightarrow>
          Ok (write_at dst 0
                (concat (map (\<lambda>(w, _). f w) (zip (chunks_exact wide src) (chunks_exact narrow dst))))))"

section \<open>Reading\<close>

definition read_source ::
    "layout \<Rightarrow> nat \<Rightarrow> nat \<Rightarrow> bytes \<Rightarrow> read_src \<Rightarrow> (aex_error + bytes) option" where
  "read_source lay isz offset dst read_src =
     (case lay_kind lay of
        Contiguous src_offset _ \<Rightarrow> Some (read_src (wadd src_offset offset) (length dst))
      | Gathered g \<Rightarrow> gathered_read g isz offset dst read_src)"

definition read_cast ::
    "(bytes \<Rightarrow> bytes) \<Rightarrow> layout \<Rightarrow> nat \<Rightarrow> bytes \<Rightarrow> read_src \<Rightarrow> (aex_error + bytes) option" where
  "read_cast f16_from_f32 lay offset dst read_src =
     (let wide = itemsize (lay_src_dtype lay);
          narrow = itemsize (lay_dtype lay);
          first = offset div narrow;
          count = wsub (div_ceil (wadd offset (length dst)) narrow) first;
          skip = wsub offset (wmul first narrow);
          source = replicate (wmul count wide) 0;
          narrowed = replicate (wmul count narrow) 0
      in map_option
           (\<lambda>got. res_bind got (\<lambda>source.
              res_map (\<lambda>narrowed. slice narrowed skip (length dst))
                (cast_into f16_from_f32 (lay_src_dtype lay) (lay_dtype lay) source narrowed)))
           (read_source lay wide (wmul first wide) source read_src))"

definition read_with ::
    "(bytes \<Rightarrow> bytes) \<Rightarrow> layout \<Rightarrow> nat \<Rightarrow> bytes \<Rightarrow> read_src \<Rightarrow> (aex_error + bytes) option" where
  "read_with f16_from_f32 lay offset dst read_src =
     (case check_range lay offset (length dst) of
        Err e \<Rightarrow> Some (Err e)
      | Ok _ \<Rightarrow>
          if lay_dtype lay = lay_src_dtype lay
          then read_source lay (itemsize (lay_dtype lay)) offset dst read_src
          else read_cast f16_from_f32 lay offset dst read_src)"

end
