(* ===== verification/Normalise.thy ===== *)
theory Normalise
  imports Layout
begin

text \<open>
  What \<open>resolve\<close> guarantees of its result: every axis of the array has one selection, all of its
  indices lie inside the axis, lists and scalar indices are where the advanced group says, and a
  slice names the elements Python's \<open>range(*slice(start, stop, step).indices(dim))\<close> does.
\<close>

section \<open>The indices of one axis\<close>

fun axis_indices :: "axis_sel \<Rightarrow> nat list" where
  "axis_indices (Point i) = [i]"
| "axis_indices (Range start len step) = map (\<lambda>j. nat (int start + int j * step)) [0..<len]"
| "axis_indices (Listed list) = list"

lemma length_axis_indices [simp]: "length (axis_indices sel) = sel_len sel"
  by (cases sel) simp_all

text \<open>An axis and whether it is in the group, against the length of the axis.\<close>

fun sel_ok :: "nat \<Rightarrow> axis_sel \<times> bool \<Rightarrow> bool" where
  "sel_ok dim (Point i, adv) \<longleftrightarrow> i < dim"
| "sel_ok dim (Range start len step, adv) \<longleftrightarrow>
     \<not> adv \<and> step \<noteq> 0 \<and> (\<forall>j < len. 0 \<le> int start + int j * step \<and> int start + int j * step < int dim)"
| "sel_ok dim (Listed list, adv) \<longleftrightarrow> adv \<and> (\<forall>i \<in> set list. i < dim)"

lemma sel_ok_indices: "sel_ok dim (sel, adv) \<Longrightarrow> i \<in> set (axis_indices sel) \<Longrightarrow> i < dim"
  by (cases sel) (auto simp: nat_less_iff)

section \<open>Slices\<close>

text \<open>Python's \<open>slice.indices\<close> and \<open>range\<close>.\<close>

definition py_bound :: "int \<Rightarrow> int \<Rightarrow> int \<Rightarrow> int" where
  "py_bound step dim b =
     (let b = (if b < 0 then b + dim else b) in
      if step > 0 then max 0 (min dim b) else max (-1) (min (dim - 1) b))"

definition py_start :: "int option \<Rightarrow> int \<Rightarrow> int \<Rightarrow> int" where
  "py_start start step dim =
     (case start of Some b \<Rightarrow> py_bound step dim b | None \<Rightarrow> if step > 0 then 0 else dim - 1)"

definition py_stop :: "int option \<Rightarrow> int \<Rightarrow> int \<Rightarrow> int" where
  "py_stop stop step dim =
     (case stop of Some b \<Rightarrow> py_bound step dim b | None \<Rightarrow> if step > 0 then dim else -1)"

function py_range :: "int \<Rightarrow> int \<Rightarrow> int \<Rightarrow> int list" where
  "py_range a b step =
     (if step > 0 \<and> a < b \<or> step < 0 \<and> b < a then a # py_range (a + step) b step else [])"
  by pat_completeness auto
termination
  by (relation "measure (\<lambda>(a, b, step). nat (if step > 0 then b - a else a - b))") auto

declare py_range.simps [simp del]

lemma slice_count_step:
  assumes "step > 0 \<and> a < b \<or> step < 0 \<and> b < a"
  shows "slice_count a b step = 1 + slice_count (a + step) b step"
proof -
  define s where "s = \<bar>step\<bar>"
  define d where "d = (if step > 0 then b - a else a - b)"
  have "0 < s" "0 < d" using assms by (auto simp: s_def d_def)
  have "slice_count a b step = 1 + (d - 1) div s"
    using assms \<open>0 < d\<close> by (auto simp: slice_count_def d_def s_def)
  moreover have "slice_count (a + step) b step = (if d - s > 0 then 1 + (d - s - 1) div s else 0)"
    using assms by (auto simp: slice_count_def d_def s_def diff_diff_eq algebra_simps)
  moreover have "(d - 1) div s = (if d - s > 0 then 1 + (d - s - 1) div s else 0)"
  proof (cases "d - s > 0")
    case True
    have "(d - s - 1 + s) div s = (d - s - 1) div s + 1" using \<open>0 < s\<close> by (intro div_add_self2) simp
    then show ?thesis using True by simp
  qed (use \<open>0 < d\<close> in simp)
  ultimately show ?thesis by simp
qed

lemma slice_count_nonneg: "0 \<le> slice_count a b step"
  by (simp add: slice_count_def div_int_pos_iff)

lemma py_range_Cons:
  "step > 0 \<and> a < b \<or> step < 0 \<and> b < a \<Longrightarrow> py_range a b step = a # py_range (a + step) b step"
  by (subst py_range.simps) simp

lemma py_range_Nil:
  "\<not> (step > 0 \<and> a < b \<or> step < 0 \<and> b < a) \<Longrightarrow> py_range a b step = []"
  by (subst py_range.simps) simp

lemma py_range_count:
  "step \<noteq> 0 \<Longrightarrow> py_range a b step = map (\<lambda>j. a + int j * step) [0..<nat (slice_count a b step)]"
proof (induction a b step rule: py_range.induct)
  case (1 a b step)
  show ?case
  proof (cases "step > 0 \<and> a < b \<or> step < 0 \<and> b < a")
    case True
    define n where "n = nat (slice_count (a + step) b step)"
    have "nat (slice_count a b step) = Suc n"
      using slice_count_step [OF True] slice_count_nonneg [of "a + step" b step] by (simp add: n_def)
    moreover have "[0..<Suc n] = 0 # map Suc [0..<n]" by (simp only: upt_conv_Cons map_Suc_upt zero_less_Suc)
    moreover have "py_range (a + step) b step = map (\<lambda>j. a + step + int j * step) [0..<n]"
      using "1.IH" [OF True "1.prems"] by (simp only: n_def)
    ultimately show ?thesis by (simp add: py_range_Cons [OF True] comp_def algebra_simps del: upt_Suc)
  next
    case False
    then have "slice_count a b step = 0" using "1.prems" by (auto simp: slice_count_def)
    then show ?thesis by (simp add: py_range_Nil [OF False])
  qed
qed

lemma py_range_range: "x \<in> set (py_range a b step) \<Longrightarrow>
    (step > 0 \<and> a \<le> x \<and> x < b) \<or> (step < 0 \<and> b < x \<and> x \<le> a)"
proof (induction a b step rule: py_range.induct)
  case (1 a b step)
  show ?case
  proof (cases "step > 0 \<and> a < b \<or> step < 0 \<and> b < a")
    case True
    then have "x = a \<or> x \<in> set (py_range (a + step) b step)"
      using "1.prems" by (simp add: py_range_Cons)
    then show ?thesis using "1.IH" [OF True] True by auto
  qed (use "1.prems" in \<open>simp add: py_range_Nil\<close>)
qed

definition opt_i64 :: "int option \<Rightarrow> bool" where
  "opt_i64 b \<longleftrightarrow> (case b of Some b \<Rightarrow> is_i64 b | None \<Rightarrow> True)"

lemma slice_start_py:
  assumes "opt_i64 start" "0 \<le> dim" "is_i64 dim"
  shows "slice_start start step dim = py_start start step dim"
  using assms
  by (auto simp: slice_start_def py_start_def clamp_bound_def py_bound_def i64_sat_add_def
      is_i64_def I64_MIN_def I64_MAX_def opt_i64_def max_def min_def Let_def split: option.splits)

lemma slice_stop_py:
  assumes "opt_i64 stop" "0 \<le> dim" "is_i64 dim"
  shows "slice_stop stop step dim = py_stop stop step dim"
  using assms
  by (auto simp: slice_stop_def py_stop_def clamp_bound_def py_bound_def i64_sat_add_def
      is_i64_def I64_MIN_def I64_MAX_def opt_i64_def max_def min_def Let_def split: option.splits)

lemma py_bounds:
  assumes "0 \<le> dim"
  shows "step > 0 \<Longrightarrow> 0 \<le> py_start start step dim" "step > 0 \<Longrightarrow> py_stop stop step dim \<le> dim"
    "step \<le> 0 \<Longrightarrow> py_start start step dim < dim" "step \<le> 0 \<Longrightarrow> -1 \<le> py_stop stop step dim"
  using assms by (auto simp: py_start_def py_stop_def py_bound_def Let_def split: option.splits)

lemma py_slice_bounds:
  assumes "0 \<le> dim" "x \<in> set (py_range (py_start start step dim) (py_stop stop step dim) step)"
  shows "0 \<le> x \<and> x < dim"
  using py_range_range [OF assms(2)] py_bounds(1,3) [OF assms(1), of step start]
    py_bounds(2,4) [OF assms(1), of step stop] by linarith

lemma py_slice_nth:
  assumes "map f [0..<n] = py_range (py_start start step dim) (py_stop stop step dim) step" "0 \<le> dim" "j < n"
  shows "0 \<le> f j \<and> f j < dim"
proof -
  have "f j \<in> set (map f [0..<n])" using assms(3) by simp
  then show ?thesis using py_slice_bounds [OF assms(2)] by (simp only: assms(1))
qed

lemma resolve_slice_range:
  assumes "resolve_slice start stop step dim = Ok sel"
    and "opt_i64 start" "opt_i64 stop" "0 \<le> dim" "is_i64 dim"
  shows "\<exists>s len. sel = Range s len (unwrap_or step 1) \<and> unwrap_or step 1 \<noteq> 0
    \<and> map (\<lambda>j. int s + int j * unwrap_or step 1) [0..<len] =
      py_range (py_start start (unwrap_or step 1) dim) (py_stop stop (unwrap_or step 1) dim) (unwrap_or step 1)"
    (is "\<exists>s len. _ = Range _ _ ?s \<and> _ \<and> _ = py_range ?a ?b _")
proof -
  define n where "n = slice_count ?a ?b ?s"
  have s: "?s \<noteq> 0" using assms(1) by (auto simp: resolve_slice_def slice_step_def Let_def split: if_splits)
  have range: "py_range ?a ?b ?s = map (\<lambda>j. ?a + int j * ?s) [0..<nat n]"
    using py_range_count [OF s] by (simp add: n_def)
  have "0 \<le> n" by (simp add: n_def slice_count_nonneg)
  have n: "n \<le> dim"
  proof (cases "n > 0")
    case True
    define m where "m = (if ?s > 0 then ?b - ?a else ?a - ?b)"
    have "n = 1 + (m - 1) div \<bar>?s\<bar>" "0 < m"
      using True by (auto simp: n_def m_def slice_count_def Let_def split: if_splits)
    moreover have "(m - 1) div \<bar>?s\<bar> \<le> m - 1"
      using zdiv_mono2 [of "m - 1" 1 "\<bar>?s\<bar>"] s \<open>0 < m\<close> by simp
    moreover have "m \<le> dim"
      using py_bounds(1,3) [OF assms(4), of ?s start] py_bounds(2,4) [OF assms(4), of ?s stop]
      by (auto simp: m_def)
    ultimately show ?thesis by linarith
  qed (use \<open>0 \<le> n\<close> assms(4) in simp)
  have sel: "sel = (if n = 0 then Range 0 0 ?s else Range (u64_of_i64 ?a) (nat (n mod 2 ^ 64)) ?s)"
    using assms by (auto simp: resolve_slice_def slice_step_def slice_start_py slice_stop_py
        n_def Let_def split: if_splits)
  show ?thesis
  proof (cases "n = 0")
    case True
    then show ?thesis using sel range s by simp
  next
    case False
    have "n mod 2 ^ 64 = n"
      using n \<open>0 \<le> n\<close> assms(5) by (intro mod_pos_pos_trivial) (auto simp: is_i64_def I64_MAX_def)
    moreover have in_dim: "0 \<le> ?a + int j * ?s \<and> ?a + int j * ?s < dim" if "j < nat n" for j
      using py_slice_nth [OF range [symmetric] assms(4) that] .
    moreover have "int (u64_of_i64 ?a) = ?a"
      using in_dim [of 0] False \<open>0 \<le> n\<close> assms(5)
      by (auto simp: int_u64_of_i64 U64_def is_i64_def I64_MAX_def)
    ultimately show ?thesis using sel range False s by auto
  qed
qed

lemma resolve_slice_ok:
  assumes "resolve_slice start stop step (int dim) = Ok sel"
    and "opt_i64 start" "opt_i64 stop" "is_i64 (int dim)"
  shows "sel_ok dim (sel, False)"
    and "map int (axis_indices sel) =
      py_range (py_start start (unwrap_or step 1) (int dim)) (py_stop stop (unwrap_or step 1) (int dim))
        (unwrap_or step 1)"
proof -
  obtain s len where sel: "sel = Range s len (unwrap_or step 1)" "unwrap_or step 1 \<noteq> 0"
    and eq: "map (\<lambda>j. int s + int j * unwrap_or step 1) [0..<len] =
      py_range (py_start start (unwrap_or step 1) (int dim)) (py_stop stop (unwrap_or step 1) (int dim))
        (unwrap_or step 1)"
    using resolve_slice_range [OF assms(1-3) _ assms(4)] by auto
  have "0 \<le> int s + int j * unwrap_or step 1 \<and> int s + int j * unwrap_or step 1 < int dim"
    if "j < len" for j
    using py_slice_nth [OF eq _ that] by simp
  then show "sel_ok dim (sel, False)"
    and "map int (axis_indices sel) =
      py_range (py_start start (unwrap_or step 1) (int dim)) (py_stop stop (unwrap_or step 1) (int dim))
        (unwrap_or step 1)"
    using sel by (auto simp flip: eq)
qed

section \<open>Resolving an index against its axis\<close>

fun index_i64 :: "index \<Rightarrow> bool" where
  "index_i64 (Single i) = is_i64 i"
| "index_i64 (Slice a b c) = (opt_i64 a \<and> opt_i64 b \<and> opt_i64 c)"
| "index_i64 (Fancy is) = list_all is_i64 is"
| "index_i64 _ = True"

text \<open>A negative index counts from the end.\<close>

lemma normalize_index_Ok:
  assumes "is_i64 i" "is_i64 (int dim)"
  shows "normalize_index i (int dim) = Ok k \<longleftrightarrow>
    (if i < 0 then i + int dim else i) = int k \<and> k < dim"
  using assms
  by (auto simp: normalize_index_def i64_sat_add_def is_i64_def I64_MIN_def I64_MAX_def Let_def
      u64_of_i64_nonneg max_def min_def nat_eq_iff)

lemma i64_of_u64_Some [simp]: "i64_of_u64 n = Some k \<longleftrightarrow> k = int n \<and> is_i64 (int n)"
  by (auto simp: i64_of_u64_def is_i64_def I64_MIN_def)

lemma resolve_axis_ok:
  assumes "resolve_axis ix dim = Ok sel" "consumes_axis ix" "index_i64 ix"
    and "case ix of Fancy _ \<Rightarrow> has_array | _ \<Rightarrow> True"
  shows "sel_ok dim (sel, joins_group has_array ix)"
proof -
  have dim: "is_i64 (int dim)" "i64_of_u64 dim = Some (int dim)"
    using assms(1) by (auto simp: resolve_axis_def split: option.splits)
  show ?thesis
  proof (cases ix)
    case (Single i)
    then show ?thesis using assms dim
      by (auto simp: resolve_axis_def res_map_Ok normalize_index_Ok)
  next
    case (Slice a b c)
    then show ?thesis
      using assms dim resolve_slice_ok(1) [of a b c dim sel] by (simp add: resolve_axis_def joins_group_def)
  next
    case (Fancy xs)
    then obtain ks where "sel = Listed ks"
      "list_all2 (\<lambda>i k. normalize_index i (int dim) = Ok k) xs ks"
      using assms(1) dim by (auto simp: resolve_axis_def res_map_Ok dest: res_traverse_Ok)
    moreover from this(2) have "\<forall>k \<in> set ks. k < dim"
      using assms(3) dim(1) Fancy
      by (fastforce simp: list_all2_conv_all_nth in_set_conv_nth list_all_length normalize_index_Ok)
    ultimately show ?thesis using Fancy assms(4) by (simp add: joins_group_def)
  qed (use assms(2) in simp_all)
qed

section \<open>The axes of an expanded selection\<close>

fun axis_entries :: "entry list \<Rightarrow> (axis_sel \<times> bool) list" where
  "axis_entries [] = []"
| "axis_entries (New # es) = axis_entries es"
| "axis_entries (Axis sel adv # es) = (sel, adv) # axis_entries es"

lemma axis_entries_append [simp]: "axis_entries (xs @ ys) = axis_entries xs @ axis_entries ys"
  by (induction xs rule: axis_entries.induct) simp_all

lemma axis_entries_wholes [simp]:
  "axis_entries (wholes shape axis implied) = map (\<lambda>a. (whole (shape ! a), False)) [axis..<axis + implied]"
proof -
  have "axis_entries (map (\<lambda>a. Axis (f a) False) as) = map (\<lambda>a. (f a, False)) as" for f and as :: "nat list"
    by (induction as) simp_all
  then show ?thesis by (simp add: wholes_def)
qed

lemma wholes_ok:
  "axis + implied \<le> length shape \<Longrightarrow>
   list_all2 sel_ok (slice shape axis implied) (axis_entries (wholes shape axis implied))"
  by (auto simp: list_all2_conv_all_nth whole_def)

definition ellipses :: "index list \<Rightarrow> nat" where "ellipses ixs = count_list ixs Ellipsis"
definition consuming :: "index list \<Rightarrow> nat" where "consuming ixs = length (filter consumes_axis ixs)"

lemma scan_indices_Ok:
  "scan_indices ixs (c, e, h) = Ok (c', e', h') \<Longrightarrow>
   c' = c + consuming ixs \<and> e' = (e \<or> 0 < ellipses ixs)
   \<and> ellipses ixs \<le> (if e then 0 else 1) \<and> h' = (h \<or> (\<exists>xs. Fancy xs \<in> set ixs))"
proof (induction ixs arbitrary: c e h)
  case (Cons ix ixs)
  have count: "consuming (ix # ixs) = (if consumes_axis ix then Suc (consuming ixs) else consuming ixs)"
    "ellipses (ix # ixs) = (if ix = Ellipsis then Suc (ellipses ixs) else ellipses ixs)"
    by (simp_all add: consuming_def ellipses_def)
  show ?case
  proof (cases ix)
    case Ellipsis
    then have "\<not> e" "scan_indices ixs (c, True, h) = Ok (c', e', h')"
      using Cons.prems by (auto split: if_splits)
    then show ?thesis using Cons.IH [of c True h] count Ellipsis by auto
  next
    case NewAxis
    then show ?thesis using Cons.IH [of c e h] Cons.prems count by auto
  next
    case (Single i)
    then show ?thesis using Cons.IH [of "c + 1" e h] Cons.prems count by auto
  next
    case (Slice i j k)
    then show ?thesis using Cons.IH [of "c + 1" e h] Cons.prems count by auto
  next
    case (Fancy xs)
    then show ?thesis using Cons.IH [of "c + 1" e True] Cons.prems count by auto
  qed
qed (simp add: consuming_def ellipses_def)

lemma expand_loop_ok:
  "expand_loop shape h implied ixs axis = Ok (es, axis') \<Longrightarrow> list_all index_i64 ixs \<Longrightarrow>
   (\<forall>xs. Fancy xs \<in> set ixs \<longrightarrow> h) \<Longrightarrow>
   axis + consuming ixs + implied * ellipses ixs \<le> length shape \<Longrightarrow>
   axis' = axis + consuming ixs + implied * ellipses ixs \<and>
   list_all2 sel_ok (slice shape axis (axis' - axis)) (axis_entries es)"
proof (induction ixs arbitrary: axis es axis')
  case Nil
  then show ?case by (simp add: consuming_def ellipses_def)
next
  case (Cons ix ixs)
  have step: "list_all2 sel_ok (slice shape axis (Suc n)) ((sel, b) # es0)"
    if "sel_ok (shape ! axis) (sel, b)" "list_all2 sel_ok (slice shape (Suc axis) n) es0" "axis < length shape"
    for sel b es0 n
    using that by (simp add: slice_def Cons_nth_drop_Suc [symmetric])
  consider "ix = NewAxis" | "ix = Ellipsis" | "consumes_axis ix" by (cases ix) auto
  then show ?case
  proof cases
    case 1
    then obtain es0 where e: "es = New # es0" "expand_loop shape h implied ixs axis = Ok (es0, axis')"
      using Cons.prems(1) by (auto simp: res_map_Ok)
    have "consuming (ix # ixs) = consuming ixs" "ellipses (ix # ixs) = ellipses ixs"
      using 1 by (simp_all add: consuming_def ellipses_def)
    then show ?thesis using Cons.IH [OF e(2)] Cons.prems(2-4) e(1) by auto
  next
    case 2
    then obtain es0 where e: "es = wholes shape axis implied @ es0"
        "expand_loop shape h implied ixs (axis + implied) = Ok (es0, axis')"
      using Cons.prems(1) by (auto simp: res_map_Ok)
    have cnt: "consuming (ix # ixs) = consuming ixs" "ellipses (ix # ixs) = Suc (ellipses ixs)"
      using 2 by (simp_all add: consuming_def ellipses_def)
    have "axis' = axis + implied + consuming ixs + implied * ellipses ixs \<and>
      list_all2 sel_ok (slice shape (axis + implied) (axis' - (axis + implied))) (axis_entries es0)"
      by (rule Cons.IH [OF e(2)]) (use Cons.prems(2-4) cnt in \<open>auto simp: algebra_simps\<close>)
    note IH = conjunct1 [OF this] conjunct2 [OF this]
    have "list_all2 sel_ok (slice shape axis implied @ slice shape (axis + implied) (axis' - (axis + implied)))
        (axis_entries es)"
      unfolding e(1) axis_entries_append using IH(2) Cons.prems 2
      by (intro list_all2_appendI wholes_ok) (simp_all add: ellipses_def)
    moreover have "axis' - axis = implied + (axis' - (axis + implied))" using IH(1) by simp
    ultimately show ?thesis using IH(1) 2
      by (simp add: slice_add consuming_def ellipses_def algebra_simps)
  next
    case 3
    then obtain sel es0 where e: "resolve_axis ix (shape ! axis) = Ok sel"
        "es = Axis sel (joins_group h ix) # es0" "expand_loop shape h implied ixs (Suc axis) = Ok (es0, axis')"
      using Cons.prems(1) by (cases ix) (auto simp: res_map_Ok res_bind_Ok)
    have cnt: "consuming (ix # ixs) = Suc (consuming ixs)" "ellipses (ix # ixs) = ellipses ixs"
      using 3 by (auto simp: consuming_def ellipses_def)
    have "axis' = Suc axis + consuming ixs + implied * ellipses ixs \<and>
      list_all2 sel_ok (slice shape (Suc axis) (axis' - Suc axis)) (axis_entries es0)"
      by (rule Cons.IH [OF e(3)]) (use Cons.prems(2-4) cnt in auto)
    note IH = conjunct1 [OF this] conjunct2 [OF this]
    have "sel_ok (shape ! axis) (sel, joins_group h ix)"
      using e(1) 3 Cons.prems(2,3) by (intro resolve_axis_ok) (auto split: index.splits)
    then have "list_all2 sel_ok (slice shape axis (Suc (axis' - Suc axis))) (axis_entries es)"
      unfolding e(2) axis_entries.simps using IH Cons.prems(4) cnt by (intro step) simp_all
    moreover have "axis' - axis = Suc (axis' - Suc axis)" using IH(1) by simp
    ultimately show ?thesis using IH(1) cnt by simp
  qed
qed

lemma expand_ok:
  assumes "expand shape ixs = Ok es" "list_all index_i64 ixs"
  shows "list_all2 sel_ok shape (axis_entries es)"
proof -
  obtain c e h es0 axis where scan: "scan_indices ixs (0, False, False) = Ok (c, e, h)" "c \<le> length shape"
    and loop: "expand_loop shape h (length shape - c) ixs 0 = Ok (es0, axis)"
    and es: "es = (if e then es0 else es0 @ wholes shape axis (length shape - c))"
    using assms(1) by (auto simp: expand_def res_bind_Ok res_map_Ok Let_def split: if_splits)
  note sc = scan_indices_Ok [OF scan(1)]
  have axis: "axis = c + (length shape - c) * ellipses ixs"
    and ok: "list_all2 sel_ok (slice shape 0 axis) (axis_entries es0)"
  proof -
    have n: "c = consuming ixs" "ellipses ixs \<le> 1" "\<forall>xs. Fancy xs \<in> set ixs \<longrightarrow> h" using sc by auto
    have "(length shape - c) * ellipses ixs \<le> (length shape - c) * 1" using n(2) by (rule mult_le_mono2)
    then have "0 + consuming ixs + (length shape - c) * ellipses ixs \<le> length shape"
      using n(1) scan(2) by linarith
    note both = expand_loop_ok [OF loop assms(2) n(3) this]
    show "axis = c + (length shape - c) * ellipses ixs" "list_all2 sel_ok (slice shape 0 axis) (axis_entries es0)"
      using conjunct1 [OF both] conjunct2 [OF both] n(1) by simp_all
  qed
  show ?thesis
  proof (cases e)
    case True
    then have "ellipses ixs = 1" using sc by simp
    then show ?thesis using ok axis True es scan(2) by (simp add: slice_all)
  next
    case False
    then have "axis = c" using sc axis by simp
    then have "list_all2 sel_ok (slice shape 0 c @ slice shape c (length shape - c)) (axis_entries es)"
      using ok es False scan(2) by (auto intro!: list_all2_appendI wholes_ok simp del: axis_entries_wholes)
    then show ?thesis using slice_add [of shape 0 c "length shape - c"] scan(2) by (simp add: slice_all)
  qed
qed

section \<open>The advanced group and the output shape\<close>

definition adv_flags :: "nat \<Rightarrow> (axis_sel \<times> bool) list \<Rightarrow> nat list" where
  "adv_flags ax ents = filter (\<lambda>a. snd (ents ! (a - ax))) [ax..<ax + length ents]"

lemma adv_flags_Nil [simp]: "adv_flags ax [] = []" by (simp add: adv_flags_def)

lemma adv_flags_Cons [simp]:
  "adv_flags ax (e # ents) = (if snd e then ax # adv_flags (Suc ax) ents else adv_flags (Suc ax) ents)"
proof -
  have "[ax..<ax + length (e # ents)] = ax # [Suc ax..<Suc ax + length ents]"
    by (simp add: upt_conv_Cons del: upt_Suc)
  moreover have "filter (\<lambda>a. snd ((e # ents) ! (a - ax))) [Suc ax..<Suc ax + length ents]
      = adv_flags (Suc ax) ents"
    unfolding adv_flags_def by (intro filter_cong refl) (auto simp: nth_Cons' Suc_diff_Suc)
  ultimately show ?thesis by (simp add: adv_flags_def)
qed

fun list_lengths :: "(axis_sel \<times> bool) list \<Rightarrow> nat list" where
  "list_lengths [] = []"
| "list_lengths ((Listed xs, True) # es) = length xs # list_lengths es"
| "list_lengths (_ # es) = list_lengths es"

lemma collect_spec:
  "collect pos ax es = (axes, grp, positions, lengths) \<Longrightarrow>
   axes = map fst (axis_entries es) \<and> grp = adv_flags ax (axis_entries es)
   \<and> lengths = list_lengths (axis_entries es)"
proof (induction es arbitrary: pos ax axes grp positions lengths)
  case (Cons e es)
  show ?case
  proof (cases e)
    case New
    then show ?thesis using Cons by simp
  next
    case (Axis sel adv)
    obtain axes0 grp0 ps0 ls0 where c: "collect (Suc pos) (Suc ax) es = (axes0, grp0, ps0, ls0)"
      by (metis prod_cases4)
    show ?thesis
      using Cons.prems Cons.IH [OF c] Axis c by (cases sel; cases adv) auto
  qed
qed simp

lemma collect_positions:
  "collect pos ax es = (axes, grp, positions, lengths) \<Longrightarrow>
   length positions = length grp \<and>
   (grp \<noteq> [] \<longrightarrow> ax \<le> hd grp \<and> pos + (hd grp - ax) \<le> hd positions)
   \<and> (consecutive positions \<longrightarrow> consecutive grp)"
proof (induction es arbitrary: pos ax axes grp positions lengths)
  case (Cons e es)
  show ?case
  proof (cases e)
    case New
    then show ?thesis using Cons by fastforce
  next
    case (Axis sel adv)
    obtain axes0 grp0 ps0 ls0 where c: "collect (Suc pos) (Suc ax) es = (axes0, grp0, ps0, ls0)"
      by (metis prod_cases4)
    note IH = Cons.IH [OF c]
    show ?thesis
    proof (cases adv)
      case True
      then have "grp = ax # grp0" "positions = pos # ps0" using Cons.prems Axis c by auto
      then show ?thesis using IH by (cases grp0; cases ps0) auto
    next
      case False
      then have "grp = grp0" "positions = ps0" using Cons.prems Axis c by auto
      then show ?thesis using IH by (cases grp0) auto
    qed
  qed
qed simp

lemma broadcast_step_simps [simp]:
  "broadcast_step (Err e) l = Err e"
  "broadcast_step (Ok acc) l =
     (if l = 1 then Ok acc else if acc \<noteq> 1 \<and> acc \<noteq> l then Err BadSelection else Ok l)"
  by (simp_all add: broadcast_step_def)

lemma broadcast_Err [simp]: "foldl broadcast_step (Err e) ls = Err e"
  by (induction ls) simp_all

lemma broadcast_fold:
  "foldl broadcast_step (Ok acc) ls = Ok len \<Longrightarrow>
   (\<forall>l \<in> set ls. l = 1 \<or> l = len) \<and> (acc = 1 \<or> acc = len) \<and> (len = acc \<or> len \<in> set ls)"
proof (induction ls arbitrary: acc)
  case (Cons l ls)
  show ?case
  proof (cases "l = 1")
    case True
    then show ?thesis using Cons by auto
  next
    case False
    then have "\<not> (acc \<noteq> 1 \<and> acc \<noteq> l)" "foldl broadcast_step (Ok l) ls = Ok len"
      using Cons.prems by (auto split: if_splits)
    then show ?thesis using Cons.IH [of l] False by auto
  qed
qed simp

lemma broadcast_len_Ok:
  "broadcast_len ls = Ok len \<Longrightarrow> (\<forall>l \<in> set ls. l = 1 \<or> l = len) \<and> (len = 1 \<or> len \<in> set ls)"
  unfolding broadcast_len_def using broadcast_fold by blast

definition plain_count :: "(axis_sel \<times> bool) list \<Rightarrow> nat" where
  "plain_count ents = prod_list (map (\<lambda>(sel, adv). if adv then 1 else sel_len sel) ents)"

lemma plain_count_simps [simp]:
  "plain_count [] = 1"
  "plain_count ((sel, adv) # ents) = (if adv then 1 else sel_len sel) * plain_count ents"
  by (simp_all add: plain_count_def)

lemma out_len_factor: "prod_list (case out_len sel of Some len \<Rightarrow> len # xs | None \<Rightarrow> xs) = sel_len sel * prod_list xs"
  by (cases sel) simp_all

lemma out_dims_plain:
  "adv = None \<or> (\<exists>p. fp = Some p \<and> p < pos) \<Longrightarrow>
   prod_list (out_dims pos es adv fp) = plain_count (axis_entries es)"
proof (induction pos es adv fp rule: out_dims.induct)
  case (4 pos sel es adv fp)
  then show ?case by (cases sel) auto
qed (auto split: option.splits)

lemma out_dims_group:
  "collect pos ax es = (axes, grp, positions, lengths) \<Longrightarrow> positions \<noteq> [] \<Longrightarrow>
   prod_list (out_dims pos es (Some len) (first_of positions)) = len * plain_count (axis_entries es)"
proof (induction es arbitrary: pos ax axes grp positions lengths)
  case (Cons e es)
  show ?case
  proof (cases e)
    case New
    then show ?thesis using Cons by simp
  next
    case (Axis sel adv)
    obtain axes0 grp0 ps0 ls0 where c: "collect (Suc pos) (Suc ax) es = (axes0, grp0, ps0, ls0)"
      by (metis prod_cases4)
    show ?thesis
    proof (cases adv)
      case True
      then have "positions = pos # ps0" using Cons.prems Axis c by auto
      then show ?thesis using True Axis by (simp add: first_of_def out_dims_plain)
    next
      case False
      then have "positions = ps0" using Cons.prems Axis c by auto
      then show ?thesis using False Axis Cons.IH [OF c] Cons.prems(2) by (cases sel) auto
    qed
  qed
qed simp

section \<open>What a resolved selection satisfies\<close>

definition group_axes :: "resolved \<Rightarrow> nat list" where
  "group_axes r = (case rs_advanced r of None \<Rightarrow> [] | Some a \<Rightarrow> adv_axes a)"

definition group_count :: "resolved \<Rightarrow> nat" where
  "group_count r = (case rs_advanced r of None \<Rightarrow> 1 | Some a \<Rightarrow> adv_len a)"

definition resolved_ok :: "nat list \<Rightarrow> resolved \<Rightarrow> bool" where
  "resolved_ok shape r \<longleftrightarrow>
     length (rs_axes r) = length shape
     \<and> (\<forall>a < length shape. sel_ok (shape ! a) (rs_axes r ! a, a \<in> set (group_axes r)))
     \<and> sorted_wrt (<) (group_axes r) \<and> set (group_axes r) \<subseteq> {..<length shape}
     \<and> (\<forall>a \<in> set (group_axes r). \<forall>xs. rs_axes r ! a = Listed xs \<longrightarrow> length xs = 1 \<or> length xs = group_count r)
     \<and> (group_count r = 1 \<or> (\<exists>a \<in> set (group_axes r). \<exists>xs. rs_axes r ! a = Listed xs \<and> length xs = group_count r))
     \<and> (\<forall>adv. rs_advanced r = Some adv \<longrightarrow>
           adv_axes adv \<noteq> [] \<and> (adv_adjacent adv \<longrightarrow> consecutive (adv_axes adv)))
     \<and> prod_list (rs_out_shape r) =
         group_count r * prod_list (map (\<lambda>a. sel_len (rs_axes r ! a))
           (filter (\<lambda>a. a \<notin> set (group_axes r)) [0..<length shape]))"

lemma adv_flags_sorted: "sorted_wrt (<) (adv_flags ax ents)"
  by (simp add: adv_flags_def sorted_wrt_filter)

lemma set_adv_flags: "a \<in> set (adv_flags 0 ents) \<longleftrightarrow> a < length ents \<and> snd (ents ! a)"
  by (auto simp: adv_flags_def)

lemma adv_flags_empty: "adv_flags ax ents = [] \<Longrightarrow> \<forall>e \<in> set ents. \<not> snd e"
  by (induction ents arbitrary: ax) (auto split: if_splits)

lemma set_list_lengths: "l \<in> set (list_lengths ents) \<longleftrightarrow> (\<exists>xs. (Listed xs, True) \<in> set ents \<and> l = length xs)"
  by (induction ents rule: list_lengths.induct) auto

lemma prod_list_filter:
  "prod_list (map g (filter P xs)) = prod_list (map (\<lambda>x. if P x then g x else (1::nat)) xs)"
  by (induction xs) simp_all

lemma plain_count_filter:
  "plain_count ents = prod_list (map (\<lambda>a. sel_len (fst (ents ! a))) (filter (\<lambda>a. \<not> snd (ents ! a)) [0..<length ents]))"
  unfolding prod_list_filter plain_count_def
  by (intro arg_cong [where f = prod_list] nth_equalityI) (auto split: prod.splits)

lemma out_shape_count:
  assumes "collect 0 0 es = (axes, grp, positions, lengths)"
    and "case adv of None \<Rightarrow> True | Some a \<Rightarrow> grp \<noteq> []"
  shows "prod_list (out_shape es adv (first_of positions)) =
    (case adv of None \<Rightarrow> 1 | Some a \<Rightarrow> adv_len a) * plain_count (axis_entries es)"
proof (cases adv)
  case None
  then show ?thesis by (simp add: out_shape_def out_dims_plain)
next
  case (Some a)
  then have "positions \<noteq> []" using assms collect_positions [OF assms(1)] by auto
  then show ?thesis
    using Some by (simp add: out_shape_def out_dims_plain out_dims_group [OF assms(1)])
qed

lemma resolve_ok:
  assumes "resolve shape ixs = Ok r" "list_all index_i64 ixs"
  shows "resolved_ok shape r"
proof -
  obtain es axes grp positions lengths adv where es: "expand shape ixs = Ok es"
    and c: "collect 0 0 es = (axes, grp, positions, lengths)"
    and adv: "(if grp = [] then Ok None else res_map (\<lambda>len. Some \<lparr>adv_axes = grp, adv_len = len,
          adv_adjacent = consecutive positions\<rparr>) (broadcast_len lengths)) = Ok adv"
    and r: "r = \<lparr>rs_axes = axes, rs_out_shape = out_shape es adv (first_of positions), rs_advanced = adv\<rparr>"
  proof -
    obtain es where es: "expand shape ixs = Ok es" using assms(1) by (auto simp: resolve_def res_bind_Ok)
    obtain axes grp positions lengths where c: "collect 0 0 es = (axes, grp, positions, lengths)"
      by (metis prod_cases4)
    show ?thesis using assms(1) es c that by (auto simp: resolve_def res_map_Ok)
  qed
  define ents where "ents = axis_entries es"
  note cs = collect_spec [OF c, folded ents_def]
  have all2: "list_all2 sel_ok shape ents" unfolding ents_def by (rule expand_ok [OF es assms(2)])
  have len: "length ents = length shape" using all2 by (simp add: list_all2_lengthD)
  have grp: "group_axes r = grp" "grp = adv_flags 0 ents" "axes = map fst ents" "lengths = list_lengths ents"
    using adv r cs by (auto simp: group_axes_def res_map_Ok split: if_splits)
  have mem: "a \<in> set (group_axes r) \<longleftrightarrow> a < length shape \<and> snd (ents ! a)" for a
    by (simp add: grp(1,2) set_adv_flags len)
  have axes: "a < length shape \<Longrightarrow> rs_axes r ! a = fst (ents ! a)" for a
    using grp(3) len by (simp add: r)
  have oks: "sel_ok (shape ! a) (rs_axes r ! a, a \<in> set (group_axes r))" if "a < length shape" for a
    using list_all2_nthD [OF all2, of a] that axes [OF that] mem by (cases "ents ! a") simp
  have counts: "(\<forall>l \<in> set lengths. l = 1 \<or> l = group_count r) \<and> (group_count r = 1 \<or> group_count r \<in> set lengths)"
  proof (cases "grp = []")
    case True
    then have "lengths = []"
      using adv_flags_empty [of 0 ents] grp set_list_lengths [of _ ents] by (cases lengths) fastforce+
    then show ?thesis using True adv r by (simp add: group_count_def)
  next
    case False
    then show ?thesis
      using adv r broadcast_len_Ok [of lengths] by (auto simp: group_count_def res_map_Ok)
  qed
  have listed: "(Listed xs, True) \<in> set ents \<longleftrightarrow> (\<exists>a \<in> set (group_axes r). rs_axes r ! a = Listed xs)" for xs
  proof
    assume "(Listed xs, True) \<in> set ents"
    then obtain a where "a < length ents" "ents ! a = (Listed xs, True)" by (auto simp: in_set_conv_nth)
    then show "\<exists>a \<in> set (group_axes r). rs_axes r ! a = Listed xs"
      by (intro bexI [of _ a]) (simp_all add: mem axes len)
  next
    assume "\<exists>a \<in> set (group_axes r). rs_axes r ! a = Listed xs"
    then obtain a where "a < length ents" "snd (ents ! a)" "fst (ents ! a) = Listed xs"
      by (auto simp: mem axes len)
    then show "(Listed xs, True) \<in> set ents" by (metis nth_mem prod.collapse)
  qed
  have "prod_list (rs_out_shape r) = group_count r * plain_count ents"
    using out_shape_count [OF c, of adv] adv r
    by (auto simp: group_count_def ents_def res_map_Ok split: if_splits)
  moreover have "plain_count ents = prod_list (map (\<lambda>a. sel_len (rs_axes r ! a))
      (filter (\<lambda>a. a \<notin> set (group_axes r)) [0..<length shape]))"
    unfolding plain_count_filter len
    by (intro arg_cong [where f = prod_list] map_cong filter_cong) (auto simp: mem axes)
  ultimately have "prod_list (rs_out_shape r) = group_count r * prod_list (map (\<lambda>a. sel_len (rs_axes r ! a))
      (filter (\<lambda>a. a \<notin> set (group_axes r)) [0..<length shape]))" by (simp only:)
  moreover have "adv_axes a \<noteq> [] \<and> (adv_adjacent a \<longrightarrow> consecutive (adv_axes a))" if "rs_advanced r = Some a" for a
    using that adv r collect_positions [OF c] by (auto simp: res_map_Ok split: if_splits)
  moreover have "length xs \<in> set lengths" if "a \<in> set (group_axes r)" "rs_axes r ! a = Listed xs" for a xs
    using that listed by (auto simp: grp(4) set_list_lengths)
  then have "\<forall>a \<in> set (group_axes r). \<forall>xs. rs_axes r ! a = Listed xs \<longrightarrow> length xs = 1 \<or> length xs = group_count r"
    using counts by blast
  moreover have "\<exists>a \<in> set (group_axes r). \<exists>xs. rs_axes r ! a = Listed xs \<and> length xs = n"
    if "n \<in> set lengths" for n
    using that listed unfolding grp(4) set_list_lengths by blast
  then have "group_count r = 1 \<or> (\<exists>a \<in> set (group_axes r). \<exists>xs. rs_axes r ! a = Listed xs \<and> length xs = group_count r)"
    using counts by blast
  moreover have "sorted_wrt (<) (group_axes r)" "set (group_axes r) \<subseteq> {..<length shape}"
    using mem by (auto simp: grp(1,2) adv_flags_sorted)
  moreover have "length (rs_axes r) = length shape" using grp(3) len by (simp add: r)
  ultimately show ?thesis
    unfolding resolved_ok_def using oks by (intro conjI) blast+
qed

end
