(* ===== verification/Numpy.thy ===== *)
theory Numpy
  imports Normalise
begin

text \<open>
  The elements a resolved selection names, in output order, as an outer sum: one dimension per
  plain axis and one for the advanced group, in C order. \<open>Gathered::new\<close> and \<open>contiguous_run\<close>
  build walks over exactly these elements.
\<close>

section \<open>Outer sums\<close>

fun psum :: "'a::monoid_add list list \<Rightarrow> 'a list" where
  "psum [] = [0]"
| "psum (xs # xss) = concat (map (\<lambda>x. map ((+) x) (psum xss)) xs)"

lemma psum_product: "psum xss = map sum_list (product_lists xss)"
  by (induction xss) (simp_all add: map_concat comp_def)

lemma length_psum [simp]: "length (psum xss) = prod_list (map length xss)"
  by (simp only: psum_product length_map length_product_lists)

lemma map_plus_zero [simp]: "map ((+) (0::'a::monoid_add)) xs = xs"
  by (simp add: map_idI)

lemma psum_single [simp]: "psum [xs] = xs"
  by simp

lemma concat_concat: "concat (concat xss) = concat (map concat xss)"
  by (induction xss) simp_all

lemma plus_plus: "(+) (x + y) = (\<lambda>z. x + (y + z :: 'a::monoid_add))"
  by (simp add: fun_eq_iff add.assoc)

lemma psum_append:
  "psum (xss @ yss) = concat (map (\<lambda>x. map ((+) x) (psum yss)) (psum xss))"
  by (induction xss) (simp_all add: map_concat comp_def concat_concat plus_plus)

lemma psum_group: "psum (xss @ psum gs # yss) = psum (xss @ gs @ yss)"
proof -
  have "psum (psum gs # yss) = psum (gs @ yss)" by (simp only: psum.simps psum_append)
  then show ?thesis by (simp only: psum_append)
qed

lemma psum_map_int: "psum (map (map int) xss) = map int (psum xss)"
  by (induction xss) (simp_all add: map_concat comp_def)

section \<open>The selected elements\<close>

definition row_stride :: "nat list \<Rightarrow> nat \<Rightarrow> nat" where
  "row_stride shape a = prod_list (drop (Suc a) shape)"

definition axis_offsets :: "nat list \<Rightarrow> resolved \<Rightarrow> nat \<Rightarrow> nat list" where
  "axis_offsets shape r a = map (\<lambda>i. i * row_stride shape a) (axis_indices (rs_axes r ! a))"

text \<open>A selection of one element broadcasts over the group.\<close>

definition pick :: "axis_sel \<Rightarrow> nat \<Rightarrow> nat" where
  "pick sel k = (if sel_len sel = 1 then axis_indices sel ! 0 else axis_indices sel ! k)"

definition group_offsets :: "nat list \<Rightarrow> resolved \<Rightarrow> nat list" where
  "group_offsets shape r =
     map (\<lambda>k. \<Sum>a\<leftarrow>group_axes r. pick (rs_axes r ! a) k * row_stride shape a) [0..<group_count r]"

definition plain_axes :: "nat list \<Rightarrow> resolved \<Rightarrow> nat list" where
  "plain_axes shape r = filter (\<lambda>a. a \<notin> set (group_axes r)) [0..<length shape]"

text \<open>The group stands where it is written if its axes are adjacent, and first otherwise.\<close>

definition axes_before :: "nat list \<Rightarrow> resolved \<Rightarrow> nat list" where
  "axes_before shape r =
     (case rs_advanced r of
        None \<Rightarrow> plain_axes shape r
      | Some adv \<Rightarrow>
          if adv_adjacent adv then takeWhile (\<lambda>a. a < hd (adv_axes adv)) (plain_axes shape r) else [])"

definition axes_after :: "nat list \<Rightarrow> resolved \<Rightarrow> nat list" where
  "axes_after shape r = drop (length (axes_before shape r)) (plain_axes shape r)"

definition numpy_dims :: "nat list \<Rightarrow> resolved \<Rightarrow> nat list list" where
  "numpy_dims shape r =
     map (axis_offsets shape r) (axes_before shape r) @ group_offsets shape r
     # map (axis_offsets shape r) (axes_after shape r)"

definition selected :: "nat list \<Rightarrow> resolved \<Rightarrow> nat list" where
  "selected shape r = psum (numpy_dims shape r)"

lemma before_after: "plain_axes shape r = axes_before shape r @ axes_after shape r"
proof -
  have "\<exists>ys. plain_axes shape r = axes_before shape r @ ys"
    by (auto simp: axes_before_def split: option.splits) (metis takeWhile_dropWhile_id)
  then show ?thesis by (auto simp: axes_after_def)
qed

lemma length_selected:
  assumes "resolved_ok shape r"
  shows "length (selected shape r) = prod_list (rs_out_shape r)"
proof -
  have "length (selected shape r) = group_count r * prod_list (map (\<lambda>a. sel_len (rs_axes r ! a)) (plain_axes shape r))"
    by (simp add: selected_def numpy_dims_def before_after axis_offsets_def group_offsets_def comp_def mult.left_commute)
  then show ?thesis using assms by (simp add: resolved_ok_def plain_axes_def)
qed

section \<open>Every selected element is in the array\<close>

lemma sum_strides_ravel:
  "length cs = length shape \<Longrightarrow> (\<Sum>a\<leftarrow>[0..<length shape]. cs ! a * row_stride shape a) = ravel shape cs"
proof (induction shape cs rule: ravel.induct)
  case (1 d shape c cs)
  have "[0..<length (d # shape)] = 0 # map Suc [0..<length shape]" by (simp add: map_Suc_upt upt_conv_Cons del: upt_Suc)
  then have "(\<Sum>a\<leftarrow>[0..<length (d # shape)]. (c # cs) ! a * row_stride (d # shape) a)
      = c * prod_list shape + (\<Sum>a\<leftarrow>[0..<length shape]. cs ! a * row_stride shape a)"
    by (simp add: comp_def row_stride_def del: upt_Suc)
  then show ?case using 1 by (simp only: ravel.simps) simp
qed simp_all

lemma sorted_lt_filter:
  assumes "sorted_wrt (<) as" "set as \<subseteq> {..<n::nat}"
  shows "as = filter (\<lambda>a. a \<in> set as) [0..<n]"
  by (rule sorted_distinct_set_unique)
     (use assms in \<open>auto simp: strict_sorted_iff sorted_wrt_filter\<close>)

text \<open>Axes taken at an index each, in any order and not all of them, stay below the size.\<close>

lemma sum_strides_less:
  assumes "distinct as" "\<forall>a \<in> set as. a < length shape \<and> f a < shape ! a" "0 < prod_list shape"
  shows "(\<Sum>a\<leftarrow>as. f a * row_stride shape a) < prod_list shape"
proof -
  define cs where "cs = map (\<lambda>a. if a \<in> set as then f a else 0) [0..<length shape]"
  have cs: "a < length shape \<Longrightarrow> cs ! a = (if a \<in> set as then f a else 0)" for a
    by (simp add: cs_def)
  have "(\<Sum>a\<leftarrow>as. f a * row_stride shape a) = (\<Sum>a \<in> set as. f a * row_stride shape a)"
    using assms(1) by (simp add: sum_list_distinct_conv_sum_set)
  also have "\<dots> = (\<Sum>a \<in> set as. cs ! a * row_stride shape a)"
    using assms(2) by (intro sum.cong) (simp_all add: cs)
  also have "\<dots> \<le> (\<Sum>a \<in> {..<length shape}. cs ! a * row_stride shape a)"
    using assms(2) by (intro sum_mono2) auto
  also have "\<dots> = (\<Sum>a\<leftarrow>[0..<length shape]. cs ! a * row_stride shape a)"
    by (simp add: sum_list_distinct_conv_sum_set atLeast0LessThan)
  also have "\<dots> = ravel shape cs" by (rule sum_strides_ravel) (simp add: cs_def)
  also have "\<dots> < prod_list shape"
  proof (rule ravel_less)
    have "0 < shape ! a" if "a < length shape" for a
      using assms(3) that by (metis gr0I nth_mem prod_list_zero_iff)
    then show "in_dims shape cs"
      using assms(2) by (auto simp: in_dims_def list_all2_conv_all_nth cs cs_def)
  qed
  finally show ?thesis .
qed

lemma psum_axes:
  assumes "x \<in> set (psum (map (\<lambda>a. map (\<lambda>i. i * m a) (I a)) as))" "distinct as"
  shows "\<exists>f. (\<forall>a \<in> set as. f a \<in> set (I a)) \<and> x = (\<Sum>a\<leftarrow>as. f a * (m a :: nat))"
  using assms
proof (induction as arbitrary: x)
  case (Cons b as)
  obtain i y where x: "x = i * m b + y" "i \<in> set (I b)" "y \<in> set (psum (map (\<lambda>a. map (\<lambda>i. i * m a) (I a)) as))"
    using Cons.prems(1) by auto
  obtain f where f: "\<forall>a \<in> set as. f a \<in> set (I a)" "y = (\<Sum>a\<leftarrow>as. f a * m a)"
    using Cons.IH [OF x(3)] Cons.prems(2) by auto
  have "(\<Sum>a\<leftarrow>as. (f(b := i)) a * m a) = (\<Sum>a\<leftarrow>as. f a * m a)"
    using Cons.prems(2) by (intro arg_cong [where f = sum_list] map_cong) auto
  then show ?case using x f by (intro exI [of _ "f(b := i)"]) auto
qed simp

lemma plain_props:
  "distinct (plain_axes shape r)" "a \<in> set (plain_axes shape r) \<longleftrightarrow> a < length shape \<and> a \<notin> set (group_axes r)"
  by (auto simp: plain_axes_def)

lemma pick_mem:
  assumes "resolved_ok shape r" "a \<in> set (group_axes r)" "k < group_count r"
  shows "pick (rs_axes r ! a) k \<in> set (axis_indices (rs_axes r ! a))"
proof -
  have "sel_ok (shape ! a) (rs_axes r ! a, True)" using assms(1,2) by (auto simp: resolved_ok_def)
  then show ?thesis
    using assms by (cases "rs_axes r ! a") (auto simp: pick_def resolved_ok_def)
qed

lemma selected_bound:
  assumes ok: "resolved_ok shape r" and pos: "0 < prod_list shape" and x: "x \<in> set (selected shape r)"
  shows "x < prod_list shape"
proof -
  let ?I = "\<lambda>a. axis_indices (rs_axes r ! a)"
  let ?before = "axes_before shape r" and ?after = "axes_after shape r"
  have psum_offsets: "psum (map (axis_offsets shape r) as) = psum (map (\<lambda>a. map (\<lambda>i. i * row_stride shape a) (?I a)) as)" for as
    by (simp add: axis_offsets_def [abs_def])
  have dist: "distinct (?before @ group_axes r @ ?after)"
    and mem: "set (?before @ group_axes r @ ?after) \<subseteq> {..<length shape}"
    using plain_props(1) [of shape r] plain_props(2) [of _ shape r] ok unfolding before_after
    by (auto simp: resolved_ok_def strict_sorted_iff)
  obtain u k v where u: "u \<in> set (psum (map (axis_offsets shape r) ?before))"
    and v: "v \<in> set (psum (map (axis_offsets shape r) ?after))" and k: "k < group_count r"
    and xe: "x = u + ((\<Sum>a\<leftarrow>group_axes r. pick (rs_axes r ! a) k * row_stride shape a) + v)"
    using x by (auto simp: selected_def numpy_dims_def psum_append group_offsets_def)
  obtain f where f: "\<forall>a \<in> set ?before. f a \<in> set (?I a)" "u = (\<Sum>a\<leftarrow>?before. f a * row_stride shape a)"
    using psum_axes [OF u [unfolded psum_offsets]] dist by auto
  obtain g where g: "\<forall>a \<in> set ?after. g a \<in> set (?I a)" "v = (\<Sum>a\<leftarrow>?after. g a * row_stride shape a)"
    using psum_axes [OF v [unfolded psum_offsets]] dist by auto
  define h where "h a = (if a \<in> set ?before then f a else if a \<in> set ?after then g a
    else pick (rs_axes r ! a) k)" for a
  have eq: "(\<Sum>a\<leftarrow>?before. h a * row_stride shape a) = u"
    "(\<Sum>a\<leftarrow>group_axes r. h a * row_stride shape a) = (\<Sum>a\<leftarrow>group_axes r. pick (rs_axes r ! a) k * row_stride shape a)"
    "(\<Sum>a\<leftarrow>?after. h a * row_stride shape a) = v"
    unfolding f(2) g(2) using dist by (auto simp: h_def intro!: arg_cong [where f = sum_list] map_cong)
  have "x = (\<Sum>a\<leftarrow>?before @ group_axes r @ ?after. h a * row_stride shape a)"
    using xe eq by simp
  also have "\<dots> < prod_list shape"
  proof (rule sum_strides_less [OF dist _ pos], rule ballI)
    fix a assume a: "a \<in> set (?before @ group_axes r @ ?after)"
    then have "h a \<in> set (?I a)"
      using f(1) g(1) pick_mem [OF ok _ k] by (auto simp: h_def)
    moreover have "a < length shape" using a mem by auto
    moreover have "sel_ok (shape ! a) (rs_axes r ! a, a \<in> set (group_axes r))"
      using ok \<open>a < length shape\<close> by (auto simp: resolved_ok_def)
    ultimately show "a < length shape \<and> h a < shape ! a" using sel_ok_indices by blast
  qed
  finally show ?thesis .
qed

text \<open>The same without assuming that the array has elements: from an empty one nothing is selected.\<close>

lemma selected_less:
  assumes ok: "resolved_ok shape r" and i: "i \<in> set (selected shape r)"
  shows "i < prod_list shape"
proof (cases "prod_list shape = 0")
  case True
  then obtain a where a: "a < length shape" "shape ! a = 0" by (auto simp: prod_list_zero_iff in_set_conv_nth)
  then have sel: "sel_ok 0 (rs_axes r ! a, a \<in> set (group_axes r))" using ok by (metis resolved_ok_def)
  have "length (selected shape r) = 0"
  proof (cases "a \<in> set (group_axes r)")
    case True
    then obtain xs where "rs_axes r ! a = Listed xs" "xs = []" using sel by (cases "rs_axes r ! a") auto
    then have "group_count r = 0" using ok True unfolding resolved_ok_def by fastforce
    then show ?thesis using length_selected [OF ok] ok unfolding resolved_ok_def by simp
  next
    case False
    then have "sel_len (rs_axes r ! a) = 0" using sel by (cases "rs_axes r ! a") force+
    then have "0 \<in> set (map (\<lambda>a. sel_len (rs_axes r ! a)) (filter (\<lambda>a. a \<notin> set (group_axes r)) [0..<length shape]))"
      using a(1) False by (auto simp: image_iff)
    then show ?thesis using length_selected [OF ok] ok unfolding resolved_ok_def by (simp add: prod_list_zero_iff del: set_map)
  qed
  then show ?thesis using i by simp
next
  case False
  then show ?thesis using selected_bound [OF ok _ i] by simp
qed

section \<open>Selections that are one run\<close>

lemma as_run_indices:
  assumes "as_run sel = Some (s, len)" "0 < len"
  shows "axis_indices sel = [s..<s + len]"
proof (cases sel)
  case (Range start n step)
  then show ?thesis using assms
    by (auto split: if_splits intro!: nth_equalityI)
next
  case (Listed xs)
  then obtain f rest where xs: "xs = f # rest" using assms by (cases xs) auto
  then have run: "list_all (follows f) (enumerate 0 rest)" "s = f" "len = Suc (length rest)"
    using assms Listed by (auto split: if_splits)
  have "rest ! i = f + (i + 1)" if "i < length rest" for i
    using run(1) that by (auto simp: list_all_length follows_def nth_enumerate_eq cadd_Some)
  then show ?thesis using Listed xs run by (auto simp: nth_Cons' simp del: upt_Suc intro!: nth_equalityI)
qed (use assms in auto)

lemma as_run_len: "as_run sel = Some (s, len) \<Longrightarrow> sel_len sel = len"
  by (cases sel rule: as_run.cases) (auto split: if_splits)

fun run_dims :: "nat list \<Rightarrow> (nat \<times> nat) list \<Rightarrow> nat list list" where
  "run_dims (d # shape) ((s, len) # runs) =
     map (\<lambda>i. i * prod_list shape) [s..<s + len] # run_dims shape runs"
| "run_dims _ _ = []"

lemma rest_whole_psum:
  "length shape = length runs \<Longrightarrow> rest_whole shape runs \<Longrightarrow> psum (run_dims shape runs) = [0..<prod_list shape]"
proof (induction shape runs rule: run_dims.induct)
  case (1 d shape s len runs)
  have "map ((+) (i * prod_list shape)) [0..<prod_list shape] = map (\<lambda>j. i * prod_list shape + j) [0..<prod_list shape]" for i
    by simp
  then show ?case using 1 by (simp add: comp_def upt_blocks [of d])
qed simp_all

definition true_offset :: "nat list \<Rightarrow> (nat \<times> nat) list \<Rightarrow> nat" where
  "true_offset shape runs = ravel shape (map fst runs)"

definition true_len :: "(nat \<times> nat) list \<Rightarrow> nat" where
  "true_len runs = prod_list (map snd runs)"

lemma concat_blocks: "concat (map (\<lambda>i. map ((+) (i * P)) [0..<P]) [s..<s + len]) = [s * P..<s * P + len * P]"
proof (induction len)
  case (Suc n)
  have "map ((+) ((s + n) * P)) [0..<P] = [(s + n) * P..<(s + n) * P + P]"
    by (rule nth_equalityI) simp_all
  moreover have "[s * P..<s * P + Suc n * P] = [s * P..<s * P + n * P] @ [(s + n) * P..<(s + n) * P + P]"
    using upt_add_eq_append [of "s * P" "s * P + n * P" P] by (simp add: algebra_simps)
  ultimately show ?case using Suc by simp
qed simp

lemma rest_whole_len:
  "length shape = length runs \<Longrightarrow> rest_whole shape runs \<Longrightarrow>
   true_len runs = prod_list shape \<and> true_offset shape runs = 0"
  by (induction shape runs rule: run_dims.induct) (simp_all add: true_len_def true_offset_def)

lemma no_gaps_psum:
  "length shape = length runs \<Longrightarrow> no_gaps shape runs \<Longrightarrow> \<forall>r \<in> set runs. 0 < snd r \<Longrightarrow>
   psum (run_dims shape runs) = [true_offset shape runs..<true_offset shape runs + true_len runs]"
proof (induction shape runs rule: run_dims.induct)
  case (1 d shape s len runs)
  show ?case
  proof (cases "len > 1")
    case True
    then have w: "rest_whole shape runs" using "1.prems"(2) by simp
    then show ?thesis
      using "1.prems"(1) rest_whole_psum [of shape runs] rest_whole_len [of shape runs]
        concat_blocks [of "prod_list shape" s len]
      by (simp add: comp_def true_offset_def true_len_def)
  next
    case False
    then have "len = 1" using "1.prems"(3) by simp
    then show ?thesis using 1 by (auto simp: true_offset_def true_len_def intro!: nth_equalityI)
  qed
qed (simp_all add: true_offset_def true_len_def)

lemma run_offset_mod:
  "length shape = length runs \<Longrightarrow> run_offset shape runs = true_offset shape runs mod U128"
proof -
  have "foldl (\<lambda>offset (d, (start, _)). (offset * d + start) mod U128) (k mod U128) (zip shape runs)
      = (k * prod_list shape + true_offset shape runs) mod U128" if "length shape = length runs" for k
    using that
  proof (induction shape runs arbitrary: k rule: list_induct2)
    case (Cons d shape r runs)
    obtain s len where r: "r = (s, len)" by (cases r)
    have "(k mod U128 * d + s) mod U128 = (k * d + s) mod U128"
      by (metis mod_add_left_eq mod_mult_left_eq)
    then show ?case using Cons.IH [of "k * d + s"]
      by (simp add: r true_offset_def algebra_simps)
  qed (simp add: true_offset_def)
  from this [of 0] show "length shape = length runs \<Longrightarrow> run_offset shape runs = true_offset shape runs mod U128"
    by (simp add: run_offset_def)
qed

lemma run_len_mod: "run_len runs = true_len runs mod U128"
proof -
  have "foldl (\<lambda>len (_, l). (len * l) mod U128) (k mod U128) runs = (k * true_len runs) mod U128" for k
  proof (induction runs arbitrary: k)
    case (Cons r runs)
    have "(k mod U128 * snd r) mod U128 = (k * snd r) mod U128" by (simp add: mod_mult_left_eq)
    then show ?case using Cons.IH [of "k * snd r"]
      by (cases r) (simp add: true_len_def algebra_simps)
  qed (simp add: true_len_def)
  from this [of 1] show ?thesis by (simp add: run_len_def U128_def)
qed

text \<open>The group of an adjacent selection with at most one axis of more than one element.\<close>

lemma psum_singles:
  "\<forall>a \<in> set as. length (F a) = 1 \<Longrightarrow> psum (map F as) = [\<Sum>a\<leftarrow>as. F a ! 0 :: nat]"
proof (induction as)
  case (Cons a as)
  then obtain x where "F a = [x]" by (auto simp: length_Suc_conv)
  then show ?case using Cons by simp
qed simp

lemma psum_one_long:
  assumes "length (filter (\<lambda>a. length (F a) > 1) as) \<le> 1" "\<forall>a \<in> set as. length (F a) = 1 \<or> length (F a) = n"
    "\<exists>a \<in> set as. length (F a) = n" "1 < n"
  shows "psum (map F as) = map (\<lambda>k. \<Sum>a\<leftarrow>as. (if length (F a) = 1 then F a ! 0 else F a ! k) :: nat) [0..<n]"
  using assms
proof (induction as)
  case (Cons a as)
  show ?case
  proof (cases "length (F a) = 1")
    case True
    then obtain x where "F a = [x]" by (auto simp: length_Suc_conv)
    then show ?thesis using Cons by auto
  next
    case False
    then have n: "length (F a) = n" and "filter (\<lambda>a. length (F a) > 1) as = []"
      using Cons.prems by (auto simp: le_eq_less_or_eq)
    then have ones: "\<forall>a \<in> set as. length (F a) = 1"
      using Cons.prems(2,4) by (metis filter_empty_conv list.set_intros(2))
    then have "(\<Sum>a\<leftarrow>as. (if length (F a) = 1 then F a ! 0 else F a ! k)) = (\<Sum>a\<leftarrow>as. F a ! 0)" for k
      by (intro arg_cong [where f = sum_list] map_cong) auto
    moreover have "psum (map F (a # as)) = map (\<lambda>k. F a ! k + (\<Sum>a\<leftarrow>as. F a ! 0)) [0..<n]"
      using n psum_singles [OF ones] by (intro nth_equalityI) simp_all
    ultimately show ?thesis using False by simp
  qed
qed simp

lemma offset_at:
  assumes "k < sel_len (rs_axes r ! a)"
  shows "axis_offsets shape r a ! k = axis_indices (rs_axes r ! a) ! k * row_stride shape a"
  using assms by (simp add: axis_offsets_def)

lemma length_axis_offsets [simp]: "length (axis_offsets shape r a) = sel_len (rs_axes r ! a)"
  by (simp add: axis_offsets_def)

lemma group_lengths:
  assumes "resolved_ok shape r" "a \<in> set (group_axes r)"
  shows "sel_len (rs_axes r ! a) = 1 \<or> sel_len (rs_axes r ! a) = group_count r"
proof -
  have "sel_ok (shape ! a) (rs_axes r ! a, True)" using assms by (auto simp: resolved_ok_def)
  then show ?thesis using assms by (cases "rs_axes r ! a") (auto simp: resolved_ok_def)
qed

lemma group_independent:
  assumes ok: "resolved_ok shape r" and pos: "0 < group_count r"
    and one: "length (filter (\<lambda>a. sel_len (rs_axes r ! a) > 1) (group_axes r)) \<le> 1"
  shows "psum (map (axis_offsets shape r) (group_axes r)) = group_offsets shape r"
proof (cases "group_count r = 1")
  case True
  then have "\<forall>a \<in> set (group_axes r). sel_len (rs_axes r ! a) = 1" using group_lengths [OF ok] by auto
  then show ?thesis using True
    by (simp add: psum_singles group_offsets_def)
      (intro arg_cong [where f = sum_list] map_cong, simp_all add: pick_def offset_at)
next
  case False
  then have n: "1 < group_count r" using pos by simp
  have len: "\<exists>a \<in> set (group_axes r). sel_len (rs_axes r ! a) = group_count r"
  proof -
    obtain a xs where "a \<in> set (group_axes r)" "rs_axes r ! a = Listed xs" "length xs = group_count r"
      using ok False unfolding resolved_ok_def by blast
    then show ?thesis by (intro bexI [of _ a]) simp_all
  qed
  have "psum (map (axis_offsets shape r) (group_axes r)) =
      map (\<lambda>k. \<Sum>a\<leftarrow>group_axes r. (if length (axis_offsets shape r a) = 1 then axis_offsets shape r a ! 0
        else axis_offsets shape r a ! k)) [0..<group_count r]"
    using one n len group_lengths [OF ok] by (intro psum_one_long) auto
  also have "\<dots> = group_offsets shape r"
    unfolding group_offsets_def
  proof (intro map_cong refl arg_cong [where f = sum_list])
    fix k a assume "k \<in> set [0..<group_count r]" "a \<in> set (group_axes r)"
    then show "(if length (axis_offsets shape r a) = 1 then axis_offsets shape r a ! 0
        else axis_offsets shape r a ! k) = pick (rs_axes r ! a) k * row_stride shape a"
      using group_lengths [OF ok, of a] by (auto simp: pick_def intro!: offset_at)
  qed
  finally show ?thesis .
qed

lemma consecutive_upt: "consecutive xs \<Longrightarrow> xs \<noteq> [] \<Longrightarrow> xs = [hd xs..<hd xs + length xs]"
proof (induction xs rule: consecutive.induct)
  case (1 a b rest)
  from "1.prems" have "consecutive (b # rest)" and b: "b = Suc a" by auto
  then have IH: "b # rest = [b..<b + Suc (length rest)]" using "1.IH" by (simp del: upt_Suc)
  have "[a..<a + Suc (Suc (length rest))] = a # [Suc a..<Suc a + Suc (length rest)]"
    by (simp add: upt_conv_Cons del: upt_Suc)
  then show ?case using IH b by (simp del: upt_Suc)
qed simp_all

lemma selected_independent:
  assumes ok: "resolved_ok shape r" and pos: "0 < group_count r" and walks: "walks_independently r"
  shows "selected shape r = psum (map (axis_offsets shape r) [0..<length shape])"
proof (cases "rs_advanced r")
  case None
  then have "axes_before shape r = [0..<length shape]" "axes_after shape r = []" "group_offsets shape r = [0]"
    by (simp_all add: axes_before_def axes_after_def plain_axes_def group_axes_def group_offsets_def group_count_def)
  then show ?thesis by (simp add: selected_def numpy_dims_def psum_append)
next
  case (Some adv)
  define h m where "h = hd (adv_axes adv)" and "m = length (adv_axes adv)"
  have g: "group_axes r = adv_axes adv" using Some by (simp add: group_axes_def)
  have adj: "adv_adjacent adv" and one: "length (filter (\<lambda>a. sel_len (rs_axes r ! a) > 1) (group_axes r)) \<le> 1"
    using walks Some g by (auto simp: walks_independently_def)
  have "adv_axes adv = [h..<h + m]" and ne: "adv_axes adv \<noteq> []"
    using ok Some adj consecutive_upt by (auto simp: resolved_ok_def h_def m_def)
  then have ga: "group_axes r = [h..<h + m]" and m: "0 < m" using g by (simp_all add: m_def)
  have "h + m - 1 \<in> set (group_axes r)" using ga m by simp
  then have "h + m - 1 < length shape" using ok by (auto simp: resolved_ok_def)
  with m have hm: "h + m \<le> length shape" "0 < m" by simp_all
  have split: "[0..<length shape] = [0..<h] @ [h..<h + m] @ [h + m..<length shape]"
    using hm upt_add_eq_append [of 0 h "length shape - h"] upt_add_eq_append [of h "h + m" "length shape - (h + m)"] by simp
  have plain: "plain_axes shape r = [0..<h] @ [h + m..<length shape]"
    unfolding plain_axes_def ga split filter_append by (auto simp: filter_id_conv filter_empty_conv)
  have before: "axes_before shape r = [0..<h]"
  proof -
    have "takeWhile (\<lambda>a. a < h) [h + m..<length shape] = []"
      by (cases "h + m < length shape") (simp_all add: upt_conv_Cons)
    then have "takeWhile (\<lambda>a. a < h) ([0..<h] @ [h + m..<length shape]) = [0..<h]"
      by (subst takeWhile_append2) simp_all
    then show ?thesis unfolding axes_before_def plain using Some adj by (simp add: h_def [symmetric])
  qed
  then have after: "axes_after shape r = [h + m..<length shape]" by (simp add: axes_after_def plain)
  show ?thesis
    unfolding selected_def numpy_dims_def before after group_independent [OF ok pos one, symmetric]
      psum_group ga split by simp
qed

lemma traverse_opt_Some:
  "traverse_opt f xs = Some ys \<longleftrightarrow> list_all2 (\<lambda>x y. f x = Some y) xs ys"
  by (induction xs arbitrary: ys) (auto simp: list_all2_Cons1 split: option.splits)

lemma run_dims_nth:
  "length shape = length runs \<Longrightarrow>
   run_dims shape runs = map (\<lambda>a. map (\<lambda>i. i * row_stride shape a)
     [fst (runs ! a)..<fst (runs ! a) + snd (runs ! a)]) [0..<length shape]"
proof (induction shape runs rule: list_induct2)
  case (Cons d shape r runs)
  have "[0..<length (d # shape)] = 0 # map Suc [0..<length shape]" by (simp add: map_Suc_upt upt_conv_Cons del: upt_Suc)
  then show ?case using Cons.IH by (cases r) (simp add: comp_def row_stride_def del: upt_Suc)
qed simp

lemma lens_pos:
  assumes ok: "resolved_ok shape r" and ne: "0 < prod_list (rs_out_shape r)"
  shows "0 < group_count r" and "a < length shape \<Longrightarrow> 0 < sel_len (rs_axes r ! a)"
proof -
  let ?lens = "map (\<lambda>a. sel_len (rs_axes r ! a)) (filter (\<lambda>a. a \<notin> set (group_axes r)) [0..<length shape])"
  have out: "prod_list (rs_out_shape r) = group_count r * prod_list ?lens"
    using ok unfolding resolved_ok_def by blast
  then show g: "0 < group_count r" using ne by (metis mult_is_0 neq0_conv)
  have "prod_list ?lens \<noteq> 0" using ne unfolding out by (metis mult_is_0 neq0_conv)
  then have nz: "0 \<notin> set ?lens" by (simp only: prod_list_zero_iff not_False_eq_True)
  show "0 < sel_len (rs_axes r ! a)" if "a < length shape"
  proof (cases "a \<in> set (group_axes r)")
    case True
    then show ?thesis using group_lengths [OF ok True] g by auto
  next
    case False
    then have "sel_len (rs_axes r ! a) \<in> set ?lens" using that by auto
    then show ?thesis using nz by (metis gr0I)
  qed
qed

text \<open>When \<open>contiguous_run\<close> gives a run, the selected elements are that run.\<close>

lemma contiguous_run_selected:
  assumes ok: "resolved_ok shape r" and walks: "walks_independently r"
    and run: "contiguous_run shape (rs_axes r) = Some (off, len)"
    and small: "0 < prod_list shape" "prod_list shape < U64" and ne: "0 < prod_list (rs_out_shape r)"
  shows "selected shape r = [off..<off + len]"
proof -
  obtain runs where t: "traverse_opt as_run (rs_axes r) = Some runs"
    using run by (auto simp: contiguous_run_def split: bind_splits)
  have len_axes: "length (rs_axes r) = length shape" using ok by (simp add: resolved_ok_def)
  have all2: "list_all2 (\<lambda>sel run. as_run sel = Some run) (rs_axes r) runs"
    using t by (simp only: traverse_opt_Some)
  have lens: "length shape = length runs" using list_all2_lengthD [OF all2] len_axes by simp
  have as_run: "as_run (rs_axes r ! a) = Some (fst (runs ! a), snd (runs ! a))" if "a < length shape" for a
    using list_all2_nthD [OF all2, of a] that len_axes by simp
  note gpos = lens_pos(1) [OF ok ne]
  have "sel_len (rs_axes r ! a) > 0" if "a < length shape" for a by (rule lens_pos(2) [OF ok ne that])
  then have pos: "0 < snd (runs ! a)" if "a < length shape" for a
    using as_run_len [OF as_run] that by auto
  then have pos': "\<forall>r \<in> set runs. 0 < snd r" using lens by (metis in_set_conv_nth)
  have dims: "map (axis_offsets shape r) [0..<length shape] = run_dims shape runs"
    unfolding run_dims_nth [OF lens] axis_offsets_def
    using as_run_indices [OF as_run pos] by (intro map_cong) auto
  have sel: "selected shape r = psum (run_dims shape runs)"
    using selected_independent [OF ok gpos walks] dims by simp
  have gaps: "no_gaps shape runs" and off: "u64_of_u128 (run_offset shape runs) = Some off"
    and len: "u64_of_u128 (run_len runs) = Some len"
  proof -
    have nz: "(x, 0) \<notin> set runs" for x using bspec [OF pos', of "(x, 0)"] by auto
    show "no_gaps shape runs" "u64_of_u128 (run_offset shape runs) = Some off"
      "u64_of_u128 (run_len runs) = Some len"
      using run t nz by (auto simp: contiguous_run_def split: if_splits bind_splits)
  qed
  have eq: "psum (run_dims shape runs) = [true_offset shape runs..<true_offset shape runs + true_len runs]"
    using lens gaps pos' by (rule no_gaps_psum)
  have "0 \<notin> set (map snd runs)" using pos' by (metis imageE less_irrefl list.set_map)
  then have tl: "0 < true_len runs" unfolding true_len_def by (rule prod_list_pos)
  then have "true_offset shape runs + true_len runs - 1 \<in> set (selected shape r)" using sel eq by simp
  then have "true_offset shape runs + true_len runs - 1 < prod_list shape" by (rule selected_bound [OF ok small(1)])
  then have "true_offset shape runs < U128" "true_len runs < U128"
    using tl small(2) by (simp_all add: U64_def U128_def)
  then have "off = true_offset shape runs" "len = true_len runs"
    using off len run_offset_mod [OF lens] run_len_mod [of runs] by (auto simp: u64_of_u128_def split: if_splits)
  then show ?thesis using sel eq by simp
qed

section \<open>Selections that are gathered\<close>

text \<open>
  \<open>corr C xss dims\<close>: the dimensions \<open>xss\<close> of an outer sum are \<open>dims\<close> of a walk, those of one
  element and the starts of the others folded into the base \<open>C\<close>.
\<close>

inductive corr :: "int \<Rightarrow> int list list \<Rightarrow> dim list \<Rightarrow> bool" where
  Empty: "corr 0 [] []"
| One: "corr C xss dims \<Longrightarrow> corr (x + C) ([x] # xss) dims"
| Dim: "corr C xss dims \<Longrightarrow>
    corr (x + C) (map (\<lambda>k. x + term_int d k) [0..<dim_len d] # xss) (d # dims)"

lemma corr_append: "corr C xss dims \<Longrightarrow> corr C' yss dims' \<Longrightarrow> corr (C + C') (xss @ yss) (dims @ dims')"
proof (induction rule: corr.induct)
  case (One C xss dims x)
  then show ?case using corr.One [of "C + C'" "xss @ yss" "dims @ dims'" x] by (simp add: add.assoc)
next
  case (Dim C xss dims x d)
  then show ?case using corr.Dim [of "C + C'" "xss @ yss" "dims @ dims'" x d] by (simp add: add.assoc)
qed simp

lemma walk_int_Cons:
  "j < prod_list (map dim_len dims) \<Longrightarrow> i < dim_len d \<Longrightarrow>
   walk_int B (d # dims) (i * prod_list (map dim_len dims) + j) = walk_int (B + term_int d i) dims j"
  by (simp add: walk_int_def unravel_add_mult add.commute [of "i * _"])

lemma corr_walk: "corr C xss dims \<Longrightarrow> psum xss = map (walk_int C dims) [0..<prod_list (map dim_len dims)]"
proof (induction rule: corr.induct)
  case (One C xss dims x)
  then show ?case by (simp add: walk_int_def add.assoc comp_def)
next
  case (Dim C xss dims x d)
  let ?P = "prod_list (map dim_len dims)"
  have "map ((+) (x + term_int d i)) (psum xss) = map (\<lambda>j. walk_int (x + C) (d # dims) (i * ?P + j)) [0..<?P]"
    if "i < dim_len d" for i
  proof -
    have "(x + term_int d i) + walk_int C dims j = walk_int (x + C) (d # dims) (i * ?P + j)" if "j < ?P" for j
      using walk_int_Cons [OF that \<open>i < dim_len d\<close>, of "x + C"] by (simp add: walk_int_def)
    then show ?thesis using Dim.IH by simp
  qed
  then have "psum (map (\<lambda>k. x + term_int d k) [0..<dim_len d] # xss)
      = concat (map (\<lambda>i. map (\<lambda>j. walk_int (x + C) (d # dims) (i * ?P + j)) [0..<?P]) [0..<dim_len d])"
    by (simp add: comp_def) (intro arg_cong [where f = concat] map_cong refl, simp)
  then show ?case by (simp add: upt_blocks [of "dim_len d"] map_concat comp_def)
qed (simp add: walk_int_def)

lemma corr_dims: "corr C xss dims \<Longrightarrow> length (psum xss) = prod_list (map dim_len dims)"
  by (simp only: corr_walk length_map length_upt minus_nat.diff_0)

text \<open>The strides \<open>c_strides\<close> computes do not overflow.\<close>

lemma c_strides_Some:
  "c_strides shape = Some strides \<Longrightarrow> strides = map (row_stride shape) [0..<length shape]"
proof (induction shape arbitrary: strides rule: c_strides.induct)
  case (3 d e ds)
  obtain ss s where ss: "c_strides (e # ds) = Some ss" "cmul (hd ss) e = Some s" "strides = s # ss"
    using "3.prems" by (auto split: option.splits)
  note IH = "3.IH" [OF ss(1)]
  have "[0..<length (d # e # ds)] = 0 # map Suc [0..<length (e # ds)]" by (simp add: map_Suc_upt upt_conv_Cons del: upt_Suc)
  moreover have "hd ss = prod_list ds" unfolding IH by (simp add: upt_conv_Cons row_stride_def del: upt_Suc)
  then have "s = row_stride (d # e # ds) 0" using ss(2) by (simp add: row_stride_def cmul_Some mult.commute)
  ultimately show ?case using ss(3) IH by (simp add: comp_def row_stride_def del: upt_Suc)
qed (simp_all add: row_stride_def)

text \<open>\<open>base\<close> holds the residue of \<open>C\<close>.\<close>

definition holds_base :: "nat \<Rightarrow> int \<Rightarrow> bool" where
  "holds_base base C \<longleftrightarrow> base < U64 \<and> int base = C mod int U64"

lemma holds_base_add: "holds_base base C \<Longrightarrow> holds_base (wadd base (wmul i s)) (C + int (i * s))"
  by (simp add: holds_base_def int_wadd int_wmul mod_add_eq mod_add_left_eq mod_add_right_eq)

lemma gather_axis_plain:
  assumes step: "gather_axis grp (a, row_stride shape a, rs_axes r ! a) (base, dims, g) = Ok (base', dims', g')"
    and a: "a \<notin> set grp" "sel_ok d (rs_axes r ! a, False)" "0 < sel_len (rs_axes r ! a)"
    and base: "holds_base base C"
  shows "\<exists>x new. dims' = dims @ new \<and> g' = g \<and> corr x [map int (axis_offsets shape r a)] new
    \<and> holds_base base' (C + x) \<and> (\<forall>d \<in> set new. 0 < dim_len d)"
proof (cases "rs_axes r ! a")
  case (Point i)
  have "corr (int (i * row_stride shape a) + 0) [[int (i * row_stride shape a)]] []" by (intro corr.intros)
  then show ?thesis using step a(1) holds_base_add [OF base] Point
    by (auto simp: gather_axis_def axis_offsets_def)
next
  case (Range start len st)
  define x where "x = int (start * row_stride shape a)"
  have base': "base' = wadd base (wmul start (row_stride shape a))" "g' = g"
    using step a(1) Range by (auto simp: gather_axis_def Let_def res_map_Ok split: if_splits)
  then have hb: "holds_base base' (C + x)" using holds_base_add [OF base] by (simp add: x_def)
  have nth: "int (axis_offsets shape r a ! k) = x + int k * (int (row_stride shape a) * st)" if "k < len" for k
    using a(2) Range that by (simp add: axis_offsets_def x_def algebra_simps)
  show ?thesis
  proof (cases "len > 1")
    case True
    then obtain st' where d: "range_dim (row_stride shape a) len st = Ok (Stride len st')" "dims' = dims @ [Stride len st']"
      and st': "st' = int (row_stride shape a) * st"
      using step a(1) Range by (auto simp: gather_axis_def Let_def res_map_Ok range_dim_def i64_cmul_def
          split: option.splits if_splits bind_splits)
    have "corr (x + 0) [map (\<lambda>k. x + term_int (Stride len st') k) [0..<dim_len (Stride len st')]] [Stride len st']"
      by (intro corr.intros)
    moreover have "map (\<lambda>k. x + term_int (Stride len st') k) [0..<dim_len (Stride len st')] = map int (axis_offsets shape r a)"
      using Range nth st' by (intro nth_equalityI) simp_all
    ultimately show ?thesis using d hb base' True by (intro exI [of _ x] exI [of _ "[Stride len st']"]) simp
  next
    case False
    then have one: "len = 1" using a(3) Range by simp
    have "corr (x + 0) [[x]] []" by (intro corr.intros)
    moreover have "[x] = map int (axis_offsets shape r a)" using Range one by (simp add: axis_offsets_def x_def)
    ultimately show ?thesis using step a(1) Range hb base' one
      by (intro exI [of _ x] exI [of _ "[]"]) (simp add: gather_axis_def Let_def)
  qed
next
  case (Listed xs)
  then show ?thesis using a(2) by simp
qed

lemma gather_loop_append:
  "gather_loop grp (xs @ ys) st = res_bind (gather_loop grp xs st) (gather_loop grp ys)"
  by (induction xs arbitrary: st) (auto simp: res_bind_def split: sum.splits)

definition gather_items :: "nat list \<Rightarrow> resolved \<Rightarrow> nat list \<Rightarrow> (nat \<times> nat \<times> axis_sel) list" where
  "gather_items shape r as = map (\<lambda>a. (a, row_stride shape a, rs_axes r ! a)) as"

lemma gather_loop_correct:
  assumes ok: "resolved_ok shape r" and ne: "0 < prod_list (rs_out_shape r)"
  shows "gather_loop (group_axes r) (gather_items shape r as) (base, dims, g) = Ok (base', dims', g') \<Longrightarrow>
    set as \<subseteq> {..<length shape} \<Longrightarrow> holds_base base C \<Longrightarrow>
    \<exists>x new. dims' = dims @ new
      \<and> corr x (map (\<lambda>a. map int (axis_offsets shape r a)) (filter (\<lambda>a. a \<notin> set (group_axes r)) as)) new
      \<and> holds_base base' (C + x) \<and> (\<forall>d \<in> set new. 0 < dim_len d)
      \<and> (g \<noteq> None \<longrightarrow> g' = g) \<and> (set as \<inter> set (group_axes r) = {} \<longrightarrow> g' = g)"
proof (induction as arbitrary: base dims g C)
  case Nil
  then show ?case by (intro exI [of _ 0] exI [of _ "[]"]) (simp add: gather_items_def corr.Empty)
next
  case (Cons a as)
  obtain base1 dims1 g1 where
    s: "gather_axis (group_axes r) (a, row_stride shape a, rs_axes r ! a) (base, dims, g) = Ok (base1, dims1, g1)" and
    l: "gather_loop (group_axes r) (gather_items shape r as) (base1, dims1, g1) = Ok (base', dims', g')"
    using Cons.prems(1) by (auto simp: gather_items_def res_bind_Ok)
  have a: "a < length shape" "set as \<subseteq> {..<length shape}" using Cons.prems(2) by auto
  show ?case
  proof (cases "a \<in> set (group_axes r)")
    case True
    then have "base1 = base" "dims1 = dims" "g1 = Some (unwrap_or g (length dims))"
      using s by (auto simp: gather_axis_def)
    then show ?thesis using Cons.IH [OF l a(2), of C] Cons.prems(3) True by (cases g) auto
  next
    case False
    obtain x new where n: "dims1 = dims @ new" "g1 = g" "corr x [map int (axis_offsets shape r a)] new"
        "holds_base base1 (C + x)" "\<forall>d \<in> set new. 0 < dim_len d"
      using gather_axis_plain [OF s False _ _ Cons.prems(3)] ok a(1) lens_pos(2) [OF ok ne a(1)] False
      by (fastforce simp: resolved_ok_def)
    obtain y new' where m: "dims' = dims1 @ new'"
        "corr y (map (\<lambda>a. map int (axis_offsets shape r a)) (filter (\<lambda>a. a \<notin> set (group_axes r)) as)) new'"
        "holds_base base' (C + x + y)" "\<forall>d \<in> set new'. 0 < dim_len d"
        "g1 \<noteq> None \<longrightarrow> g' = g1" "set as \<inter> set (group_axes r) = {} \<longrightarrow> g' = g1"
      using Cons.IH [OF l a(2) n(4)] by auto
    show ?thesis
      using n m corr_append [OF n(3) m(2)] False
      by (intro exI [of _ "x + y"] exI [of _ "new @ new'"]) (auto simp: add.assoc)
  qed
qed

section \<open>The group's offsets\<close>

lemma add_offsets_nth:
  "length list = length offsets \<Longrightarrow> k < length offsets \<Longrightarrow>
   add_offsets s offsets list ! k = wadd (offsets ! k) (wmul (list ! k) s)"
  by (simp add: add_offsets_def)

text \<open>The axes of one element go to the base, the others to the offsets.\<close>

definition group_base :: "nat list \<Rightarrow> resolved \<Rightarrow> nat list \<Rightarrow> nat" where
  "group_base shape r as =
     (\<Sum>a\<leftarrow>filter (\<lambda>a. sel_len (rs_axes r ! a) = 1) as. pick (rs_axes r ! a) 0 * row_stride shape a)"

definition group_rest :: "nat list \<Rightarrow> resolved \<Rightarrow> nat \<Rightarrow> nat list \<Rightarrow> nat" where
  "group_rest shape r k as =
     (\<Sum>a\<leftarrow>filter (\<lambda>a. sel_len (rs_axes r ! a) \<noteq> 1) as. pick (rs_axes r ! a) k * row_stride shape a)"

lemma group_fold_correct:
  assumes ok: "resolved_ok shape r"
  shows "set as \<subseteq> set (group_axes r) \<Longrightarrow> holds_base base C \<Longrightarrow> length offsets = group_count r \<Longrightarrow>
    (\<forall>k < group_count r. holds_base (offsets ! k) (D k)) \<Longrightarrow>
    foldl (\<lambda>st a. group_axis (row_stride shape a, rs_axes r ! a) st) (base, offsets) as = (base', offsets') \<Longrightarrow>
    holds_base base' (C + int (group_base shape r as)) \<and> length offsets' = group_count r
    \<and> (\<forall>k < group_count r. holds_base (offsets' ! k) (D k + int (group_rest shape r k as)))"
proof (induction as arbitrary: base offsets C D)
  case (Cons a as)
  have a: "a \<in> set (group_axes r)" "set as \<subseteq> set (group_axes r)" using Cons.prems(1) by auto
  have sel: "sel_ok (shape ! a) (rs_axes r ! a, True)" using ok a(1) by (auto simp: resolved_ok_def)
  obtain base1 offsets1 where g: "group_axis (row_stride shape a, rs_axes r ! a) (base, offsets) = (base1, offsets1)"
    by fastforce
  show ?case
  proof (cases "sel_len (rs_axes r ! a) = 1")
    case True
    then have "base1 = wadd base (wmul (pick (rs_axes r ! a) 0) (row_stride shape a))" "offsets1 = offsets"
      using g sel by (cases "rs_axes r ! a"; auto simp: group_axis_def pick_def)+
    then have "holds_base base1 (C + int (pick (rs_axes r ! a) 0 * row_stride shape a))" "offsets1 = offsets"
      using holds_base_add [OF Cons.prems(2)] by simp_all
    then show ?thesis
      using Cons.IH [OF a(2), of base1 "C + int (pick (rs_axes r ! a) 0 * row_stride shape a)" offsets1 D]
        Cons.prems g True by (simp add: group_base_def group_rest_def add.assoc)
  next
    case False
    then obtain xs where xs: "rs_axes r ! a = Listed xs" "length xs = group_count r"
      using sel ok a(1) by (cases "rs_axes r ! a") (auto simp: resolved_ok_def)
    then have 1: "base1 = base" "offsets1 = add_offsets (row_stride shape a) offsets xs"
      using g False by (auto simp: group_axis_def)
    have "holds_base (offsets1 ! k) (D k + int (pick (rs_axes r ! a) k * row_stride shape a))" if "k < group_count r" for k
      using 1 xs that Cons.prems(3,4) False holds_base_add by (simp add: add_offsets_nth pick_def)
    moreover have "length offsets1 = group_count r" using 1 xs Cons.prems(3) by (simp add: add_offsets_def)
    ultimately show ?thesis
      using Cons.IH [OF a(2), of base1 C offsets1 "\<lambda>k. D k + int (pick (rs_axes r ! a) k * row_stride shape a)"]
        Cons.prems g 1 False
      by (simp add: group_base_def group_rest_def add.assoc)
  qed
qed (simp add: group_base_def group_rest_def)

lemma group_split:
  assumes "resolved_ok shape r"
  shows "(\<Sum>a\<leftarrow>group_axes r. pick (rs_axes r ! a) k * row_stride shape a)
    = group_base shape r (group_axes r) + group_rest shape r k (group_axes r)"
proof -
  have "(\<Sum>a\<leftarrow>as. pick (rs_axes r ! a) k * row_stride shape a)
    = group_base shape r as + group_rest shape r k as" for as
    by (induction as) (auto simp: group_base_def group_rest_def pick_def)
  then show ?thesis .
qed

lemma group_offset_less:
  assumes ok: "resolved_ok shape r" and pos: "0 < prod_list shape" and k: "k < group_count r"
  shows "group_base shape r (group_axes r) + group_rest shape r k (group_axes r) < prod_list shape"
  unfolding group_split [OF ok, symmetric]
proof (rule sum_strides_less)
  show "distinct (group_axes r)" using ok by (auto simp: resolved_ok_def strict_sorted_iff)
  show "\<forall>a \<in> set (group_axes r). a < length shape \<and> pick (rs_axes r ! a) k < shape ! a"
    using ok pick_mem [OF ok _ k] sel_ok_indices unfolding resolved_ok_def by blast
qed (rule pos)

text \<open>The group's one dimension, or its base alone when it has one element.\<close>

lemma group_corr:
  assumes ok: "resolved_ok shape r" and pos: "0 < prod_list shape" "prod_list shape < U64"
    and gc: "0 < group_count r"
    and offs: "length offsets = group_count r"
      "\<forall>k < group_count r. holds_base (offsets ! k) (int (group_rest shape r k (group_axes r)))"
  shows "corr (int (group_base shape r (group_axes r))) [map int (group_offsets shape r)]
    (if group_count r > 1 then [Offsets offsets] else [])"
proof -
  let ?x = "int (group_base shape r (group_axes r))"
  have off: "offsets ! k = group_rest shape r k (group_axes r)" if "k < group_count r" for k
    using offs(2) that group_offset_less [OF ok pos(1) that] pos(2) by (fastforce simp: holds_base_def)
  have nth: "int (group_offsets shape r ! k) = ?x + int (offsets ! k)" if "k < group_count r" for k
    using that off group_split [OF ok] by (simp add: group_offsets_def)
  have dims: "map int (group_offsets shape r) = map (\<lambda>k. ?x + int (offsets ! k)) [0..<group_count r]"
    using nth by (intro nth_equalityI) (simp_all add: group_offsets_def)
  show ?thesis
  proof (cases "group_count r > 1")
    case True
    have "corr (?x + 0) [map (\<lambda>k. ?x + term_int (Offsets offsets) k) [0..<dim_len (Offsets offsets)]] [Offsets offsets]"
      by (intro corr.intros)
    then show ?thesis using True dims offs(1) by simp
  next
    case False
    then have one: "group_count r = 1" using gc by simp
    have "group_rest shape r 0 (group_axes r) = 0"
      using group_lengths [OF ok] one by (auto simp: group_rest_def filter_empty_conv)
    then have "map int (group_offsets shape r) = [?x]" using dims one off [of 0] by simp
    moreover have "corr (?x + 0) [[?x]] []" by (intro corr.intros)
    ultimately show ?thesis using one by simp
  qed
qed

section \<open>\<open>Gathered::new\<close> walks the selected elements\<close>

lemma zip_items:
  "length axes = length shape \<Longrightarrow> rs_axes r = axes \<Longrightarrow>
   zip [0..<length axes] (zip (map (row_stride shape) [0..<length shape]) axes) =
   gather_items shape r [0..<length shape]"
  by (auto simp: gather_items_def intro!: nth_equalityI)

lemma foldl_group_axis:
  assumes "\<forall>a \<in> set as. a < length shape"
  shows "foldl (\<lambda>st a. group_axis (map (row_stride shape) [0..<length shape] ! a, axes ! a) st) st as
    = foldl (\<lambda>st a. group_axis (row_stride shape a, axes ! a) st) st as"
  by (rule foldl_cong) (use assms in auto)

lemma adjacent_split:
  assumes ok: "resolved_ok shape r" and adv: "rs_advanced r = Some adv" "adv_adjacent adv"
  defines "h \<equiv> hd (adv_axes adv)"
  shows "h < length shape" "h \<in> set (group_axes r)" "set [0..<h] \<inter> set (group_axes r) = {}"
    "axes_before shape r = [0..<h]"
    "axes_after shape r = filter (\<lambda>a. a \<notin> set (group_axes r)) [Suc h..<length shape]"
proof -
  have g: "group_axes r = adv_axes adv" using adv(1) by (simp add: group_axes_def)
  obtain rest where rest: "adv_axes adv = h # rest"
    using ok adv(1) unfolding resolved_ok_def h_def by (metis list.exhaust_sel)
  show h: "h < length shape" "h \<in> set (group_axes r)" using ok rest g by (auto simp: resolved_ok_def)
  show dis: "set [0..<h] \<inter> set (group_axes r) = {}" using ok rest g by (auto simp: resolved_ok_def)
  have split: "[0..<length shape] = [0..<h] @ h # [Suc h..<length shape]"
    using h(1) upt_add_eq_append [of 0 h "length shape - h"] by (simp add: upt_conv_Cons)
  have "filter (\<lambda>a. a \<notin> set (group_axes r)) [0..<h] = [0..<h]" using dis by (auto simp: filter_id_conv)
  then have plain: "plain_axes shape r = [0..<h] @ filter (\<lambda>a. a \<notin> set (group_axes r)) [Suc h..<length shape]"
    using h(2) unfolding plain_axes_def split by simp
  have "takeWhile (\<lambda>a. a < h) (filter (\<lambda>a. a \<notin> set (group_axes r)) [Suc h..<length shape]) = []"
    by (auto simp: takeWhile_eq_Nil_iff dest!: hd_in_set)
  then have "takeWhile (\<lambda>a. a < h) (plain_axes shape r) = [0..<h]"
    unfolding plain by (subst takeWhile_append2) simp_all
  then show before: "axes_before shape r = [0..<h]" using adv by (simp add: axes_before_def h_def)
  show "axes_after shape r = filter (\<lambda>a. a \<notin> set (group_axes r)) [Suc h..<length shape]"
    by (simp add: axes_after_def before plain)
qed

text \<open>The plain axes: those before the group, and those after it.\<close>

lemma gather_loop_split:
  assumes ok: "resolved_ok shape r" and ne: "0 < prod_list (rs_out_shape r)"
    and loop: "gather_loop (group_axes r) (gather_items shape r [0..<length shape]) (0, [], None) = Ok (base, dims, g)"
  shows "\<exists>x y new1 new2. dims = new1 @ new2
    \<and> corr x (map (\<lambda>a. map int (axis_offsets shape r a)) (axes_before shape r)) new1
    \<and> corr y (map (\<lambda>a. map int (axis_offsets shape r a)) (axes_after shape r)) new2
    \<and> holds_base base (x + y) \<and> (\<forall>d \<in> set dims. 0 < dim_len d)
    \<and> (\<forall>adv. rs_advanced r = Some adv \<longrightarrow> (if adv_adjacent adv then unwrap_or g 0 else 0) = length new1)"
proof -
  let ?F = "\<lambda>as. map (\<lambda>a. map int (axis_offsets shape r a)) as"
  have hb: "holds_base 0 0" by (simp add: holds_base_def)
  have sub: "set [k..<length shape] \<subseteq> {..<length shape}" for k by auto
  obtain x new where whole: "dims = new" "corr x (?F (plain_axes shape r)) new" "holds_base base x"
      "\<forall>d \<in> set new. 0 < dim_len d"
    using gather_loop_correct [OF ok ne loop sub hb] by (auto simp: plain_axes_def)
  consider adv where "rs_advanced r = Some adv" "adv_adjacent adv" | "rs_advanced r = None"
    | adv where "rs_advanced r = Some adv" "\<not> adv_adjacent adv" by (cases "rs_advanced r") auto
  then show ?thesis
  proof cases
    case (1 adv)
    define h where "h = hd (adv_axes adv)"
    note sp = adjacent_split [OF ok 1, folded h_def]
    have "gather_items shape r [0..<length shape] =
        gather_items shape r [0..<h] @ gather_items shape r (h # [Suc h..<length shape])"
      using sp(1) upt_add_eq_append [of 0 h "length shape - h"] by (simp add: gather_items_def upt_conv_Cons)
    then obtain base1 dims1 g1 where
      l1: "gather_loop (group_axes r) (gather_items shape r [0..<h]) (0, [], None) = Ok (base1, dims1, g1)" and
      l2: "gather_loop (group_axes r) (gather_items shape r (h # [Suc h..<length shape])) (base1, dims1, g1) = Ok (base, dims, g)"
      using loop by (auto simp: gather_loop_append res_bind_Ok)
    obtain u where u: "corr u (?F (axes_before shape r)) dims1" "holds_base base1 u" "\<forall>d \<in> set dims1. 0 < dim_len d"
        "g1 = None"
    proof -
      have "set [0..<h] \<subseteq> {..<length shape}" using sp(1) by auto
      then show ?thesis
        using that gather_loop_correct [OF ok ne l1 _ hb] sp by (auto simp: filter_id_conv disjoint_iff)
    qed
    have l3: "gather_loop (group_axes r) (gather_items shape r [Suc h..<length shape])
        (base1, dims1, Some (length dims1)) = Ok (base, dims, g)"
      using l2 sp(2) u(4) by (simp add: gather_items_def gather_axis_def unwrap_or_def)
    obtain v new2 where v: "dims = dims1 @ new2" "corr v (?F (axes_after shape r)) new2" "holds_base base (u + v)"
        "\<forall>d \<in> set new2. 0 < dim_len d" "g = Some (length dims1)"
      using gather_loop_correct [OF ok ne l3 sub u(2)] sp(5) by auto
    show ?thesis
      using u v 1 by (intro exI [of _ u] exI [of _ v] exI [of _ dims1] exI [of _ new2]) (auto simp: unwrap_or_def)
  next
    case 2
    then have "axes_before shape r = plain_axes shape r" "axes_after shape r = []"
      by (simp_all add: axes_before_def axes_after_def)
    then show ?thesis using whole 2 corr.Empty
      by (intro exI [of _ x] exI [of _ 0] exI [of _ new] exI [of _ "[]"]) simp
  next
    case (3 adv)
    then have "axes_before shape r = []" "axes_after shape r = plain_axes shape r"
      by (simp_all add: axes_before_def axes_after_def)
    then show ?thesis using whole 3 corr.Empty
      by (intro exI [of _ 0] exI [of _ x] exI [of _ "[]"] exI [of _ new]) simp
  qed
qed

lemma gathered_new_correct:
  assumes ok: "resolved_ok shape r" and ne: "0 < prod_list (rs_out_shape r)"
    and small: "0 < prod_list shape" "prod_list shape < U64" and new: "gathered_new shape r = Ok g"
  shows "\<exists>C. corr C (map (map int) (numpy_dims shape r)) (g_dims g) \<and> holds_base (g_base g) C
    \<and> (\<forall>d \<in> set (g_dims g). 0 < dim_len d)"
proof -
  obtain strides where st: "c_strides shape = Some strides"
    using new by (auto simp: gathered_new_def split: option.splits)
  note strides = c_strides_Some [OF st]
  have len: "length (rs_axes r) = length shape" using ok by (simp add: resolved_ok_def)
  obtain base dims gat where
    loop: "gather_loop (group_axes r) (gather_items shape r [0..<length shape]) (0, [], None) = Ok (base, dims, gat)"
    using new st zip_items [OF len refl] strides
    by (auto simp: gathered_new_def group_axes_def res_map_Ok Let_def)
  obtain x y new1 new2 where c: "dims = new1 @ new2"
      "corr x (map (\<lambda>a. map int (axis_offsets shape r a)) (axes_before shape r)) new1"
      "corr y (map (\<lambda>a. map int (axis_offsets shape r a)) (axes_after shape r)) new2"
      "holds_base base (x + y)" "\<forall>d \<in> set dims. 0 < dim_len d"
      "\<forall>adv. rs_advanced r = Some adv \<longrightarrow> (if adv_adjacent adv then unwrap_or gat 0 else 0) = length new1"
    using gather_loop_split [OF ok ne loop] by blast
  have dims: "map (map int) (numpy_dims shape r) =
      map (\<lambda>a. map int (axis_offsets shape r a)) (axes_before shape r)
      @ [map int (group_offsets shape r)] @ map (\<lambda>a. map int (axis_offsets shape r a)) (axes_after shape r)"
    by (simp add: numpy_dims_def)
  note gc = lens_pos(1) [OF ok ne]
  show ?thesis
  proof (cases "rs_advanced r")
    case None
    then have g: "g = \<lparr>g_base = base, g_dims = dims\<rparr>"
      using new st zip_items [OF len refl] strides loop
      by (auto simp: gathered_new_def group_axes_def Let_def)
    have "map int (group_offsets shape r) = [0]"
      using None by (simp add: group_offsets_def group_axes_def group_count_def)
    then have "corr (x + ((0 + 0) + y)) (map (map int) (numpy_dims shape r)) dims"
      unfolding dims c(1) using corr_append [OF c(2) corr_append [OF corr.One [OF corr.Empty] c(3)], of 0] by simp
    then show ?thesis using g c(4,5) by (intro exI [of _ "x + y"]) simp
  next
    case (Some adv)
    have gx: "group_axes r = adv_axes adv" "group_count r = adv_len adv"
      using Some by (simp_all add: group_axes_def group_count_def)
    obtain base' offsets where f: "foldl (\<lambda>st a. group_axis (row_stride shape a, rs_axes r ! a) st)
        (base, replicate (group_count r) 0) (group_axes r) = (base', offsets)" by fastforce
    have bounds: "\<forall>a \<in> set (adv_axes adv). a < length shape" using ok gx by (auto simp: resolved_ok_def)
    have g: "g = \<lparr>g_base = base', g_dims = (if group_count r > 1 then insert_at (length new1) (Offsets offsets) dims else dims)\<rparr>"
      using new st zip_items [OF len refl] strides loop f foldl_group_axis [OF bounds, of "rs_axes r"] Some gx c(6)
      by (auto simp: gathered_new_def Let_def)
    have fold: "holds_base base' (x + y + int (group_base shape r (group_axes r)))" "length offsets = group_count r"
      "\<forall>k < group_count r. holds_base (offsets ! k) (0 + int (group_rest shape r k (group_axes r)))"
      using group_fold_correct [OF ok subset_refl c(4) _ _ f, of "\<lambda>_. 0"] by (simp_all add: holds_base_def)
    then have "corr (int (group_base shape r (group_axes r))) [map int (group_offsets shape r)]
        (if group_count r > 1 then [Offsets offsets] else [])"
      by (intro group_corr [OF ok small gc]) simp_all
    from corr_append [OF c(2) corr_append [OF this c(3)]]
    have "corr (x + (int (group_base shape r (group_axes r)) + y)) (map (map int) (numpy_dims shape r)) (g_dims g)"
      unfolding dims g c(1) by (cases "group_count r > 1") (simp_all add: insert_at_def)
    moreover have "\<forall>d \<in> set (g_dims g). 0 < dim_len d"
      using g c(1,5) gc fold(2) by (auto simp: insert_at_def)
    ultimately show ?thesis using g fold(1)
      by (intro exI [of _ "x + (int (group_base shape r (group_axes r)) + y)"]) (simp add: algebra_simps)
  qed
qed

text \<open>The walk of a gathered selection is the selection.\<close>

lemma gathered_new_walk:
  assumes "resolved_ok shape r" "0 < prod_list (rs_out_shape r)" "0 < prod_list shape" "prod_list shape < U64"
    and "gathered_new shape r = Ok g"
  shows "\<exists>B. g_base g < U64 \<and> int (g_base g) = B mod int U64 \<and> (\<forall>d \<in> set (g_dims g). 0 < dim_len d)
    \<and> prod_list (map dim_len (g_dims g)) = prod_list (rs_out_shape r)
    \<and> map (walk_int B (g_dims g)) [0..<prod_list (rs_out_shape r)] = map int (selected shape r)"
proof -
  obtain C where C: "corr C (map (map int) (numpy_dims shape r)) (g_dims g)" "holds_base (g_base g) C"
      "\<forall>d \<in> set (g_dims g). 0 < dim_len d"
    using gathered_new_correct [OF assms] by auto
  have eq: "map int (selected shape r) = map (walk_int C (g_dims g)) [0..<prod_list (map dim_len (g_dims g))]"
    using corr_walk [OF C(1)] by (simp add: selected_def psum_map_int)
  from arg_cong [OF this, of length]
  have "prod_list (map dim_len (g_dims g)) = prod_list (rs_out_shape r)"
    using length_selected [OF assms(1)] by simp
  then show ?thesis using C eq by (intro exI [of _ C]) (simp add: holds_base_def)
qed

end
