(* ===== verification/Layout_Read.thy ===== *)
theory Layout_Read
  imports Numpy
begin

text \<open>
  \<open>SelectionLayout::read_with\<close> against the selection: whatever byte range of the stream is asked
  for, the bytes are those of the selected elements in output order, converted to the dtype on the
  wire; a range outside the stream is refused before the source is read.
\<close>

lemma wprod_mod: "wprod xs = prod_list xs mod U64"
proof -
  have "foldl wmul (k mod U64) xs = (k * prod_list xs) mod U64" for k
  proof (induction xs arbitrary: k)
    case (Cons x xs)
    have "wmul (k mod U64) x = (k * x) mod U64" by (simp add: wmul_def mod_mult_left_eq)
    then show ?case using Cons.IH [of "k * x"] by (simp add: mult.assoc)
  qed simp
  from this [of 1] show ?thesis by (simp add: wprod_def U64_def)
qed

section \<open>The stream a layout promises\<close>

definition wire_elem :: "(bytes \<Rightarrow> bytes) \<Rightarrow> dtype \<Rightarrow> dtype \<Rightarrow> bytes \<Rightarrow> bytes" where
  "wire_elem f16_from_f32 frm to_dtype elem =
     (case cast_elem f16_from_f32 frm to_dtype of None \<Rightarrow> elem | Some (_, _, f) \<Rightarrow> f elem)"

definition wire_stream :: "(bytes \<Rightarrow> bytes) \<Rightarrow> dtype \<Rightarrow> dtype \<Rightarrow> bytes \<Rightarrow> nat list \<Rightarrow> bytes" where
  "wire_stream f16_from_f32 frm to_dtype src elems =
     concat (map (\<lambda>i. wire_elem f16_from_f32 frm to_dtype (slice src (i * itemsize frm) (itemsize frm))) elems)"

lemma wire_stream_same: "wire_stream f d d src elems = elems_bytes (itemsize d) src (map int elems)"
proof -
  have "wire_elem f d d e = e" for e by (cases d) (simp_all add: wire_elem_def cast_elem_def)
  then show ?thesis by (simp add: wire_stream_def elems_bytes_def elem_bytes_def comp_def)
qed

section \<open>What \<open>resolve\<close> hands to the reader\<close>

lemma layout_resolve_cases:
  assumes "layout_resolve b shape d ixs q = Ok lay"
  obtains r where "resolve shape ixs = Ok r" "lay_out_shape lay = rs_out_shape r" "lay_src_dtype lay = d"
    "lay_dtype lay = wire_dtype b q d" "lay_total_bytes lay = num_elements r * itemsize (lay_dtype lay)"
    "lay_quality lay = q"
    "(\<exists>off len. walks_independently r \<and> contiguous_run shape (rs_axes r) = Some (off, len)
        \<and> lay_kind lay = Contiguous (wmul off (itemsize d)) (lay_total_bytes lay))
     \<or> (\<exists>g. gathered_new shape r = Ok g \<and> lay_kind lay = Gathered g)"
proof -
  obtain r where r: "resolve shape ixs = Ok r"
    using assms by (auto simp: layout_resolve_def Let_def res_bind_Ok split: if_splits)
  obtain tot where tot: "cmul (num_elements r) (itemsize (wire_dtype b q d)) = Some tot"
    using assms r by (auto simp: layout_resolve_def Let_def split: if_splits option.splits)
  then have t: "tot = num_elements r * itemsize (wire_dtype b q d)" by (simp add: cmul_Some)
  show thesis
  proof (cases "if walks_independently r then contiguous_run shape (rs_axes r) else None")
    case None
    then obtain g where "gathered_new shape r = Ok g" "lay_kind lay = Gathered g"
      using assms r tot by (auto simp: layout_resolve_def Let_def res_map_Ok split: if_splits)
    then show thesis using assms r tot t None
      by (intro that [OF r]) (auto simp: layout_resolve_def Let_def res_map_Ok split: if_splits)
  next
    case (Some p)
    then show thesis using assms r tot t
      by (cases p, intro that [OF r]) (auto simp: layout_resolve_def Let_def split: if_splits)
  qed
qed

text \<open>A selection of nothing never points past the start.\<close>

lemma contiguous_run_empty:
  assumes ok: "resolved_ok shape r" and run: "contiguous_run shape (rs_axes r) = Some (off, len)"
    and none: "prod_list (rs_out_shape r) = 0"
  shows "off = 0"
proof -
  have out: "prod_list (rs_out_shape r) = group_count r * prod_list (map (\<lambda>a. sel_len (rs_axes r ! a))
      (filter (\<lambda>a. a \<notin> set (group_axes r)) [0..<length shape]))"
    using ok unfolding resolved_ok_def by blast
  have "\<exists>a < length shape. sel_len (rs_axes r ! a) = 0"
  proof (cases "group_count r = 0")
    case True
    then obtain a xs where "a \<in> set (group_axes r)" "rs_axes r ! a = Listed xs" "length xs = 0"
      using ok unfolding resolved_ok_def by force
    moreover from this(1) have "a < length shape" using ok by (auto simp: resolved_ok_def)
    ultimately show ?thesis by force
  next
    case False
    then have "0 \<in> set (map (\<lambda>a. sel_len (rs_axes r ! a)) (filter (\<lambda>a. a \<notin> set (group_axes r)) [0..<length shape]))"
      using none out by (simp add: prod_list_zero_iff del: set_map)
    then show ?thesis by auto
  qed
  then obtain a where a: "a < length shape" "sel_len (rs_axes r ! a) = 0" by auto
  obtain runs where t: "list_all2 (\<lambda>sel run. as_run sel = Some run) (rs_axes r) runs"
    "traverse_opt as_run (rs_axes r) = Some runs"
    using run by (auto simp: contiguous_run_def traverse_opt_Some split: bind_splits)
  have len: "length (rs_axes r) = length shape" using ok by (simp add: resolved_ok_def)
  have "as_run (rs_axes r ! a) = Some (runs ! a)" "a < length runs"
    using list_all2_nthD [OF t(1), of a] list_all2_lengthD [OF t(1)] a len by simp_all
  then have "snd (runs ! a) = 0" "runs ! a \<in> set runs"
    using as_run_len [of "rs_axes r ! a" "fst (runs ! a)" "snd (runs ! a)"] a(2) by simp_all
  then show ?thesis using run t(2) by (auto simp: contiguous_run_def split: if_splits)
qed

lemma selected_source:
  assumes "resolved_ok shape r" "0 < prod_list shape"
  shows "in_source (prod_list shape) (map int (selected shape r))"
  using selected_bound [OF assms] by (auto simp: in_source_def)

lemma gathered_read_nothing:
  assumes "0 < isz"
  shows "gathered_read g isz 0 [] read_src = Some (Ok [])"
  using assms by (simp add: gathered_read_def div_ceil_def wadd_def wsub_def wmul_def for_each_stretch_def
      finish_reading_def Let_def)

text \<open>An axis of length 0 leaves nothing to select.\<close>

lemma empty_array_empty:
  assumes "resolved_ok shape r" "0 < prod_list (rs_out_shape r)"
  shows "0 < prod_list shape"
proof (rule prod_list_pos, rule notI)
  assume "0 \<in> set shape"
  then obtain a where a: "a < length shape" "shape ! a = 0" by (auto simp: in_set_conv_nth)
  then have "sel_ok 0 (rs_axes r ! a, a \<in> set (group_axes r))"
    using assms(1) by (metis resolved_ok_def)
  moreover have "0 < sel_len (rs_axes r ! a)" using lens_pos(2) [OF assms a(1)] .
  then obtain i where "i \<in> set (axis_indices (rs_axes r ! a))"
    by (metis length_axis_indices length_greater_0_conv list.set_intros(1) neq_Nil_conv)
  ultimately show False using sel_ok_indices by blast
qed

text \<open>\<open>read_source\<close>: the bytes of the selected elements, whichever of the two kinds the layout is.\<close>

lemma read_source_correct:
  assumes src: "byte_source read_src src" and lay: "layout_resolve b shape d ixs q = Ok lay"
    and r: "resolve shape ixs = Ok r" and i64: "list_all index_i64 ixs"
    and size: "prod_list shape * itemsize d \<le> length src" "prod_list (rs_out_shape r) * itemsize d < U64"
    and within: "offset + length dst \<le> prod_list (rs_out_shape r) * itemsize d"
  shows "read_source lay (itemsize d) offset dst read_src =
    Some (Ok (slice (elems_bytes (itemsize d) src (map int (selected shape r))) offset (length dst)))"
proof -
  let ?isz = "itemsize d" and ?n = "prod_list (rs_out_shape r)"
  let ?data = "elems_bytes ?isz src (map int (selected shape r))"
  have ok: "resolved_ok shape r" using r i64 by (rule resolve_ok)
  have small: "length src < U64" using src by (rule byte_source.src_small)
  obtain kind: "(\<exists>off len. walks_independently r \<and> contiguous_run shape (rs_axes r) = Some (off, len)
        \<and> lay_kind lay = Contiguous (wmul off ?isz) (lay_total_bytes lay))
     \<or> (\<exists>g. gathered_new shape r = Ok g \<and> lay_kind lay = Gathered g)"
    using layout_resolve_cases [OF lay] r by (metis sum.inject(2))
  show ?thesis
  proof (cases "?n = 0")
    case True
    then have z: "offset = 0" "dst = []" using within by simp_all
    from kind show ?thesis
    proof (elim disjE exE conjE)
      fix off len assume c: "contiguous_run shape (rs_axes r) = Some (off, len)"
        and k: "lay_kind lay = Contiguous (wmul off ?isz) (lay_total_bytes lay)"
      have "off = 0" using ok c True by (rule contiguous_run_empty)
      then show ?thesis using k z byte_source.read_ok [OF src, of 0 0]
        by (simp add: read_source_def wmul_def wadd_def)
    next
      fix g assume "lay_kind lay = Gathered g"
      then show ?thesis using z by (simp add: read_source_def gathered_read_nothing)
    qed
  next
    case False
    then have ne: "0 < ?n" by simp
    have pos: "0 < prod_list shape" by (rule empty_array_empty [OF ok ne])
    have "prod_list shape * 1 \<le> prod_list shape * ?isz" by (intro mult_le_mono2) (simp add: Suc_leI)
    then have N: "prod_list shape < U64" using size(1) small by linarith
    from kind show ?thesis
    proof (elim disjE exE conjE)
      fix off len assume c: "walks_independently r" "contiguous_run shape (rs_axes r) = Some (off, len)"
        and k: "lay_kind lay = Contiguous (wmul off ?isz) (lay_total_bytes lay)"
      have sel: "selected shape r = [off..<off + len]" using ok c pos N ne by (rule contiguous_run_selected)
      then have len: "len = ?n" using length_selected [OF ok] by simp
      have "off + len - 1 < prod_list shape"
        by (rule selected_bound [OF ok pos]) (use sel len ne in simp)
      then have "off + len \<le> prod_list shape" using len ne by linarith
      then have "(off + len) * ?isz \<le> length src" using size(1) by (metis le_trans mult_le_mono1)
      then have room: "off * ?isz + ?n * ?isz \<le> length src" using len by (simp add: add_mult_distrib)
      have "map int [off..<off + len] = map (\<lambda>j. int off + int j) [0..<len]"
        by (rule nth_equalityI) simp_all
      then have data: "?data = slice src (off * ?isz) (?n * ?isz)"
        unfolding sel len by (simp add: elems_bytes_run)
      have "wadd (wmul off ?isz) offset = off * ?isz + offset"
        using room within small by (simp add: wadd_eq wmul_eq)
      moreover have "off * ?isz + offset + length dst \<le> length src" using room within by linarith
      ultimately have "read_source lay ?isz offset dst read_src = Some (Ok (slice src (off * ?isz + offset) (length dst)))"
        using k byte_source.read_ok [OF src] by (simp add: read_source_def)
      then show ?thesis unfolding data slice_slice [OF within] .
    next
      fix g assume g: "gathered_new shape r = Ok g" and k: "lay_kind lay = Gathered g"
      obtain B where B: "g_base g < U64" "int (g_base g) = B mod int U64" "\<forall>d \<in> set (g_dims g). 0 < dim_len d"
          "prod_list (map dim_len (g_dims g)) = ?n"
          "map (walk_int B (g_dims g)) [0..<?n] = map int (selected shape r)"
        using gathered_new_walk [OF ok ne pos N g] by blast
      have "in_source (prod_list shape) (map (walk_int B (g_dims g)) [0..<?n])"
        unfolding B(5) by (rule selected_source [OF ok pos])
      then have "\<forall>n < ?n. 0 \<le> walk_int B (g_dims g) n \<and> walk_int B (g_dims g) n < int (prod_list shape)"
        by (auto simp: in_source_def)
      then show ?thesis
        using byte_source.gathered_read_correct [OF src B(3,1,2) _ size(2) _ _ size(1) within] B(4,5) k
        by (simp add: read_source_def)
    qed
  qed
qed

section \<open>Casting on the way out\<close>

lemma chunks_exact_concat:
  assumes "\<And>x. x \<in> set xs \<Longrightarrow> length (f x) = n" "0 < n"
  shows "chunks_exact n (concat (map f xs)) = map f xs"
proof -
  have len: "length (concat (map f xs)) = length xs * n" using assms(1) by (rule length_concat_const)
  have "slice (concat (map f xs)) (i * n) n = f (xs ! i)" if "i < length xs" for i
    using slice_concat_const [of xs f n i 1] assms(1) that
    by (simp add: slice_def take_Suc_conv_app_nth Cons_nth_drop_Suc [symmetric])
  then show ?thesis
    using assms(2) len by (auto simp: chunks_exact_def intro!: nth_equalityI)
qed

lemma cast_elem_sizes:
  assumes "cast_elem f16 frm to_dtype = Some (wide, narrow, f)" "\<And>w. length (f16 w) = 2"
  shows "wide = itemsize frm" "narrow = itemsize to_dtype" "length (f w) = narrow"
  using assms by (auto simp: cast_elem_def split: if_splits)

lemma wire_dtype_cast:
  "wire_dtype b q d \<noteq> d \<Longrightarrow> \<exists>wide narrow f. cast_elem f16 d (wire_dtype b q d) = Some (wide, narrow, f)"
  using wire_dtype_cases [of b q d] by (auto simp: cast_elem_def)

lemma cast_into_correct:
  assumes cast: "cast_elem f16 frm to_dtype = Some (wide, narrow, f)" and f16: "\<And>w. length (f16 w) = 2"
    and elems: "\<And>x. x \<in> set xs \<Longrightarrow> length (g x) = wide" and dst: "length dst = length xs * narrow"
  shows "cast_into f16 frm to_dtype (concat (map g xs)) dst = Ok (concat (map (f \<circ> g) xs))"
proof -
  note sz = cast_elem_sizes [OF cast f16]
  have pos: "0 < wide" "0 < narrow" by (simp_all add: sz(1,2))
  have src: "chunks_exact wide (concat (map g xs)) = map g xs" using elems pos(1) by (rule chunks_exact_concat)
  have "length (chunks_exact narrow dst) = length xs" using dst pos by (simp add: chunks_exact_def)
  then have "map (\<lambda>(w, _). f w) (zip (map g xs) (chunks_exact narrow dst)) = map (f \<circ> g) xs"
    by (intro nth_equalityI) simp_all
  moreover have "length (concat (map (f \<circ> g) xs)) = length dst"
    using dst sz(3) length_concat_const [of xs "f \<circ> g" narrow] by simp
  ultimately show ?thesis using cast src by (simp add: cast_into_def write_at_whole)
qed

lemma read_cast_correct:
  assumes cast: "cast_elem f16 (lay_src_dtype lay) (lay_dtype lay) = Some (wide, narrow, f)"
    and f16: "\<And>w. length (f16 w) = 2"
    and elem: "\<And>x. x \<in> set xs \<Longrightarrow> length (g x) = wide"
    and size: "length xs * wide < U64" "length xs * narrow < U64"
    and read: "\<And>off buf. off + length buf \<le> length xs * wide \<Longrightarrow>
      read_source lay wide off buf read_src = Some (Ok (slice (concat (map g xs)) off (length buf)))"
    and within: "offset + length dst \<le> length xs * narrow"
  shows "read_cast f16 lay offset dst read_src =
    Some (Ok (slice (concat (map (f \<circ> g) xs)) offset (length dst)))"
proof -
  note sz = cast_elem_sizes [OF cast f16]
  have pos: "0 < wide" "0 < narrow" by (simp_all add: sz(1,2))
  define first where "first = offset div narrow"
  define last where "last = div_ceil (offset + length dst) narrow"
  define count where "count = last - first"
  define skip where "skip = offset - first * narrow"
  have last: "last \<le> length xs" unfolding last_def using pos(2) within by (rule div_ceil_le)
  have "offset div narrow \<le> (offset + length dst) div narrow" by (simp add: div_le_mono)
  also have "\<dots> \<le> last" unfolding last_def using pos(2) by (rule div_ceil_bounds)
  finally have fl: "first + count = last" by (simp add: first_def count_def)
  have le: "first * wide + count * wide \<le> length xs * wide" "first * narrow + count * narrow \<le> length xs * narrow"
    using mult_le_mono1 [OF last, of wide] mult_le_mono1 [OF last, of narrow] fl by (simp_all flip: add_mult_distrib)
  have "last * 1 \<le> last * wide" using pos(1) by (intro mult_le_mono2) simp
  also have "\<dots> \<le> length xs * wide" using last by (rule mult_le_mono1)
  finally have "last < U64" using size(1) by linarith
  then have small: "first * wide < U64" "count * wide < U64" "first * narrow < U64" "count * narrow < U64"
    "first < U64" "count < U64" "last < U64" "offset + length dst < U64"
    using size within le fl by simp_all
  have fo: "first * narrow \<le> offset" "first * narrow + skip = offset" "first \<le> last"
    using fl by (simp_all add: first_def skip_def)
  have w: "wadd offset (length dst) = offset + length dst" "wsub last first = count"
    "wmul first narrow = first * narrow" "wsub offset (first * narrow) = skip"
    "wmul count wide = count * wide" "wmul count narrow = count * narrow" "wmul first wide = first * wide"
    using small fo by (simp_all add: wadd_eq wsub_eq wmul_eq count_def skip_def)
  let ?part = "slice xs first count"
  have part: "length ?part = count" "set ?part \<subseteq> set xs"
    using last fl by (auto simp: slice_def dest: in_set_takeD in_set_dropD)
  have "read_source lay wide (first * wide) (replicate (count * wide) 0) read_src =
      Some (Ok (slice (concat (map g xs)) (first * wide) (count * wide)))"
    using read [of "first * wide" "replicate (count * wide) 0"] le(1) by simp
  also have "slice (concat (map g xs)) (first * wide) (count * wide) = concat (map g ?part)"
    using elem last fl by (intro slice_concat_const) auto
  finally have got: "read_source lay wide (first * wide) (replicate (count * wide) 0) read_src =
      Some (Ok (concat (map g ?part)))" .
  have "cast_into f16 (lay_src_dtype lay) (lay_dtype lay) (concat (map g ?part)) (replicate (count * narrow) 0)
      = Ok (concat (map (f \<circ> g) ?part))"
    by (rule cast_into_correct [OF cast f16]) (use elem part in auto)
  then have run: "read_cast f16 lay offset dst read_src = Some (Ok (slice (concat (map (f \<circ> g) ?part)) skip (length dst)))"
    using got w by (simp add: read_cast_def Let_def sz(1,2) [symmetric] first_def [symmetric] last_def [symmetric])
  have "concat (map (f \<circ> g) ?part) = slice (concat (map (f \<circ> g) xs)) (first * narrow) (count * narrow)"
    using sz(3) last fl by (intro slice_concat_const [symmetric]) auto
  moreover have "skip + length dst \<le> count * narrow"
  proof -
    have "offset + length dst \<le> last * narrow" unfolding last_def using pos(2) by (rule div_ceil_bounds)
    moreover have "last * narrow = first * narrow + count * narrow"
      by (simp add: fl [symmetric] add_mult_distrib)
    ultimately show ?thesis using fo(2) by linarith
  qed
  ultimately show ?thesis using run fo(2) slice_slice [of skip "length dst" "count * narrow" "concat (map (f \<circ> g) xs)" "first * narrow"]
    by simp
qed

section \<open>The property\<close>

text \<open>Reading any range of the stream gives that range of the selected elements' wire bytes.\<close>

lemma read_with_stream:
  assumes src: "byte_source read_src src" and lay: "layout_resolve b shape d ixs q = Ok lay"
    and r: "resolve shape ixs = Ok r" and i64: "list_all index_i64 ixs"
    and size: "prod_list shape * itemsize d \<le> length src" "prod_list (rs_out_shape r) * 16 < U64"
    and f16: "\<And>w. length (f16 w) = 2"
    and within: "offset + length dst \<le> lay_total_bytes lay"
  shows "read_with f16 lay offset dst read_src =
    Some (Ok (slice (wire_stream f16 d (lay_dtype lay) src (selected shape r)) offset (length dst)))"
proof -
  let ?n = "prod_list (rs_out_shape r)"
  have ok: "resolved_ok shape r" using r i64 by (rule resolve_ok)
  obtain l: "lay_src_dtype lay = d" "lay_dtype lay = wire_dtype b q d"
    "lay_total_bytes lay = num_elements r * itemsize (lay_dtype lay)"
    using layout_resolve_cases [OF lay] r by (metis sum.inject(2))
  have bytes: "?n * itemsize t < U64" for t
    using mult_le_mono2 [OF itemsize_le, of ?n t] size(2) by linarith
  have "?n < U64" using size(2) by linarith
  then have tot: "lay_total_bytes lay = ?n * itemsize (lay_dtype lay)"
    using l(3) by (simp add: num_elements_def wprod_mod)
  have rng: "check_range lay offset (length dst) = Ok ()"
    using within tot bytes [of "lay_dtype lay"] by (simp add: check_range_def cadd_def)
  have elems: "length (slice src (i * itemsize d) (itemsize d)) = itemsize d" if "i \<in> set (selected shape r)" for i
  proof -
    have "0 < ?n" using length_selected [OF ok] that by (metis length_pos_if_in_set)
    then have "i + 1 \<le> prod_list shape"
      using selected_bound [OF ok empty_array_empty [OF ok] that] by simp
    then have "(i + 1) * itemsize d \<le> prod_list shape * itemsize d" by (rule mult_le_mono1)
    then show ?thesis using size(1) by simp
  qed
  have read: "read_source lay (itemsize d) off buf read_src =
      Some (Ok (slice (concat (map (\<lambda>i. slice src (i * itemsize d) (itemsize d)) (selected shape r))) off (length buf)))"
    if "off + length buf \<le> length (selected shape r) * itemsize d" for off buf
    using read_source_correct [OF src lay r i64 size(1) bytes] that length_selected [OF ok]
    by (simp add: elems_bytes_def elem_bytes_def comp_def)
  show ?thesis
  proof (cases "lay_dtype lay = d")
    case True
    then show ?thesis
      using rng l(1) read [of offset dst] within tot length_selected [OF ok]
      by (simp add: read_with_def wire_stream_same elems_bytes_def elem_bytes_def comp_def)
  next
    case False
    then obtain wide narrow f where cast: "cast_elem f16 d (lay_dtype lay) = Some (wide, narrow, f)"
      using wire_dtype_cast [of b q d f16] l(2) by auto
    note sz = cast_elem_sizes [OF cast f16]
    have "read_cast f16 lay offset dst read_src = Some (Ok (slice (concat (map (f \<circ>
        (\<lambda>i. slice src (i * itemsize d) (itemsize d))) (selected shape r))) offset (length dst)))"
      by (rule read_cast_correct [OF _ f16])
        (use cast elems sz(1,2) bytes length_selected [OF ok] read within tot l(1) in simp_all)
    then show ?thesis using rng l(1) False cast
      by (simp add: read_with_def wire_stream_def wire_elem_def comp_def)
  qed
qed

lemma read_with_range:
  assumes "lay_total_bytes lay < offset + length dst"
  shows "read_with f16 lay offset dst read_src = Some (Err (OutOfRange offset (length dst) (lay_total_bytes lay)))"
  using assms by (simp add: read_with_def check_range_def cadd_def)

end
