(* ===== verification/Backend.thy ===== *)
theory Backend
  imports Layout_Read
begin

text \<open>
  What a backend provides (\<open>aex-core/src/backend.rs\<close>): items, paths and datasets. A dataset is its
  dtype, shape and the \<open>read_src\<close> it hands to \<open>SelectionLayout::read_with\<close>; \<open>ds_prepare\<close> is what an
  overriding \<open>layout\<close> does before it resolves, such as reading an index. Strings are character lists, of which the code only looks at ASCII characters.
\<close>

section \<open>Strings\<close>

text \<open>\<open>split_once\<close>, \<open>split\<close> and \<open>trim_matches\<close> of \<open>str\<close>, for one character.\<close>

definition split_once :: "char \<Rightarrow> string \<Rightarrow> (string \<times> string) option" where
  "split_once c s =
     (if c \<in> set s then Some (takeWhile ((\<noteq>) c) s, tl (dropWhile ((\<noteq>) c) s)) else None)"

fun split_on :: "char \<Rightarrow> string \<Rightarrow> string list" where
  "split_on c [] = [[]]"
| "split_on c (x # s) =
     (if x = c then [] # split_on c s
      else case split_on c s of [] \<Rightarrow> [[x]] | w # ws \<Rightarrow> (x # w) # ws)"

definition trim_matches :: "char \<Rightarrow> string \<Rightarrow> string" where
  "trim_matches c s = rev (dropWhile ((=) c) (rev (dropWhile ((=) c) s)))"

text \<open>\<open>parse::<u64>\<close>: an optional \<open>+\<close>, then one or more digits, within range.\<close>

definition digit_of :: "char \<Rightarrow> nat option" where
  "digit_of c = (let n = of_char c in if 48 \<le> n \<and> n \<le> (57::nat) then Some (n - 48) else None)"

fun digits_value :: "nat \<Rightarrow> string \<Rightarrow> nat option" where
  "digits_value acc [] = Some acc"
| "digits_value acc (c # s) =
     (case digit_of c of None \<Rightarrow> None | Some d \<Rightarrow> digits_value (acc * 10 + d) s)"

definition parse_u64 :: "string \<Rightarrow> nat option" where
  "parse_u64 s =
     (let digits = (case s of [] \<Rightarrow> [] | c # rest \<Rightarrow> if c = CHR ''+'' then rest else s) in
      if digits = [] then None
      else Option.bind (digits_value 0 digits) (\<lambda>n. if n < U64 then Some n else None))"

definition normalize_path :: "string \<Rightarrow> string" where
  "normalize_path path = trim_matches (CHR ''/'') path"

lemma trim_matches_idem [simp]: "trim_matches c (trim_matches c s) = trim_matches c s"
proof -
  have drop_id: "dropWhile P xs = xs" if "xs = [] \<or> \<not> P (hd xs)" for P and xs :: string
    using that by (cases xs) auto
  let ?d = "dropWhile ((=) c) s"
  have "rev (dropWhile ((=) c) (rev ?d)) = [] \<or> hd (rev (dropWhile ((=) c) (rev ?d))) \<noteq> c"
  proof (cases "rev (dropWhile ((=) c) (rev ?d)) = []")
    case False
    then obtain ys where "?d = rev (dropWhile ((=) c) (rev ?d)) @ ys"
      by (metis rev_append rev_rev_ident takeWhile_dropWhile_id)
    then have eq: "hd (rev (dropWhile ((=) c) (rev ?d))) = hd ?d" "?d \<noteq> []" using False
      by (metis hd_append2) (metis False dropWhile.simps(1) rev.simps(1))
    from eq(2) have "hd ?d \<noteq> c" using hd_dropWhile [of "(=) c" s] by auto
    with eq(1) have "hd (rev (dropWhile ((=) c) (rev ?d))) \<noteq> c" by simp
    then show ?thesis by simp
  qed simp
  then have "dropWhile ((=) c) (trim_matches c s) = trim_matches c s"
    unfolding trim_matches_def by (intro drop_id) auto
  then show ?thesis
    by (simp add: trim_matches_def [of c "trim_matches c s"]) (simp add: trim_matches_def dropWhile_idem)
qed

text \<open>Leading and trailing slashes do not matter, and the result has none.\<close>

lemma normalize_path_idem [simp]: "normalize_path (normalize_path p) = normalize_path p"
  by (simp add: normalize_path_def)

section \<open>Datasets and items\<close>

definition MAX_ATTR_BYTES :: nat where "MAX_ATTR_BYTES = 64 * 2 ^ 10"

datatype attr_value =
  Text string
| Array dtype "nat list" bytes

record dataset =
  ds_dtype :: dtype
  ds_shape :: "nat list"
  ds_read :: read_src
  ds_decoded_chunk_bytes :: "nat option"
  ds_prepare :: "aex_error + unit"

datatype item = Dataset dataset | Group

definition ndim :: "dataset \<Rightarrow> nat" where "ndim ds = length (ds_shape ds)"

definition dataset_layout :: "build \<Rightarrow> dataset \<Rightarrow> index list \<Rightarrow> quality_spec \<Rightarrow> aex_error + layout" where
  "dataset_layout b ds indices q =
     res_bind (ds_prepare ds) (\<lambda>_. layout_resolve b (ds_shape ds) (ds_dtype ds) indices q)"

text \<open>\<open>read_range\<close> of every backend: the layout's own read over the dataset's bytes.\<close>

definition read_range ::
    "(bytes \<Rightarrow> bytes) \<Rightarrow> dataset \<Rightarrow> layout \<Rightarrow> nat \<Rightarrow> bytes \<Rightarrow> (aex_error + bytes) option" where
  "read_range f16_from_f32 ds lay offset dst = read_with f16_from_f32 lay offset dst (ds_read ds)"

text \<open>The stream of a layout: what every read inside it gives.\<close>

definition reads_stream :: "(bytes \<Rightarrow> bytes) \<Rightarrow> dataset \<Rightarrow> layout \<Rightarrow> bytes \<Rightarrow> bool" where
  "reads_stream f16_from_f32 ds lay stream \<longleftrightarrow>
     length stream = lay_total_bytes lay
     \<and> (\<forall>offset dst. offset + length dst \<le> lay_total_bytes lay \<longrightarrow>
          read_range f16_from_f32 ds lay offset dst = Some (Ok (slice stream offset (length dst))))"

end
