(* ===== verification/Null_Backend.thy ===== *)
theory Null_Backend
  imports Backend
begin

text \<open>
  The synthetic dataset (\<open>aex-core/src/backends/null.rs\<close>): a pattern whose byte at every position of
  the stream is the low byte of the position.
\<close>

definition DATASET_NAME :: string where "DATASET_NAME = ''array''"
definition DEFAULT_PERIOD :: nat where "DEFAULT_PERIOD = 64 * 1024"
definition PERIOD_MULTIPLE :: nat where "PERIOD_MULTIPLE = 256"

record null_dataset =
  nd_dtype :: dtype
  nd_shape :: "nat list"
  nd_data_len :: nat
  nd_pattern :: bytes

definition checked_product :: "nat list \<Rightarrow> nat option" where
  "checked_product xs = foldl (\<lambda>acc n. Option.bind acc (\<lambda>a. cmul a n)) (Some 1) xs"

definition pattern_of :: "nat \<Rightarrow> bytes" where "pattern_of period = map of_nat [0..<period]"

definition with_period :: "dtype \<Rightarrow> nat list \<Rightarrow> nat \<Rightarrow> aex_error + null_dataset" where
  "with_period d shape period =
     (case Option.bind (checked_product shape) (\<lambda>elements. cmul elements (itemsize d)) of
        None \<Rightarrow> Err BadSelection
      | Some data_len \<Rightarrow>
          Ok \<lparr>nd_dtype = d, nd_shape = shape, nd_data_len = data_len, nd_pattern = pattern_of period\<rparr>)"

definition null_new :: "dtype \<Rightarrow> nat list \<Rightarrow> aex_error + null_dataset" where
  "null_new d shape = with_period d shape DEFAULT_PERIOD"

definition from_spec :: "string \<Rightarrow> aex_error + null_dataset" where
  "from_spec spec =
     res_bind
       (case split_once (CHR ''@'') spec of
          Some (spec, period) \<Rightarrow> res_map (\<lambda>p. (spec, p)) (ok_or (parse_u64 period) BadSelection)
        | None \<Rightarrow> Ok (spec, DEFAULT_PERIOD))
       (\<lambda>(spec, period).
          if period = 0 \<or> period mod PERIOD_MULTIPLE \<noteq> 0 then Err BadSelection
          else res_bind (ok_or (split_once (CHR '':'') spec) BadSelection) (\<lambda>(name, dims).
            res_bind (ok_or (dtype_from_name name) BadSelection) (\<lambda>d.
              res_bind (res_traverse (\<lambda>dim. ok_or (parse_u64 dim) BadSelection) (split_on (CHR ''x'') dims))
                (\<lambda>shape. with_period d shape period))))"

definition data_len :: "null_dataset \<Rightarrow> nat" where "data_len ds = nd_data_len ds"
definition null_period :: "null_dataset \<Rightarrow> nat" where "null_period ds = length (nd_pattern ds)"

text \<open>The remainder by the length of an empty pattern panics: \<open>None\<close>.\<close>

function fill_loop :: "bytes \<Rightarrow> nat \<Rightarrow> nat \<Rightarrow> bytes \<Rightarrow> bytes option" where
  "fill_loop pattern at written dst =
     (if written < length dst then
        (if pattern = [] then None
         else
           let period = length pattern;
               start = wadd at written mod period;
               run = min (period - start) (length dst - written)
           in fill_loop pattern at (written + run) (write_at dst written (slice pattern start run)))
      else Some dst)"
  by pat_completeness auto
termination
proof (relation "measure (\<lambda>(pattern, at, written, dst). length dst - written)", goal_cases)
  case (2 pattern at written dst period start run)
  then have "start < period" "run \<le> period - start" "run \<le> length dst - written"
    and run: "run = min (period - start) (length dst - written)" by simp_all
  then have "start + run \<le> length pattern" "written + run \<le> length dst" using 2(1,3) by linarith+
  moreover have "0 < run" using \<open>start < period\<close> 2(1) unfolding run by simp
  ultimately show ?case using 2(1) by simp
qed simp

declare fill_loop.simps [simp del]

definition fill :: "null_dataset \<Rightarrow> nat \<Rightarrow> bytes \<Rightarrow> bytes option" where
  "fill ds at dst = fill_loop (nd_pattern ds) at 0 dst"

text \<open>The closure \<open>read_range\<close> passes to \<open>read_with\<close>, and the dataset it makes.\<close>

definition null_read :: "null_dataset \<Rightarrow> read_src" where
  "null_read ds at n = (case fill ds at (replicate n 0) of Some got \<Rightarrow> Ok got | None \<Rightarrow> undefined)"

definition null_as_dataset :: "null_dataset \<Rightarrow> dataset" where
  "null_as_dataset ds =
     \<lparr>ds_dtype = nd_dtype ds, ds_shape = nd_shape ds, ds_read = null_read ds, ds_decoded_chunk_bytes = None, ds_prepare = Ok ()\<rparr>"

section \<open>The file around it\<close>

definition null_get_item :: "null_dataset \<Rightarrow> string \<Rightarrow> aex_error + item" where
  "null_get_item ds path =
     (let p = normalize_path path in
      if p = [] then Ok Group
      else if p = DATASET_NAME then Ok (Dataset (null_as_dataset ds))
      else Err NotFound)"

definition null_list_children :: "null_dataset \<Rightarrow> string \<Rightarrow> aex_error + (string \<times> item) list" where
  "null_list_children ds path =
     (let p = normalize_path path in
      if p = [] then Ok [(DATASET_NAME, Dataset (null_as_dataset ds))]
      else if p = DATASET_NAME then Err NotAGroup
      else Err NotFound)"

section \<open>Its bytes\<close>

definition null_ok :: "null_dataset \<Rightarrow> bool" where
  "null_ok ds \<longleftrightarrow>
     nd_data_len ds = prod_list (nd_shape ds) * itemsize (nd_dtype ds) \<and> nd_data_len ds < U64
     \<and> (\<exists>m > 0. nd_pattern ds = pattern_of (m * PERIOD_MULTIPLE))"

definition null_bytes :: "null_dataset \<Rightarrow> bytes" where
  "null_bytes ds = map of_nat [0..<nd_data_len ds]"

lemma checked_product_Some:
  "checked_product xs = Some n \<Longrightarrow> n = prod_list xs"
proof -
  have none: "foldl (\<lambda>acc n. Option.bind acc (\<lambda>a. cmul a n)) None xs = None" for xs
    by (induction xs) simp_all
  have "foldl (\<lambda>acc n. Option.bind acc (\<lambda>a. cmul a n)) (Some k) xs = Some n \<Longrightarrow> n = k * prod_list xs" for k
  proof (induction xs arbitrary: k)
    case (Cons x xs)
    then obtain y where "cmul k x = Some y" by (cases "cmul k x") (auto simp: none)
    moreover from this have "y = k * x" by (simp add: cmul_Some)
    ultimately show ?case using Cons.IH [of y] Cons.prems by (simp add: mult.assoc)
  qed simp
  from this [of 1] show "checked_product xs = Some n \<Longrightarrow> n = prod_list xs"
    by (simp add: checked_product_def)
qed

lemma with_period_ok:
  assumes "with_period d shape p = Ok ds" "0 < p" "p mod PERIOD_MULTIPLE = 0"
  shows "null_ok ds"
proof -
  obtain m where m: "p = m * PERIOD_MULTIPLE" "0 < m"
    using assms(2,3) by (metis div_mult_mod_eq add.right_neutral gr0I mult_0 neq0_conv)
  obtain els n where "checked_product shape = Some els" "cmul els (itemsize d) = Some n"
    using assms(1) by (auto simp: with_period_def split: option.splits bind_splits)
  moreover from this have "els = prod_list shape" "n = els * itemsize d" "n < U64"
    by (auto simp: checked_product_Some cmul_Some)
  ultimately show ?thesis
    using assms(1) m by (auto simp: null_ok_def with_period_def)
qed

lemma from_spec_ok: "from_spec s = Ok ds \<Longrightarrow> null_ok ds"
  by (auto simp: from_spec_def res_bind_Ok split: if_splits prod.splits intro!: with_period_ok)

lemma byte_of_position: "(of_nat (a mod (m * 256)) :: u8) = of_nat a"
proof (rule word_unat_eq_iff [THEN iffD2])
  show "unat (of_nat (a mod (m * 256)) :: u8) = unat (of_nat a :: u8)"
    by (simp add: unat_of_nat mod_mod_cancel)
qed

lemma pattern_slice:
  assumes "a + n \<le> m * PERIOD_MULTIPLE" "(b :: nat) mod (m * PERIOD_MULTIPLE) = a"
  shows "slice (pattern_of (m * PERIOD_MULTIPLE)) a n = map of_nat [b..<b + n]"
proof (rule nth_equalityI)
  show "length (slice (pattern_of (m * PERIOD_MULTIPLE)) a n) = length (map of_nat [b..<b + n] :: bytes)"
    using assms(1) by (simp add: pattern_of_def)
next
  fix i assume "i < length (slice (pattern_of (m * PERIOD_MULTIPLE)) a n)"
  then have i: "i < n" using assms(1) by (simp add: pattern_of_def)
  have "(b + i) mod (m * 256) = (a + i) mod (m * 256)"
    using assms(2) by (metis PERIOD_MULTIPLE_def mod_add_left_eq)
  then have "(of_nat (a + i) :: u8) = of_nat (b + i)"
    using byte_of_position [of "b + i" m] byte_of_position [of "a + i" m] by simp
  then show "slice (pattern_of (m * PERIOD_MULTIPLE)) a n ! i = (map of_nat [b..<b + n] :: bytes) ! i"
    using i assms(1) by (simp add: pattern_of_def)
qed

lemma fill_loop_correct:
  assumes m: "0 < m"
  shows "pattern = pattern_of (m * PERIOD_MULTIPLE) \<Longrightarrow> at + length dst < U64 \<Longrightarrow> written \<le> length dst \<Longrightarrow>
    take written dst = map of_nat [at..<at + written] \<Longrightarrow>
    fill_loop pattern at written dst = Some (map of_nat [at..<at + length dst])"
proof (induction pattern at written dst rule: fill_loop.induct)
  case (1 pattern at written dst)
  note pat = "1.prems"(1) m
  show ?case
  proof (cases "written < length dst")
    case True
    have len: "length pattern = m * PERIOD_MULTIPLE" using pat by (simp add: pattern_of_def)
    then have ne: "pattern \<noteq> []" using pat(2) by (auto simp: PERIOD_MULTIPLE_def)
    define start where "start = wadd at written mod length pattern"
    define run where "run = min (length pattern - start) (length dst - written)"
    have w: "wadd at written = at + written" using "1.prems" by (simp add: wadd_eq)
    have st: "start < length pattern" "run \<le> length pattern - start" "run \<le> length dst - written"
      using ne by (simp_all add: start_def run_def)
    then have room: "start + run \<le> length pattern" "written + run \<le> length dst" using True by linarith+
    have piece: "slice pattern start run = map of_nat [at + written..<at + written + run]"
    proof -
      have "start + run \<le> m * PERIOD_MULTIPLE" using room(1) len by simp
      moreover have "(at + written) mod (m * PERIOD_MULTIPLE) = start" by (simp only: start_def w len)
      ultimately show ?thesis unfolding pat(1) by (rule pattern_slice)
    qed
    let ?dst = "write_at dst written (slice pattern start run)"
    have "length (slice pattern start run) = run" using room by simp
    then have "take (written + run) ?dst = take written dst @ slice pattern start run" "length ?dst = length dst"
      using take_write_at [of written dst "slice pattern start run"] room(2) by simp_all
    moreover from this(1) have "take (written + run) ?dst = map of_nat [at..<at + (written + run)]"
      using piece "1.prems" upt_add_eq_append [of at "at + written" run] by (simp add: add.assoc)
    ultimately have "fill_loop pattern at (written + run) ?dst = Some (map of_nat [at..<at + length dst])"
      using "1.IH" [OF True ne refl start_def run_def] "1.prems" room(2) by simp
    then show ?thesis using True ne
      by (subst fill_loop.simps) (simp add: start_def run_def Let_def)
  next
    case False
    then show ?thesis using "1.prems" by (subst fill_loop.simps) simp
  qed
qed

lemma null_source:
  assumes "null_ok ds"
  shows "byte_source (null_read ds) (null_bytes ds)"
proof
  show "length (null_bytes ds) < U64" using assms by (simp add: null_bytes_def null_ok_def)
next
  fix a n assume room: "a + n \<le> length (null_bytes ds)"
  obtain m where m: "0 < m" "nd_pattern ds = pattern_of (m * PERIOD_MULTIPLE)"
    using assms by (auto simp: null_ok_def)
  have len: "length (null_bytes ds) = nd_data_len ds" "nd_data_len ds < U64"
    using assms by (simp_all add: null_bytes_def null_ok_def)
  have "fill ds a (replicate n 0) = Some (map of_nat [a..<a + n])"
    using fill_loop_correct [OF m, of a "replicate n 0" 0] room len by (simp add: fill_def)
  moreover have "slice (null_bytes ds) a n = map of_nat [a..<a + n]"
    using room len by (simp add: null_bytes_def slice_map slice_upt)
  ultimately show "null_read ds a n = Ok (slice (null_bytes ds) a n)" by (simp add: null_read_def)
qed

section \<open>The contract, on every dataset the constructors make\<close>

typedef sound_null = "{ds. null_ok ds}"
proof
  let ?p = "pattern_of (1 * PERIOD_MULTIPLE)"
  show "\<lparr>nd_dtype = Uint8, nd_shape = [], nd_data_len = 1, nd_pattern = ?p\<rparr> \<in> {ds. null_ok ds}"
    by (auto simp: null_ok_def U64_def intro!: exI [of _ "1 :: nat"])
qed

interpretation null: byte_source "null_read (Rep_sound_null ds)" "null_bytes (Rep_sound_null ds)" for ds
  using Rep_sound_null [of ds] by (intro null_source) simp

end
