(* ===== verification/Chunks.thy ===== *)
theory Chunks
  imports Backend
begin

text \<open>
  A regular grid of chunks over a C-order array (\<open>aex-core/src/backends/chunks.rs\<close>): the numbering
  of the chunks and the walk that splits a byte range of the array into runs inside one chunk each.
  \<open>usize\<close> is 64 bits wide. \<open>read\<close> is the callback: the chunk, the byte offset in it and the piece of
  the destination to fill; \<open>None\<close> is the \<open>expect\<close> failing or the fuel running out, and
  \<open>walk_correct\<close> shows that one round per byte is enough.
\<close>

definition MAX_CHUNKS :: nat where "MAX_CHUNKS = 2 ^ 26"

record chunk_grid =
  cg_shape :: "nat list"
  cg_chunk_shape :: "nat list"
  cg_grid :: "nat list"
  cg_itemsize :: nat
  cg_chunk_bytes :: nat
  cg_run_axis :: nat

definition checked_fold :: "nat \<Rightarrow> nat list \<Rightarrow> nat option" where
  "checked_fold k xs = foldl (\<lambda>acc n. Option.bind acc (\<lambda>a. cmul a n)) (Some k) xs"

fun run_axis_from :: "nat list \<Rightarrow> nat list \<Rightarrow> nat \<Rightarrow> nat" where
  "run_axis_from shape chunk_shape 0 = 0"
| "run_axis_from shape chunk_shape (Suc j) =
     (if chunk_shape ! Suc j = shape ! Suc j then run_axis_from shape chunk_shape j else Suc j)"

definition grid_new :: "nat list \<Rightarrow> nat list \<Rightarrow> nat \<Rightarrow> chunk_grid option" where
  "grid_new shape chunk_shape isz =
     (if length chunk_shape \<noteq> length shape \<or> 0 \<in> set chunk_shape then None
      else
        let grid = map2 div_ceil shape chunk_shape in
        Option.bind (checked_fold 1 grid) (\<lambda>_.
          Option.bind (checked_fold isz chunk_shape) (\<lambda>chunk_bytes.
            Some \<lparr>cg_shape = shape, cg_chunk_shape = chunk_shape, cg_grid = grid,
                  cg_itemsize = isz, cg_chunk_bytes = chunk_bytes,
                  cg_run_axis = run_axis_from shape chunk_shape (length shape - 1)\<rparr>)))"

definition chunks :: "chunk_grid \<Rightarrow> nat" where "chunks g = wprod (cg_grid g)"

fun linear_from :: "nat \<Rightarrow> nat list \<Rightarrow> nat list \<Rightarrow> nat option" where
  "linear_from n (c # cs) (d # ds) =
     (if c \<ge> d then None else linear_from (wadd (wmul n d) c) cs ds)"
| "linear_from n _ _ = Some n"

definition linear :: "nat list \<Rightarrow> nat list \<Rightarrow> nat option" where
  "linear coords dims = linear_from 0 coords dims"

definition linear_unchecked :: "nat list \<Rightarrow> nat list \<Rightarrow> nat" where
  "linear_unchecked coords dims = foldl (\<lambda>n (c, d). wadd (wmul n d) c) 0 (zip coords dims)"

definition chunk_of :: "chunk_grid \<Rightarrow> nat list \<Rightarrow> nat option" where
  "chunk_of g coords = linear coords (cg_grid g)"

definition coords_of :: "chunk_grid \<Rightarrow> nat \<Rightarrow> nat list" where
  "coords_of g n = rev (unravel_rev (rev (cg_grid g)) n)"

text \<open>One round of the walk: the chunk, the offset in it, and how many bytes.\<close>

definition walk_step :: "chunk_grid \<Rightarrow> nat \<Rightarrow> nat \<Rightarrow> (nat \<times> nat \<times> nat) option" where
  "walk_step g at n =
     (let isz = cg_itemsize g; shape = cg_shape g; chunk_shape = cg_chunk_shape g;
          element = at div isz;
          skip = at mod isz;
          pos = rev (unravel_rev (rev shape) element)
      in case linear (map2 (div) pos chunk_shape) (cg_grid g) of
           None \<Rightarrow> None
         | Some chunk \<Rightarrow>
             let within = linear_unchecked (map2 (mod) pos chunk_shape) chunk_shape;
                 j = cg_run_axis g;
                 trailing = wprod (drop (j + 1) shape);
                 behind = linear_unchecked (drop (j + 1) pos) (drop (j + 1) shape);
                 along = min (wsub (chunk_shape ! j) (pos ! j mod chunk_shape ! j)) (wsub (shape ! j) (pos ! j));
                 run = wsub (wmul along trailing) behind
             in Some (chunk, wadd (wmul within isz) skip, min (wsub (wmul run isz) skip) n))"

type_synonym read_chunk = "nat \<Rightarrow> nat \<Rightarrow> bytes \<Rightarrow> aex_error + bytes"

primrec walk_loop :: "nat \<Rightarrow> chunk_grid \<Rightarrow> nat \<Rightarrow> bytes \<Rightarrow> read_chunk \<Rightarrow> (aex_error + bytes) option" where
  "walk_loop 0 g at dst read = (if dst = [] then Some (Ok []) else None)"
| "walk_loop (Suc fuel) g at dst read =
     (if dst = [] then Some (Ok [])
      else case walk_step g at (length dst) of
        None \<Rightarrow> None
      | Some (chunk, start, len) \<Rightarrow>
          (case read chunk start (take len dst) of
             Err e \<Rightarrow> Some (Err e)
           | Ok out \<Rightarrow> map_option (res_map ((@) out)) (walk_loop fuel g (wadd at len) (drop len dst) read)))"

definition walk :: "chunk_grid \<Rightarrow> nat \<Rightarrow> bytes \<Rightarrow> read_chunk \<Rightarrow> (aex_error + bytes) option" where
  "walk g at dst read =
     (if cg_shape g = [] then Some (read 0 at dst)
      else walk_loop (length dst) g at dst read)"

text \<open>\<open>fill_from\<close>: a destination of \<open>n\<close> bytes of an array of nothing but \<open>pattern\<close>.\<close>

definition fill_from :: "bytes \<Rightarrow> nat \<Rightarrow> nat \<Rightarrow> bytes" where
  "fill_from pattern at n =
     (let m = length pattern; start = at mod m in
      map (\<lambda>i. pattern ! ((start + i) mod m)) [0..<n])"

section \<open>The grid\<close>

definition grid_ok :: "chunk_grid \<Rightarrow> bool" where
  "grid_ok g \<longleftrightarrow>
     length (cg_chunk_shape g) = length (cg_shape g) \<and> 0 \<notin> set (cg_chunk_shape g)
     \<and> cg_grid g = map2 div_ceil (cg_shape g) (cg_chunk_shape g)
     \<and> prod_list (cg_grid g) < U64
     \<and> cg_chunk_bytes g = cg_itemsize g * prod_list (cg_chunk_shape g) \<and> cg_chunk_bytes g < U64
     \<and> (cg_shape g \<noteq> [] \<longrightarrow> cg_run_axis g < length (cg_shape g))
     \<and> drop (Suc (cg_run_axis g)) (cg_chunk_shape g) = drop (Suc (cg_run_axis g)) (cg_shape g)"

lemma checked_fold_Some: "checked_fold k xs = Some n \<Longrightarrow> k < U64 \<Longrightarrow> n = k * prod_list xs \<and> n < U64"
proof -
  have none: "foldl (\<lambda>acc n. Option.bind acc (\<lambda>a. cmul a n)) None xs = None" for xs
    by (induction xs) simp_all
  have "foldl (\<lambda>acc n. Option.bind acc (\<lambda>a. cmul a n)) (Some k) xs = Some n \<Longrightarrow> k < U64 \<Longrightarrow>
      n = k * prod_list xs \<and> n < U64" for k
  proof (induction xs arbitrary: k)
    case (Cons x xs)
    then obtain y where "cmul k x = Some y" by (cases "cmul k x") (auto simp: none)
    moreover from this have "y = k * x" "y < U64" by (auto simp: cmul_Some)
    ultimately show ?case using Cons.IH [of y] Cons.prems(1) by (simp add: mult.assoc)
  qed simp
  then show "checked_fold k xs = Some n \<Longrightarrow> k < U64 \<Longrightarrow> n = k * prod_list xs \<and> n < U64"
    by (simp add: checked_fold_def)
qed

lemma run_axis_le: "run_axis_from shape chunk_shape j \<le> j"
  by (induction j) simp_all

lemma run_axis_drop:
  "length shape = length chunk_shape \<Longrightarrow> Suc j = length shape \<or> drop (Suc j) chunk_shape = drop (Suc j) shape \<Longrightarrow>
   j < length shape \<Longrightarrow>
   drop (Suc (run_axis_from shape chunk_shape j)) chunk_shape = drop (Suc (run_axis_from shape chunk_shape j)) shape"
proof (induction j)
  case (Suc j)
  then have d: "drop (Suc (Suc j)) chunk_shape = drop (Suc (Suc j)) shape" by auto
  show ?case
  proof (cases "chunk_shape ! Suc j = shape ! Suc j")
    case True
    have "drop (Suc j) chunk_shape = drop (Suc j) shape"
      using d True Suc.prems(1,3) by (metis Cons_nth_drop_Suc)
    then show ?thesis using Suc True by simp
  qed (use d in simp)
qed auto

lemma grid_new_ok:
  assumes "grid_new shape chunk_shape isz = Some g" "isz < U64"
  shows "grid_ok g" "cg_shape g = shape" "cg_chunk_shape g = chunk_shape" "cg_itemsize g = isz"
proof -
  let ?grid = "map2 div_ceil shape chunk_shape"
  obtain n cb where c: "checked_fold 1 ?grid = Some n" "checked_fold isz chunk_shape = Some cb"
    and len: "length chunk_shape = length shape" "0 \<notin> set chunk_shape"
    and g: "g = \<lparr>cg_shape = shape, cg_chunk_shape = chunk_shape, cg_grid = ?grid, cg_itemsize = isz,
      cg_chunk_bytes = cb, cg_run_axis = run_axis_from shape chunk_shape (length shape - 1)\<rparr>"
    using assms(1) by (auto simp: grid_new_def Let_def split: if_splits bind_splits)
  have "drop (Suc (cg_run_axis g)) chunk_shape = drop (Suc (cg_run_axis g)) shape"
    using run_axis_drop [of shape chunk_shape "length shape - 1"] len by (cases "shape = []") (simp_all add: g)
  moreover have "shape \<noteq> [] \<longrightarrow> cg_run_axis g < length shape"
    using run_axis_le [of shape chunk_shape "length shape - 1"] by (auto simp: g intro: le_less_trans)
  ultimately show "grid_ok g" "cg_shape g = shape" "cg_chunk_shape g = chunk_shape" "cg_itemsize g = isz"
    using len checked_fold_Some [OF c(1)] checked_fold_Some [OF c(2) assms(2)]
    by (auto simp: grid_ok_def g U64_def)
qed

section \<open>Numbering\<close>

lemma linear_unchecked_ravel:
  "length coords = length dims \<Longrightarrow> linear_unchecked coords dims = ravel dims coords mod U64"
proof -
  have "length coords = length dims \<Longrightarrow>
      foldl (\<lambda>n (c, d). wadd (wmul n d) c) (k mod U64) (zip coords dims) = (k * prod_list dims + ravel dims coords) mod U64" for k
  proof (induction coords dims arbitrary: k rule: list_induct2)
    case (Cons c cs d ds)
    have "wadd (wmul (k mod U64) d) c = (k * d + c) mod U64"
      by (simp add: wadd_def wmul_def mod_add_left_eq mod_mult_left_eq)
    then show ?case using Cons.IH [of "k * d + c"] by (simp add: algebra_simps)
  qed simp
  from this [of 0] show "length coords = length dims \<Longrightarrow> linear_unchecked coords dims = ravel dims coords mod U64"
    by (simp add: linear_unchecked_def)
qed

lemma linear_ravel: "in_dims dims coords \<Longrightarrow> linear coords dims = Some (ravel dims coords mod U64)"
proof -
  have "in_dims dims coords \<Longrightarrow>
      linear_from (k mod U64) coords dims = Some ((k * prod_list dims + ravel dims coords) mod U64)" for k
  proof (induction dims coords arbitrary: k rule: ravel.induct)
    case (1 d ds c cs)
    have "wadd (wmul (k mod U64) d) c = (k * d + c) mod U64"
      by (simp add: wadd_def wmul_def mod_add_left_eq mod_mult_left_eq)
    then show ?case using 1 "1.IH" [of "k * d + c"] by (simp add: algebra_simps)
  qed simp_all
  from this [of 0] show "in_dims dims coords \<Longrightarrow> linear coords dims = Some (ravel dims coords mod U64)"
    by (simp add: linear_def)
qed

lemma linear_outside: "length coords = length dims \<Longrightarrow> \<not> in_dims dims coords \<Longrightarrow> linear coords dims = None"
proof -
  have "length coords = length dims \<Longrightarrow> \<not> in_dims dims coords \<Longrightarrow> linear_from k coords dims = None" for k
    by (induction coords dims arbitrary: k rule: list_induct2) auto
  then show "length coords = length dims \<Longrightarrow> \<not> in_dims dims coords \<Longrightarrow> linear coords dims = None"
    by (simp add: linear_def)
qed

section \<open>A run inside one chunk\<close>

lemma unravel_append: "unravel (xs @ ys) n = unravel xs (n div prod_list ys) @ unravel ys n"
  by (induction xs) (simp_all add: div_mult2_eq [symmetric] mult.commute)

lemma unravel_nth: "i < length ds \<Longrightarrow> unravel ds n ! i = n div prod_list (drop (Suc i) ds) mod ds ! i"
  by (induction ds arbitrary: i) (auto simp: nth_Cons split: nat.splits)

lemma drop_unravel: "drop i (unravel ds n) = unravel (drop i ds) n"
  by (induction ds arbitrary: i) (simp_all add: drop_Cons split: nat.splits)

lemma ravel_append:
  "length as = length xs \<Longrightarrow> ravel (xs @ ys) (as @ bs) = ravel xs as * prod_list ys + ravel ys bs"
  by (induction as xs rule: list_induct2) (simp_all add: algebra_simps)

definition chunk_coords :: "nat list \<Rightarrow> nat list \<Rightarrow> nat \<Rightarrow> nat list" where
  "chunk_coords shape cs e = map2 (div) (unravel shape e) cs"

definition within_coords :: "nat list \<Rightarrow> nat list \<Rightarrow> nat \<Rightarrow> nat list" where
  "within_coords shape cs e = map2 (mod) (unravel shape e) cs"

definition chunk_no :: "chunk_grid \<Rightarrow> nat \<Rightarrow> nat" where
  "chunk_no g e = ravel (cg_grid g) (chunk_coords (cg_shape g) (cg_chunk_shape g) e)"

definition within :: "chunk_grid \<Rightarrow> nat \<Rightarrow> nat" where
  "within g e = ravel (cg_chunk_shape g) (within_coords (cg_shape g) (cg_chunk_shape g) e)"

lemma nth_pos: "0 \<notin> set cs \<Longrightarrow> i < length cs \<Longrightarrow> 0 < (cs ! i :: nat)"
  by (metis gr0I nth_mem)

lemma within_dims:
  assumes "length cs = length shape" "0 \<notin> set cs"
  shows "in_dims cs (within_coords shape cs e)"
  using assms by (simp add: in_dims_def within_coords_def list_all2_conv_all_nth nth_pos)

lemma chunk_dims:
  assumes "length cs = length shape" "0 \<notin> set cs" "e < prod_list shape"
  shows "in_dims (map2 div_ceil shape cs) (chunk_coords shape cs e)"
proof -
  have "p div c < div_ceil d c" if "p < d" "0 < c" for p c d :: nat
  proof -
    have "d \<le> div_ceil d c * c" using that(2) by (rule div_ceil_bounds)
    then have "p < div_ceil d c * c" using that(1) by linarith
    then show ?thesis using that(2) by (simp add: div_less_iff_less_mult)
  qed
  then show ?thesis
    using in_dims_unravel [OF assms(3)] assms(1,2)
    by (simp add: in_dims_def chunk_coords_def list_all2_conv_all_nth nth_pos)
qed

text \<open>
  An axis \<open>d\<close> in chunks of \<open>c\<close> over trailing axes that one chunk covers: elements further along the
  run have the same chunk and follow each other in it.
\<close>

lemma full_axes:
  assumes "0 < prod_list post"
  shows "map2 (div) (unravel post e) post = map (\<lambda>_. 0) post" "map2 (mod) (unravel post e) post = unravel post e"
proof -
  have "0 \<notin> set post" using assms by (metis less_irrefl prod_list_zero_iff)
  then show "map2 (div) (unravel post e) post = map (\<lambda>_. 0) post" "map2 (mod) (unravel post e) post = unravel post e"
    by (induction post) auto
qed

lemma run_shift:
  assumes "0 < (c :: nat)" "b < T" "p < d" "q mod d = p" "b + t < min (c - p mod c) (d - p) * T"
  defines "k \<equiv> (b + t) div T"
  shows "(q * T + b + t) div T = q + k" "(q + k) mod d = p + k" "(q + k) div d = q div d"
    "(p + k) div c = p div c" "(p + k) mod c = p mod c + k" "(q * T + b + t) mod T = (b + t) mod T"
proof -
  have T: "0 < T" using assms(2) by simp
  show "(q * T + b + t) div T = q + k" "(q * T + b + t) mod T = (b + t) mod T"
    using T by (simp_all add: k_def add.assoc)
  have k: "k < min (c - p mod c) (d - p)"
    unfolding k_def by (rule div_less_iff_less_mult [OF T, THEN iffD2]) (rule assms(5))
  have q: "q = q div d * d + p" using assms(4) by (metis div_mult_mod_eq)
  then have qk: "q + k = q div d * d + (p + k)" by simp
  have "p + k < d" using k assms(3) by linarith
  then show "(q + k) mod d = p + k" "(q + k) div d = q div d"
    unfolding qk using assms(3) by (simp_all)
  have block: "(x * c + y) div c = x" "(x * c + y) mod c = y" if "y < c" for x y using that by simp_all
  have p: "p + k = p div c * c + (p mod c + k)" using div_mult_mod_eq [of p c] by linarith
  have lt: "p mod c + k < c" using k mod_less_divisor [OF assms(1), of p] by linarith
  show "(p + k) div c = p div c" "(p + k) mod c = p mod c + k"
    using block [OF lt, of "p div c"] unfolding p [symmetric] .
qed

lemma run_inside:
  assumes len: "length cpre = length pre" and cpos: "0 \<notin> set cpre" "0 < c" and post: "0 < prod_list post"
    and e: "0 < d"
  defines "T \<equiv> prod_list post" and "shape \<equiv> pre @ d # post" and "cs \<equiv> cpre @ c # post"
  assumes t: "e mod T + t < min (c - e div T mod d mod c) (d - e div T mod d) * T"
  shows "chunk_coords shape cs (e + t) = chunk_coords shape cs e"
    "ravel cs (within_coords shape cs (e + t)) = ravel cs (within_coords shape cs e) + t"
proof -
  define q b p k where "q = e div T" and "b = e mod T" and "p = q mod d" and "k = (b + t) div T"
  have T: "0 < T" using post by (simp add: T_def)
  have eq: "e = q * T + b" "b < T" using T by (simp_all add: q_def b_def)
  have et: "e + t = q * T + b + t" using eq(1) by simp
  note sh = run_shift [OF cpos(2) eq(2) _ p_def [symmetric], of t, folded k_def]
  have p: "p < d" using e by (simp add: p_def)
  have lim: "b + t < min (c - p mod c) (d - p) * T" using t by (simp add: b_def p_def q_def)
  note sh = sh [OF p lim]
  have u: "unravel shape (e + t) = unravel pre (q div d) @ (p + k) # unravel post (e + t)"
    "unravel shape e = unravel pre (q div d) @ p # unravel post e"
    using sh(1,2,3) et by (simp_all add: shape_def unravel_append T_def [symmetric] q_def p_def div_mult2_eq mult.commute [of d])
  show "chunk_coords shape cs (e + t) = chunk_coords shape cs e"
    unfolding chunk_coords_def u using full_axes(1) [OF post] sh(4) len by (simp add: cs_def)
  have w: "ravel post (unravel post (e + t)) = (b + t) mod T" "ravel post (unravel post e) = b"
    using sh(6) et by (simp_all add: ravel_unravel T_def [symmetric] b_def)
  have "ravel cs (within_coords shape cs (e + t)) =
      (ravel cpre (map2 (mod) (unravel pre (q div d)) cpre) * c + (p mod c + k)) * T + (b + t) mod T"
    unfolding within_coords_def u using full_axes(2) [OF post] sh(5) len w(1)
    by (simp add: cs_def ravel_append T_def [symmetric] algebra_simps)
  moreover have "ravel cs (within_coords shape cs e) =
      (ravel cpre (map2 (mod) (unravel pre (q div d)) cpre) * c + p mod c) * T + b"
    unfolding within_coords_def u using full_axes(2) [OF post] len w(2)
    by (simp add: cs_def ravel_append T_def [symmetric] algebra_simps)
  moreover have "k * T + (b + t) mod T = b + t" by (simp add: k_def)
  ultimately show "ravel cs (within_coords shape cs (e + t)) = ravel cs (within_coords shape cs e) + t"
    by (simp add: algebra_simps)
qed

section \<open>The contract of a chunk store, and the walk over it\<close>

locale chunk_store =
  fixes g :: chunk_grid
    and store :: "nat \<Rightarrow> bytes"
    and read :: read_chunk
  assumes grid: "grid_ok g"
    and item: "0 < cg_itemsize g"
    and total: "prod_list (cg_shape g) * cg_itemsize g < U64"
    and chunk_len: "c < prod_list (cg_grid g) \<Longrightarrow> length (store c) = cg_chunk_bytes g"
    and read_chunk: "c < prod_list (cg_grid g) \<Longrightarrow> s + length buf \<le> cg_chunk_bytes g \<Longrightarrow>
      read c s buf = Ok (slice (store c) s (length buf))"
begin

definition elem :: "nat \<Rightarrow> bytes" where
  "elem e = slice (store (chunk_no g e)) (within g e * cg_itemsize g) (cg_itemsize g)"

definition array_bytes :: bytes where
  "array_bytes = concat (map elem [0..<prod_list (cg_shape g)])"

lemma chunk_no_less:
  assumes "e < prod_list (cg_shape g)"
  shows "in_dims (cg_grid g) (chunk_coords (cg_shape g) (cg_chunk_shape g) e)" "chunk_no g e < prod_list (cg_grid g)"
  using chunk_dims [of "cg_chunk_shape g" "cg_shape g" e] assms grid
  by (auto simp: chunk_no_def grid_ok_def intro: ravel_less)

lemma within_less:
  "in_dims (cg_chunk_shape g) (within_coords (cg_shape g) (cg_chunk_shape g) e)"
  "within g e < prod_list (cg_chunk_shape g)"
  using within_dims [of "cg_chunk_shape g" "cg_shape g" e] grid
  by (auto simp: within_def grid_ok_def intro: ravel_less)

lemma length_elem:
  assumes "e < prod_list (cg_shape g)"
  shows "length (elem e) = cg_itemsize g"
proof -
  have "within g e + 1 \<le> prod_list (cg_chunk_shape g)" using within_less(2) [of e] by simp
  then have "(within g e + 1) * cg_itemsize g \<le> prod_list (cg_chunk_shape g) * cg_itemsize g" by (rule mult_le_mono1)
  then show ?thesis using chunk_len [OF chunk_no_less(2) [OF assms]] grid
    by (simp add: elem_def grid_ok_def mult.commute)
qed

lemma length_array_bytes: "length array_bytes = prod_list (cg_shape g) * cg_itemsize g"
  using length_concat_const [of "[0..<prod_list (cg_shape g)]" elem] length_elem by (simp add: array_bytes_def)

text \<open>A run of elements of one chunk is one slice of it.\<close>

lemma run_slice:
  assumes "\<forall>t < n. chunk_no g (e + t) = c \<and> within g (e + t) = w + t" "e + n \<le> prod_list (cg_shape g)"
  shows "slice array_bytes (e * cg_itemsize g) (n * cg_itemsize g) = slice (store c) (w * cg_itemsize g) (n * cg_itemsize g)"
proof -
  have "slice array_bytes (e * cg_itemsize g) (n * cg_itemsize g) = concat (map elem [e..<e + n])"
    unfolding array_bytes_def using assms(2) length_elem
    by (subst slice_concat_const) (simp_all add: slice_upt)
  also have "\<dots> = slice (store c) (w * cg_itemsize g) (n * cg_itemsize g)"
    using assms(1)
  proof (induction n)
    case (Suc n)
    have "elem (e + n) = slice (store c) ((w + n) * cg_itemsize g) (cg_itemsize g)"
      using Suc.prems by (simp add: elem_def)
    then show ?case using Suc slice_add [of "store c" "w * cg_itemsize g" "n * cg_itemsize g" "cg_itemsize g"]
      by (simp add: algebra_simps)
  qed simp
  finally show ?thesis .
qed

text \<open>The run \<open>walk_step\<close> finds at element \<open>e\<close>.\<close>

definition run_at :: "nat \<Rightarrow> nat" where
  "run_at e =
     (let j = cg_run_axis g; T = prod_list (drop (Suc j) (cg_shape g));
          d = cg_shape g ! j; c = cg_chunk_shape g ! j; p = e div T mod d
      in min (c - p mod c) (d - p) * T - e mod T)"

lemma run_at_correct:
  assumes e: "e < prod_list (cg_shape g)" and ne: "cg_shape g \<noteq> []"
  shows "0 < run_at e" "e + run_at e \<le> prod_list (cg_shape g)"
    "\<forall>t < run_at e. chunk_no g (e + t) = chunk_no g e \<and> within g (e + t) = within g e + t"
proof -
  let ?s = "cg_shape g" and ?cs = "cg_chunk_shape g" and ?j = "cg_run_axis g"
  let ?d = "?s ! ?j" and ?c = "?cs ! ?j" and ?post = "drop (Suc ?j) ?s"
  define T q p where "T = prod_list ?post" and "q = e div T" and "p = q mod ?d"
  have j: "?j < length ?s" "length ?cs = length ?s" "drop (Suc ?j) ?cs = ?post" "0 \<notin> set ?cs"
    using grid ne by (auto simp: grid_ok_def)
  have s: "?s = take ?j ?s @ ?d # ?post" and cs: "?cs = take ?j ?cs @ ?c # ?post"
    using id_take_nth_drop [of ?j ?s] id_take_nth_drop [of ?j ?cs] j by simp_all
  have P: "prod_list ?s = prod_list (take ?j ?s) * (?d * T)"
    using arg_cong [OF s, of prod_list] by (simp add: T_def)
  then have pos: "0 < T" "0 < ?d" using e by (metis mult_is_0 neq0_conv not_less_zero)+
  have c: "0 < ?c" "0 \<notin> set (take ?j ?cs)" using j nth_pos by (auto dest: in_set_takeD)
  have p: "p < ?d" "p mod ?c < ?c" using pos c by (simp_all add: p_def)
  define along where "along = min (?c - p mod ?c) (?d - p)"
  have al: "0 < along" "p + along \<le> ?d" using p by (auto simp: along_def)
  have run: "run_at e = along * T - e mod T"
    by (simp add: run_at_def Let_def along_def p_def q_def T_def)
  have "T \<le> along * T" using al by simp
  then show "0 < run_at e" using run mod_less_divisor [OF pos(1), of e] by linarith
  have "e mod T < T" using pos by simp
  moreover have "e = q * T + e mod T" by (simp add: q_def)
  ultimately have er: "e + run_at e = (q + along) * T"
    using run \<open>T \<le> along * T\<close> unfolding add_mult_distrib by linarith
  have "q div ?d < prod_list (take ?j ?s)"
    using e P pos by (simp add: q_def div_mult2_eq [symmetric] div_less_iff_less_mult mult.commute mult.left_commute)
  then have "(q div ?d + 1) * ?d \<le> prod_list (take ?j ?s) * ?d" by (intro mult_le_mono1) simp
  moreover have "q + along \<le> (q div ?d + 1) * ?d"
    using al(2) div_mult_mod_eq [of q ?d] by (simp add: p_def)
  ultimately have "(q + along) * T \<le> prod_list (take ?j ?s) * ?d * T" by (intro mult_le_mono1) linarith
  then show "e + run_at e \<le> prod_list ?s" using er P by (simp add: mult.assoc)
  show "\<forall>t < run_at e. chunk_no g (e + t) = chunk_no g e \<and> within g (e + t) = within g e + t"
  proof (intro allI impI)
    fix t assume t: "t < run_at e"
    have "e mod T + t < along * T" using t run by linarith
    then have "chunk_coords ?s ?cs (e + t) = chunk_coords ?s ?cs e"
        "ravel ?cs (within_coords ?s ?cs (e + t)) = ravel ?cs (within_coords ?s ?cs e) + t"
      using run_inside [of "take ?j ?cs" "take ?j ?s" ?c ?post ?d e t] j c pos s cs
      by (simp_all add: T_def [symmetric] q_def [symmetric] p_def [symmetric] along_def)
    then show "chunk_no g (e + t) = chunk_no g e \<and> within g (e + t) = within g e + t"
      by (simp add: chunk_no_def within_def)
  qed
qed

text \<open>The machine arithmetic of \<open>walk_step\<close> computes that run.\<close>

lemma walk_step_run:
  assumes e: "at div cg_itemsize g < prod_list (cg_shape g)" and ne: "cg_shape g \<noteq> []"
  shows "walk_step g at n = Some (chunk_no g (at div cg_itemsize g),
    within g (at div cg_itemsize g) * cg_itemsize g + at mod cg_itemsize g,
    min (run_at (at div cg_itemsize g) * cg_itemsize g - at mod cg_itemsize g) n)"
proof -
  let ?isz = "cg_itemsize g" and ?s = "cg_shape g" and ?cs = "cg_chunk_shape g" and ?j = "cg_run_axis g"
  define e T d c p where "e = at div ?isz" and "T = prod_list (drop (Suc ?j) ?s)" and "d = ?s ! ?j"
    and "c = ?cs ! ?j" and "p = e div T mod d"
  have eP: "e < prod_list ?s" using assms by (simp add: e_def)
  have j: "?j < length ?s" "length ?cs = length ?s" "0 \<notin> set ?cs" "prod_list (cg_grid g) < U64"
    "prod_list ?cs * ?isz < U64"
    using grid ne by (auto simp: grid_ok_def mult.commute)
  have P: "prod_list ?s = prod_list (take ?j ?s) * (d * T)"
    using arg_cong [OF id_take_nth_drop [of ?j ?s], of prod_list] j by (simp add: T_def d_def)
  have isz: "prod_list ?s * 1 \<le> prod_list ?s * ?isz" using item by (intro mult_le_mono2) simp
  then have P64: "prod_list ?s < U64" using total by linarith
  have pos: "0 < T" "0 < d" "0 < prod_list (take ?j ?s)" using eP P by (metis mult_is_0 neq0_conv not_less_zero)+
  have dT: "d * T \<le> prod_list ?s" using P pos by simp
  have c: "0 < c" "c < U64"
  proof -
    show "0 < c" using nth_pos [OF j(3)] j by (simp add: c_def)
    have "c \<le> prod_list ?cs"
      using j nth_pos [OF j(3)] unfolding c_def by (metis dvd_imp_le nth_mem prod_list_dvd prod_list_pos)
    also have "\<dots> * 1 \<le> prod_list ?cs * ?isz" using item by (intro mult_le_mono2) simp
    finally show "c < U64" using j(5) by simp
  qed
  have "T \<le> d * T" "d \<le> d * T" using pos by simp_all
  then have small: "T < U64" "d < U64" using dT P64 by linarith+
  have p: "p < d" "p mod c < c" "e mod T < T" using pos c by (simp_all add: p_def)
  define along where "along = min (c - p mod c) (d - p)"
  have "along * T \<le> d * T" by (intro mult_le_mono1) (simp add: along_def)
  then have al: "along * T < U64" using dT P64 by linarith
  have "0 < along" using p by (simp add: along_def)
  then have "T \<le> along * T" by simp
  then have "e mod T \<le> along * T" using p(3) by linarith
  moreover have ra: "run_at e = along * T - e mod T"
    by (simp only: run_at_def Let_def along_def p_def T_def d_def c_def)
  ultimately have run: "wsub (wmul along T) (e mod T) = run_at e"
    using al by (simp add: wsub_eq wmul_eq)
  have fits: "(e + run_at e) * ?isz \<le> prod_list ?s * ?isz"
    using run_at_correct(2) [OF eP ne] by (rule mult_le_mono1)
  then have runb: "wsub (wmul (run_at e) ?isz) (at mod ?isz) = run_at e * ?isz - at mod ?isz"
  proof -
    have "1 * ?isz \<le> run_at e * ?isz" using run_at_correct(1) [OF eP ne] by (intro mult_le_mono1) simp
    moreover have "at mod ?isz < ?isz" using item by simp
    moreover have "run_at e * ?isz \<le> (e + run_at e) * ?isz" by simp
    ultimately have "at mod ?isz \<le> run_at e * ?isz" "run_at e * ?isz < U64" using fits total by linarith+
    then show ?thesis by (simp add: wsub_eq wmul_eq)
  qed
  have "(within g e + 1) * ?isz \<le> prod_list ?cs * ?isz" using within_less(2) [of e] by (intro mult_le_mono1) simp
  moreover have "at mod ?isz < ?isz" using item by simp
  ultimately have wi: "wadd (wmul (within g e) ?isz) (at mod ?isz) = within g e * ?isz + at mod ?isz"
    using j(5) by (simp add: wadd_eq wmul_eq add_mult_distrib)
  have pos_eq: "rev (unravel_rev (rev ?s) e) = unravel ?s e" by (rule unravel_loop)
  have ws: "wsub c (p mod c) = c - p mod c" "wsub d p = d - p"
    using c small p by (simp_all add: wsub_eq less_imp_le)
  have lens: "length (map2 (mod) (unravel ?s e) ?cs) = length ?cs" using j by simp
  have "within g e < U64" using within_less(2) [of e] j(5) item
    by (metis le_less_trans less_imp_le mult.right_neutral mult_le_mono2 One_nat_def Suc_leI)
  then have lin: "linear_unchecked (map2 (mod) (unravel ?s e) ?cs) ?cs = within g e"
    using linear_unchecked_ravel [OF lens] by (simp add: within_def within_coords_def)
  have "length (unravel (drop (Suc ?j) ?s) e) = length (drop (Suc ?j) ?s)" by simp
  from linear_unchecked_ravel [OF this]
  have behind: "linear_unchecked (drop (Suc ?j) (unravel ?s e)) (drop (Suc ?j) ?s) = e mod T"
    using p(3) small(1) by (simp add: drop_unravel ravel_unravel T_def)
  have chunk: "linear (map2 (div) (unravel ?s e) ?cs) (cg_grid g) = Some (chunk_no g e)"
    using linear_ravel [OF chunk_no_less(1) [OF eP]] chunk_no_less(2) [OF eP] j(4)
    by (simp add: chunk_no_def chunk_coords_def)
  have T: "wprod (drop (Suc ?j) ?s) = T" using small(1) by (simp add: wprod_mod T_def)
  have nth: "unravel ?s e ! ?j = p" using unravel_nth [OF j(1)] by (simp add: p_def T_def d_def)
  show ?thesis
    unfolding walk_step_def Let_def e_def [symmetric] pos_eq chunk nth lin T Suc_eq_plus1 [symmetric] behind
      c_def [symmetric] d_def [symmetric] ws along_def [symmetric] run wi runb by simp
qed

lemma walk_step_correct:
  assumes at: "at + n \<le> prod_list (cg_shape g) * cg_itemsize g" "0 < n" and ne: "cg_shape g \<noteq> []"
  shows "\<exists>c s m. walk_step g at n = Some (c, s, m) \<and> 0 < m \<and> m \<le> n \<and> c < prod_list (cg_grid g)
    \<and> s + m \<le> cg_chunk_bytes g \<and> slice (store c) s m = slice array_bytes at m"
proof -
  let ?isz = "cg_itemsize g"
  define e skip where "e = at div ?isz" and "skip = at mod ?isz"
  have ae: "at = e * ?isz + skip" "skip < ?isz" using item by (simp_all add: e_def skip_def)
  have e: "e < prod_list (cg_shape g)" using at item by (simp add: e_def div_less_iff_less_mult)
  note run = run_at_correct [OF e ne]
  define r where "r = run_at e"
  have "1 * ?isz \<le> r * ?isz" using run(1) by (intro mult_le_mono1) (simp add: r_def)
  then have m: "skip < r * ?isz" using ae(2) by linarith
  have last: "within g e + r \<le> prod_list (cg_chunk_shape g)"
  proof -
    have "r - 1 < run_at e" using run(1) by (simp add: r_def)
    then have "within g (e + (r - 1)) = within g e + (r - 1)" using run(3) by blast
    then show ?thesis using within_less(2) [of "e + (r - 1)"] run(1) unfolding r_def by linarith
  qed
  then have "(within g e + r) * ?isz \<le> prod_list (cg_chunk_shape g) * ?isz" by (rule mult_le_mono1)
  then have room: "within g e * ?isz + r * ?isz \<le> cg_chunk_bytes g"
    using grid unfolding grid_ok_def add_mult_distrib by (metis mult.commute)
  define k where "k = min (r * ?isz - skip) n"
  have k: "0 < k" "k \<le> n" "skip + k \<le> r * ?isz" using m at(2) by (auto simp: k_def)
  have "slice (store (chunk_no g e)) (within g e * ?isz) (r * ?isz) = slice array_bytes (e * ?isz) (r * ?isz)"
    using run_slice [OF run(3) run(2)] by (simp add: r_def)
  from arg_cong [OF this, of "\<lambda>xs. slice xs skip k"]
  have "slice (store (chunk_no g e)) (within g e * ?isz + skip) k = slice array_bytes at k"
    unfolding slice_slice [OF k(3)] ae(1) [symmetric] .
  then show ?thesis
    using walk_step_run [of at n] e ne k room chunk_no_less(2) [OF e]
    by (intro exI [of _ "chunk_no g e"] exI [of _ "within g e * ?isz + skip"] exI [of _ k])
      (simp add: e_def skip_def r_def k_def)
qed

lemma walk_loop_correct:
  assumes ne: "cg_shape g \<noteq> []"
  shows "at + length dst \<le> prod_list (cg_shape g) * cg_itemsize g \<Longrightarrow> length dst \<le> fuel \<Longrightarrow>
    walk_loop fuel g at dst read = Some (Ok (slice array_bytes at (length dst)))"
proof (induction fuel arbitrary: at dst)
  case (Suc fuel)
  show ?case
  proof (cases "dst = []")
    case False
    then obtain c s m where step: "walk_step g at (length dst) = Some (c, s, m)" "0 < m" "m \<le> length dst"
        "c < prod_list (cg_grid g)" "s + m \<le> cg_chunk_bytes g" "slice (store c) s m = slice array_bytes at m"
      using walk_step_correct [OF Suc.prems(1) _ ne] by auto
    have "read c s (take m dst) = Ok (slice array_bytes at m)"
      using read_chunk [of c s "take m dst"] step by simp
    moreover have "wadd at m = at + m" using Suc.prems(1) step(3) total by (simp add: wadd_eq)
    moreover have "walk_loop fuel g (at + m) (drop m dst) read = Some (Ok (slice array_bytes (at + m) (length dst - m)))"
      using Suc.IH [of "at + m" "drop m dst"] Suc.prems step(2,3) by simp
    ultimately show ?thesis
      using False step slice_add [of array_bytes at m "length dst - m"] by simp
  qed simp
qed simp

lemma walk_correct:
  assumes "at + length dst \<le> prod_list (cg_shape g) * cg_itemsize g"
  shows "walk g at dst read = Some (Ok (slice array_bytes at (length dst)))"
proof (cases "cg_shape g = []")
  case True
  then have g: "cg_chunk_shape g = []" "cg_grid g = []" "cg_chunk_bytes g = cg_itemsize g"
    using grid by (simp_all add: grid_ok_def)
  then have "array_bytes = store 0"
    using True chunk_len [of 0] by (simp add: array_bytes_def elem_def chunk_no_def within_def chunk_coords_def
        within_coords_def slice_all) (metis slice_all)
  then show ?thesis using True assms g read_chunk [of 0 at dst] by (simp add: walk_def)
qed (use assms in \<open>simp add: walk_def walk_loop_correct\<close>)

text \<open>A chunk store read through the walk is a source.\<close>

sublocale byte_source "\<lambda>at n. the (walk g at (replicate n 0) read)" array_bytes
  by unfold_locales (use length_array_bytes total walk_correct in auto)

end

end
