(* ===== verification/Decode_Cache.thy ===== *)
theory Decode_Cache
  imports Chunks "HOL-Library.Multiset"
begin

text \<open>
  The byte-bounded LRU of decoded chunks (\<open>aex-core/src/backends/decode_cache.rs\<close>). The lock is
  held per lookup and per insertion and never while decoding, so those are the atomic steps;
  \<open>get_or_decode\<close> is their composition by one thread, \<open>cache_step\<close> any interleaving by many. The
  counters are the atomics' wrapping ones. Whether an evicted chunk has no other reader
  (\<open>Arc::into_inner\<close>) is decided by the other threads: the argument \<open>sole\<close>.
\<close>

type_synonym chunk_key = "nat \<times> nat"

definition MAX_SPARES :: nat where "MAX_SPARES = 32"

record lru =
  lru_entries :: "(chunk_key \<times> bytes) list"
  lru_bytes :: nat
  lru_spare :: "bytes list"

record cache =
  dc_capacity :: nat
  dc_lru :: lru
  dc_hits :: nat
  dc_misses :: nat
  dc_races :: nat
  dc_next_key :: nat

definition cache_new :: "nat \<Rightarrow> cache" where
  "cache_new capacity =
     \<lparr>dc_capacity = capacity, dc_lru = \<lparr>lru_entries = [], lru_bytes = 0, lru_spare = []\<rparr>,
      dc_hits = 0, dc_misses = 0, dc_races = 0, dc_next_key = 0\<rparr>"

definition new_key :: "cache \<Rightarrow> nat \<times> cache" where
  "new_key c = (dc_next_key c, c\<lparr>dc_next_key := wadd (dc_next_key c) 1\<rparr>)"

definition stats :: "cache \<Rightarrow> nat \<times> nat \<times> nat" where
  "stats c = (dc_hits c, dc_misses c, dc_races c)"

fun position_of :: "chunk_key \<Rightarrow> (chunk_key \<times> bytes) list \<Rightarrow> nat option" where
  "position_of key [] = None"
| "position_of key (e # es) = (if fst e = key then Some 0 else map_option Suc (position_of key es))"

text \<open>The entry found moves to the back: most recently used.\<close>

definition cache_get :: "chunk_key \<Rightarrow> cache \<Rightarrow> bytes option \<times> cache" where
  "cache_get key c =
     (let es = lru_entries (dc_lru c) in
      case position_of key es of
        None \<Rightarrow> (None, c)
      | Some at \<Rightarrow>
          (Some (snd (es ! at)),
           c\<lparr>dc_lru := (dc_lru c)\<lparr>lru_entries := take at es @ drop (at + 1) es @ [es ! at]\<rparr>\<rparr>))"

definition take_spare :: "cache \<Rightarrow> bytes \<times> cache" where
  "take_spare c =
     (let spare = lru_spare (dc_lru c) in
      if spare = [] then ([], c)
      else (last spare, c\<lparr>dc_lru := (dc_lru c)\<lparr>lru_spare := butlast spare\<rparr>\<rparr>))"

text \<open>The eviction loop; \<open>None\<close> is its \<open>expect\<close>.\<close>

fun evict ::
    "(chunk_key \<times> bytes \<Rightarrow> bool) \<Rightarrow> nat \<Rightarrow> (chunk_key \<times> bytes) list \<Rightarrow> nat \<Rightarrow> bytes list \<Rightarrow> lru option" where
  "evict sole capacity es tot spare =
     (if tot > capacity then
        (case es of
           [] \<Rightarrow> None
         | evicted # rest \<Rightarrow>
             evict sole capacity rest (wsub tot (length (snd evicted)))
               (if length spare < MAX_SPARES \<and> sole evicted then spare @ [snd evicted] else spare))
      else Some \<lparr>lru_entries = es, lru_bytes = tot, lru_spare = spare\<rparr>)"

declare evict.simps [simp del]

definition cache_insert ::
    "(chunk_key \<times> bytes \<Rightarrow> bool) \<Rightarrow> chunk_key \<Rightarrow> bytes \<Rightarrow> cache \<Rightarrow> cache option" where
  "cache_insert sole key chunk c =
     (if dc_capacity c = 0 \<or> length chunk > dc_capacity c then Some c
      else if \<exists>e \<in> set (lru_entries (dc_lru c)). fst e = key
        then Some (c\<lparr>dc_races := wadd (dc_races c) 1\<rparr>)
      else map_option (\<lambda>l. c\<lparr>dc_lru := l\<rparr>)
        (evict sole (dc_capacity c) (lru_entries (dc_lru c) @ [(key, chunk)])
          (wadd (lru_bytes (dc_lru c)) (length chunk)) (lru_spare (dc_lru c))))"

definition get_or_decode ::
    "(chunk_key \<times> bytes \<Rightarrow> bool) \<Rightarrow> chunk_key \<Rightarrow> (bytes \<Rightarrow> aex_error + bytes) \<Rightarrow> cache
     \<Rightarrow> ((aex_error + bytes) \<times> cache) option" where
  "get_or_decode sole key decode c =
     (case cache_get key c of
        (Some hit, c) \<Rightarrow> Some (Ok hit, c\<lparr>dc_hits := wadd (dc_hits c) 1\<rparr>)
      | (None, c) \<Rightarrow>
          let c = c\<lparr>dc_misses := wadd (dc_misses c) 1\<rparr>;
              (buffer, c) = take_spare c
          in case decode buffer of
               Err e \<Rightarrow> Some (Err e, c)
             | Ok chunk \<Rightarrow> map_option (\<lambda>c. (Ok chunk, c)) (cache_insert sole key chunk c))"

text \<open>A range past the end of the chunk panics: \<open>None\<close>.\<close>

definition read_into ::
    "(chunk_key \<times> bytes \<Rightarrow> bool) \<Rightarrow> chunk_key \<Rightarrow> nat \<Rightarrow> bytes \<Rightarrow> (bytes \<Rightarrow> aex_error + bytes) \<Rightarrow> cache
     \<Rightarrow> ((aex_error + bytes) \<times> cache) option" where
  "read_into sole key start out decode c =
     (case get_or_decode sole key decode c of
        None \<Rightarrow> None
      | Some (Err e, c) \<Rightarrow> Some (Err e, c)
      | Some (Ok decoded, c) \<Rightarrow>
          if start + length out \<le> length decoded then Some (Ok (slice decoded start (length out)), c)
          else None)"

section \<open>The invariant\<close>

definition entry_bytes :: "(chunk_key \<times> bytes) list \<Rightarrow> nat" where
  "entry_bytes es = (\<Sum>e\<leftarrow>es. length (snd e))"

definition cache_ok :: "(chunk_key \<Rightarrow> bytes) \<Rightarrow> cache \<Rightarrow> bool" where
  "cache_ok content c \<longleftrightarrow>
     distinct (map fst (lru_entries (dc_lru c)))
     \<and> lru_bytes (dc_lru c) = entry_bytes (lru_entries (dc_lru c))
     \<and> lru_bytes (dc_lru c) \<le> dc_capacity c
     \<and> (\<forall>(key, chunk) \<in> set (lru_entries (dc_lru c)). chunk = content key)
     \<and> length (lru_spare (dc_lru c)) \<le> MAX_SPARES"

lemma entry_bytes_simps [simp]:
  "entry_bytes [] = 0" "entry_bytes (e # es) = length (snd e) + entry_bytes es"
  "entry_bytes (xs @ ys) = entry_bytes xs + entry_bytes ys"
  by (simp_all add: entry_bytes_def)

lemma position_of_Some:
  "position_of key es = Some i \<Longrightarrow> i < length es \<and> fst (es ! i) = key \<and> (\<forall>j < i. fst (es ! j) \<noteq> key)"
proof (induction es arbitrary: i)
  case (Cons e es)
  show ?case
  proof (cases "fst e = key")
    case False
    then obtain j where "i = Suc j" "position_of key es = Some j" using Cons.prems by auto
    then show ?thesis using Cons.IH [of j] False by (auto simp: less_Suc_eq_0_disj)
  qed (use Cons.prems in simp)
qed simp

lemma position_of_None: "position_of key es = None \<longleftrightarrow> key \<notin> fst ` set es"
  by (induction es) auto

lemma take_drop_split: "i < length es \<Longrightarrow> es = take i es @ es ! i # drop (i + 1) es"
  by (simp add: id_take_nth_drop)

text \<open>The oldest entries go first, and only as many as it takes.\<close>

lemma evict_spec:
  "tot = entry_bytes es \<Longrightarrow> tot < U64 \<Longrightarrow>
   \<exists>n l. evict sole capacity es tot spare = Some l \<and> lru_entries l = drop n es \<and> n \<le> length es
     \<and> lru_bytes l = entry_bytes (drop n es) \<and> lru_bytes l \<le> capacity
     \<and> (\<forall>m < n. capacity < entry_bytes (drop m es))
     \<and> (length spare \<le> MAX_SPARES \<longrightarrow> length (lru_spare l) \<le> MAX_SPARES)"
proof (induction es arbitrary: tot spare)
  case Nil
  then show ?case by (subst evict.simps) simp
next
  case (Cons e es)
  show ?case
  proof (cases "tot > capacity")
    case True
    let ?spare = "if length spare < MAX_SPARES \<and> sole e then spare @ [snd e] else spare"
    have w: "wsub tot (length (snd e)) = entry_bytes es" using Cons.prems by (simp add: wsub_eq)
    obtain n l where l: "evict sole capacity es (entry_bytes es) ?spare = Some l" "lru_entries l = drop n es"
        "n \<le> length es" "lru_bytes l = entry_bytes (drop n es)" "lru_bytes l \<le> capacity"
        "\<forall>m < n. capacity < entry_bytes (drop m es)"
        "length ?spare \<le> MAX_SPARES \<longrightarrow> length (lru_spare l) \<le> MAX_SPARES"
      using Cons.IH [of "entry_bytes es" ?spare] Cons.prems by auto
    have "\<forall>m < Suc n. capacity < entry_bytes (drop m (e # es))"
      using l(6) True Cons.prems(1) by (auto simp: less_Suc_eq_0_disj)
    then show ?thesis
      using l True w by (intro exI [of _ "Suc n"] exI [of _ l]) (subst evict.simps, auto)
  next
    case False
    then show ?thesis using Cons.prems
      by (intro exI [of _ 0]) (subst evict.simps, simp)
  qed
qed

lemma cache_new_ok: "cache_ok content (cache_new capacity)"
  by (simp add: cache_ok_def cache_new_def)

lemma cache_get_ok:
  assumes "cache_ok content c" "cache_get key c = (found, c')"
  shows "cache_ok content c'" "found = Some chunk \<Longrightarrow> chunk = content key"
    "found = Some chunk \<Longrightarrow> \<exists>es. lru_entries (dc_lru c') = es @ [(key, chunk)]"
    "found = None \<longleftrightarrow> key \<notin> fst ` set (lru_entries (dc_lru c))"
    "set (lru_entries (dc_lru c')) = set (lru_entries (dc_lru c))" "dc_capacity c' = dc_capacity c"
proof -
  let ?es = "lru_entries (dc_lru c)"
  show fn: "found = None \<longleftrightarrow> key \<notin> fst ` set ?es"
    using assms(2) position_of_None [of key ?es] by (auto simp: cache_get_def Let_def split: option.splits)
  have all: "cache_ok content c' \<and> (\<forall>chunk. found = Some chunk \<longrightarrow> chunk = content key
      \<and> (\<exists>es. lru_entries (dc_lru c') = es @ [(key, chunk)])) \<and> set (lru_entries (dc_lru c')) = set ?es
      \<and> dc_capacity c' = dc_capacity c"
  proof (cases "position_of key ?es")
    case None
    then show ?thesis using assms by (auto simp: cache_get_def)
  next
    case (Some i)
    note i = position_of_Some [OF Some]
    define new where "new = take i ?es @ drop (i + 1) ?es @ [?es ! i]"
    have c': "found = Some (snd (?es ! i))" "c' = c\<lparr>dc_lru := (dc_lru c)\<lparr>lru_entries := new\<rparr>\<rparr>"
      using assms(2) Some by (auto simp: cache_get_def Let_def new_def)
    have "mset new = mset (take i ?es @ ?es ! i # drop (i + 1) ?es)" by (simp add: new_def)
    also have "take i ?es @ ?es ! i # drop (i + 1) ?es = ?es" using i by (metis take_drop_split)
    finally have perm: "mset new = mset ?es" .
    have "mset (map fst new) = mset (map fst ?es)" using perm by (simp only: mset_map)
    then have dist: "distinct (map fst new)"
      using assms(1) by (metis cache_ok_def mset_eq_imp_distinct_iff)
    have "mset (map (\<lambda>e. length (snd e)) new) = mset (map (\<lambda>e. length (snd e)) ?es)"
      using perm by (simp only: mset_map)
    then have sum: "entry_bytes new = entry_bytes ?es"
      unfolding entry_bytes_def by (simp only: sum_mset_sum_list [symmetric])
    have set: "set new = set ?es" using perm by (metis set_mset_mset)
    have at: "?es ! i = (key, snd (?es ! i))" "?es ! i \<in> set ?es" using i by (auto simp: prod_eq_iff)
    have "snd (?es ! i) = content key" using assms(1) at by (auto simp: cache_ok_def)
    moreover have "\<exists>es. new = es @ [(key, snd (?es ! i))]"
      using at(1) by (intro exI [of _ "take i ?es @ drop (i + 1) ?es"]) (simp add: new_def)
    moreover have "cache_ok content c'"
      using assms(1) dist sum set unfolding c'(2) by (simp add: cache_ok_def)
    ultimately show ?thesis using c' set by simp
  qed
  then show "cache_ok content c'" "found = Some chunk \<Longrightarrow> chunk = content key"
    "found = Some chunk \<Longrightarrow> \<exists>es. lru_entries (dc_lru c') = es @ [(key, chunk)]"
    "set (lru_entries (dc_lru c')) = set ?es" "dc_capacity c' = dc_capacity c" by auto
qed

lemma take_spare_ok:
  assumes "cache_ok content c" "take_spare c = (buffer, c')"
  shows "cache_ok content c'" "lru_entries (dc_lru c') = lru_entries (dc_lru c)" "dc_capacity c' = dc_capacity c"
  using assms by (auto simp: take_spare_def cache_ok_def Let_def split: if_splits)

lemma cache_counters_ok [simp]:
  "cache_ok content (c\<lparr>dc_hits := n\<rparr>) = cache_ok content c"
  "cache_ok content (c\<lparr>dc_misses := n\<rparr>) = cache_ok content c"
  "cache_ok content (c\<lparr>dc_races := n\<rparr>) = cache_ok content c"
  "cache_ok content (c\<lparr>dc_next_key := n\<rparr>) = cache_ok content c"
  by (simp_all add: cache_ok_def)

lemma cache_insert_ok:
  assumes ok: "cache_ok content c" and cap: "2 * dc_capacity c < U64" and chunk: "chunk = content key"
  shows "\<exists>c'. cache_insert sole key chunk c = Some c' \<and> cache_ok content c' \<and> dc_capacity c' = dc_capacity c
    \<and> (lru_entries (dc_lru c') = lru_entries (dc_lru c) \<or>
       (\<exists>n. n \<le> length (lru_entries (dc_lru c))
         \<and> lru_entries (dc_lru c') = drop n (lru_entries (dc_lru c) @ [(key, chunk)])
         \<and> (\<forall>m < n. dc_capacity c < entry_bytes (drop m (lru_entries (dc_lru c) @ [(key, chunk)])))))"
proof -
  let ?es = "lru_entries (dc_lru c)"
  consider "dc_capacity c = 0 \<or> length chunk > dc_capacity c"
    | "\<not> (dc_capacity c = 0 \<or> length chunk > dc_capacity c)" "\<exists>e \<in> set ?es. fst e = key"
    | "\<not> (dc_capacity c = 0 \<or> length chunk > dc_capacity c)" "\<not> (\<exists>e \<in> set ?es. fst e = key)" by blast
  then show ?thesis
  proof cases
    case 3
    define tot where "tot = lru_bytes (dc_lru c) + length chunk"
    have tot: "tot = entry_bytes (?es @ [(key, chunk)])" "tot < U64" "wadd (lru_bytes (dc_lru c)) (length chunk) = tot"
      using ok cap 3(1) by (auto simp: tot_def cache_ok_def wadd_eq)
    obtain n l where l: "evict sole (dc_capacity c) (?es @ [(key, chunk)]) tot (lru_spare (dc_lru c)) = Some l"
        "lru_entries l = drop n (?es @ [(key, chunk)])" "n \<le> length (?es @ [(key, chunk)])"
        "lru_bytes l = entry_bytes (drop n (?es @ [(key, chunk)]))" "lru_bytes l \<le> dc_capacity c"
        "\<forall>m < n. dc_capacity c < entry_bytes (drop m (?es @ [(key, chunk)]))"
        "length (lru_spare (dc_lru c)) \<le> MAX_SPARES \<longrightarrow> length (lru_spare l) \<le> MAX_SPARES"
      using evict_spec [OF tot(1,2)] by metis
    have n: "n \<le> length ?es"
    proof (rule ccontr)
      assume "\<not> n \<le> length ?es"
      then have "dc_capacity c < entry_bytes (drop (length ?es) (?es @ [(key, chunk)]))"
        using l(6) by (metis not_le)
      then show False using 3(1) by simp
    qed
    have "distinct (map fst (?es @ [(key, chunk)]))" using ok 3(2) by (auto simp: cache_ok_def)
    then have d: "distinct (map fst (drop n (?es @ [(key, chunk)])))" by (metis distinct_drop drop_map)
    have "\<forall>(k, ch) \<in> set (?es @ [(key, chunk)]). ch = content k" using ok chunk by (auto simp: cache_ok_def)
    then have "\<forall>(k, ch) \<in> set (drop n (?es @ [(key, chunk)])). ch = content k" by (meson in_set_dropD)
    then have "cache_ok content (c\<lparr>dc_lru := l\<rparr>)" using l d ok by (simp add: cache_ok_def)
    then show ?thesis using 3 tot(3) l n by (auto simp: cache_insert_def)
  qed (use ok in \<open>simp_all add: cache_insert_def\<close>)
qed

lemma cache_insert_evicts:
  assumes "cache_ok content c" "2 * dc_capacity c < U64" "0 < dc_capacity c" "length (content key) \<le> dc_capacity c"
    "key \<notin> fst ` set (lru_entries (dc_lru c))"
  shows "\<exists>c' n. cache_insert sole key (content key) c = Some c'
    \<and> lru_entries (dc_lru c') = drop n (lru_entries (dc_lru c) @ [(key, content key)])
    \<and> lru_bytes (dc_lru c') \<le> dc_capacity c
    \<and> (\<forall>m < n. dc_capacity c < entry_bytes (drop m (lru_entries (dc_lru c) @ [(key, content key)])))"
proof -
  let ?es = "lru_entries (dc_lru c) @ [(key, content key)]"
  have w: "wadd (lru_bytes (dc_lru c)) (length (content key)) = entry_bytes ?es" "entry_bytes ?es < U64"
    using assms(1,2,4) by (auto simp: cache_ok_def wadd_eq)
  have "\<not> (\<exists>e \<in> set (lru_entries (dc_lru c)). fst e = key)" using assms(5) by auto
  then have "cache_insert sole key (content key) c = map_option (\<lambda>l. c\<lparr>dc_lru := l\<rparr>)
      (evict sole (dc_capacity c) ?es (entry_bytes ?es) (lru_spare (dc_lru c)))"
    using assms(3,4) w(1) by (simp add: cache_insert_def)
  then show ?thesis using evict_spec [OF refl w(2), where sole = sole and capacity = "dc_capacity c" and spare = "lru_spare (dc_lru c)"] by fastforce
qed

lemma get_or_decode_ok:
  assumes ok: "cache_ok content c" and cap: "2 * dc_capacity c < U64"
    and decode: "\<And>buffer chunk. decode buffer = Ok chunk \<Longrightarrow> chunk = content key"
  shows "\<exists>r c'. get_or_decode sole key decode c = Some (r, c') \<and> cache_ok content c' \<and> dc_capacity c' = dc_capacity c
    \<and> (\<forall>chunk. r = Ok chunk \<longrightarrow> chunk = content key)
    \<and> (\<forall>e. r = Err e \<longrightarrow> key \<notin> fst ` set (lru_entries (dc_lru c)) \<and> (\<exists>buffer. decode buffer = Err e))"
proof -
  obtain found c1 where g: "cache_get key c = (found, c1)" by fastforce
  note get = cache_get_ok [OF ok g]
  show ?thesis
  proof (cases found)
    case (Some hit)
    then show ?thesis using g get(1,2,6) by (auto simp: get_or_decode_def)
  next
    case None
    obtain buffer c2 where t: "take_spare (c1\<lparr>dc_misses := wadd (dc_misses c1) 1\<rparr>) = (buffer, c2)" by fastforce
    have c2: "cache_ok content c2" "dc_capacity c2 = dc_capacity c"
      using take_spare_ok [OF _ t, of content] get(1,6) by simp_all
    show ?thesis
    proof (cases "decode buffer")
      case (Inl e)
      then show ?thesis using g None t c2 get(4) by (auto simp: get_or_decode_def Let_def)
    next
      case (Inr chunk)
      then obtain c3 where "cache_insert sole key chunk c2 = Some c3" "cache_ok content c3" "dc_capacity c3 = dc_capacity c2"
        using cache_insert_ok [OF c2(1), of chunk key sole] cap c2(2) decode by auto
      then show ?thesis using g None t c2(2) Inr decode by (auto simp: get_or_decode_def Let_def)
    qed
  qed
qed

section \<open>Any interleaving of readers\<close>

text \<open>
  Each step is one critical section of one connection: a lookup, taking a spare buffer, inserting a
  chunk somebody finished decoding, or a new dataset's key.
\<close>

inductive cache_step :: "(chunk_key \<Rightarrow> bytes) \<Rightarrow> cache \<Rightarrow> cache \<Rightarrow> bool" for content where
  Hit: "cache_get key c = (Some chunk, c') \<Longrightarrow> cache_step content c (c'\<lparr>dc_hits := wadd (dc_hits c') 1\<rparr>)"
| Miss: "cache_get key c = (None, c') \<Longrightarrow> cache_step content c (c'\<lparr>dc_misses := wadd (dc_misses c') 1\<rparr>)"
| Spare: "take_spare c = (buffer, c') \<Longrightarrow> cache_step content c c'"
| Insert: "cache_insert sole key (content key) c = Some c' \<Longrightarrow> cache_step content c c'"
| Key: "new_key c = (key, c') \<Longrightarrow> cache_step content c c'"

inductive cache_reach :: "(chunk_key \<Rightarrow> bytes) \<Rightarrow> nat \<Rightarrow> cache \<Rightarrow> bool" for content capacity where
  Start: "cache_reach content capacity (cache_new capacity)"
| Step: "cache_reach content capacity c \<Longrightarrow> cache_step content c c' \<Longrightarrow> cache_reach content capacity c'"

inductive_cases cache_stepE: "cache_step content c c'"

lemma cache_reach_ok:
  assumes "2 * capacity < U64"
  shows "cache_reach content capacity c \<Longrightarrow> cache_ok content c \<and> dc_capacity c = capacity"
proof (induction rule: cache_reach.induct)
  case Start
  show ?case using cache_new_ok [of content capacity] by (simp add: cache_new_def)
next
  case (Step c c')
  then have ok: "cache_ok content c" "dc_capacity c = capacity" by auto
  from Step(2) show ?case
  proof (cases rule: cache_step.cases)
    case (Insert sole key)
    then show ?thesis using cache_insert_ok [OF ok(1), of "content key" key sole] assms ok(2) by auto
  next
    case (Spare buffer)
    then show ?thesis using take_spare_ok [OF ok(1)] ok(2) by auto
  next
    case (Key key)
    then show ?thesis using ok by (auto simp: new_key_def)
  qed (use cache_get_ok [OF ok(1)] ok(2) in auto)
qed

section \<open>Chunks read through the cache\<close>

text \<open>
  How a backend that stores compressed chunks uses the two: the walk's callback is \<open>read_into\<close>, with
  the dataset's key and a decoder that gives the chunk. Whatever the cache holds, the walk over it is
  a chunk store, and so a source of the array's bytes.
\<close>

record cached_array =
  ca_grid :: chunk_grid
  ca_cache :: cache
  ca_key :: nat
  ca_sole :: "chunk_key \<times> bytes \<Rightarrow> bool"
  ca_content :: "chunk_key \<Rightarrow> bytes"

definition cached_read :: "cached_array \<Rightarrow> read_chunk" where
  "cached_read a chunk start out =
     fst (the (read_into (ca_sole a) (ca_key a, chunk) start out
       (\<lambda>_. Ok (ca_content a (ca_key a, chunk))) (ca_cache a)))"

definition cached_ok :: "cached_array \<Rightarrow> bool" where
  "cached_ok a \<longleftrightarrow>
     grid_ok (ca_grid a) \<and> 0 < cg_itemsize (ca_grid a)
     \<and> prod_list (cg_shape (ca_grid a)) * cg_itemsize (ca_grid a) < U64
     \<and> (\<forall>c < prod_list (cg_grid (ca_grid a)). length (ca_content a (ca_key a, c)) = cg_chunk_bytes (ca_grid a))
     \<and> cache_ok (ca_content a) (ca_cache a) \<and> 2 * dc_capacity (ca_cache a) < U64"

lemma cached_store:
  assumes "cached_ok a"
  shows "chunk_store (ca_grid a) (\<lambda>c. ca_content a (ca_key a, c)) (cached_read a)"
proof
  fix c s and buf :: bytes assume c: "c < prod_list (cg_grid (ca_grid a))" "s + length buf \<le> cg_chunk_bytes (ca_grid a)"
  obtain r c' where r: "get_or_decode (ca_sole a) (ca_key a, c) (\<lambda>_. Ok (ca_content a (ca_key a, c))) (ca_cache a) = Some (r, c')"
      "\<forall>chunk. r = Ok chunk \<longrightarrow> chunk = ca_content a (ca_key a, c)"
      "\<forall>e. r = Err e \<longrightarrow> (\<exists>buffer :: bytes. Ok (ca_content a (ca_key a, c)) = (Err e :: aex_error + bytes))"
    using get_or_decode_ok [of "ca_content a" "ca_cache a" "\<lambda>_. Ok (ca_content a (ca_key a, c))"
        "(ca_key a, c)" "ca_sole a"] assms by (auto simp: cached_ok_def)
  then have "r = Ok (ca_content a (ca_key a, c))" by (cases r) auto
  then show "cached_read a c s buf = Ok (slice (ca_content a (ca_key a, c)) s (length buf))"
    using r(1) c assms by (simp add: cached_read_def read_into_def cached_ok_def)
qed (use assms in \<open>auto simp: cached_ok_def\<close>)

typedef sound_cached = "{a. cached_ok a}"
proof
  let ?g = "\<lparr>cg_shape = [], cg_chunk_shape = [], cg_grid = [], cg_itemsize = 1, cg_chunk_bytes = 1, cg_run_axis = 0\<rparr>"
  have "cache_ok (\<lambda>_. [0]) (cache_new 0)" "dc_capacity (cache_new 0) = 0"
    by (rule cache_new_ok) (simp add: cache_new_def)
  then show "\<lparr>ca_grid = ?g, ca_cache = cache_new 0, ca_key = 0, ca_sole = \<lambda>_. True, ca_content = \<lambda>_. [0]\<rparr>
      \<in> {a. cached_ok a}"
    by (simp add: cached_ok_def grid_ok_def U64_def)
qed

interpretation cached: chunk_store "ca_grid (Rep_sound_cached a)"
    "\<lambda>c. ca_content (Rep_sound_cached a) (ca_key (Rep_sound_cached a), c)" "cached_read (Rep_sound_cached a)" for a
  using Rep_sound_cached [of a] by (intro cached_store) simp

end
