(* ===== verification/Codec.thy ===== *)
theory Codec
  imports Layout_Read
begin

text \<open>
  Blocks: the payload of a data frame that is not raw (\<open>aex-core/src/codec/\<close>, and
  \<open>SelectionLayout::block\<close>). The header of a block, the description of a byte range as a slab of the
  output array, and compressing and expanding around the codec. \<open>flate2\<close>, \<open>sz3\<close> and \<open>zfp-sys\<close> are
  third-party: their calls are the fields of \<open>codec_lib\<close>, over the element type, the axes, the bound
  and the bytes; \<open>None\<close> is their error. The typed scratch buffers hold the same bytes.
\<close>

definition BLOCK_HEADER_LEN :: nat where "BLOCK_HEADER_LEN = 24"
definition MAX_BLOCK_DIMS :: nat where "MAX_BLOCK_DIMS = 3"
definition BLOCK_VERSION :: u8 where "BLOCK_VERSION = 1"

record block_spec =
  bs_dtype :: dtype
  bs_dims :: "u32 list"
  bs_ndim :: nat
  bs_eps :: f64

section \<open>Describing a byte range\<close>

definition slab_axes :: "nat list \<Rightarrow> nat \<Rightarrow> nat \<Rightarrow> nat \<Rightarrow> nat list option" where
  "slab_axes oshape isz offset len =
     (if oshape = [] then None
      else
        let inner = last oshape in
        Option.bind (cmul inner isz) (\<lambda>row.
          if row = 0 \<or> offset mod row \<noteq> 0 \<or> len mod row \<noteq> 0 then None
          else
            let rows = len div row;
                first = offset div row;
                plane = (if length oshape \<ge> 2 then oshape ! (length oshape - 2) else 1);
                axes = (if plane > 1 \<and> rows mod plane = 0 \<and> first mod plane = 0
                        then [rows div plane, plane, inner] else [rows, inner]);
                axes = filter (\<lambda>axis. axis > 1) axes
            in if axes = [] then None else Some axes))"

lemma replicate_two [simp]: "replicate 2 x = [x, x]"
  by (simp add: numeral_2_eq_2)

definition u32_of :: "nat \<Rightarrow> u32 option" where
  "u32_of n = (if n < U32 then Some (of_nat n) else None)"

definition for_range ::
    "nat list \<Rightarrow> dtype \<Rightarrow> f64 \<Rightarrow> nat \<Rightarrow> nat \<Rightarrow> aex_error + block_spec" where
  "for_range oshape d bound offset len =
     (let isz = itemsize d in
      if len = 0 \<or> len mod isz \<noteq> 0 then Err BadBlock
      else
        let count = len div isz;
            axes = unwrap_or (slab_axes oshape isz offset len) [count]
        in res_map
             (\<lambda>dims. \<lparr>bs_dtype = d, bs_dims = dims @ replicate (MAX_BLOCK_DIMS - length dims) 0,
                      bs_ndim = length axes mod 256, bs_eps = bound\<rparr>)
             (res_traverse (\<lambda>axis. ok_or (u32_of axis) BadBlock) (take MAX_BLOCK_DIMS axes)))"

definition used_dims :: "block_spec \<Rightarrow> nat list" where
  "used_dims spec = map unat (take (bs_ndim spec) (bs_dims spec))"

text \<open>The product and the byte count are a release build's, modulo \<open>2 ^ 64\<close>.\<close>

definition block_count :: "block_spec \<Rightarrow> nat" where
  "block_count spec = wprod (used_dims spec)"

definition block_bytes :: "block_spec \<Rightarrow> nat" where
  "block_bytes spec = wmul (block_count spec) (itemsize (bs_dtype spec))"

section \<open>The header\<close>

definition block_encode :: "block_spec \<Rightarrow> bytes" where
  "block_encode spec =
     [BLOCK_VERSION, word_of_int (as_i32 (bs_dtype spec)), of_nat (bs_ndim spec), 0]
     @ to_le (bs_eps spec) @ concat (map to_le (bs_dims spec))"

definition axis_bad :: "nat \<Rightarrow> nat \<Rightarrow> u32 \<Rightarrow> bool" where
  "axis_bad ndim i dim \<longleftrightarrow>
     (let want_used = i < ndim in
      want_used \<noteq> (dim > 1) \<and> \<not> (want_used \<and> ndim = 1 \<and> dim = 1))"

definition block_decode :: "bytes \<Rightarrow> aex_error + block_spec" where
  "block_decode src =
     (if length src < BLOCK_HEADER_LEN then Err BadBlock
      else if src ! 0 \<noteq> BLOCK_VERSION then Err BadBlock
      else res_bind (dtype_from_i32 (uint (src ! 1))) (\<lambda>d.
        let ndim = unat (src ! 2) in
        if ndim = 0 \<or> ndim > MAX_BLOCK_DIMS then Err BadBlock
        else
          let bound = of_le (slice src 4 8) in
          if \<not> f64_is_finite bound \<or> f64_lt_zero bound then Err BadBlock
          else
            let dims = map (\<lambda>i. of_le (slice src (12 + i * 4) 4)) [0..<MAX_BLOCK_DIMS] in
            if \<exists>i < MAX_BLOCK_DIMS. axis_bad ndim i (dims ! i) then Err BadBlock
            else Ok \<lparr>bs_dtype = d, bs_dims = dims, bs_ndim = ndim, bs_eps = bound\<rparr>))"

section \<open>The codecs\<close>

record codec_lib =
  lib_deflate :: "bytes \<Rightarrow> bytes option"
  lib_inflate :: "bytes \<Rightarrow> nat \<Rightarrow> bytes option"
  lib_sz_compress :: "dtype \<Rightarrow> nat list \<Rightarrow> f64 \<Rightarrow> bytes \<Rightarrow> bytes option"
  lib_sz_expand :: "dtype \<Rightarrow> nat list \<Rightarrow> bytes \<Rightarrow> bytes option"
  lib_zfp_compress :: "dtype \<Rightarrow> nat list \<Rightarrow> f64 \<Rightarrow> bytes \<Rightarrow> bytes option"
  lib_zfp_expand :: "dtype \<Rightarrow> nat list \<Rightarrow> f64 \<Rightarrow> bytes \<Rightarrow> bytes option"

definition gzip_compress :: "codec_lib \<Rightarrow> bytes \<Rightarrow> aex_error + bytes" where
  "gzip_compress lib src = ok_or (lib_deflate lib src) BadBlock"

text \<open>\<open>lib_inflate\<close> is what the decoder wrote into \<open>n\<close> bytes of room; a short stream is refused.\<close>

definition gzip_expand :: "codec_lib \<Rightarrow> bytes \<Rightarrow> nat \<Rightarrow> aex_error + bytes" where
  "gzip_expand lib src n =
     res_bind (ok_or (lib_inflate lib src n) BadBlock)
       (\<lambda>got. if length got \<noteq> n then Err BadBlock else Ok got)"

definition is_float :: "dtype \<Rightarrow> bool" where "is_float d \<longleftrightarrow> d = Float32 \<or> d = Float64"

text \<open>\<open>load\<close> takes the whole elements of the bytes.\<close>

definition load :: "dtype \<Rightarrow> bytes \<Rightarrow> bytes" where
  "load d src = take (length src div itemsize d * itemsize d) src"

definition sz_compress :: "codec_lib \<Rightarrow> block_spec \<Rightarrow> bytes \<Rightarrow> aex_error + bytes" where
  "sz_compress lib spec src =
     (if is_float (bs_dtype spec)
      then ok_or (lib_sz_compress lib (bs_dtype spec) (used_dims spec) (bs_eps spec) (load (bs_dtype spec) src)) BadBlock
      else Err BadBlock)"

definition sz_expand :: "codec_lib \<Rightarrow> block_spec \<Rightarrow> bytes \<Rightarrow> aex_error + bytes" where
  "sz_expand lib spec src =
     (if is_float (bs_dtype spec)
      then ok_or (lib_sz_expand lib (bs_dtype spec) (used_dims spec) src) BadBlock
      else Err BadBlock)"

text \<open>zfp's axes run fastest first; a field has one to three of them.\<close>

definition zfp_field :: "block_spec \<Rightarrow> nat list option" where
  "zfp_field spec =
     (let d = rev (used_dims spec) in
      if length d = 1 \<or> length d = 2 \<or> length d = 3 then Some d else None)"

definition zfp_compress :: "codec_lib \<Rightarrow> block_spec \<Rightarrow> bytes \<Rightarrow> aex_error + bytes" where
  "zfp_compress lib spec src =
     (if is_float (bs_dtype spec)
      then ok_or (Option.bind (zfp_field spec) (\<lambda>d.
             lib_zfp_compress lib (bs_dtype spec) d (bs_eps spec) (load (bs_dtype spec) src))) BadBlock
      else Err BadBlock)"

definition zfp_expand :: "codec_lib \<Rightarrow> block_spec \<Rightarrow> bytes \<Rightarrow> aex_error + bytes" where
  "zfp_expand lib spec src =
     (if is_float (bs_dtype spec)
      then ok_or (Option.bind (zfp_field spec) (\<lambda>d.
             lib_zfp_expand lib (bs_dtype spec) d (bs_eps spec) src)) BadBlock
      else Err BadBlock)"

text \<open>\<open>compress\<close>: whether the block shrank, and what \<open>dst\<close> holds.\<close>

definition compress :: "build \<Rightarrow> codec_lib \<Rightarrow> codec \<Rightarrow> block_spec \<Rightarrow> bytes \<Rightarrow> bytes \<Rightarrow> (aex_error + bool) \<times> bytes" where
  "compress b lib codec spec src dst =
     (if block_bytes spec \<noteq> length src then (Err BadBlock, dst)
      else
        let written =
              (case codec of
                 Gzip \<Rightarrow> gzip_compress lib src
               | Sz \<Rightarrow> if feat_sz b then sz_compress lib spec src else Err BadBlock
               | Zfp \<Rightarrow> if feat_zfp b then zfp_compress lib spec src else Err BadBlock
               | Raw \<Rightarrow> Err BadBlock)
        in case written of
             Err e \<Rightarrow> (Err e, [])
           | Ok stream \<Rightarrow>
               let dst = block_encode spec @ stream in
               if length dst \<ge> length src then (Ok False, []) else (Ok True, dst))"

definition decompress_into :: "build \<Rightarrow> codec_lib \<Rightarrow> codec \<Rightarrow> bytes \<Rightarrow> nat \<Rightarrow> aex_error + bytes" where
  "decompress_into b lib codec src n =
     res_bind (block_decode src) (\<lambda>spec.
       if block_bytes spec \<noteq> n then Err BadBlock
       else
         let stream = drop BLOCK_HEADER_LEN src in
         case codec of
           Gzip \<Rightarrow> gzip_expand lib stream n
         | Sz \<Rightarrow> if feat_sz b then sz_expand lib spec stream else Err BadBlock
         | Zfp \<Rightarrow> if feat_zfp b then zfp_expand lib spec stream else Err BadBlock
         | Raw \<Rightarrow> Err BadBlock)"

text \<open>\<open>SelectionLayout::block\<close>.\<close>

definition layout_block :: "build \<Rightarrow> layout \<Rightarrow> nat \<Rightarrow> nat \<Rightarrow> aex_error + block_spec option" where
  "layout_block b lay offset len =
     (if codec_of b (lay_quality lay) = Raw then Ok None
      else res_map Some
        (for_range (lay_out_shape lay) (lay_dtype lay) (unwrap_or (eps (lay_quality lay)) 0) offset len))"

section \<open>A range described\<close>

lemma slab_axes_Some:
  assumes "slab_axes oshape isz offset len = Some axes" "0 < len"
  shows "prod_list axes * isz = len" "\<forall>a \<in> set axes. 1 < a" "axes \<noteq> []" "length axes \<le> 3"
proof -
  have ne: "oshape \<noteq> []" using assms(1) by (auto simp: slab_axes_def)
  define inner where "inner = last oshape"
  define plane where "plane = (if length oshape \<ge> 2 then oshape ! (length oshape - 2) else 1)"
  obtain row where row: "cmul inner isz = Some row" "row \<noteq> 0" "offset mod row = 0" "len mod row = 0"
    using assms(1) ne by (auto simp: slab_axes_def Let_def inner_def split: bind_splits if_splits)
  define rows where "rows = len div row"
  define axes0 where "axes0 = (if plane > 1 \<and> rows mod plane = 0 \<and> offset div row mod plane = 0
    then [rows div plane, plane, inner] else [rows, inner])"
  have "slab_axes oshape isz offset len =
      (let axes = filter (\<lambda>axis. axis > 1) axes0 in if axes = [] then None else Some axes)"
    unfolding slab_axes_def Let_def inner_def [symmetric] plane_def [symmetric] row(1) bind.bind_lunit
      rows_def [symmetric] axes0_def using ne row(2-4) by (simp only: if_False simp_thms)
  then have axes: "axes = filter (\<lambda>axis. axis > 1) axes0" "axes \<noteq> []"
    using assms(1) by (simp_all only: Let_def split: if_splits) auto
  have rl: "rows * row = len" using row(4) by (auto simp: rows_def)
  then have pos: "0 < rows" "0 < inner" "row = inner * isz" using assms(2) row(1,2) by (auto simp: cmul_Some intro: gr0I)
  have p0: "prod_list axes0 = rows * inner" "0 \<notin> set axes0" "length axes0 \<le> 3"
  proof -
    have "rows div plane * plane = rows" if "rows mod plane = 0" using that by (auto simp: mod_eq_0_iff_dvd)
    then show "prod_list axes0 = rows * inner" by (auto simp: axes0_def mult.assoc [symmetric])
    have "rows div plane \<noteq> 0" if "rows mod plane = 0" using that pos(1) by (metis div_mult_mod_eq add_cancel_right_right mult_zero_left less_irrefl)
    then show "0 \<notin> set axes0" using pos by (auto simp: axes0_def)
    show "length axes0 \<le> 3" by (simp add: axes0_def)
  qed
  have "0 \<notin> set xs \<Longrightarrow> prod_list (filter (\<lambda>axis. axis > 1) xs) = prod_list xs" for xs :: "nat list"
    by (induction xs) (auto simp: not_less le_Suc_eq)
  then have "prod_list axes = rows * inner" using p0 axes(1) by simp
  then show "prod_list axes * isz = len" using rl pos(3) by (simp add: mult.assoc)
  show "\<forall>a \<in> set axes. 1 < a" "axes \<noteq> []" using axes by auto
  show "length axes \<le> 3" using p0(3) length_filter_le [of "\<lambda>axis. axis > 1" axes0] unfolding axes(1) by linarith
qed

definition spec_ok :: "block_spec \<Rightarrow> bool" where
  "spec_ok spec \<longleftrightarrow>
     (\<exists>axes. 1 \<le> length axes \<and> length axes \<le> MAX_BLOCK_DIMS \<and> bs_ndim spec = length axes
       \<and> bs_dims spec = axes @ replicate (MAX_BLOCK_DIMS - length axes) 0
       \<and> ((\<forall>a \<in> set axes. 1 < a) \<or> axes = [1]))"

lemma u32_of_traverse:
  "res_traverse (\<lambda>axis. ok_or (u32_of axis) e) axes = Ok ds \<Longrightarrow> map unat ds = axes"
proof (induction axes arbitrary: ds)
  case (Cons a axes)
  then show ?case
    by (auto simp: res_bind_Ok res_map_Ok u32_of_def U32_def unat_of_nat split: if_splits sum.splits)
qed simp

lemma for_range_ok:
  assumes "for_range oshape d bound offset len = Ok spec" "len < U64"
  shows "spec_ok spec" "bs_dtype spec = d" "bs_eps spec = bound" "block_bytes spec = len"
    "prod_list (used_dims spec) * itemsize d = len"
proof -
  define count axes where "count = len div itemsize d" and "axes = unwrap_or (slab_axes oshape (itemsize d) offset len) [count]"
  have len: "len \<noteq> 0" "len mod itemsize d = 0"
    using assms(1) by (auto simp: for_range_def Let_def split: if_splits)
  then have count: "count * itemsize d = len" "0 < count" by (auto simp: count_def intro: gr0I)
  have ax: "prod_list axes * itemsize d = len" "axes \<noteq> []" "length axes \<le> 3" "(\<forall>a \<in> set axes. 1 < a) \<or> axes = [1]"
  proof -
    have "prod_list axes * itemsize d = len \<and> axes \<noteq> [] \<and> length axes \<le> 3 \<and> ((\<forall>a \<in> set axes. 1 < a) \<or> axes = [1])"
    proof (cases "slab_axes oshape (itemsize d) offset len")
      case None
      then show ?thesis using count by (auto simp: axes_def unwrap_or_def)
    next
      case (Some as)
      then show ?thesis using slab_axes_Some [OF Some] len by (simp add: axes_def unwrap_or_def)
    qed
    then show "prod_list axes * itemsize d = len" "axes \<noteq> []" "length axes \<le> 3" "(\<forall>a \<in> set axes. 1 < a) \<or> axes = [1]"
      by blast+
  qed
  have "take MAX_BLOCK_DIMS axes = axes" using ax(3) by (simp add: MAX_BLOCK_DIMS_def)
  then have "for_range oshape d bound offset len = res_map
      (\<lambda>dims. \<lparr>bs_dtype = d, bs_dims = dims @ replicate (MAX_BLOCK_DIMS - length dims) 0,
        bs_ndim = length axes mod 256, bs_eps = bound\<rparr>)
      (res_traverse (\<lambda>axis. ok_or (u32_of axis) BadBlock) axes)"
    using len unfolding for_range_def Let_def count_def [symmetric] axes_def [symmetric] by (simp only: if_False simp_thms)
  from this [unfolded assms(1), symmetric, unfolded res_map_Ok]
  obtain ds where ds: "res_traverse (\<lambda>axis. ok_or (u32_of axis) BadBlock) axes = Ok ds"
    and spec: "spec = \<lparr>bs_dtype = d, bs_dims = ds @ replicate (MAX_BLOCK_DIMS - length ds) 0,
      bs_ndim = length axes mod 256, bs_eps = bound\<rparr>"
    by blast
  have u: "map unat ds = axes" using ds by (rule u32_of_traverse)
  then have lds: "length ds = length axes" by (metis length_map)
  have nd: "bs_ndim spec = length ds" using ax(3) lds by (simp add: spec)
  have mem: "\<forall>a \<in> set ds. 1 < a" if big: "\<forall>a \<in> set axes. 1 < a"
  proof
    fix a assume "a \<in> set ds"
    then have "unat a \<in> set axes" unfolding u [symmetric] by simp
    then show "1 < a" using big by (simp add: word_less_nat_alt)
  qed
  have "ds = [1]" if "axes = [1]" using that u by (cases ds) (auto simp: word_unat_eq_iff)
  then show "spec_ok spec" unfolding spec_ok_def using ax(2-4) lds nd mem
    by (intro exI [of _ ds]) (auto simp: spec MAX_BLOCK_DIMS_def Suc_le_eq)
  show "bs_dtype spec = d" "bs_eps spec = bound" by (simp_all add: spec)
  have used: "used_dims spec = axes" using u nd by (simp add: used_dims_def spec)
  then show "prod_list (used_dims spec) * itemsize d = len" using ax(1) by simp
  have "prod_list axes * 1 \<le> prod_list axes * itemsize d" by (intro mult_le_mono2) (simp add: Suc_leI)
  then have "prod_list axes < U64" using ax(1) assms(2) by linarith
  then show "block_bytes spec = len"
    using ax(1) used assms(2) by (simp add: block_bytes_def block_count_def wprod_def [symmetric] spec wmul_eq
        wprod_mod)
qed

section \<open>The header's round trip\<close>

lemma slice_at: "length xs = a \<Longrightarrow> length ys = n \<Longrightarrow> slice (xs @ ys @ zs) a n = ys"
  by (simp add: slice_def)

lemma spec_dims3:
  assumes "spec_ok spec"
  obtains x y z where "bs_dims spec = [x, y, z]" "bs_ndim spec \<in> {1, 2, 3}"
    "\<forall>i < 3. \<not> axis_bad (bs_ndim spec) i ([x, y, z] ! i)"
proof -
  obtain axes where a: "1 \<le> length axes" "length axes \<le> 3" "bs_ndim spec = length axes"
      "bs_dims spec = axes @ replicate (3 - length axes) 0" "(\<forall>a \<in> set axes. 1 < a) \<or> axes = [1]"
    using assms by (auto simp: spec_ok_def MAX_BLOCK_DIMS_def)
  consider p where "axes = [p]" | p q where "axes = [p, q]" | p q r where "axes = [p, q, r]"
    using a(1,2) by (cases axes rule: list.exhaust [case_product list.exhaust])
      (auto simp: Suc_le_eq length_Suc_conv numeral_3_eq_3 le_Suc_eq neq_Nil_conv)
  then show thesis
  proof cases
    case (1 p)
    then show thesis using a by (intro that [of p 0 0]) (auto simp: axis_bad_def numeral_3_eq_3 less_Suc_eq)
  next
    case (2 p q)
    then show thesis using a by (intro that [of p q 0]) (auto simp: axis_bad_def numeral_3_eq_3 less_Suc_eq)
  next
    case (3 p q r)
    then show thesis using a by (intro that [of p q r]) (auto simp: axis_bad_def numeral_3_eq_3 less_Suc_eq)
  qed
qed

lemma length_block_encode: "spec_ok spec \<Longrightarrow> length (block_encode spec) = BLOCK_HEADER_LEN"
  by (elim spec_dims3) (simp add: block_encode_def BLOCK_HEADER_LEN_def)

lemma dtype_byte: "uint (word_of_int (as_i32 d) :: u8) = as_i32 d"
  by (cases d) simp_all

lemma block_decode_encode:
  assumes ok: "spec_ok spec" and bound: "f64_is_finite (bs_eps spec)" "\<not> f64_lt_zero (bs_eps spec)"
  shows "block_decode (block_encode spec @ rest) = Ok spec"
proof -
  obtain x y z where d: "bs_dims spec = [x, y, z]" "bs_ndim spec \<in> {1, 2, 3}"
    "\<forall>i < 3. \<not> axis_bad (bs_ndim spec) i ([x, y, z] ! i)"
    using ok by (rule spec_dims3)
  define src where "src = block_encode spec @ rest"
  define v where "v = [BLOCK_VERSION, word_of_int (as_i32 (bs_dtype spec)), of_nat (bs_ndim spec), 0]"
  have src: "src = v @ to_le (bs_eps spec) @ to_le x @ to_le y @ to_le z @ rest"
    by (simp add: src_def block_encode_def d v_def)
  have len: "\<not> length src < BLOCK_HEADER_LEN" by (simp add: src v_def BLOCK_HEADER_LEN_def)
  have sl: "slice src 4 8 = to_le (bs_eps spec)" "slice src 12 4 = to_le x" "slice src 16 4 = to_le y"
    "slice src 20 4 = to_le z"
    unfolding src
    using slice_at [of v 4 "to_le (bs_eps spec)" 8]
      slice_at [of "v @ to_le (bs_eps spec)" 12 "to_le x" 4]
      slice_at [of "v @ to_le (bs_eps spec) @ to_le x" 16 "to_le y" 4]
      slice_at [of "v @ to_le (bs_eps spec) @ to_le x @ to_le y" 20 "to_le z" 4]
    by (simp_all add: v_def)
  have hd: "src ! 0 = BLOCK_VERSION" "src ! 1 = word_of_int (as_i32 (bs_dtype spec))" "src ! 2 = of_nat (bs_ndim spec)"
    by (simp_all add: src v_def)
  have nd: "unat (src ! 2) = bs_ndim spec" using d(2) hd(3) by auto
  have dims: "map (\<lambda>i. of_le (slice src (12 + i * 4) 4)) [0..<MAX_BLOCK_DIMS] = [x, y, z]"
    by (simp add: MAX_BLOCK_DIMS_def upt_rec sl)
  have noaxis: "\<not> (\<exists>i < MAX_BLOCK_DIMS. axis_bad (bs_ndim spec) i ([x, y, z] ! i))"
    using d(3) by (simp add: MAX_BLOCK_DIMS_def)
  have nok: "\<not> (bs_ndim spec = 0 \<or> bs_ndim spec > MAX_BLOCK_DIMS)" using d(2) by (auto simp: MAX_BLOCK_DIMS_def)
  have "block_decode src = Ok \<lparr>bs_dtype = bs_dtype spec, bs_dims = [x, y, z], bs_ndim = bs_ndim spec, bs_eps = bs_eps spec\<rparr>"
    unfolding block_decode_def using len hd nd nok dims noaxis bound sl(1)
    by (simp add: Let_def dtype_byte)
  then show ?thesis using d(1) by (simp add: src_def)
qed

text \<open>Every block that \<open>compress\<close> produced is shorter than its input, and expanding it runs the
  codec on the same description and the codec's own stream.\<close>

lemma compress_Ok:
  assumes "compress b lib codec spec src dst0 = (Ok True, dst)"
  shows "length dst < length src" "block_bytes spec = length src"
    "\<exists>stream. dst = block_encode spec @ stream \<and>
       (case codec of
          Gzip \<Rightarrow> gzip_compress lib src = Ok stream
        | Sz \<Rightarrow> feat_sz b \<and> sz_compress lib spec src = Ok stream
        | Zfp \<Rightarrow> feat_zfp b \<and> zfp_compress lib spec src = Ok stream
        | Raw \<Rightarrow> False)"
  using assms by (auto simp: compress_def Let_def split: if_splits sum.splits codec.splits)

lemma decompress_stream:
  assumes "spec_ok spec" "f64_is_finite (bs_eps spec)" "\<not> f64_lt_zero (bs_eps spec)" "block_bytes spec = n"
  shows "decompress_into b lib codec (block_encode spec @ stream) n =
    (case codec of
       Gzip \<Rightarrow> gzip_expand lib stream n
     | Sz \<Rightarrow> if feat_sz b then sz_expand lib spec stream else Err BadBlock
     | Zfp \<Rightarrow> if feat_zfp b then zfp_expand lib spec stream else Err BadBlock
     | Raw \<Rightarrow> Err BadBlock)"
  using assms block_decode_encode [OF assms(1-3), of stream] length_block_encode [OF assms(1)]
  by (simp add: decompress_into_def Let_def split: codec.splits)

lemma gzip_roundtrip_lemma:
  assumes "for_range oshape d bound offset (length src) = Ok spec" "length src < U64"
    and "f64_is_finite bound" "\<not> f64_lt_zero bound"
    and "compress b lib Gzip spec src dst0 = (Ok True, dst)"
    and "\<And>stream. lib_deflate lib src = Some stream \<Longrightarrow> lib_inflate lib stream (length src) = Some src"
  shows "decompress_into b lib Gzip dst (length src) = Ok src"
proof -
  note fr = for_range_ok [OF assms(1,2)]
  obtain stream where s: "dst = block_encode spec @ stream" "lib_deflate lib src = Some stream"
    using compress_Ok(3) [OF assms(5)] by (auto simp: gzip_compress_def)
  show ?thesis
    unfolding s(1) using decompress_stream [OF fr(1), of "length src" b lib Gzip stream] fr(3,4) assms(3,4,6) s(2)
    by (simp add: gzip_expand_def)
qed

end
