(* ===== verification/Convert.thy ===== *)
theory Convert
  imports Selection
begin

text \<open>
  Selections on the wire (\<open>aex-proto/src/convert.rs\<close>). The protobuf message \<open>Index\<close> is a oneof, whose
  absence is \<open>None\<close>; the two arms without a value of their own carry a \<open>bool\<close>.
\<close>

definition DEFAULT_MAX_FANCY_INDICES :: nat where "DEFAULT_MAX_FANCY_INDICES = 262144"

datatype index_kind =
  Kind_Single int
| Kind_Slice "int option" "int option" "int option"
| Kind_Fancy "int list"
| Kind_Ellipsis bool
| Kind_Newaxis bool

type_synonym proto_index = "index_kind option"

fun index_to_proto :: "index \<Rightarrow> proto_index" where
  "index_to_proto (Single i) = Some (Kind_Single i)"
| "index_to_proto (Slice start stop step) = Some (Kind_Slice start stop step)"
| "index_to_proto (Fancy list) = Some (Kind_Fancy list)"
| "index_to_proto Ellipsis = Some (Kind_Ellipsis True)"
| "index_to_proto NewAxis = Some (Kind_Newaxis True)"

definition indices_to_proto :: "index list \<Rightarrow> proto_index list" where
  "indices_to_proto indices = map index_to_proto indices"

definition check_fancy_len :: "nat \<Rightarrow> nat \<Rightarrow> aex_error + unit" where
  "check_fancy_len len max_fancy = (if len > max_fancy then Err BadSelection else Ok ())"

fun index_from_proto :: "nat \<Rightarrow> proto_index \<Rightarrow> aex_error + index" where
  "index_from_proto max_fancy None = Err BadSelection"
| "index_from_proto max_fancy (Some (Kind_Single i)) = Ok (Single i)"
| "index_from_proto max_fancy (Some (Kind_Slice start stop step)) = Ok (Slice start stop step)"
| "index_from_proto max_fancy (Some (Kind_Fancy list)) =
     res_bind (check_fancy_len (length list) max_fancy) (\<lambda>_. Ok (Fancy list))"
| "index_from_proto max_fancy (Some (Kind_Ellipsis _)) = Ok Ellipsis"
| "index_from_proto max_fancy (Some (Kind_Newaxis _)) = Ok NewAxis"

definition indices_from_proto :: "nat \<Rightarrow> proto_index list \<Rightarrow> aex_error + index list" where
  "indices_from_proto max_fancy indices = res_traverse (index_from_proto max_fancy) indices"

fun check_fancy_limit :: "nat \<Rightarrow> index list \<Rightarrow> aex_error + unit" where
  "check_fancy_limit max_fancy [] = Ok ()"
| "check_fancy_limit max_fancy (Fancy list # rest) =
     res_bind (check_fancy_len (length list) max_fancy) (\<lambda>_. check_fancy_limit max_fancy rest)"
| "check_fancy_limit max_fancy (_ # rest) = check_fancy_limit max_fancy rest"

section \<open>What arrives is what was sent\<close>

fun fancy_len :: "index \<Rightarrow> nat" where
  "fancy_len (Fancy list) = length list"
| "fancy_len _ = 0"

lemma index_from_to_proto:
  "index_from_proto max_fancy (index_to_proto i) = (if fancy_len i > max_fancy then Err BadSelection else Ok i)"
  by (cases i) (simp_all add: check_fancy_len_def)

lemma check_fancy_limit_Ok: "check_fancy_limit max_fancy ixs = Ok () \<longleftrightarrow> (\<forall>i \<in> set ixs. fancy_len i \<le> max_fancy)"
  by (induction max_fancy ixs rule: check_fancy_limit.induct) (auto simp: check_fancy_len_def)

text \<open>The client's check before sending decides exactly whether the server takes the selection.\<close>

lemma indices_from_to_proto:
  "indices_from_proto max_fancy (indices_to_proto ixs) = res_map (\<lambda>_. ixs) (check_fancy_limit max_fancy ixs)"
  unfolding indices_from_proto_def indices_to_proto_def
  by (induction max_fancy ixs rule: check_fancy_limit.induct)
    (auto simp: check_fancy_len_def res_map_def split: sum.splits)

lemma check_fancy_limit_mono: "check_fancy_limit m ixs = Ok () \<Longrightarrow> m \<le> n \<Longrightarrow> check_fancy_limit n ixs = Ok ()"
  by (auto simp: check_fancy_limit_Ok)

lemma indices_from_proto_bounded:
  "indices_from_proto max_fancy ps = Ok ixs \<Longrightarrow> length ixs = length ps \<and> (\<forall>i \<in> set ixs. fancy_len i \<le> max_fancy)"
proof (induction ps arbitrary: ixs)
  case (Cons p ps)
  then obtain i rest where i: "index_from_proto max_fancy p = Ok i" "indices_from_proto max_fancy ps = Ok rest" "ixs = i # rest"
    by (auto simp: indices_from_proto_def split: sum.splits)
  then have "fancy_len i \<le> max_fancy"
    by (cases "(max_fancy, p)" rule: index_from_proto.cases) (auto simp: check_fancy_len_def split: if_splits)
  then show ?case using Cons.IH [OF i(2)] i(3) by simp
qed (simp add: indices_from_proto_def)

end
