(* ===== verification/Paths.thy ===== *)
theory Paths
  imports Errors
begin

text \<open>
  Paths as \<open>std::path\<close> has them, for the servers' roots and for the stores under them: whether the path is
  absolute, and its components without empty ones and dots. The file system's \<open>canonicalize\<close> is an argument
  wherever it is called.
\<close>

type_synonym path = "bool \<times> string list"

definition path_starts_with :: "path \<Rightarrow> path \<Rightarrow> bool" where
  "path_starts_with p base \<longleftrightarrow> fst p = fst base \<and> take (length (snd base)) (snd p) = snd base"

text \<open>Joining an absolute path replaces the base.\<close>

definition path_join :: "path \<Rightarrow> path \<Rightarrow> path" where
  "path_join base p = (if fst p then p else (fst base, snd base @ snd p))"

fun split_path :: "string \<Rightarrow> string list" where
  "split_path [] = [[]]"
| "split_path (c # s) =
     (if c = CHR ''/'' then [] # split_path s
      else case split_path s of [] \<Rightarrow> [[c]] | w # ws \<Rightarrow> (c # w) # ws)"

definition path_of :: "string \<Rightarrow> path" where
  "path_of s =
     (s \<noteq> [] \<and> hd s = CHR ''/'', filter (\<lambda>w. w \<noteq> [] \<and> w \<noteq> ''.'') (split_path s))"

type_synonym canonicalize = "path \<Rightarrow> io_kind + path"

end
