(* ===== verification/Server_Config.thy ===== *)
theory Server_Config
  imports Convert Paths
begin

text \<open>
  The server's configuration (\<open>aex-server/src/config.rs\<close>): the numeric settings with their defaults
  and \<open>validate\<close>, and which paths a client may open (\<open>aex-server/src/paths.rs\<close>). Reading and parsing
  the TOML file is the standard library's and serde's. A path is whether it is absolute and its
  components; the file system is the arguments \<open>canonicalize\<close>, \<open>is_file\<close> and \<open>is_dir\<close>.
\<close>

section \<open>Settings\<close>

definition DEFAULT_STREAMS :: nat where "DEFAULT_STREAMS = 8"

record limits =
  max_sessions :: nat
  max_fancy_indices :: nat
  grpc_max_message_bytes :: nat
  max_streams_per_session :: nat
  max_transfers_per_session :: nat
  session_idle_timeout_sec :: nat
  data_conn_idle_timeout_sec :: nat
  transfer_ttl_sec :: nat

record transfer_config =
  default_chunk_bytes :: nat
  read_buffer_bytes :: nat
  max_fetch_bytes :: nat
  inline_limit_bytes :: nat
  decode_cache_bytes :: nat

record server_config =
  cfg_enable_null_backend :: bool
  cfg_limits :: limits
  cfg_transfer :: transfer_config
  cfg_roots :: "path list"

definition default_limits :: limits where
  "default_limits =
     \<lparr>max_sessions = 64, max_fancy_indices = DEFAULT_MAX_FANCY_INDICES,
      grpc_max_message_bytes = 4 * 1024 * 1024, max_streams_per_session = 32,
      max_transfers_per_session = 64, session_idle_timeout_sec = 300,
      data_conn_idle_timeout_sec = 300, transfer_ttl_sec = 60\<rparr>"

definition default_transfer :: transfer_config where
  "default_transfer =
     \<lparr>default_chunk_bytes = 4 * 1024 * 1024, read_buffer_bytes = 512 * 1024,
      max_fetch_bytes = 16 * 1024 * 1024, inline_limit_bytes = 64 * 1024,
      decode_cache_bytes = 2 ^ 30\<rparr>"

definition default_config :: server_config where
  "default_config =
     \<lparr>cfg_enable_null_backend = False, cfg_limits = default_limits,
      cfg_transfer = default_transfer, cfg_roots = [(True, [''data''])]\<rparr>"

definition validate :: "server_config \<Rightarrow> server_error + unit" where
  "validate c =
     (let l = cfg_limits c; t = cfg_transfer c in
      if max_sessions l = 0 then Err SrvConfig
      else if max_streams_per_session l = 0 then Err SrvConfig
      else if max_transfers_per_session l = 0 then Err SrvConfig
      else if session_idle_timeout_sec l = 0 then Err SrvConfig
      else if transfer_ttl_sec l = 0 then Err SrvConfig
      else if default_chunk_bytes t = 0 then Err SrvConfig
      else if read_buffer_bytes t = 0 then Err SrvConfig
      else if max_fetch_bytes t < default_chunk_bytes t then Err SrvConfig
      else if inline_limit_bytes t > grpc_max_message_bytes l then Err SrvConfig
      else if cfg_roots c = [] then Err SrvConfig
      else Ok ())"

definition config_ok :: "server_config \<Rightarrow> bool" where
  "config_ok c \<longleftrightarrow>
     0 < max_sessions (cfg_limits c) \<and> 0 < max_streams_per_session (cfg_limits c)
     \<and> 0 < max_transfers_per_session (cfg_limits c) \<and> 0 < session_idle_timeout_sec (cfg_limits c)
     \<and> 0 < transfer_ttl_sec (cfg_limits c) \<and> 0 < default_chunk_bytes (cfg_transfer c)
     \<and> 0 < read_buffer_bytes (cfg_transfer c)
     \<and> default_chunk_bytes (cfg_transfer c) \<le> max_fetch_bytes (cfg_transfer c)
     \<and> inline_limit_bytes (cfg_transfer c) \<le> grpc_max_message_bytes (cfg_limits c)
     \<and> cfg_roots c \<noteq> []"

lemma validate_Ok [simp]: "validate c = Ok () \<longleftrightarrow> config_ok c"
  by (auto simp: validate_def config_ok_def Let_def)

section \<open>Paths a client may open\<close>

text \<open>\<open>PathPolicy::new\<close>: the roots with their symlinks followed.\<close>

definition policy_new ::
    "canonicalize \<Rightarrow> (path \<Rightarrow> bool) \<Rightarrow> path list \<Rightarrow> server_error + path list" where
  "policy_new canonicalize is_dir roots =
     (if roots = [] then Err SrvConfig
      else res_traverse
        (\<lambda>root. case canonicalize root of
           Err _ \<Rightarrow> Err SrvConfig
         | Ok canonical \<Rightarrow> if \<not> is_dir canonical then Err SrvConfig else Ok canonical)
        roots)"

text \<open>The loop of \<open>locate\<close>; \<open>last\<close> is \<open>last_error\<close>, and a list of candidates is never empty.\<close>

fun locate_loop ::
    "canonicalize \<Rightarrow> path list \<Rightarrow> path list \<Rightarrow> io_kind option \<Rightarrow> server_error + path" where
  "locate_loop canonicalize roots [] last_error =
     (case last_error of
        Some kind \<Rightarrow> Err (SrvCore (AexIo kind))
      | None \<Rightarrow> undefined)"
| "locate_loop canonicalize roots (candidate # rest) last_error =
     (case canonicalize candidate of
        Ok resolved \<Rightarrow>
          if \<not> (\<exists>root \<in> set roots. path_starts_with resolved root) then Err SrvPathNotAllowed
          else Ok resolved
      | Err e \<Rightarrow> locate_loop canonicalize roots rest (Some e))"

definition locate :: "canonicalize \<Rightarrow> path list \<Rightarrow> string \<Rightarrow> server_error + path" where
  "locate canonicalize roots requested =
     (if requested = [] then Err SrvBadRequest
      else
        let p = path_of requested;
            candidates = (if fst p then [p] else map (\<lambda>root. path_join root p) roots)
        in locate_loop canonicalize roots candidates None)"

definition path_resolve ::
    "canonicalize \<Rightarrow> (path \<Rightarrow> bool) \<Rightarrow> path list \<Rightarrow> string \<Rightarrow> server_error + path" where
  "path_resolve canonicalize is_file roots requested =
     res_bind (locate canonicalize roots requested)
       (\<lambda>resolved. if \<not> is_file resolved then Err SrvBadRequest else Ok resolved)"

definition resolve_store ::
    "canonicalize \<Rightarrow> (path \<Rightarrow> bool) \<Rightarrow> path list \<Rightarrow> string \<Rightarrow> server_error + path" where
  "resolve_store canonicalize is_dir roots requested =
     res_bind (locate canonicalize roots requested)
       (\<lambda>resolved. if \<not> is_dir resolved then Err SrvBadRequest else Ok resolved)"

lemma locate_loop_inside:
  "locate_loop canonicalize roots candidates last_error = Ok p \<Longrightarrow> candidates \<noteq> [] \<or> last_error \<noteq> None \<Longrightarrow>
   (\<exists>root \<in> set roots. path_starts_with p root) \<and> (\<exists>c \<in> set candidates. canonicalize c = Ok p)"
proof (induction candidates arbitrary: last_error)
  case (Cons c cs)
  then show ?case by (cases "canonicalize c") (auto split: if_splits)
qed auto

lemma locate_inside:
  assumes "locate canonicalize roots requested = Ok p" "roots \<noteq> []"
  shows "\<exists>root \<in> set roots. path_starts_with p root"
proof -
  obtain candidates where "locate_loop canonicalize roots candidates None = Ok p" "candidates \<noteq> []"
    using assms by (auto simp only: locate_def Let_def list.distinct map_is_Nil_conv split: if_splits)
  then show ?thesis using locate_loop_inside by blast
qed

text \<open>A policy always has a root.\<close>

lemma policy_new_nonempty: "policy_new canonicalize is_dir roots = Ok resolved \<Longrightarrow> resolved \<noteq> []"
  by (auto simp: policy_new_def dest: res_traverse_Ok split: if_splits)

end
