(* ===== verification/Assoc.thy ===== *)
theory Assoc
  imports Prelude "HOL-Library.AList"
begin

text \<open>
  Hash maps as association lists with distinct keys: what \<open>insert\<close>, \<open>remove\<close> and \<open>retain\<close> do to the
  entries, their keys and their number.
\<close>

named_theorems assoc_simps \<open>association lists with distinct keys\<close>

definition keys_distinct :: "('k \<times> 'v) list \<Rightarrow> bool" where
  "keys_distinct al \<longleftrightarrow> distinct (map fst al)"

lemma keys_distinct_Nil [simp]: "keys_distinct []"
  by (simp add: keys_distinct_def)

lemma keys_distinct_update [simp]: "keys_distinct al \<Longrightarrow> keys_distinct (AList.update k v al)"
  by (simp add: keys_distinct_def distinct_update)

lemma keys_distinct_delete [simp]: "keys_distinct al \<Longrightarrow> keys_distinct (AList.delete k al)"
  by (simp add: keys_distinct_def distinct_delete)

lemma keys_distinct_filter [simp]: "keys_distinct al \<Longrightarrow> keys_distinct (filter P al)"
  by (simp add: keys_distinct_def distinct_map_filter)

lemma update_mem [assoc_simps]:
  "keys_distinct al \<Longrightarrow> e \<in> set (AList.update k v al) \<longleftrightarrow> e = (k, v) \<or> fst e \<noteq> k \<and> e \<in> set al"
  by (induction al) (auto simp: keys_distinct_def)

lemma delete_mem [assoc_simps]: "e \<in> set (AList.delete k al) \<longleftrightarrow> fst e \<noteq> k \<and> e \<in> set al"
  by (auto simp: AList.delete_eq)

lemma map_of_mem [assoc_simps]: "keys_distinct al \<Longrightarrow> map_of al k = Some v \<longleftrightarrow> (k, v) \<in> set al"
  by (simp add: keys_distinct_def)

lemma map_of_filter_mem:
  "keys_distinct al \<Longrightarrow> map_of (filter P al) k = Some v \<longleftrightarrow> (k, v) \<in> set al \<and> P (k, v)"
  by (subst map_of_mem) auto

lemma length_update:
  "length (AList.update k v al) = (if k \<in> fst ` set al then length al else Suc (length al))"
  by (induction al) auto

lemma length_delete: "length (AList.delete k al) \<le> length al"
  by (rule length_delete_le)

lemma map_of_update [simp]: "map_of (AList.update k v al) k' = (if k' = k then Some v else map_of al k')"
  by (simp add: update_conv')

lemma map_of_delete_eq [simp]: "map_of (AList.delete k al) k' = (if k' = k then None else map_of al k')"
  by (simp add: delete_conv')

end
