(* ===== verification/Session.thy ===== *)
theory Session
  imports Server_Config Assoc
begin

text \<open>
  Sessions and the files they hold open (\<open>aex-server/src/session.rs\<close>). A hash map is an association
  list with distinct keys. The time is an argument, in milliseconds since the registry's epoch, and
  so are the random bytes of an id and a token, which the operating system may refuse to give. An
  open file is of a type \<open>'f\<close> the registry does not look into.
\<close>

section \<open>The files of a session\<close>

record 'f file_registry =
  fr_files :: "(nat \<times> 'f) list"
  fr_next_handle :: nat

definition files_new :: "'f file_registry" where
  "files_new = \<lparr>fr_files = [], fr_next_handle = 1\<rparr>"

definition files_insert :: "'f \<Rightarrow> 'f file_registry \<Rightarrow> nat \<times> 'f file_registry" where
  "files_insert file r =
     (let handle = fr_next_handle r in
      (handle, r\<lparr>fr_files := AList.update handle file (fr_files r),
                 fr_next_handle := wadd handle 1\<rparr>))"

definition files_get :: "nat \<Rightarrow> 'f file_registry \<Rightarrow> server_error + 'f" where
  "files_get handle r = ok_or (map_of (fr_files r) handle) SrvBadRequest"

definition files_remove :: "nat \<Rightarrow> 'f file_registry \<Rightarrow> (server_error + unit) \<times> 'f file_registry" where
  "files_remove handle r =
     (case map_of (fr_files r) handle of
        None \<Rightarrow> (Err SrvBadRequest, r)
      | Some _ \<Rightarrow> (Ok (), r\<lparr>fr_files := AList.delete handle (fr_files r)\<rparr>))"

definition files_len :: "'f file_registry \<Rightarrow> nat" where "files_len r = length (fr_files r)"

section \<open>One session\<close>

type_synonym session_id = bytes

record 'f session =
  ss_id :: session_id
  ss_token :: bytes
  ss_granted_streams :: nat
  ss_client_name :: string
  ss_files :: "'f file_registry"
  ss_last_seen_ms :: nat

definition session_touch :: "nat \<Rightarrow> 'f session \<Rightarrow> 'f session" where
  "session_touch now_ms s = s\<lparr>ss_last_seen_ms := now_ms\<rparr>"

text \<open>Subtraction saturates at 0, as it does on \<open>nat\<close>.\<close>

definition session_expired :: "nat \<Rightarrow> nat \<Rightarrow> 'f session \<Rightarrow> bool" where
  "session_expired now_ms timeout_ms s \<longleftrightarrow> now_ms - ss_last_seen_ms s > timeout_ms"

section \<open>The registry\<close>

type_synonym 'f sessions = "(session_id \<times> 'f session) list"

definition idle_timeout_ms :: "server_config \<Rightarrow> nat" where
  "idle_timeout_ms c = sat_mul (session_idle_timeout_sec (cfg_limits c)) 1000"

text \<open>\<open>create_at\<close> takes the lock twice: to count, and to insert.\<close>

definition has_room :: "server_config \<Rightarrow> 'f sessions \<Rightarrow> bool" where
  "has_room c reg \<longleftrightarrow> length reg < max_sessions (cfg_limits c)"

definition granted :: "server_config \<Rightarrow> nat \<Rightarrow> nat" where
  "granted c desired =
     (let wanted = (if desired = 0 then DEFAULT_STREAMS else desired) in
      min wanted (max_streams_per_session (cfg_limits c)))"

definition new_session ::
    "server_config \<Rightarrow> string \<Rightarrow> nat \<Rightarrow> nat \<Rightarrow> bytes \<Rightarrow> bytes \<Rightarrow> 'f session" where
  "new_session c client_name desired now_ms sid token =
     \<lparr>ss_id = sid, ss_token = token, ss_granted_streams = granted c desired,
      ss_client_name = client_name, ss_files = files_new, ss_last_seen_ms = now_ms\<rparr>"

definition create_at ::
    "server_config \<Rightarrow> string \<Rightarrow> nat \<Rightarrow> nat \<Rightarrow> server_error + bytes \<Rightarrow> server_error + bytes
     \<Rightarrow> 'f sessions \<Rightarrow> (server_error + 'f session) \<times> 'f sessions" where
  "create_at c client_name desired now_ms random_id random_token reg =
     (if \<not> has_room c reg then (Err SrvExhausted, reg)
      else case res_bind random_id (\<lambda>sid. res_map (\<lambda>token. (sid, token)) random_token) of
        Err e \<Rightarrow> (Err e, reg)
      | Ok (sid, token) \<Rightarrow>
          let s = new_session c client_name desired now_ms sid token in
          (Ok s, AList.update sid s reg))"

definition get_at ::
    "server_config \<Rightarrow> bytes \<Rightarrow> nat \<Rightarrow> 'f sessions \<Rightarrow> (server_error + 'f session) \<times> 'f sessions" where
  "get_at c sid now_ms reg =
     (if length sid \<noteq> 16 then (Err SrvAuth, reg)
      else case map_of reg sid of
        None \<Rightarrow> (Err SrvAuth, reg)
      | Some s \<Rightarrow>
          if session_expired now_ms (idle_timeout_ms c) s then (Err SrvAuth, AList.delete sid reg)
          else
            let s = session_touch now_ms s in (Ok s, AList.update sid s reg))"

definition touch_at :: "session_id \<Rightarrow> nat \<Rightarrow> 'f sessions \<Rightarrow> 'f sessions" where
  "touch_at sid now_ms reg =
     (case map_of reg sid of None \<Rightarrow> reg | Some s \<Rightarrow> AList.update sid (session_touch now_ms s) reg)"

definition sessions_contains :: "session_id \<Rightarrow> 'f sessions \<Rightarrow> bool" where
  "sessions_contains sid reg \<longleftrightarrow> map_of reg sid \<noteq> None"

definition remove_at ::
    "server_config \<Rightarrow> bytes \<Rightarrow> nat \<Rightarrow> 'f sessions \<Rightarrow> (server_error + session_id) \<times> 'f sessions" where
  "remove_at c sid now_ms reg =
     (case get_at c sid now_ms reg of
        (Err e, reg) \<Rightarrow> (Err e, reg)
      | (Ok s, reg) \<Rightarrow> (Ok (ss_id s), AList.delete (ss_id s) reg))"

definition sweep_expired_at :: "server_config \<Rightarrow> nat \<Rightarrow> 'f sessions \<Rightarrow> nat \<times> 'f sessions" where
  "sweep_expired_at c now_ms reg =
     (let kept = filter (\<lambda>(_, s). \<not> session_expired now_ms (idle_timeout_ms c) s) reg in
      (length reg - length kept, kept))"

section \<open>Invariants\<close>

definition files_ok :: "'f file_registry \<Rightarrow> bool" where
  "files_ok r \<longleftrightarrow>
     keys_distinct (fr_files r) \<and> 0 < fr_next_handle r
     \<and> (\<forall>h f. (h, f) \<in> set (fr_files r) \<longrightarrow> 0 < h \<and> h < fr_next_handle r)"

lemma files_new_ok: "files_ok files_new"
  by (simp add: files_ok_def files_new_def)

text \<open>Until the counter wraps, an open file gets a handle no other open file has.\<close>

lemma files_insert_ok:
  assumes "files_ok r" "fr_next_handle r + 1 < U64" "files_insert file r = (handle, r')"
  shows "files_ok r'" "files_get handle r' = Ok file" "handle \<noteq> 0" "files_get handle r = Err SrvBadRequest"
    "\<And>h. h \<noteq> handle \<Longrightarrow> files_get h r' = files_get h r"
proof -
  have r': "handle = fr_next_handle r"
    "r' = r\<lparr>fr_files := AList.update handle file (fr_files r), fr_next_handle := handle + 1\<rparr>"
    using assms by (auto simp: files_insert_def Let_def wadd_eq)
  show "files_ok r'" using assms(1) by (auto simp: files_ok_def r' assoc_simps less_Suc_eq)
  show "files_get handle r' = Ok file" "\<And>h. h \<noteq> handle \<Longrightarrow> files_get h r' = files_get h r"
    by (simp_all add: files_get_def r'(2))
  show "handle \<noteq> 0" using assms(1) by (simp add: files_ok_def r'(1))
  have "map_of (fr_files r) handle = None"
    using assms(1) by (cases "map_of (fr_files r) handle") (auto simp: files_ok_def r'(1) assoc_simps)
  then show "files_get handle r = Err SrvBadRequest" by (simp add: files_get_def)
qed

text \<open>A handle closed is unknown, so that closing it twice is an error.\<close>

lemma files_remove_ok:
  assumes "files_ok r" "files_remove handle r = (res, r')"
  shows "files_ok r'" "files_get handle r' = Err SrvBadRequest"
    "\<And>h. h \<noteq> handle \<Longrightarrow> files_get h r' = files_get h r" "res = Ok () \<longleftrightarrow> files_get handle r \<noteq> Err SrvBadRequest"
proof -
  show "files_ok r'" "files_get handle r' = Err SrvBadRequest" "\<And>h. h \<noteq> handle \<Longrightarrow> files_get h r' = files_get h r"
    using assms by (auto simp: files_ok_def files_remove_def files_get_def assoc_simps split: option.splits; blast)+
  show "res = Ok () \<longleftrightarrow> files_get handle r \<noteq> Err SrvBadRequest"
    using assms(2) by (cases "map_of (fr_files r) handle") (auto simp: files_remove_def files_get_def)
qed

definition session_ok :: "server_config \<Rightarrow> session_id \<Rightarrow> 'f session \<Rightarrow> bool" where
  "session_ok c sid s \<longleftrightarrow>
     ss_id s = sid \<and> 0 < ss_granted_streams s
     \<and> ss_granted_streams s \<le> max_streams_per_session (cfg_limits c)"

definition sessions_ok :: "server_config \<Rightarrow> 'f sessions \<Rightarrow> bool" where
  "sessions_ok c reg \<longleftrightarrow>
     keys_distinct reg \<and> length reg \<le> max_sessions (cfg_limits c)
     \<and> (\<forall>sid s. (sid, s) \<in> set reg \<longrightarrow> session_ok c sid s)"

lemma granted_bounds:
  "config_ok c \<Longrightarrow> 0 < granted c desired \<and> granted c desired \<le> max_streams_per_session (cfg_limits c)"
  by (simp add: granted_def config_ok_def DEFAULT_STREAMS_def Let_def)

lemma create_at_ok:
  assumes "sessions_ok c reg" "config_ok c" "create_at c client_name desired now_ms random_id random_token reg = (res, reg')"
  shows "sessions_ok c reg'"
proof (cases "has_room c reg")
  case False
  then show ?thesis using assms by (simp add: create_at_def)
next
  case True
  show ?thesis
  proof (cases "res_bind random_id (\<lambda>sid. res_map (\<lambda>token. (sid, token)) random_token)")
    case (Inl e)
    then show ?thesis using assms True by (simp add: create_at_def)
  next
    case (Inr p)
    obtain sid token where p: "p = (sid, token)" by (cases p)
    then have "reg' = AList.update sid (new_session c client_name desired now_ms sid token) reg"
      using assms(3) True Inr by (simp add: create_at_def Let_def)
    then show ?thesis
      using assms(1) True granted_bounds [OF assms(2), of desired]
      by (auto simp: sessions_ok_def has_room_def length_update assoc_simps session_ok_def new_session_def)
  qed
qed

lemma session_touch_ok [simp]: "session_ok c sid (session_touch now_ms s) = session_ok c sid s"
  by (simp add: session_ok_def session_touch_def)

lemma length_update_present: "map_of reg sid = Some s \<Longrightarrow> length (AList.update sid s' reg) = length reg"
  by (auto simp: length_update dest: map_of_SomeD intro: rev_image_eqI)

lemma get_at_ok:
  assumes "sessions_ok c reg" "get_at c sid now_ms reg = (res, reg')"
  shows "sessions_ok c reg'"
proof (cases "length sid = 16 \<and> map_of reg sid \<noteq> None")
  case True
  then obtain s where s: "map_of reg sid = Some s" "length sid = 16" by auto
  have mem: "(sid, s) \<in> set reg" using s(1) by (rule map_of_SomeD)
  show ?thesis
  proof (cases "session_expired now_ms (idle_timeout_ms c) s")
    case True
    then have "reg' = AList.delete sid reg" using assms(2) s by (simp add: get_at_def)
    then show ?thesis using assms(1) length_delete [of sid reg]
      by (auto simp: sessions_ok_def assoc_simps intro: le_trans)
  next
    case False
    then have "reg' = AList.update sid (session_touch now_ms s) reg" using assms(2) s by (simp add: get_at_def Let_def)
    then show ?thesis using assms(1) mem length_update_present [OF s(1)]
      by (auto simp: sessions_ok_def assoc_simps)
  qed
qed (use assms in \<open>auto simp: get_at_def split: if_splits\<close>)

text \<open>A session that is handed out was not idle past the timeout, and is marked as used.\<close>

lemma get_at_live:
  assumes "get_at c sid now_ms reg = (Ok s, reg')"
  shows "\<exists>old. map_of reg sid = Some old \<and> now_ms - ss_last_seen_ms old \<le> idle_timeout_ms c
    \<and> ss_last_seen_ms s = now_ms \<and> map_of reg' sid = Some s"
  using assms
  by (auto simp: get_at_def session_expired_def session_touch_def Let_def not_less split: if_splits option.splits)

lemma sweep_expired_ok:
  assumes "sessions_ok c reg" "sweep_expired_at c now_ms reg = (n, reg')"
  shows "sessions_ok c reg'" "length reg' + n = length reg"
    "map_of reg' sid = Some s \<longleftrightarrow> map_of reg sid = Some s \<and> \<not> session_expired now_ms (idle_timeout_ms c) s"
proof -
  have reg': "reg' = filter (\<lambda>(_, s). \<not> session_expired now_ms (idle_timeout_ms c) s) reg" "n = length reg - length reg'"
    using assms(2) by (auto simp: sweep_expired_at_def Let_def)
  have d: "keys_distinct reg" using assms(1) by (simp add: sessions_ok_def)
  show "sessions_ok c reg'"
    using assms(1) by (auto simp: sessions_ok_def reg'(1) intro: le_trans [OF length_filter_le])
  show "length reg' + n = length reg" using length_filter_le [of _ reg] by (simp add: reg')
  show "map_of reg' sid = Some s \<longleftrightarrow> map_of reg sid = Some s \<and> \<not> session_expired now_ms (idle_timeout_ms c) s"
    unfolding reg'(1) map_of_filter_mem [OF d] by (simp add: map_of_mem [OF d])
qed

section \<open>Any sequence of requests\<close>

inductive session_step :: "server_config \<Rightarrow> 'f sessions \<Rightarrow> 'f sessions \<Rightarrow> bool" for c where
  Create: "create_at c client_name desired now_ms random_id random_token reg = (res, reg') \<Longrightarrow> session_step c reg reg'"
| Get: "get_at c sid now_ms reg = (res, reg') \<Longrightarrow> session_step c reg reg'"
| Remove: "remove_at c sid now_ms reg = (res', reg') \<Longrightarrow> session_step c reg reg'"
| Touch: "session_step c reg (touch_at sid now_ms reg)"
| Sweep: "sweep_expired_at c now_ms reg = (n, reg') \<Longrightarrow> session_step c reg reg'"

lemma remove_at_ok:
  assumes "sessions_ok c reg" "remove_at c sid now_ms reg = (res, reg')"
  shows "sessions_ok c reg'" "res = Ok sid' \<Longrightarrow> map_of reg' sid' = None"
proof -
  obtain r reg1 where g: "get_at c sid now_ms reg = (r, reg1)" by fastforce
  note ok1 = get_at_ok [OF assms(1) g]
  have del: "sessions_ok c (AList.delete k reg1)" for k
    using ok1 length_delete [of k reg1] by (auto simp: sessions_ok_def assoc_simps intro: le_trans)
  show "sessions_ok c reg'" using assms(2) g ok1 del by (auto simp: remove_at_def split: sum.splits)
  show "res = Ok sid' \<Longrightarrow> map_of reg' sid' = None"
    using assms(2) g by (auto simp: remove_at_def split: sum.splits)
qed

lemma touch_at_ok: "sessions_ok c reg \<Longrightarrow> sessions_ok c (touch_at sid now_ms reg)"
  using length_update_present [of reg sid]
  by (auto simp: touch_at_def sessions_ok_def assoc_simps split: option.splits dest: map_of_SomeD)

lemma session_step_ok: "session_step c reg reg' \<Longrightarrow> config_ok c \<Longrightarrow> sessions_ok c reg \<Longrightarrow> sessions_ok c reg'"
  by (induction rule: session_step.induct)
    (blast intro: create_at_ok get_at_ok remove_at_ok(1) touch_at_ok sweep_expired_ok(1))+

inductive session_reach :: "server_config \<Rightarrow> 'f sessions \<Rightarrow> bool" for c where
  Start: "session_reach c []"
| Step: "session_reach c reg \<Longrightarrow> session_step c reg reg' \<Longrightarrow> session_reach c reg'"

lemma session_reach_ok:
  assumes "config_ok c"
  shows "session_reach c reg \<Longrightarrow> sessions_ok c reg"
  by (induction rule: session_reach.induct) (auto simp: sessions_ok_def [of c "[]"] intro: session_step_ok [OF _ assms])

section \<open>Two creations at once\<close>

text \<open>
  \<open>create_at\<close> counts the sessions under one lock and inserts under another. What another thread does
  between the two is \<open>reg'\<close>.
\<close>

definition create_insert ::
    "server_config \<Rightarrow> string \<Rightarrow> nat \<Rightarrow> nat \<Rightarrow> bytes \<Rightarrow> bytes \<Rightarrow> 'f sessions \<Rightarrow> 'f sessions" where
  "create_insert c client_name desired now_ms sid token reg =
     AList.update sid (new_session c client_name desired now_ms sid token) reg"

lemma create_at_split:
  "create_at c client_name desired now_ms (Ok sid) (Ok token) reg =
     (if has_room c reg
      then (Ok (new_session c client_name desired now_ms sid token),
            create_insert c client_name desired now_ms sid token reg)
      else (Err SrvExhausted, reg))"
  by (simp add: create_at_def create_insert_def Let_def)

section \<open>The data connections of a session\<close>

text \<open>
  \<open>open_data_conn\<close> is a loop around a weak compare-and-exchange, which may fail for no reason.
  \<open>dc_loaded\<close> holds the value each connection inside the loop read last, \<open>dc_open\<close> counts the
  connections that got in and have not been counted out.
\<close>

record data_conns =
  dc_conns :: nat
  dc_loaded :: "nat list"
  dc_open :: nat

inductive conn_step :: "nat \<Rightarrow> data_conns \<Rightarrow> data_conns \<Rightarrow> bool" for granted_streams where
  Load: "conn_step granted_streams s (s\<lparr>dc_loaded := dc_conns s # dc_loaded s\<rparr>)"
| Refuse: "v \<in> set (dc_loaded s) \<Longrightarrow> v \<ge> granted_streams \<Longrightarrow>
    conn_step granted_streams s (s\<lparr>dc_loaded := remove1 v (dc_loaded s)\<rparr>)"
| Exchange: "v \<in> set (dc_loaded s) \<Longrightarrow> v < granted_streams \<Longrightarrow> dc_conns s = v \<Longrightarrow>
    conn_step granted_streams s
      (s\<lparr>dc_conns := v + 1, dc_loaded := remove1 v (dc_loaded s), dc_open := dc_open s + 1\<rparr>)"
| Retry: "v \<in> set (dc_loaded s) \<Longrightarrow> v < granted_streams \<Longrightarrow>
    conn_step granted_streams s (s\<lparr>dc_loaded := dc_conns s # remove1 v (dc_loaded s)\<rparr>)"
| Close: "0 < dc_open s \<Longrightarrow>
    conn_step granted_streams s
      (s\<lparr>dc_conns := (dc_conns s + U32 - 1) mod U32, dc_open := dc_open s - 1\<rparr>)"

inductive conn_reach :: "nat \<Rightarrow> data_conns \<Rightarrow> bool" for granted_streams where
  Start: "conn_reach granted_streams \<lparr>dc_conns = 0, dc_loaded = [], dc_open = 0\<rparr>"
| Step: "conn_reach granted_streams s \<Longrightarrow> conn_step granted_streams s s' \<Longrightarrow> conn_reach granted_streams s'"

inductive_cases conn_stepE: "conn_step granted_streams s s'"

lemma conn_reach_bound:
  assumes "granted_streams < U32"
  shows "conn_reach granted_streams s \<Longrightarrow> dc_conns s = dc_open s \<and> dc_open s \<le> granted_streams"
proof (induction rule: conn_reach.induct)
  case (Step s s')
  from Step(2) show ?case
  proof (cases rule: conn_step.cases)
    case Close
    then have "dc_conns s + U32 - 1 = (dc_open s - 1) + U32" "dc_open s - 1 < U32"
      using Step.IH assms by auto
    then have "(dc_conns s + U32 - 1) mod U32 = dc_open s - 1" by simp
    then show ?thesis using Close Step.IH by auto
  qed (use Step.IH in auto)
qed simp

end
