(* ===== verification/Frame.thy ===== *)
theory Frame
  imports Quality
begin

text \<open>
  The data plane's frames (\<open>aex-wire/src/frame.rs\<close>): the 32-byte header, the error payload and
  the two routines that move them. A socket being written is the list of results its
  \<open>write_vectored\<close> calls return, a socket being read the bytes that arrive before the peer
  hangs up. \<open>IoSlice::advance_slices\<close>, \<open>Read::read_exact\<close> and
  \<open>String::from_utf8_lossy\<close> are the standard library's and are written out.
\<close>

definition HEADER_LEN :: nat where "HEADER_LEN = 32"
definition TICKET_LEN :: nat where "TICKET_LEN = 16"

section \<open>Frame types and headers\<close>

datatype frame_type = FT_Fetch | FT_Data | FT_Error | FT_Ping | FT_Pong

fun frame_type_as_u8 :: "frame_type \<Rightarrow> u8" where
  "frame_type_as_u8 FT_Fetch = 0x01" | "frame_type_as_u8 FT_Data = 0x02"
| "frame_type_as_u8 FT_Error = 0x03" | "frame_type_as_u8 FT_Ping = 0x05"
| "frame_type_as_u8 FT_Pong = 0x06"

definition frame_type_from_u8 :: "u8 \<Rightarrow> frame_type option" where
  "frame_type_from_u8 v =
     (if v = 0x01 then Some FT_Fetch
      else if v = 0x02 then Some FT_Data
      else if v = 0x03 then Some FT_Error
      else if v = 0x05 then Some FT_Ping
      else if v = 0x06 then Some FT_Pong
      else None)"

record frame_header =
  fh_frame_type :: frame_type
  fh_codec :: codec
  fh_encoding :: encoding
  fh_flags :: u8
  fh_request_id :: u32
  fh_offset :: u64
  fh_wire_len :: u64
  fh_logical_len :: u64

definition fetch_header :: "u32 \<Rightarrow> u64 \<Rightarrow> u64 \<Rightarrow> frame_header" where
  "fetch_header request_id offset logical_len =
     \<lparr>fh_frame_type = FT_Fetch, fh_codec = Raw, fh_encoding = Exact, fh_flags = 0,
      fh_request_id = request_id, fh_offset = offset,
      fh_wire_len = of_nat TICKET_LEN, fh_logical_len = logical_len\<rparr>"

definition data_header :: "u32 \<Rightarrow> u64 \<Rightarrow> u64 \<Rightarrow> frame_header" where
  "data_header request_id offset len =
     \<lparr>fh_frame_type = FT_Data, fh_codec = Raw, fh_encoding = Exact, fh_flags = 0,
      fh_request_id = request_id, fh_offset = offset,
      fh_wire_len = len, fh_logical_len = len\<rparr>"

definition data_encoded_header ::
    "u32 \<Rightarrow> u64 \<Rightarrow> codec \<Rightarrow> encoding \<Rightarrow> u64 \<Rightarrow> u64 \<Rightarrow> frame_header" where
  "data_encoded_header request_id offset c e wire_len logical_len =
     \<lparr>fh_frame_type = FT_Data, fh_codec = c, fh_encoding = e, fh_flags = 0,
      fh_request_id = request_id, fh_offset = offset,
      fh_wire_len = wire_len, fh_logical_len = logical_len\<rparr>"

definition error_header :: "u32 \<Rightarrow> u64 \<Rightarrow> u64 \<Rightarrow> u64 \<Rightarrow> frame_header" where
  "error_header request_id offset logical_len payload_len =
     \<lparr>fh_frame_type = FT_Error, fh_codec = Raw, fh_encoding = Exact, fh_flags = 0,
      fh_request_id = request_id, fh_offset = offset,
      fh_wire_len = payload_len, fh_logical_len = logical_len\<rparr>"

definition bare_header :: "frame_type \<Rightarrow> frame_header" where
  "bare_header t =
     \<lparr>fh_frame_type = t, fh_codec = Raw, fh_encoding = Exact, fh_flags = 0,
      fh_request_id = 0, fh_offset = 0, fh_wire_len = 0, fh_logical_len = 0\<rparr>"

text \<open>The stores into the zeroed array cover it from byte 0 to byte 31 in order.\<close>

definition header_encode :: "frame_header \<Rightarrow> bytes" where
  "header_encode h =
     [frame_type_as_u8 (fh_frame_type h), codec_as_u8 (fh_codec h),
      encoding_as_u8 (fh_encoding h), fh_flags h]
     @ to_le (fh_request_id h) @ to_le (fh_offset h)
     @ to_le (fh_wire_len h) @ to_le (fh_logical_len h)"

definition header_decode :: "bytes \<Rightarrow> wire_error + frame_header" where
  "header_decode b =
     (case frame_type_from_u8 (b ! 0) of None \<Rightarrow> Err WireProtocol
      | Some t \<Rightarrow>
     (case codec_from_u8 (b ! 1) of None \<Rightarrow> Err WireProtocol
      | Some c \<Rightarrow>
     (case encoding_from_u8 (b ! 2) of None \<Rightarrow> Err WireProtocol
      | Some e \<Rightarrow>
        Ok \<lparr>fh_frame_type = t, fh_codec = c, fh_encoding = e, fh_flags = b ! 3,
            fh_request_id = of_le (slice b 4 4), fh_offset = of_le (slice b 8 8),
            fh_wire_len = of_le (slice b 16 8), fh_logical_len = of_le (slice b 24 8)\<rparr>)))"

section \<open>UTF-8, as \<open>String::from_utf8_lossy\<close> reads it\<close>

definition is_cont :: "u8 \<Rightarrow> bool" where "is_cont b \<longleftrightarrow> 0x80 \<le> b \<and> b \<le> 0xBF"

definition byte_at :: "bytes \<Rightarrow> nat \<Rightarrow> u8" where
  "byte_at bs i = (if i < length bs then bs ! i else 0)"

definition second_ok3 :: "u8 \<Rightarrow> u8 \<Rightarrow> bool" where
  "second_ok3 b n \<longleftrightarrow>
     b = 0xE0 \<and> 0xA0 \<le> n \<and> n \<le> 0xBF
     \<or> 0xE1 \<le> b \<and> b \<le> 0xEC \<and> is_cont n
     \<or> b = 0xED \<and> 0x80 \<le> n \<and> n \<le> 0x9F
     \<or> 0xEE \<le> b \<and> b \<le> 0xEF \<and> is_cont n"

definition second_ok4 :: "u8 \<Rightarrow> u8 \<Rightarrow> bool" where
  "second_ok4 b n \<longleftrightarrow>
     b = 0xF0 \<and> 0x90 \<le> n \<and> n \<le> 0xBF
     \<or> 0xF1 \<le> b \<and> b \<le> 0xF3 \<and> is_cont n
     \<or> b = 0xF4 \<and> 0x80 \<le> n \<and> n \<le> 0x8F"

text \<open>How many bytes the next character takes, and whether they are one.\<close>

definition utf8_next :: "bytes \<Rightarrow> nat \<times> bool" where
  "utf8_next bs =
     (let b = byte_at bs 0; n1 = byte_at bs 1; n2 = byte_at bs 2; n3 = byte_at bs 3 in
      if b < 0x80 then (1, True)
      else if 0xC2 \<le> b \<and> b \<le> 0xDF then (if is_cont n1 then (2, True) else (1, False))
      else if 0xE0 \<le> b \<and> b \<le> 0xEF then
        (if \<not> second_ok3 b n1 then (1, False)
         else if \<not> is_cont n2 then (2, False) else (3, True))
      else if 0xF0 \<le> b \<and> b \<le> 0xF4 then
        (if \<not> second_ok4 b n1 then (1, False)
         else if \<not> is_cont n2 then (2, False)
         else if \<not> is_cont n3 then (3, False) else (4, True))
      else (1, False))"

lemma utf8_next_pos: "(n, valid) = utf8_next bs \<Longrightarrow> 0 < n"
  by (auto simp: utf8_next_def Let_def split: if_splits)

function utf8_lossy :: "bytes \<Rightarrow> bytes" where
  "utf8_lossy bs =
     (if bs = [] then []
      else let (n, valid) = utf8_next bs in
        (if valid then take n bs else [0xEF, 0xBF, 0xBD]) @ utf8_lossy (drop n bs))"
  by pat_completeness auto
termination
  by (relation "measure length") (auto dest: utf8_next_pos)

function utf8_valid :: "bytes \<Rightarrow> bool" where
  "utf8_valid bs =
     (if bs = [] then True
      else let (n, valid) = utf8_next bs in valid \<and> utf8_valid (drop n bs))"
  by pat_completeness auto
termination
  by (relation "measure length") (auto dest: utf8_next_pos)

declare utf8_lossy.simps [simp del] utf8_valid.simps [simp del]

lemma utf8_lossy_valid: "utf8_valid bs \<Longrightarrow> utf8_lossy bs = bs"
proof (induction bs rule: utf8_valid.induct)
  case (1 bs)
  then show ?case
    by (cases "bs = []")
       (auto simp: utf8_lossy.simps [of bs] utf8_valid.simps [of bs] utf8_lossy.simps [of "[]"]
         split: prod.splits)
qed

section \<open>Error payloads\<close>

record error_payload =
  ep_class :: error_class
  ep_message :: bytes

definition payload_encode :: "error_payload \<Rightarrow> bytes" where
  "payload_encode p = class_as_u8 (ep_class p) # ep_message p"

definition payload_decode :: "bytes \<Rightarrow> wire_error + error_payload" where
  "payload_decode bs =
     (case bs of
        [] \<Rightarrow> Err WireProtocol
      | c # message \<Rightarrow>
          Ok \<lparr>ep_class = class_from_u8 c, ep_message = utf8_lossy message\<rparr>)"

section \<open>Moving frames\<close>

datatype write_result = Wrote nat | WriteFailed io_kind

text \<open>
  \<open>IoSlice::advance_slices\<close>: slices covered by the \<open>n\<close> bytes are dropped, the next one loses
  its front. A count past the end panics (\<open>None\<close>).
\<close>

fun advance_slices :: "nat \<Rightarrow> bytes list \<Rightarrow> bytes list option" where
  "advance_slices n [] = (if n = 0 then Some [] else None)"
| "advance_slices n (s # ss) =
     (if length s \<le> n then advance_slices (n - length s) ss
      else Some (drop n s # ss))"

datatype write_outcome =
  WriteDone | WriteErr io_kind | WritePanic | WriteBlocked

text \<open>
  The loop of \<open>write_frame\<close> over the results of its system calls. The second component is what
  reached the peer; \<open>WriteBlocked\<close> is a loop still waiting for its next call to return.
\<close>

fun write_loop :: "write_result list \<Rightarrow> bytes list \<Rightarrow> write_outcome \<times> bytes" where
  "write_loop rs [] = (WriteDone, [])"
| "write_loop [] (s # ss) = (WriteBlocked, [])"
| "write_loop (Wrote n # rs) (s # ss) =
     (if n = 0 then (WriteErr Io_WriteZero, [])
      else case advance_slices n (s # ss) of
             None \<Rightarrow> (WritePanic, [])
           | Some rest \<Rightarrow>
               (let (out, sent) = write_loop rs rest in (out, take n (concat (s # ss)) @ sent)))"
| "write_loop (WriteFailed k # rs) (s # ss) =
     (if k = Io_Interrupted then write_loop rs (s # ss) else (WriteErr k, []))"

definition write_frame :: "write_result list \<Rightarrow> frame_header \<Rightarrow> bytes \<Rightarrow> write_outcome \<times> bytes" where
  "write_frame rs h payload = write_loop rs [header_encode h, payload]"

definition read_exact :: "nat \<Rightarrow> bytes \<Rightarrow> wire_error + (bytes \<times> bytes)" where
  "read_exact n s =
     (if n \<le> length s then Ok (take n s, drop n s) else Err (WireIo Io_UnexpectedEof))"

definition read_frame_header :: "bytes \<Rightarrow> wire_error + (frame_header \<times> bytes)" where
  "read_frame_header s =
     res_bind (read_exact HEADER_LEN s)
       (\<lambda>(b, rest). res_map (\<lambda>h. (h, rest)) (header_decode b))"


section \<open>Facts\<close>

lemma frame_type_from_as_u8 [simp]: "frame_type_from_u8 (frame_type_as_u8 t) = Some t"
  by (cases t) (simp_all add: frame_type_from_u8_def)

lemma frame_type_from_u8_Some: "frame_type_from_u8 v = Some t \<Longrightarrow> v = frame_type_as_u8 t"
  by (auto simp: frame_type_from_u8_def split: if_splits)

lemma length_header_encode [simp]: "length (header_encode h) = HEADER_LEN"
  by (simp add: header_encode_def HEADER_LEN_def)

lemma header_decode_encode: "header_decode (header_encode h) = Ok h"
  by (simp add: header_decode_def header_encode_def slice_def)

lemma slice_split_header:
  assumes "length b = HEADER_LEN"
  shows "b = [b ! 0, b ! 1, b ! 2, b ! 3] @ slice b 4 4 @ slice b 8 8 @ slice b 16 8 @ slice b 24 8"
proof -
  have "b = slice b 0 4 @ slice b 4 4 @ slice b 8 8 @ slice b 16 8 @ slice b 24 8"
    using assms slice_add [of b 0 4 28] slice_add [of b 4 4 24] slice_add [of b 8 8 16]
      slice_add [of b 16 8 8] slice_all [of b]
    by (simp add: HEADER_LEN_def)
  moreover have "slice b 0 4 = [b ! 0, b ! 1, b ! 2, b ! 3]"
    using assms by (simp add: slice_eq_map_nth HEADER_LEN_def upt_rec numeral_2_eq_2 numeral_3_eq_3)
  ultimately show ?thesis by simp
qed

lemma header_encode_decode:
  assumes "length b = HEADER_LEN" "header_decode b = Ok h"
  shows "header_encode h = b"
proof -
  have len: "length (slice b 4 4) = 4" "length (slice b 8 8) = 8"
    "length (slice b 16 8) = 8" "length (slice b 24 8) = 8"
    using assms(1) by (simp_all add: HEADER_LEN_def)
  have "header_encode h =
      [b ! 0, b ! 1, b ! 2, b ! 3] @ slice b 4 4 @ slice b 8 8 @ slice b 16 8 @ slice b 24 8"
    using assms(2) len
    by (auto simp: header_decode_def header_encode_def to_le_of_le split: option.splits
        dest!: frame_type_from_u8_Some codec_from_u8_Some encoding_from_u8_Some)
  with slice_split_header [OF assms(1)] show ?thesis by simp
qed

lemma payload_decode_encode:
  "utf8_valid (ep_message p) \<Longrightarrow> payload_decode (payload_encode p) = Ok p"
  by (simp add: payload_decode_def payload_encode_def utf8_lossy_valid)

lemma advance_slices_concat: "advance_slices n ss = Some rest \<Longrightarrow> concat rest = drop n (concat ss)"
  by (induction n ss rule: advance_slices.induct) (auto split: if_splits)

lemma advance_slices_total: "n \<le> length (concat ss) \<Longrightarrow> advance_slices n ss \<noteq> None"
  by (induction n ss rule: advance_slices.induct) auto

lemma advance_slices_nonempty:
  "advance_slices n ss = Some rest \<Longrightarrow> rest \<noteq> [] \<Longrightarrow> concat rest \<noteq> []"
  by (induction n ss rule: advance_slices.induct) (auto split: if_splits)

text \<open>Whatever the calls return, what was sent is a front of the frame, and all of it on success.\<close>

lemma write_loop_prefix:
  "write_loop rs ss = (out, sent) \<Longrightarrow>
   (\<exists>k. sent = take k (concat ss)) \<and> (out = WriteDone \<longrightarrow> sent = concat ss)"
proof (induction rs ss arbitrary: out sent rule: write_loop.induct)
  case (3 n rs s ss)
  show ?case
  proof (cases "n = 0 \<or> advance_slices n (s # ss) = None")
    case True
    then have "write_loop (Wrote n # rs) (s # ss) \<in> {(WriteErr Io_WriteZero, []), (WritePanic, [])}"
      by (auto simp del: advance_slices.simps split: option.split)
    with 3(2) have "sent = take 0 (concat (s # ss)) \<and> out \<noteq> WriteDone" by auto
    then show ?thesis by blast
  next
    case False
    then obtain rest where r: "advance_slices n (s # ss) = Some rest" and n: "n \<noteq> 0" by auto
    obtain out' sent' where w: "write_loop rs rest = (out', sent')" by force
    from 3(1) [OF n r w] obtain k where
      k: "sent' = take k (concat rest)" "out' = WriteDone \<longrightarrow> sent' = concat rest" by blast
    have out: "out = out'" "sent = take n (concat (s # ss)) @ sent'"
      using 3(2) n r w by auto
    have "sent = take (n + k) (concat (s # ss))"
      using out k advance_slices_concat [OF r] by (simp only: take_add)
    moreover have "sent = concat (s # ss)" if "out = WriteDone"
      using that out k advance_slices_concat [OF r] by (simp only: append_take_drop_id)
    ultimately show ?thesis by blast
  qed
qed (auto split: if_splits intro: exI [of _ 0])

lemma read_exact_append [simp]: "length b = n \<Longrightarrow> read_exact n (b @ rest) = Ok (b, rest)"
  by (simp add: read_exact_def)

section \<open>Fixed-size messages\<close>

text \<open>
  What every fixed-size message of the data plane promises: an encoding of one length that
  decodes to the message. The receiver of a byte stream needs no more than that.
\<close>

locale wire_message =
  fixes encode :: "'m \<Rightarrow> bytes"
    and decode :: "bytes \<Rightarrow> wire_error + 'm"
    and size_of :: nat
  assumes encode_length: "length (encode m) = size_of"
    and decode_encode: "decode (encode m) = Ok m"
begin

definition receive :: "bytes \<Rightarrow> wire_error + ('m \<times> bytes)" where
  "receive s = res_bind (read_exact size_of s) (\<lambda>(b, rest). res_map (\<lambda>m. (m, rest)) (decode b))"

lemma receive_encode: "receive (encode m @ rest) = Ok (m, rest)"
  by (simp add: receive_def encode_length decode_encode)

lemma encode_inject:
  assumes "encode m = encode n"
  shows "m = n"
proof -
  have "decode (encode m) = decode (encode n)" by (simp only: assms)
  then show ?thesis by (simp only: decode_encode sum.inject)
qed

lemma encode_prefix_free:
  assumes "encode m @ r = encode n @ s"
  shows "m = n \<and> r = s"
proof -
  have "receive (encode m @ r) = receive (encode n @ s)" by (simp only: assms)
  then show ?thesis by (simp only: receive_encode sum.inject prod.inject)
qed

lemma truncated_is_refused:
  "k < size_of \<Longrightarrow> receive (take k (encode m)) = Err (WireIo Io_UnexpectedEof)"
  unfolding receive_def read_exact_def using encode_length [of m] by simp

end

interpretation header: wire_message header_encode header_decode HEADER_LEN
  by unfold_locales (simp_all add: header_decode_encode)

lemma read_frame_header_receive: "read_frame_header s = header.receive s"
  by (simp add: read_frame_header_def header.receive_def)

end
