(* ===== verification/Scatter.thy ===== *)
theory Scatter
  imports Frame "HOL-Library.Multiset"
begin

text \<open>
  The receive buffer several connections write into (\<open>aex-wire/src/scatter.rs\<close>).
  The state is the length of the borrowed buffer, its bytes, and the list of claimed ranges the
  mutex guards. A slice is the handle a connection thread owns until it drops it; the slices that
  exist are ghost state of the system, a list beside the buffer.
\<close>

record scatter =
  sb_len :: nat
  sb_claimed :: "(nat \<times> nat) list"
  sb_bytes :: bytes

record scatter_slice =
  sl_offset :: nat
  sl_len :: nat

definition scatter_new :: "bytes \<Rightarrow> scatter" where
  "scatter_new buffer = \<lparr>sb_len = length buffer, sb_claimed = [], sb_bytes = buffer\<rparr>"

definition overlaps :: "nat \<Rightarrow> nat \<Rightarrow> nat \<times> nat \<Rightarrow> bool" where
  "overlaps offset end held \<longleftrightarrow> fst held < end \<and> offset < snd held"

definition claim :: "nat \<Rightarrow> nat \<Rightarrow> scatter \<Rightarrow> wire_error + (scatter_slice \<times> scatter)" where
  "claim offset len sb =
     (case filter_opt (\<lambda>end. end \<le> sb_len sb) (cadd offset len) of
        None \<Rightarrow> Err (WireOutOfRange offset len (sb_len sb))
      | Some end \<Rightarrow>
          if len > 0 \<and> (\<exists>held \<in> set (sb_claimed sb). overlaps offset end held)
          then Err (WireOverlap offset len)
          else Ok (\<lparr>sl_offset = offset, sl_len = len\<rparr>,
                   sb\<lparr>sb_claimed := sb_claimed sb @ [(offset, end)]\<rparr>))"

text \<open>\<open>Vec::swap_remove\<close>: the last element takes the place of the removed one.\<close>

definition swap_remove :: "'a list \<Rightarrow> nat \<Rightarrow> 'a list" where
  "swap_remove xs i = butlast (xs[i := last xs])"

fun position :: "('a \<Rightarrow> bool) \<Rightarrow> 'a list \<Rightarrow> nat option" where
  "position p [] = None"
| "position p (x # xs) = (if p x then Some 0 else map_option Suc (position p xs))"

definition drop_slice :: "scatter_slice \<Rightarrow> scatter \<Rightarrow> scatter" where
  "drop_slice s sb =
     (case position (\<lambda>held. fst held = sl_offset s) (sb_claimed sb) of
        None \<Rightarrow> sb
      | Some index \<Rightarrow> sb\<lparr>sb_claimed := swap_remove (sb_claimed sb) index\<rparr>)"

text \<open>A store through \<open>DerefMut\<close>: \<open>data\<close> at \<open>at\<close> within the slice, which is bounds-checked.\<close>

definition slice_store :: "scatter_slice \<Rightarrow> nat \<Rightarrow> bytes \<Rightarrow> scatter \<Rightarrow> scatter option" where
  "slice_store s at data sb =
     (if at + length data \<le> sl_len s
      then Some (sb\<lparr>sb_bytes := write_at (sb_bytes sb) (sl_offset s + at) data\<rparr>) else None)"

definition slice_load :: "scatter_slice \<Rightarrow> scatter \<Rightarrow> bytes" where
  "slice_load s sb = slice (sb_bytes sb) (sl_offset s) (sl_len s)"

section \<open>Runs of the buffer\<close>

definition range_of :: "scatter_slice \<Rightarrow> nat \<times> nat" where
  "range_of s = (sl_offset s, sl_offset s + sl_len s)"

definition disjoint_slices :: "scatter_slice \<Rightarrow> scatter_slice \<Rightarrow> bool" where
  "disjoint_slices s t \<longleftrightarrow>
     sl_offset s + sl_len s \<le> sl_offset t \<or> sl_offset t + sl_len t \<le> sl_offset s"

text \<open>
  A step is one thread claiming a range, dropping its slice or storing through it. \<open>ok len\<close> is a
  restriction on the lengths the callers claim: \<open>\<lambda>_. True\<close> is any caller, \<open>\<lambda>len. 0 < len\<close>
  the chunk allocation of the client.
\<close>

inductive scatter_step ::
    "(nat \<Rightarrow> bool) \<Rightarrow> scatter \<times> scatter_slice list \<Rightarrow> scatter \<times> scatter_slice list \<Rightarrow> bool"
  for ok :: "nat \<Rightarrow> bool" where
  step_claim:
    "ok len \<Longrightarrow> claim offset len sb = Ok (s, sb') \<Longrightarrow>
     scatter_step ok (sb, live) (sb', s # live)"
| step_drop:
    "s \<in> set live \<Longrightarrow> scatter_step ok (sb, live) (drop_slice s sb, remove1 s live)"
| step_store:
    "s \<in> set live \<Longrightarrow> slice_store s at data sb = Some sb' \<Longrightarrow>
     scatter_step ok (sb, live) (sb', live)"

inductive scatter_reach :: "(nat \<Rightarrow> bool) \<Rightarrow> scatter \<times> scatter_slice list \<Rightarrow> bool"
  for ok :: "nat \<Rightarrow> bool" where
  reach_new: "length buffer < U64 \<Longrightarrow> scatter_reach ok (scatter_new buffer, [])"
| reach_step: "scatter_reach ok x \<Longrightarrow> scatter_step ok x y \<Longrightarrow> scatter_reach ok y"

inductive_cases scatter_stepE: "scatter_step ok (sb, live) (sb', live')"

fun pairwise_disjoint :: "scatter_slice list \<Rightarrow> bool" where
  "pairwise_disjoint [] = True"
| "pairwise_disjoint (s # ss) =
     ((\<forall>t \<in> set ss. disjoint_slices s t) \<and> pairwise_disjoint ss)"

definition scatter_inv :: "scatter \<times> scatter_slice list \<Rightarrow> bool" where
  "scatter_inv x =
     (case x of (sb, live) \<Rightarrow>
        mset (sb_claimed sb) = mset (map range_of live)
        \<and> length (sb_bytes sb) = sb_len sb
        \<and> (\<forall>s \<in> set live. 0 < sl_len s \<and> sl_offset s + sl_len s \<le> sb_len sb)
        \<and> pairwise_disjoint live)"

section \<open>Facts\<close>

lemma filter_opt_Some: "filter_opt p x = Some y \<longleftrightarrow> x = Some y \<and> p y"
  by (cases x) auto

lemma claim_Ok:
  "claim offset len sb = Ok (s, sb') \<longleftrightarrow>
     offset + len < U64 \<and> offset + len \<le> sb_len sb
     \<and> \<not> (len > 0 \<and> (\<exists>held \<in> set (sb_claimed sb). overlaps offset (offset + len) held))
     \<and> s = \<lparr>sl_offset = offset, sl_len = len\<rparr>
     \<and> sb' = sb\<lparr>sb_claimed := sb_claimed sb @ [(offset, offset + len)]\<rparr>"
  by (auto simp: claim_def cadd_def split: if_splits)

lemma position_Some:
  "position p xs = Some i \<Longrightarrow> i < length xs \<and> p (xs ! i) \<and> (\<forall>j < i. \<not> p (xs ! j))"
  by (induction xs arbitrary: i) (auto split: if_splits simp: nth_Cons split: nat.splits)

lemma position_None: "position p xs = None \<longleftrightarrow> (\<forall>x \<in> set xs. \<not> p x)"
  by (induction xs) auto

lemma mset_swap_remove:
  assumes "i < length xs"
  shows "mset (swap_remove xs i) = mset xs - {#xs ! i#}"
proof -
  have ne: "xs \<noteq> []" using assms by auto
  then obtain ys y where xs: "xs = ys @ [y]" by (meson rev_exhaust)
  show ?thesis
  proof (cases "i = length ys")
    case True
    then show ?thesis by (simp add: swap_remove_def xs)
  next
    case False
    then have i: "i < length ys" using assms xs by simp
    then have "swap_remove xs i = ys[i := y]"
      by (simp add: swap_remove_def xs list_update_append butlast_append)
    then show ?thesis using i by (simp add: xs mset_update nth_append add_mset_commute)
  qed
qed

lemma pairwise_disjoint_remove1: "pairwise_disjoint ss \<Longrightarrow> pairwise_disjoint (remove1 s ss)"
  by (induction ss) (auto dest: subsetD [OF set_remove1_subset])

lemma disjoint_slices_sym: "disjoint_slices s t \<longleftrightarrow> disjoint_slices t s"
  by (auto simp: disjoint_slices_def)

lemma pairwise_disjoint_nth:
  "pairwise_disjoint ss \<Longrightarrow> i < j \<Longrightarrow> j < length ss \<Longrightarrow> disjoint_slices (ss ! i) (ss ! j)"
proof (induction ss arbitrary: i j)
  case (Cons s ss)
  then show ?case by (cases i; cases j) auto
qed simp

text \<open>Two slices that start together, both non-empty, are one slice.\<close>

lemma live_start_unique:
  assumes "pairwise_disjoint live" "\<forall>s \<in> set live. 0 < sl_len s"
    "s \<in> set live" "t \<in> set live" "sl_offset s = sl_offset t"
  shows "s = t"
proof -
  obtain i j where ij: "i < length live" "j < length live" "live ! i = s" "live ! j = t"
    using assms(3,4) by (auto simp: in_set_conv_nth)
  have "\<not> disjoint_slices s t" "\<not> disjoint_slices t s"
    using assms(2-5) by (auto simp: disjoint_slices_def)
  with ij assms(1) have "i = j"
    by (metis linorder_neqE_nat pairwise_disjoint_nth)
  with ij show ?thesis by simp
qed

lemma scatter_inv_ranges: "scatter_inv (sb, live) \<Longrightarrow> set (sb_claimed sb) = range_of ` set live"
  using mset_eq_setD [of "sb_claimed sb" "map range_of live"] by (simp add: scatter_inv_def)

lemma scatter_inv_claim:
  assumes inv: "scatter_inv (sb, live)" and c: "claim offset len sb = Ok (s, sb')" and pos: "0 < len"
  shows "scatter_inv (sb', s # live)"
proof -
  have cl: "set (sb_claimed sb) = range_of ` set live"
    using inv by (rule scatter_inv_ranges)
  have "disjoint_slices s t" if "t \<in> set live" for t
    using c pos that cl unfolding claim_Ok
    by (auto simp: overlaps_def range_of_def disjoint_slices_def)
  then show ?thesis
    using inv c pos unfolding claim_Ok by (auto simp: scatter_inv_def range_of_def)
qed

lemma scatter_inv_drop:
  assumes inv: "scatter_inv (sb, live)" and s: "s \<in> set live"
  shows "scatter_inv (drop_slice s sb, remove1 s live)"
proof -
  have m: "mset (sb_claimed sb) = mset (map range_of live)" and pd: "pairwise_disjoint live"
    and pos: "\<forall>s \<in> set live. 0 < sl_len s"
    using inv by (auto simp: scatter_inv_def)
  have cl: "set (sb_claimed sb) = range_of ` set live"
    using inv by (rule scatter_inv_ranges)
  obtain i where i: "position (\<lambda>held. fst held = sl_offset s) (sb_claimed sb) = Some i"
    using s cl position_None [of "\<lambda>held. fst held = sl_offset s" "sb_claimed sb"]
    by (cases "position (\<lambda>held. fst held = sl_offset s) (sb_claimed sb)")
       (force simp: range_of_def)+
  from position_Some [OF i] have il: "i < length (sb_claimed sb)"
    and off: "fst (sb_claimed sb ! i) = sl_offset s" by auto
  from il cl obtain t where t: "t \<in> set live" "sb_claimed sb ! i = range_of t"
    by (metis imageE nth_mem)
  with off have "sl_offset s = sl_offset t" by (simp add: range_of_def)
  with live_start_unique [OF pd pos s t(1)] have st: "t = s" by simp
  have "mset (swap_remove (sb_claimed sb) i) = mset (map range_of (remove1 s live))"
    using s st t(2) by (simp add: mset_swap_remove [OF il] m image_mset_Diff)
  moreover have "set (remove1 s live) \<subseteq> set live"
    by (rule set_remove1_subset)
  ultimately show ?thesis
    using inv i by (auto simp: scatter_inv_def drop_slice_def pairwise_disjoint_remove1)
qed

lemma scatter_inv_store:
  assumes "scatter_inv (sb, live)" "s \<in> set live" "slice_store s at data sb = Some sb'"
  shows "scatter_inv (sb', live)"
  using assms by (force simp: scatter_inv_def slice_store_def split: if_splits)

lemma scatter_inv_reach:
  "scatter_reach (\<lambda>len. 0 < len) x \<Longrightarrow> scatter_inv x"
proof (induction rule: scatter_reach.induct)
  case (reach_new buffer)
  then show ?case by (simp add: scatter_inv_def scatter_new_def)
next
  case (reach_step x y)
  from reach_step.hyps(2) reach_step.IH show ?case
    by (cases rule: scatter_step.cases)
       (auto intro: scatter_inv_claim scatter_inv_drop scatter_inv_store)
qed

lemma slice_store_frame:
  assumes inv: "scatter_inv (sb, live)" and s: "s \<in> set live" and t: "t \<in> set live" "s \<noteq> t"
    and st: "slice_store s at data sb = Some sb'"
  shows "slice_load t sb' = slice_load t sb"
proof -
  obtain i j where ij: "i < length live" "j < length live" "live ! i = s" "live ! j = t"
    using s t(1) by (auto simp: in_set_conv_nth)
  then have "disjoint_slices s t"
    using inv t(2) by (metis (mono_tags, lifting) case_prod_conv disjoint_slices_sym
        linorder_neqE_nat pairwise_disjoint_nth scatter_inv_def)
  moreover have "sl_offset s + sl_len s \<le> length (sb_bytes sb)"
    using inv s by (auto simp: scatter_inv_def)
  ultimately show ?thesis using st
    by (auto simp: slice_load_def slice_store_def disjoint_slices_def split: if_splits
        intro!: slice_write_at_other)
qed

end
