(* ===== verification/Transfers.thy ===== *)
theory Transfers
  imports Session Backend Scatter
begin

text \<open>
  Transfer plans: what the control plane promised and the data plane serves
  (\<open>aex-server/src/transfer.rs\<close>). The map of plans and the index by session are under one lock, so an
  operation is one step; \<open>fetch\<close> takes it a second time to drop an expired plan. The time is an
  argument, and so is the random ticket.
\<close>

record transfer_entry =
  te_request_id :: nat
  te_session :: session_id
  te_ticket :: bytes
  te_dataset :: dataset
  te_layout :: layout
  te_last_used_ms :: nat

record transfers =
  tr_entries :: "(nat \<times> transfer_entry) list"
  tr_by_session :: "(session_id \<times> nat list) list"
  tr_next_id :: nat

definition transfers_new :: transfers where
  "transfers_new = \<lparr>tr_entries = [], tr_by_session = [], tr_next_id = 1\<rparr>"

definition entry_touch :: "nat \<Rightarrow> transfer_entry \<Rightarrow> transfer_entry" where
  "entry_touch now_ms e = e\<lparr>te_last_used_ms := now_ms\<rparr>"

definition entry_expired :: "nat \<Rightarrow> nat \<Rightarrow> transfer_entry \<Rightarrow> bool" where
  "entry_expired now_ms ttl_ms e \<longleftrightarrow> now_ms - te_last_used_ms e > ttl_ms"

definition ttl_ms :: "server_config \<Rightarrow> nat" where
  "ttl_ms c = sat_mul (transfer_ttl_sec (cfg_limits c)) 1000"

text \<open>The identifier handed out and the counter after it; the counter is a \<open>u32\<close>.\<close>

function next_request_id :: "nat \<Rightarrow> nat \<times> nat" where
  "next_request_id next_id =
     (let fetched = next_id; next_id = (next_id + 1) mod U32 in
      if fetched \<noteq> 0 then (fetched, next_id) else next_request_id next_id)"
  by pat_completeness auto
termination
  by (relation "measure (\<lambda>n. if n = 0 then 1 else 0)") (auto simp: U32_def)

declare next_request_id.simps [simp del]

fun min_by_key :: "(nat \<times> nat) list \<Rightarrow> (nat \<times> nat) option" where
  "min_by_key [] = None"
| "min_by_key (x # xs) =
     (case min_by_key xs of None \<Rightarrow> Some x | Some y \<Rightarrow> if snd y < snd x then Some y else Some x)"

definition lru_candidates :: "(nat \<times> transfer_entry) list \<Rightarrow> nat list \<Rightarrow> (nat \<times> nat) list" where
  "lru_candidates entries ids =
     List.map_filter
       (\<lambda>(pos, i). map_option (\<lambda>e. (pos, te_last_used_ms e)) (map_of entries i))
       (enumerate 0 ids)"

definition least_recently_used :: "(nat \<times> transfer_entry) list \<Rightarrow> nat list \<Rightarrow> nat option" where
  "least_recently_used entries ids = map_option fst (min_by_key (lru_candidates entries ids))"

lemma min_by_key_None [simp]: "min_by_key xs = None \<longleftrightarrow> xs = []"
  by (cases xs) (auto split: option.splits)

lemma min_by_key_mem: "min_by_key xs = Some x \<Longrightarrow> x \<in> set xs \<and> (\<forall>y \<in> set xs. snd x \<le> snd y)"
proof (induction xs arbitrary: x)
  case (Cons a xs)
  show ?case
  proof (cases "min_by_key xs")
    case None
    then show ?thesis using Cons.prems by simp
  next
    case (Some y)
    then show ?thesis using Cons.prems Cons.IH [OF Some] by (auto split: if_splits)
  qed
qed simp

lemma lru_candidates_mem:
  "(p, u) \<in> set (lru_candidates entries ids) \<longleftrightarrow>
   p < length ids \<and> (\<exists>e. map_of entries (ids ! p) = Some e \<and> u = te_last_used_ms e)"
  by (auto simp: lru_candidates_def map_filter_def in_set_enumerate_eq image_iff)

lemma least_recently_used_Some:
  assumes "least_recently_used entries ids = Some pos"
  shows "pos < length ids"
    "\<exists>e. map_of entries (ids ! pos) = Some e
      \<and> (\<forall>i \<in> set ids. \<forall>e'. map_of entries i = Some e' \<longrightarrow> te_last_used_ms e \<le> te_last_used_ms e')"
proof -
  obtain used where m: "min_by_key (lru_candidates entries ids) = Some (pos, used)"
    using assms by (auto simp: least_recently_used_def)
  note mm = min_by_key_mem [OF m]
  from mm show "pos < length ids" by (simp add: lru_candidates_mem)
  from mm obtain e where e: "map_of entries (ids ! pos) = Some e" "used = te_last_used_ms e"
    by (auto simp: lru_candidates_mem)
  have "te_last_used_ms e \<le> te_last_used_ms e'" if i: "i \<in> set ids" "map_of entries i = Some e'" for i e'
  proof -
    obtain p where "p < length ids" "ids ! p = i" using i(1) by (auto simp: in_set_conv_nth)
    then have "(p, te_last_used_ms e') \<in> set (lru_candidates entries ids)"
      using i(2) by (auto simp: lru_candidates_mem)
    then show ?thesis using mm e(2) by fastforce
  qed
  with e(1) show "\<exists>e. map_of entries (ids ! pos) = Some e
      \<and> (\<forall>i \<in> set ids. \<forall>e'. map_of entries i = Some e' \<longrightarrow> te_last_used_ms e \<le> te_last_used_ms e')" by blast
qed

lemma least_recently_used_None:
  assumes "least_recently_used entries ids = None" "i \<in> set ids"
  shows "map_of entries i = None"
proof (rule ccontr)
  assume "map_of entries i \<noteq> None"
  then obtain e p where "map_of entries i = Some e" "p < length ids" "ids ! p = i"
    using assms(2) by (auto simp: in_set_conv_nth)
  then have "(p, te_last_used_ms e) \<in> set (lru_candidates entries ids)" by (auto simp: lru_candidates_mem)
  then show False using assms(1) by (auto simp: least_recently_used_def)
qed

text \<open>The loop that makes room; it stops when nothing of the session's is left to evict.\<close>

lemma length_swap_remove: "i < length xs \<Longrightarrow> length (swap_remove xs i) = length xs - 1"
  by (simp add: swap_remove_def)

function make_room ::
    "nat \<Rightarrow> (nat \<times> transfer_entry) list \<Rightarrow> nat list \<Rightarrow> (nat \<times> transfer_entry) list \<times> nat list" where
  "make_room limit entries ids =
     (if length ids \<ge> limit then
        (case least_recently_used entries ids of
           None \<Rightarrow> (entries, ids)
         | Some pos \<Rightarrow>
             make_room limit (AList.delete (ids ! pos) entries) (swap_remove ids pos))
      else (entries, ids))"
  by pat_completeness auto
termination
  by (relation "measure (\<lambda>(limit, entries, ids). length ids)")
    (auto dest!: least_recently_used_Some(1) simp: length_swap_remove)

declare make_room.simps [simp del]

definition insert_at_time ::
    "server_config \<Rightarrow> session_id \<Rightarrow> dataset \<Rightarrow> layout \<Rightarrow> nat \<Rightarrow> server_error + bytes \<Rightarrow> transfers
     \<Rightarrow> (server_error + transfer_entry) \<times> transfers" where
  "insert_at_time c session ds lay now_ms random_ticket tr =
     (let (request_id, next_id) = next_request_id (tr_next_id tr);
          tr = tr\<lparr>tr_next_id := next_id\<rparr>
      in case random_ticket of
           Err e \<Rightarrow> (Err e, tr)
         | Ok ticket \<Rightarrow>
             let entry = \<lparr>te_request_id = request_id, te_session = session, te_ticket = ticket,
                          te_dataset = ds, te_layout = lay, te_last_used_ms = now_ms\<rparr>;
                 ids = unwrap_or (map_of (tr_by_session tr) session) [];
                 ids = filter (\<lambda>i. map_of (tr_entries tr) i \<noteq> None) ids;
                 (entries, ids) = make_room (max_transfers_per_session (cfg_limits c)) (tr_entries tr) ids
             in (Ok entry,
                 tr\<lparr>tr_entries := AList.update request_id entry entries,
                    tr_by_session := AList.update session (ids @ [request_id]) (tr_by_session tr)\<rparr>))"

definition constant_time_eq :: "bytes \<Rightarrow> bytes \<Rightarrow> bool" where
  "constant_time_eq a b \<longleftrightarrow> foldl (\<lambda>acc (x, y). acc OR (x XOR y)) 0 (zip a b) = 0"

definition transfer_remove :: "nat \<Rightarrow> transfers \<Rightarrow> transfers" where
  "transfer_remove request_id tr =
     (case map_of (tr_entries tr) request_id of
        None \<Rightarrow> tr
      | Some e \<Rightarrow>
          let tr = tr\<lparr>tr_entries := AList.delete request_id (tr_entries tr)\<rparr> in
          case map_of (tr_by_session tr) (te_session e) of
            None \<Rightarrow> tr
          | Some ids \<Rightarrow>
              tr\<lparr>tr_by_session :=
                   AList.update (te_session e) (filter (\<lambda>i. i \<noteq> request_id) ids) (tr_by_session tr)\<rparr>)"

definition fetch ::
    "server_config \<Rightarrow> nat \<Rightarrow> bytes \<Rightarrow> session_id \<Rightarrow> nat \<Rightarrow> transfers
     \<Rightarrow> (server_error + transfer_entry) \<times> transfers" where
  "fetch c request_id ticket session now_ms tr =
     (case map_of (tr_entries tr) request_id of
        None \<Rightarrow> (Err SrvNoSuchPlan, tr)
      | Some e \<Rightarrow>
          if entry_expired now_ms (ttl_ms c) e then (Err SrvNoSuchPlan, transfer_remove request_id tr)
          else if \<not> constant_time_eq (te_ticket e) ticket \<or> te_session e \<noteq> session
            then (Err SrvAuth, tr)
          else
            let e = entry_touch now_ms e in
            (Ok e, tr\<lparr>tr_entries := AList.update request_id e (tr_entries tr)\<rparr>))"

definition transfer_touch :: "nat \<Rightarrow> nat \<Rightarrow> transfers \<Rightarrow> transfers" where
  "transfer_touch request_id now_ms tr =
     (case map_of (tr_entries tr) request_id of
        None \<Rightarrow> tr
      | Some e \<Rightarrow> tr\<lparr>tr_entries := AList.update request_id (entry_touch now_ms e) (tr_entries tr)\<rparr>)"

definition remove_session :: "session_id \<Rightarrow> transfers \<Rightarrow> nat \<times> transfers" where
  "remove_session session tr =
     (case map_of (tr_by_session tr) session of
        None \<Rightarrow> (0, tr)
      | Some ids \<Rightarrow>
          (length ids,
           tr\<lparr>tr_by_session := AList.delete session (tr_by_session tr),
              tr_entries := foldl (\<lambda>entries i. AList.delete i entries) (tr_entries tr) ids\<rparr>))"

definition sweep_at ::
    "server_config \<Rightarrow> nat \<Rightarrow> (session_id \<Rightarrow> bool) \<Rightarrow> transfers \<Rightarrow> nat \<times> transfers" where
  "sweep_at c now_ms is_live tr =
     (let entries = filter (\<lambda>(_, e). \<not> entry_expired now_ms (ttl_ms c) e \<and> is_live (te_session e)) (tr_entries tr);
          by_session = map (\<lambda>(session, ids). (session, filter (\<lambda>i. map_of entries i \<noteq> None) ids)) (tr_by_session tr);
          by_session = filter (\<lambda>(session, ids). ids \<noteq> [] \<and> is_live session) by_session
      in (length (tr_entries tr) - length entries,
          tr\<lparr>tr_entries := entries, tr_by_session := by_session\<rparr>))"

section \<open>Tickets\<close>

lemma or_xor_zero: "(acc OR (x XOR y) = 0) \<longleftrightarrow> acc = 0 \<and> x = (y :: u8)"
  by (auto simp: bit_eq_iff bit_simps)

lemma constant_time_eq_iff:
  assumes "length a = length b"
  shows "constant_time_eq a b \<longleftrightarrow> a = b"
proof -
  have "foldl (\<lambda>acc (x, y). acc OR (x XOR y)) k (zip a b) = 0 \<longleftrightarrow> k = 0 \<and> a = b" for k
    using assms by (induction a b arbitrary: k rule: list_induct2) (auto simp: or_xor_zero)
  then show ?thesis by (simp add: constant_time_eq_def)
qed

section \<open>The invariant\<close>

text \<open>
  Every plan is listed by its session, a session lists a plan once and no other session's, and every
  identifier handed out so far is below the counter and not 0. It holds until the counter wraps.
\<close>

definition transfers_ok :: "transfers \<Rightarrow> bool" where
  "transfers_ok tr \<longleftrightarrow>
     keys_distinct (tr_entries tr) \<and> keys_distinct (tr_by_session tr) \<and> 0 < tr_next_id tr
     \<and> (\<forall>i e. map_of (tr_entries tr) i = Some e \<longrightarrow>
          te_request_id e = i \<and> 0 < i \<and> i < tr_next_id tr
          \<and> (\<exists>ids. map_of (tr_by_session tr) (te_session e) = Some ids \<and> i \<in> set ids))
     \<and> (\<forall>session ids. map_of (tr_by_session tr) session = Some ids \<longrightarrow>
          distinct ids
          \<and> (\<forall>i \<in> set ids. i < tr_next_id tr
               \<and> (\<forall>e. map_of (tr_entries tr) i = Some e \<longrightarrow> te_session e = session)))"

lemma transfers_new_ok: "transfers_ok transfers_new"
  by (simp add: transfers_ok_def transfers_new_def)

lemma set_swap_remove: "distinct xs \<Longrightarrow> i < length xs \<Longrightarrow> set (swap_remove xs i) = set xs - {xs ! i}"
  by (metis mset_swap_remove mset_remove1 set_mset_mset set_remove1_eq nth_mem mset_eq_setD)

lemma distinct_swap_remove: "distinct xs \<Longrightarrow> i < length xs \<Longrightarrow> distinct (swap_remove xs i)"
  by (metis distinct_remove1 mset_eq_imp_distinct_iff mset_remove1 mset_swap_remove)

text \<open>
  Making room drops a set of the session's own plans, each the one idle longest of those left, and
  leaves fewer than the limit when all of the session's identifiers are of live plans.
\<close>

lemma make_room_spec:
  "make_room limit entries ids = (entries', ids') \<Longrightarrow> distinct ids \<Longrightarrow>
   distinct ids' \<and> set ids' \<subseteq> set ids
   \<and> (\<forall>i. map_of entries' i = (if i \<in> set ids - set ids' then None else map_of entries i))
   \<and> (keys_distinct entries \<longrightarrow> keys_distinct entries')
   \<and> ((\<forall>i \<in> set ids. map_of entries i \<noteq> None) \<and> 0 < limit \<longrightarrow> length ids' < limit)
   \<and> (\<forall>i \<in> set ids - set ids'. \<forall>j \<in> set ids'. \<forall>e e'.
        map_of entries i = Some e \<longrightarrow> map_of entries j = Some e' \<longrightarrow> te_last_used_ms e \<le> te_last_used_ms e')"
proof (induction limit entries ids arbitrary: entries' ids' rule: make_room.induct)
  case (1 limit entries ids)
  show ?case
  proof (cases "length ids \<ge> limit \<and> least_recently_used entries ids \<noteq> None")
    case True
    then obtain pos where pos: "least_recently_used entries ids = Some pos" "length ids \<ge> limit" by auto
    note lru = least_recently_used_Some [OF pos(1)]
    define v rest where "v = ids ! pos" and "rest = swap_remove ids pos"
    have rec: "make_room limit (AList.delete v entries) rest = (entries', ids')"
      using "1.prems"(1) pos by (subst (asm) make_room.simps) (simp add: v_def rest_def)
    have rest: "set rest = set ids - {v}" "distinct rest" "v \<in> set ids"
      using set_swap_remove [OF "1.prems"(2) lru(1)] distinct_swap_remove [OF "1.prems"(2) lru(1)] lru(1)
      by (simp_all add: v_def rest_def)
    obtain ev where ev: "map_of entries v = Some ev"
        "\<forall>i \<in> set ids. \<forall>e'. map_of entries i = Some e' \<longrightarrow> te_last_used_ms ev \<le> te_last_used_ms e'"
      using lru(2) by (auto simp: v_def)
    note IH = "1.IH" [OF pos(2,1), folded v_def rest_def, OF rec rest(2)]
    have sub: "set ids' \<subseteq> set ids" "v \<notin> set ids'" using IH rest(1) by auto
    have eq: "set ids - set ids' = insert v (set rest - set ids')" using rest sub by auto
    have maps: "map_of entries' i = (if i \<in> set ids - set ids' then None else map_of entries i)" for i
      using IH eq by auto
    have len: "length ids' < limit" if "\<forall>i \<in> set ids. map_of entries i \<noteq> None" "0 < limit"
      using IH that rest(1) by auto
    have lru': "te_last_used_ms e \<le> te_last_used_ms e'"
      if i: "i \<in> set ids - set ids'" "j \<in> set ids'" "map_of entries i = Some e" "map_of entries j = Some e'" for i j e e'
    proof (cases "i = v")
      case True
      then show ?thesis using ev i sub by auto
    next
      case False
      then have "i \<in> set rest - set ids'" "j \<noteq> v" using i(1,2) eq sub by auto
      then show ?thesis using IH i False by auto
    qed
    show ?thesis using IH sub maps len lru' by auto
  next
    case False
    then have eq: "entries' = entries" "ids' = ids"
      using "1.prems"(1) by (subst (asm) make_room.simps; auto split: if_splits)+
    have "length ids < limit" if "\<forall>i \<in> set ids. map_of entries i \<noteq> None" "0 < limit"
    proof (rule ccontr)
      assume "\<not> length ids < limit"
      then have "least_recently_used entries ids = None" "ids \<noteq> []" using False that(2) by auto
      then show False using least_recently_used_None that(1) by (metis last_in_set)
    qed
    then show ?thesis using eq "1.prems"(2) by auto
  qed
qed

lemma next_request_id_nonzero:
  "n < U32 \<Longrightarrow> next_request_id n = (i, n') \<Longrightarrow> 0 < i \<and> i < U32 \<and> n' < U32"
  by (induction n rule: next_request_id.induct) (auto simp: next_request_id.simps [of "_ :: nat"] U32_def Let_def split: if_splits)

lemma next_request_id_eq: "0 < n \<Longrightarrow> n + 1 < U32 \<Longrightarrow> next_request_id n = (n, n + 1)"
  by (subst next_request_id.simps) simp

lemma insert_at_time_ok:
  assumes ok: "transfers_ok tr" and room: "tr_next_id tr + 1 < U32" "0 < max_transfers_per_session (cfg_limits c)"
    and ins: "insert_at_time c session ds lay now_ms (Ok ticket) tr = (res, tr')"
  shows "transfers_ok tr'"
    and "\<exists>e. res = Ok e \<and> te_request_id e = tr_next_id tr \<and> te_session e = session \<and> te_ticket e = ticket
      \<and> te_dataset e = ds \<and> te_layout e = lay \<and> map_of (tr_entries tr') (tr_next_id tr) = Some e"
    and "\<exists>ids. map_of (tr_by_session tr') session = Some ids \<and> length ids \<le> max_transfers_per_session (cfg_limits c)"
    and "\<And>i e. map_of (tr_entries tr) i = Some e \<Longrightarrow> te_session e \<noteq> session \<Longrightarrow> map_of (tr_entries tr') i = Some e"
proof -
  let ?n = "tr_next_id tr" and ?limit = "max_transfers_per_session (cfg_limits c)"
  have n: "0 < ?n" using ok by (simp add: transfers_ok_def)
  define all where "all = unwrap_or (map_of (tr_by_session tr) session) []"
  define live where "live = filter (\<lambda>i. map_of (tr_entries tr) i \<noteq> None) all"
  define e where "e = \<lparr>te_request_id = ?n, te_session = session, te_ticket = ticket, te_dataset = ds,
    te_layout = lay, te_last_used_ms = now_ms\<rparr>"
  obtain entries ids where mr: "make_room ?limit (tr_entries tr) live = (entries, ids)" by fastforce
  have tr': "res = Ok e" "tr' = tr\<lparr>tr_next_id := ?n + 1, tr_entries := AList.update ?n e entries,
      tr_by_session := AList.update session (ids @ [?n]) (tr_by_session tr)\<rparr>"
    using ins next_request_id_eq [OF n room(1)] mr
    by (auto simp: insert_at_time_def Let_def e_def live_def all_def)
  have all: "distinct all" "\<forall>i \<in> set all. i < ?n \<and> (\<forall>e. map_of (tr_entries tr) i = Some e \<longrightarrow> te_session e = session)"
    using ok by (cases "map_of (tr_by_session tr) session"; force simp: all_def transfers_ok_def)+
  have live: "distinct live" "set live \<subseteq> set all" "\<forall>i \<in> set live. map_of (tr_entries tr) i \<noteq> None"
    using all(1) by (auto simp: live_def)
  have mine: "i \<in> set live" if x: "map_of (tr_entries tr) i = Some x" "te_session x = session" for i x
  proof -
    obtain ids0 where "map_of (tr_by_session tr) session = Some ids0" "i \<in> set ids0"
      using ok x unfolding transfers_ok_def by blast
    then show ?thesis using x(1) by (simp add: live_def all_def)
  qed
  note spec = make_room_spec [OF mr live(1)]
  have maps: "map_of entries i = (if i \<in> set live - set ids then None else map_of (tr_entries tr) i)" for i
    using spec by blast
  have ids: "distinct ids" "set ids \<subseteq> set live" "length ids < ?limit" "keys_distinct entries"
    using spec live(3) room(2) ok by (auto simp: transfers_ok_def)
  have mem: "i < ?n \<and> (\<forall>e. map_of (tr_entries tr) i = Some e \<longrightarrow> te_session e = session)" if "i \<in> set ids" for i
    using that ids(2) live(2) all(2) by blast
  then have fresh: "?n \<notin> set ids" by blast
  show "\<exists>e. res = Ok e \<and> te_request_id e = ?n \<and> te_session e = session \<and> te_ticket e = ticket
      \<and> te_dataset e = ds \<and> te_layout e = lay \<and> map_of (tr_entries tr') ?n = Some e"
    by (intro exI [of _ e]) (simp add: tr' e_def)
  show "\<exists>ids. map_of (tr_by_session tr') session = Some ids \<and> length ids \<le> ?limit"
    using ids(3) by (simp add: tr'(2))
  show "map_of (tr_entries tr') i = Some x" if x: "map_of (tr_entries tr) i = Some x" "te_session x \<noteq> session" for i x
  proof -
    have "i < ?n" using ok x(1) unfolding transfers_ok_def by blast
    moreover have "i \<notin> set live" using all(2) live(2) x by auto
    ultimately show ?thesis using maps [of i] x(1) by (simp add: tr'(2))
  qed
  show "transfers_ok tr'"
    unfolding transfers_ok_def
  proof (intro conjI allI impI ballI)
    show "keys_distinct (tr_entries tr')" "keys_distinct (tr_by_session tr')" "0 < tr_next_id tr'"
      using ids(4) ok by (simp_all add: tr'(2) transfers_ok_def)
  next
    fix i x assume x: "map_of (tr_entries tr') i = Some x"
    have old: "map_of (tr_entries tr) i = Some x \<and> (te_session x = session \<longrightarrow> i \<in> set ids)" if "i \<noteq> ?n"
      using x that maps [of i] mine [of i x] by (auto simp: tr'(2) split: if_splits)
    have "te_request_id x = i \<and> 0 < i \<and> i < ?n + 1
        \<and> (\<exists>ids. map_of (tr_by_session tr') (te_session x) = Some ids \<and> i \<in> set ids)"
    proof (cases "i = ?n")
      case True
      then show ?thesis using x n by (auto simp: tr'(2) e_def)
    next
      case False
      then show ?thesis using old ok unfolding transfers_ok_def by (auto simp: tr'(2)) (metis less_SucI)+
    qed
    then show "te_request_id x = i" "0 < i" "i < tr_next_id tr'"
      "\<exists>ids. map_of (tr_by_session tr') (te_session x) = Some ids \<and> i \<in> set ids" by (simp_all add: tr'(2))
  next
    fix s l assume l: "map_of (tr_by_session tr') s = Some l"
    show "distinct l"
      using l ids(1) fresh ok unfolding transfers_ok_def by (auto simp: tr'(2) split: if_splits)
    fix i assume i: "i \<in> set l"
    have "i < ?n + 1" using l i mem [of i] ok unfolding transfers_ok_def
      by (auto simp: tr'(2) less_Suc_eq split: if_splits)
    then show "i < tr_next_id tr'" by (simp add: tr'(2))
    fix x assume x: "map_of (tr_entries tr') i = Some x"
    show "te_session x = s"
    proof (cases "i = ?n")
      case True
      then have "s = session" using l i ok unfolding transfers_ok_def by (fastforce simp: tr'(2) split: if_splits)
      then show ?thesis using x True by (auto simp: tr'(2) e_def)
    next
      case False
      then have "map_of (tr_entries tr) i = Some x" using x maps [of i] by (auto simp: tr'(2) split: if_splits)
      then show ?thesis
        using l i False mem [of i] ok unfolding transfers_ok_def
        by (auto simp: tr'(2) split: if_splits)
    qed
  qed
qed

section \<open>Fetching and forgetting\<close>

lemma transfers_ok_entry:
  assumes "transfers_ok tr" "map_of (tr_entries tr) i = Some e"
  shows "te_request_id e = i" "0 < i" "i < tr_next_id tr"
    "\<exists>ids. map_of (tr_by_session tr) (te_session e) = Some ids \<and> i \<in> set ids"
  using assms unfolding transfers_ok_def by blast+

lemma transfers_ok_ids:
  assumes "transfers_ok tr" "map_of (tr_by_session tr) session = Some ids"
  shows "distinct ids" "i \<in> set ids \<Longrightarrow> i < tr_next_id tr"
    "i \<in> set ids \<Longrightarrow> map_of (tr_entries tr) i = Some e \<Longrightarrow> te_session e = session"
  using assms unfolding transfers_ok_def by blast+

text \<open>The invariant is kept by dropping plans, with or without their identifiers.\<close>

lemma transfers_ok_drop:
  assumes ok: "transfers_ok tr"
    and ent: "keys_distinct entries" "\<And>i e. map_of entries i = Some e \<Longrightarrow>
      \<exists>e0. map_of (tr_entries tr) i = Some e0 \<and> te_request_id e = te_request_id e0 \<and> te_session e = te_session e0"
    and bys: "keys_distinct by_session" "\<And>s ids. map_of by_session s = Some ids \<Longrightarrow>
      \<exists>ids0. map_of (tr_by_session tr) s = Some ids0 \<and> distinct ids \<and> set ids \<subseteq> set ids0"
    and listed: "\<And>i e. map_of entries i = Some e \<Longrightarrow> \<exists>ids. map_of by_session (te_session e) = Some ids \<and> i \<in> set ids"
  shows "transfers_ok (tr\<lparr>tr_entries := entries, tr_by_session := by_session\<rparr>)"
  unfolding transfers_ok_def
proof (intro conjI allI impI ballI; simp)
  show "keys_distinct entries" "keys_distinct by_session" by (fact ent(1), fact bys(1))
  show "0 < tr_next_id tr" using ok by (simp add: transfers_ok_def)
next
  fix i e assume e: "map_of entries i = Some e"
  from ent(2) [OF e] transfers_ok_entry [OF ok] show "te_request_id e = i" "0 < i" "i < tr_next_id tr" by metis+
  show "\<exists>ids. map_of by_session (te_session e) = Some ids \<and> i \<in> set ids" using e by (rule listed)
next
  fix s ids assume ids: "map_of by_session s = Some ids"
  show "distinct ids" using bys(2) [OF ids] by blast
  fix i assume i: "i \<in> set ids"
  show "i < tr_next_id tr" using bys(2) [OF ids] i transfers_ok_ids(2) [OF ok] by blast
  fix e assume e: "map_of entries i = Some e"
  show "te_session e = s" using bys(2) [OF ids] i ent(2) [OF e] transfers_ok_ids(3) [OF ok] by (metis subsetD)
qed

lemma transfers_same: "tr\<lparr>tr_entries := a, tr_by_session := tr_by_session tr\<rparr> = tr\<lparr>tr_entries := a\<rparr>"
  by simp

lemma transfer_remove_ok:
  assumes ok: "transfers_ok tr"
  shows "transfers_ok (transfer_remove request_id tr)"
    "map_of (tr_entries (transfer_remove request_id tr)) i = (if i = request_id then None else map_of (tr_entries tr) i)"
proof -
  have keys: "keys_distinct (tr_entries tr)" "keys_distinct (tr_by_session tr)" using ok by (simp_all add: transfers_ok_def)
  show "map_of (tr_entries (transfer_remove request_id tr)) i = (if i = request_id then None else map_of (tr_entries tr) i)"
    by (auto simp: transfer_remove_def Let_def split: option.splits)
  show "transfers_ok (transfer_remove request_id tr)"
  proof (cases "map_of (tr_entries tr) request_id")
    case None
    then show ?thesis using ok by (simp add: transfer_remove_def)
  next
    case (Some e)
    then obtain ids where ids: "map_of (tr_by_session tr) (te_session e) = Some ids" "request_id \<in> set ids"
      using transfers_ok_entry(4) [OF ok] by blast
    have "transfers_ok (tr\<lparr>tr_entries := AList.delete request_id (tr_entries tr),
        tr_by_session := AList.update (te_session e) (filter (\<lambda>i. i \<noteq> request_id) ids) (tr_by_session tr)\<rparr>)"
    proof (rule transfers_ok_drop [OF ok])
      fix i x assume "map_of (AList.delete request_id (tr_entries tr)) i = Some x"
      then have x: "i \<noteq> request_id" "map_of (tr_entries tr) i = Some x" by (auto split: if_splits)
      then show "\<exists>e0. map_of (tr_entries tr) i = Some e0 \<and> te_request_id x = te_request_id e0 \<and> te_session x = te_session e0"
        by blast
      show "\<exists>l. map_of (AList.update (te_session e) (filter (\<lambda>i. i \<noteq> request_id) ids) (tr_by_session tr)) (te_session x) = Some l
          \<and> i \<in> set l"
        using transfers_ok_entry(4) [OF ok x(2)] x(1) ids(1) by auto
    qed (use keys ids(1) transfers_ok_ids(1) [OF ok] in \<open>auto split: if_splits\<close>)
    then show ?thesis using Some ids(1) by (simp add: transfer_remove_def Let_def)
  qed
qed

lemma entry_touch_simps [simp]:
  "te_request_id (entry_touch n e) = te_request_id e" "te_session (entry_touch n e) = te_session e"
  "te_ticket (entry_touch n e) = te_ticket e" "te_dataset (entry_touch n e) = te_dataset e"
  "te_layout (entry_touch n e) = te_layout e" "te_last_used_ms (entry_touch n e) = n"
  by (simp_all add: entry_touch_def)

lemma transfers_touch_ok:
  assumes ok: "transfers_ok tr" and e: "map_of (tr_entries tr) i = Some e"
  shows "transfers_ok (tr\<lparr>tr_entries := AList.update i (entry_touch now_ms e) (tr_entries tr)\<rparr>)"
proof -
  have "transfers_ok (tr\<lparr>tr_entries := AList.update i (entry_touch now_ms e) (tr_entries tr),
      tr_by_session := tr_by_session tr\<rparr>)"
    by (rule transfers_ok_drop [OF ok])
      (use ok e transfers_ok_ids(1) [OF ok] transfers_ok_entry(4) [OF ok] in
        \<open>auto simp: transfers_ok_def [of tr] split: if_splits\<close>)
  then show ?thesis by simp
qed

lemma fetch_ok:
  assumes ok: "transfers_ok tr" and f: "fetch c request_id ticket session now_ms tr = (res, tr')"
  shows "transfers_ok tr'"
proof (cases "map_of (tr_entries tr) request_id")
  case None
  then show ?thesis using ok f by (simp add: fetch_def)
next
  case (Some e)
  then show ?thesis using f ok transfer_remove_ok(1) [OF ok] transfers_touch_ok [OF ok Some]
    by (auto simp: fetch_def Let_def split: if_splits)
qed

text \<open>What the data plane serves is a live plan, to the session and with the ticket it was made for.\<close>

lemma transfer_fetch_authorised:
  assumes f: "fetch c request_id ticket session now_ms tr = (Ok e, tr')"
    and tickets: "\<forall>i e. map_of (tr_entries tr) i = Some e \<longrightarrow> length (te_ticket e) = length ticket"
  shows "te_session e = session \<and> te_ticket e = ticket \<and> te_last_used_ms e = now_ms
    \<and> (\<exists>old. map_of (tr_entries tr) request_id = Some old \<and> te_layout e = te_layout old \<and> te_dataset e = te_dataset old
        \<and> now_ms - te_last_used_ms old \<le> ttl_ms c)"
proof -
  obtain old where old: "map_of (tr_entries tr) request_id = Some old" using f by (auto simp: fetch_def split: option.splits)
  then have "e = entry_touch now_ms old" "constant_time_eq (te_ticket old) ticket" "te_session old = session"
      "\<not> entry_expired now_ms (ttl_ms c) old"
    using f by (auto simp: fetch_def Let_def split: if_splits)
  then show ?thesis using old tickets constant_time_eq_iff by (auto simp: entry_expired_def)
qed

lemma fold_delete:
  "keys_distinct al \<Longrightarrow> keys_distinct (foldl (\<lambda>al i. AList.delete i al) al ids)
   \<and> (\<forall>k. map_of (foldl (\<lambda>al i. AList.delete i al) al ids) k = (if k \<in> set ids then None else map_of al k))"
  by (induction ids arbitrary: al) auto

text \<open>When a session ends, all of its plans go and no other's.\<close>

lemma remove_session_ok:
  assumes ok: "transfers_ok tr" and rm: "remove_session session tr = (n, tr')"
  shows "transfers_ok tr'"
    "map_of (tr_entries tr') i = Some e \<longleftrightarrow> map_of (tr_entries tr) i = Some e \<and> te_session e \<noteq> session"
proof -
  have keys: "keys_distinct (tr_entries tr)" "keys_distinct (tr_by_session tr)" using ok by (simp_all add: transfers_ok_def)
  have both: "transfers_ok tr' \<and> (map_of (tr_entries tr') i = Some e \<longleftrightarrow> map_of (tr_entries tr) i = Some e \<and> te_session e \<noteq> session)"
  proof (cases "map_of (tr_by_session tr) session")
    case None
    then show ?thesis using rm ok transfers_ok_entry(4) [OF ok] by (fastforce simp: remove_session_def)
  next
    case (Some ids)
    let ?entries = "foldl (\<lambda>al i. AList.delete i al) (tr_entries tr) ids"
    have tr': "tr' = tr\<lparr>tr_entries := ?entries, tr_by_session := AList.delete session (tr_by_session tr)\<rparr>"
      using rm Some by (auto simp: remove_session_def)
    note fd = fold_delete [OF keys(1), of ids]
    have own: "i \<in> set ids \<longleftrightarrow> te_session e = session" if "map_of (tr_entries tr) i = Some e" for i e
      using transfers_ok_entry(4) [OF ok that] transfers_ok_ids(3) [OF ok Some _ that] Some by auto
    have maps: "map_of ?entries i = Some e \<longleftrightarrow> map_of (tr_entries tr) i = Some e \<and> te_session e \<noteq> session" for i e
      using fd own by auto
    have "transfers_ok tr'"
      unfolding tr'
    proof (rule transfers_ok_drop [OF ok])
      fix i e assume "map_of ?entries i = Some e"
      then have e: "map_of (tr_entries tr) i = Some e" "te_session e \<noteq> session" using maps by auto
      then show "\<exists>e0. map_of (tr_entries tr) i = Some e0 \<and> te_request_id e = te_request_id e0 \<and> te_session e = te_session e0"
        by blast
      show "\<exists>ids. map_of (AList.delete session (tr_by_session tr)) (te_session e) = Some ids \<and> i \<in> set ids"
        using transfers_ok_entry(4) [OF ok e(1)] e(2) by simp
    qed (use fd keys transfers_ok_ids(1) [OF ok] in \<open>auto split: if_splits\<close>)
    then show ?thesis using maps tr' by simp
  qed
  then show "transfers_ok tr'"
    "map_of (tr_entries tr') i = Some e \<longleftrightarrow> map_of (tr_entries tr) i = Some e \<and> te_session e \<noteq> session" by blast+
qed

lemma map_of_map_filter:
  "keys_distinct al \<Longrightarrow> keys_distinct (filter P (map (\<lambda>(k, v). (k, f v)) al))
   \<and> (map_of (filter P (map (\<lambda>(k, v). (k, f v)) al)) k = Some w \<longleftrightarrow>
      (\<exists>v. map_of al k = Some v \<and> w = f v \<and> P (k, w)))"
proof -
  assume d: "keys_distinct al"
  then have d': "keys_distinct (map (\<lambda>(k, v). (k, f v)) al)"
    by (simp add: keys_distinct_def comp_def split_def)
  then show ?thesis unfolding map_of_filter_mem [OF d'] map_of_mem [OF d] by force
qed

lemma sweep_at_ok:
  assumes ok: "transfers_ok tr" and sw: "sweep_at c now_ms is_live tr = (n, tr')"
  shows "transfers_ok tr'" "length (tr_entries tr') + n = length (tr_entries tr)"
    "map_of (tr_entries tr') i = Some e \<longleftrightarrow>
      map_of (tr_entries tr) i = Some e \<and> \<not> entry_expired now_ms (ttl_ms c) e \<and> is_live (te_session e)"
proof -
  have keys: "keys_distinct (tr_entries tr)" "keys_distinct (tr_by_session tr)" using ok by (simp_all add: transfers_ok_def)
  define entries where "entries = filter (\<lambda>(_, e). \<not> entry_expired now_ms (ttl_ms c) e \<and> is_live (te_session e)) (tr_entries tr)"
  define keep where "keep = filter (\<lambda>i. map_of entries i \<noteq> None)"
  define by_session where "by_session = filter (\<lambda>(session, ids). ids \<noteq> [] \<and> is_live session)
    (map (\<lambda>(session, ids). (session, keep ids)) (tr_by_session tr))"
  have tr': "tr' = tr\<lparr>tr_entries := entries, tr_by_session := by_session\<rparr>" "n = length (tr_entries tr) - length entries"
    using sw by (auto simp: sweep_at_def Let_def entries_def keep_def by_session_def)
  have maps: "map_of entries i = Some e \<longleftrightarrow>
      map_of (tr_entries tr) i = Some e \<and> \<not> entry_expired now_ms (ttl_ms c) e \<and> is_live (te_session e)" for i e
    unfolding entries_def map_of_filter_mem [OF keys(1)] map_of_mem [OF keys(1)] by simp
  note bys = map_of_map_filter [OF keys(2), of "\<lambda>(session, ids). ids \<noteq> [] \<and> is_live session" keep, folded by_session_def]
  show "transfers_ok tr'"
    unfolding tr'
  proof (rule transfers_ok_drop [OF ok])
    fix i e assume e: "map_of entries i = Some e"
    then have old: "map_of (tr_entries tr) i = Some e" "is_live (te_session e)" using maps by auto
    then show "\<exists>e0. map_of (tr_entries tr) i = Some e0 \<and> te_request_id e = te_request_id e0 \<and> te_session e = te_session e0"
      by blast
    obtain ids where ids: "map_of (tr_by_session tr) (te_session e) = Some ids" "i \<in> set ids"
      using transfers_ok_entry(4) [OF ok old(1)] by blast
    then have kept: "i \<in> set (keep ids)" using e by (simp add: keep_def)
    then have "keep ids \<noteq> []" by auto
    then have "map_of by_session (te_session e) = Some (keep ids)"
      using bys [of "te_session e" "keep ids"] ids(1) old(2) by simp
    with kept show "\<exists>ids. map_of by_session (te_session e) = Some ids \<and> i \<in> set ids" by blast
  next
    fix s ids assume "map_of by_session s = Some ids"
    then obtain ids0 where "map_of (tr_by_session tr) s = Some ids0" "ids = keep ids0" using bys [of s ids] by blast
    then show "\<exists>ids0. map_of (tr_by_session tr) s = Some ids0 \<and> distinct ids \<and> set ids \<subseteq> set ids0"
      using transfers_ok_ids(1) [OF ok] by (auto simp: keep_def)
  qed (use keys bys in \<open>auto simp: entries_def\<close>)
  show "length (tr_entries tr') + n = length (tr_entries tr)"
    using length_filter_le [of _ "tr_entries tr"] by (simp add: tr' entries_def)
  show "map_of (tr_entries tr') i = Some e \<longleftrightarrow>
      map_of (tr_entries tr) i = Some e \<and> \<not> entry_expired now_ms (ttl_ms c) e \<and> is_live (te_session e)"
    using maps by (simp add: tr'(1))
qed

end
