(* ===== verification/Fetch_Reader.thy ===== *)
theory Fetch_Reader
  imports Transfers
begin

text \<open>
  The read half of a data connection (\<open>aex-server/src/reader.rs\<close>): a fetch is cut into pieces no
  larger than the buffer, each read through the layout and handed to \<open>send\<close>. The state that \<open>send\<close>
  changes is threaded through. \<open>None\<close> is a panic or a loop that never ends, which an empty buffer
  would give. The calls of \<open>will_need\<close> are logged in \<open>fr_asked\<close>; they change nothing that is read.
  After a failed read the buffer holds whatever the read left, which nothing looks at.
\<close>

definition READ_AHEAD_BYTES :: nat where "READ_AHEAD_BYTES = 4 * 2 ^ 20"

record fetch_reader =
  fr_buffer :: bytes
  fr_hinted :: nat
  fr_asked :: "(nat \<times> nat) list"

definition fetch_reader_new :: "nat \<Rightarrow> fetch_reader" where
  "fetch_reader_new piece_bytes = \<lparr>fr_buffer = replicate piece_bytes 0, fr_hinted = 0, fr_asked = []\<rparr>"

definition row_aligned :: "layout \<Rightarrow> nat \<Rightarrow> nat \<Rightarrow> nat" where
  "row_aligned lay offset piece =
     (if eps (lay_quality lay) = None then piece
      else
        let isz = itemsize (lay_dtype lay);
            aligned =
              (case row_bytes lay of
                 Some row \<Rightarrow>
                   if wadd offset piece mod row < piece then piece - wadd offset piece mod row
                   else piece - piece mod isz
               | None \<Rightarrow> piece - piece mod isz)
        in if aligned = 0 then piece else aligned)"

text \<open>What of the stream the storage is asked to fetch before a piece is read.\<close>

definition look_ahead :: "layout \<Rightarrow> nat \<Rightarrow> fetch_reader \<Rightarrow> fetch_reader" where
  "look_ahead lay offset rd =
     (let window = min (sat_add offset READ_AHEAD_BYTES) (lay_total_bytes lay) in
      if window > fr_hinted rd then
        let start = max (fr_hinted rd) offset in
        rd\<lparr>fr_asked := fr_asked rd @ [(start, window - start)], fr_hinted := window\<rparr>
      else rd)"

partial_function (option) serve_loop ::
    "(bytes \<Rightarrow> bytes) \<Rightarrow> dataset \<Rightarrow> layout \<Rightarrow> (nat \<Rightarrow> bytes \<Rightarrow> 's \<Rightarrow> ('e + unit) \<times> 's)
     \<Rightarrow> fetch_reader \<Rightarrow> nat \<Rightarrow> nat \<Rightarrow> 's \<Rightarrow> (('e + (aex_error + unit)) \<times> fetch_reader \<times> 's) option" where
  "serve_loop f16_from_f32 ds lay send rd offset len st =
     (if len = 0 then Some (Ok (Ok ()), rd, st)
      else
        let piece = row_aligned lay offset (min len (length (fr_buffer rd)));
            rd = look_ahead lay offset rd
        in case read_range f16_from_f32 ds lay offset (take piece (fr_buffer rd)) of
             None \<Rightarrow> None
           | Some (Err e) \<Rightarrow> Some (Ok (Err e), rd, st)
           | Some (Ok bs) \<Rightarrow>
               let rd = rd\<lparr>fr_buffer := write_at (fr_buffer rd) 0 bs\<rparr> in
               (case send offset bs st of
                  (Err e, st) \<Rightarrow> Some (Err e, rd, st)
                | (Ok _, st) \<Rightarrow>
                    serve_loop f16_from_f32 ds lay send rd (wadd offset piece) (len - piece) st))"

definition serve ::
    "(bytes \<Rightarrow> bytes) \<Rightarrow> transfer_entry \<Rightarrow> (nat \<Rightarrow> bytes \<Rightarrow> 's \<Rightarrow> ('e + unit) \<times> 's)
     \<Rightarrow> fetch_reader \<Rightarrow> nat \<Rightarrow> nat \<Rightarrow> 's \<Rightarrow> (('e + (aex_error + unit)) \<times> fetch_reader \<times> 's) option" where
  "serve f16_from_f32 e send rd offset len st =
     (let carries_on = offset \<le> fr_hinted rd \<and> fr_hinted rd - offset \<le> READ_AHEAD_BYTES;
          rd = (if carries_on then rd else rd\<lparr>fr_hinted := offset\<rparr>)
      in serve_loop f16_from_f32 (te_dataset e) (te_layout e) send rd offset len st)"

section \<open>The pieces\<close>

lemma row_aligned_bounds: "row_aligned lay offset piece \<le> piece" "0 < piece \<Longrightarrow> 0 < row_aligned lay offset piece"
  by (auto simp: row_aligned_def Let_def split: option.splits)

text \<open>Where a range is cut, for a buffer of \<open>cap\<close> bytes.\<close>

function cuts :: "nat \<Rightarrow> layout \<Rightarrow> nat \<Rightarrow> nat \<Rightarrow> (nat \<times> nat) list" where
  "cuts cap lay offset len =
     (if len = 0 \<or> cap = 0 then []
      else
        let piece = row_aligned lay offset (min len cap) in
        (offset, piece) # cuts cap lay (offset + piece) (len - piece))"
  by pat_completeness auto
termination
  by (relation "measure (\<lambda>(cap, lay, offset, len). len)") (auto intro!: diff_less row_aligned_bounds(2))

declare cuts.simps [simp del]

text \<open>Consecutive, not empty, and together the range.\<close>

fun tiles :: "nat \<Rightarrow> nat \<Rightarrow> (nat \<times> nat) list \<Rightarrow> bool" where
  "tiles offset len [] \<longleftrightarrow> len = 0"
| "tiles offset len ((o1, n) # rest) \<longleftrightarrow> o1 = offset \<and> 0 < n \<and> n \<le> len \<and> tiles (offset + n) (len - n) rest"

lemma row_aligned_le_len: "row_aligned lay offset (min len cap) \<le> len" "row_aligned lay offset (min len cap) \<le> cap"
  using row_aligned_bounds(1) [of lay offset "min len cap"] by auto

lemma cuts_tiles: "0 < cap \<Longrightarrow> tiles offset len (cuts cap lay offset len)"
proof (induction cap lay offset len rule: cuts.induct)
  case (1 cap lay offset len)
  show ?case
  proof (cases "len = 0")
    case True
    then show ?thesis by (simp add: cuts.simps)
  next
    case False
    then show ?thesis
      using "1.IH" "1.prems" row_aligned_le_len row_aligned_bounds(2) by (subst cuts.simps) (simp add: Let_def)
  qed
qed

lemma cuts_le: "(o1, n) \<in> set (cuts cap lay offset len) \<Longrightarrow> n \<le> cap"
proof (induction cap lay offset len rule: cuts.induct)
  case (1 cap lay offset len)
  then show ?case
    using row_aligned_le_len(2) [of lay offset len cap]
    by (subst (asm) (2) cuts.simps) (auto simp: Let_def split: if_splits)
qed

lemma tiles_concat: "tiles offset len ps \<Longrightarrow> concat (map (\<lambda>(o1, n). slice xs o1 n) ps) = slice xs offset len"
proof (induction offset len ps rule: tiles.induct)
  case (2 offset len o1 n rest)
  then have "len = n + (len - n)" by simp
  then have "slice xs offset len = slice xs offset n @ slice xs (offset + n) (len - n)" using slice_add by metis
  then show ?case using 2 by simp
qed (simp add: slice_def)

lemma tiles_mem: "tiles offset len ps \<Longrightarrow> (o1, n) \<in> set ps \<Longrightarrow> offset \<le> o1 \<and> o1 + n \<le> offset + len \<and> 0 < n"
  by (induction offset len ps rule: tiles.induct) fastforce+

section \<open>Serving\<close>

text \<open>Send the pieces of a stream in order, until one cannot be sent.\<close>

fun send_all :: "(nat \<Rightarrow> bytes \<Rightarrow> 's \<Rightarrow> ('e + unit) \<times> 's) \<Rightarrow> bytes \<Rightarrow> (nat \<times> nat) list \<Rightarrow> 's \<Rightarrow> ('e + unit) \<times> 's" where
  "send_all send stream [] st = (Ok (), st)"
| "send_all send stream ((o1, n) # ps) st =
     (case send o1 (slice stream o1 n) st of
        (Err e, st) \<Rightarrow> (Err e, st)
      | (Ok _, st) \<Rightarrow> send_all send stream ps st)"

lemma look_ahead_buffer [simp]: "fr_buffer (look_ahead lay offset rd) = fr_buffer rd"
  by (simp add: look_ahead_def Let_def)

lemma serve_loop_correct:
  "length (fr_buffer rd) = cap \<Longrightarrow> 0 < cap \<Longrightarrow> offset + len \<le> lay_total_bytes lay \<Longrightarrow>
   reads_stream f16 ds lay stream \<Longrightarrow> lay_total_bytes lay < U64 \<Longrightarrow>
    \<exists>rd'. length (fr_buffer rd') = cap
      \<and> serve_loop f16 ds lay send rd offset len st
        = Some (map_prod (res_map (\<lambda>_. Ok ())) (\<lambda>st. (rd', st)) (send_all send stream (cuts cap lay offset len) st))"
proof (induction cap lay offset len arbitrary: rd st rule: cuts.induct)
  case (1 cap lay offset len)
  show ?case
  proof (cases "len = 0")
    case True
    then show ?thesis using "1.prems" by (intro exI [of _ rd]) (simp add: serve_loop.simps cuts.simps)
  next
    case False
    note stream = "1.prems"(4) and small = "1.prems"(5)
    define piece where "piece = row_aligned lay offset (min len cap)"
    have piece: "0 < piece" "piece \<le> len" "piece \<le> cap"
      using row_aligned_bounds(2) [of "min len cap" lay offset] row_aligned_le_len False "1.prems"(2)
      by (auto simp: piece_def)
    have cuts: "cuts cap lay offset len = (offset, piece) # cuts cap lay (offset + piece) (len - piece)"
      using False "1.prems"(2) by (subst cuts.simps) (simp add: piece_def Let_def)
    have next_at: "wadd offset piece = offset + piece"
      by (rule wadd_eq) (use piece "1.prems"(3) small in linarith)
    define rd1 where "rd1 = look_ahead lay offset rd"
    have len1: "length (fr_buffer rd1) = cap" "length (take piece (fr_buffer rd1)) = piece"
      using "1.prems"(1) piece(3) by (simp_all add: rd1_def)
    have bs: "read_range f16 ds lay offset (take piece (fr_buffer rd1)) = Some (Ok (slice stream offset piece))"
      using stream len1(2) piece(2) "1.prems"(3) by (simp add: reads_stream_def del: length_take)
    define rd2 where "rd2 = rd1\<lparr>fr_buffer := write_at (fr_buffer rd1) 0 (slice stream offset piece)\<rparr>"
    have "length (slice stream offset piece) = piece"
      using stream piece(2) "1.prems"(3) by (simp add: reads_stream_def)
    then have len2: "length (fr_buffer rd2) = cap" using len1(1) piece(3) by (simp add: rd2_def)
    have step: "serve_loop f16 ds lay send rd offset len st =
        (case send offset (slice stream offset piece) st of
           (Err e, st) \<Rightarrow> Some (Err e, rd2, st)
         | (Ok _, st) \<Rightarrow> serve_loop f16 ds lay send rd2 (offset + piece) (len - piece) st)"
      using False bs by (subst serve_loop.simps) (simp add: Let_def "1.prems"(1) piece_def [symmetric] rd1_def [symmetric] rd2_def [symmetric] next_at split: prod.split sum.split)
    obtain res st1 where snd: "send offset (slice stream offset piece) st = (res, st1)" by fastforce
    show ?thesis
    proof (cases res)
      case (Inl e)
      then show ?thesis using step snd len2 by (intro exI [of _ rd2]) (simp add: cuts)
    next
      case (Inr u)
      obtain rd3 where "length (fr_buffer rd3) = cap"
        "serve_loop f16 ds lay send rd2 (offset + piece) (len - piece) st1
          = Some (map_prod (res_map (\<lambda>_. Ok ())) (\<lambda>st. (rd3, st))
              (send_all send stream (cuts cap lay (offset + piece) (len - piece)) st1))"
        using "1.IH" [OF _ refl, folded piece_def, OF _ len2 "1.prems"(2) _ stream small] False "1.prems"(2,3) piece(1,2) by force
      then show ?thesis using step snd Inr by (intro exI [of _ rd3]) (simp add: cuts)
    qed
  qed
qed

text \<open>
  A fetch inside the stream is served whole: its pieces are sent in order, none longer than the buffer,
  and together they are the bytes asked for. Only \<open>send\<close> can stop it.
\<close>

lemma serve_correct:
  assumes "reads_stream f16 (te_dataset e) (te_layout e) stream" "lay_total_bytes (te_layout e) < U64"
    and "0 < length (fr_buffer rd)" "offset + len \<le> lay_total_bytes (te_layout e)"
  shows "\<exists>rd'. length (fr_buffer rd') = length (fr_buffer rd)
    \<and> serve f16 e send rd offset len st
      = Some (map_prod (res_map (\<lambda>_. Ok ())) (\<lambda>st. (rd', st))
          (send_all send stream (cuts (length (fr_buffer rd)) (te_layout e) offset len) st))"
  unfolding serve_def Let_def by (rule serve_loop_correct [OF _ assms(3,4,1,2)]) simp

lemma send_all_collect:
  "send_all (\<lambda>o1 bs st. (Ok (), st @ [(o1, bs)])) stream ps st = (Ok (), st @ map (\<lambda>(o1, n). (o1, slice stream o1 n)) ps)"
  by (induction ps arbitrary: st) auto

lemma tiles_lengths:
  "tiles offset len ps \<Longrightarrow> offset + len \<le> length stream \<Longrightarrow>
   map (\<lambda>(o1, n). (o1, length (slice stream o1 n))) ps = ps"
  by (rule map_idI) (use tiles_mem in \<open>fastforce\<close>)

lemma serve_collects:
  assumes "reads_stream f16 (te_dataset e) (te_layout e) stream" "lay_total_bytes (te_layout e) < U64"
    and "0 < length (fr_buffer rd)" "offset + len \<le> lay_total_bytes (te_layout e)"
  shows "\<exists>rd' pieces. serve f16 e (\<lambda>at bs st. (Ok () :: 'e + unit, st @ [(at, bs)])) rd offset len [] = Some (Ok (Ok ()), rd', pieces)
    \<and> tiles offset len (map (\<lambda>(at, bs). (at, length bs)) pieces)
    \<and> concat (map snd pieces) = slice stream offset len
    \<and> (\<forall>(at, bs) \<in> set pieces. length bs \<le> length (fr_buffer rd))"
proof -
  let ?cuts = "cuts (length (fr_buffer rd)) (te_layout e) offset len"
  let ?pieces = "map (\<lambda>(o1, n). (o1, slice stream o1 n)) ?cuts"
  have len: "length stream = lay_total_bytes (te_layout e)" using assms(1) by (simp add: reads_stream_def)
  have t: "tiles offset len ?cuts" using assms(3) by (rule cuts_tiles)
  have eq: "map (\<lambda>(at, bs). (at, length bs)) ?pieces = ?cuts"
    using tiles_lengths [OF t, of stream] assms(4) len by (simp add: comp_def case_prod_unfold)
  have "\<forall>(at, bs) \<in> set ?pieces. length bs \<le> length (fr_buffer rd)"
    using cuts_le [of _ _ "length (fr_buffer rd)" "te_layout e" offset len]
    by (auto simp: slice_def min.coboundedI2)
  moreover obtain rd' where
    "serve f16 e (\<lambda>at bs st. (Ok () :: 'e + unit, st @ [(at, bs)])) rd offset len [] = Some (Ok (Ok ()), rd', ?pieces)"
    using serve_correct [OF assms, where send = "\<lambda>at bs st. (Ok () :: 'e + unit, st @ [(at, bs)])" and st = "[]"]
    by (auto simp: send_all_collect)
  moreover have "concat (map snd ?pieces) = slice stream offset len"
    using tiles_concat [OF t, of stream] by (simp add: comp_def case_prod_unfold)
  ultimately show ?thesis using t by (intro exI [of _ rd'] exI [of _ ?pieces] conjI) (simp_all only: eq)
qed

text \<open>A failed read stops the range and is reported; what was sent before it stands.\<close>

lemma serve_loop_read_error:
  assumes "len \<noteq> 0"
    and "read_range f16 ds lay offset (take (row_aligned lay offset (min len (length (fr_buffer rd)))) (fr_buffer rd)) = Some (Err e)"
  shows "\<exists>rd'. serve_loop f16 ds lay send rd offset len st = Some (Ok (Err e), rd', st)"
  using assms by (subst serve_loop.simps) (simp add: Let_def)

text \<open>What every call of \<open>send\<close> keeps, \<open>serve\<close> keeps.\<close>

definition send_keeps :: "('s \<Rightarrow> bool) \<Rightarrow> (nat \<Rightarrow> bytes \<Rightarrow> 's \<Rightarrow> ('e + unit) \<times> 's) \<Rightarrow> bool" where
  "send_keeps P send \<longleftrightarrow> (\<forall>at bs st. P st \<longrightarrow> P (snd (send at bs st)))"

lemma serve_loop_keeps:
  "serve_loop f16 ds lay send rd offset len st = Some res \<Longrightarrow> send_keeps P send \<Longrightarrow> P st \<Longrightarrow> P (snd (snd res))"
proof (induction rule: serve_loop.raw_induct [rotated, consumes 1])
  case (1 loop f16 ds lay send rd offset len st res)
  show ?case
  proof (cases "len = 0")
    case False
    have sent: "P st'" if "send at bs st = (r, st')" for at bs r st'
      using 1(3,4) that unfolding send_keeps_def by (metis snd_conv)
    show ?thesis
      using 1(2) False
      by (auto simp: Let_def split: option.splits sum.splits prod.splits
          intro: 1(4) sent 1(1) [OF _ 1(3)])
  qed (use 1 in auto)
qed

lemma serve_keeps:
  "serve f16 e send rd offset len st = Some (r, rd', st') \<Longrightarrow> send_keeps P send \<Longrightarrow> P st \<Longrightarrow> P st'"
  unfolding serve_def Let_def using serve_loop_keeps [where res = "(r, rd', st')" and P = P] by (metis snd_conv)

section \<open>Reading ahead\<close>

text \<open>The storage is asked for parts of the stream only, and never for nothing.\<close>

definition asked_ok :: "layout \<Rightarrow> fetch_reader \<Rightarrow> bool" where
  "asked_ok lay rd \<longleftrightarrow>
     (\<forall>a n. (a, n) \<in> set (fr_asked rd) \<longrightarrow> 0 < n \<and> a + n \<le> lay_total_bytes lay)"

lemma look_ahead_ok:
  "asked_ok lay rd \<Longrightarrow> offset < lay_total_bytes lay \<Longrightarrow> lay_total_bytes lay < U64 \<Longrightarrow> asked_ok lay (look_ahead lay offset rd)"
  by (auto simp: asked_ok_def look_ahead_def Let_def sat_add_def READ_AHEAD_BYTES_def)

end
