(* ===== verification/Handshake.thy ===== *)
theory Handshake
  imports Frame
begin

text \<open>
  Opening a data connection (\<open>aex-wire/src/handshake.rs\<close>): \<open>HELLO\<close> and \<open>READY\<close>.
  The 16-byte identifiers are lists; \<open>hello_wf\<close> says what the Rust type says, that they have
  sixteen elements.
\<close>

definition MAGIC :: bytes where
  "MAGIC = [0x41, 0x45, 0x58, 0x44, 0x41, 0x54, 0x41, 0x01]"

definition PROTOCOL_VERSION :: u16 where "PROTOCOL_VERSION = 2"
definition HELLO_LEN :: nat where "HELLO_LEN = 48"
definition READY_LEN :: nat where "READY_LEN = 16"

definition check_magic :: "bytes \<Rightarrow> wire_error + unit" where
  "check_magic b = (if b \<noteq> MAGIC then Err WireProtocol else Ok ())"

section \<open>HELLO\<close>

record hello =
  h_version :: u16
  h_flags :: u32
  h_session_id :: bytes
  h_session_token :: bytes

definition hello_wf :: "hello \<Rightarrow> bool" where
  "hello_wf h \<longleftrightarrow> length (h_session_id h) = 16 \<and> length (h_session_token h) = 16"

definition hello_new :: "bytes \<Rightarrow> bytes \<Rightarrow> hello" where
  "hello_new session_id session_token =
     \<lparr>h_version = PROTOCOL_VERSION, h_flags = 0,
      h_session_id = session_id, h_session_token = session_token\<rparr>"

definition hello_encode :: "hello \<Rightarrow> bytes" where
  "hello_encode h =
     MAGIC @ to_le (h_version h) @ [0, 0] @ to_le (h_flags h) @ h_session_id h @ h_session_token h"

definition hello_decode :: "bytes \<Rightarrow> wire_error + hello" where
  "hello_decode b =
     res_bind (check_magic (slice b 0 8)) (\<lambda>_.
       Ok \<lparr>h_version = of_le (slice b 8 2), h_flags = of_le (slice b 12 4),
           h_session_id = slice b 16 16, h_session_token = slice b 32 16\<rparr>)"

section \<open>READY\<close>

record ready =
  r_status :: error_class
  r_version :: u16
  r_flags :: u32

definition ready_accepted :: ready where
  "ready_accepted = \<lparr>r_status = Class_Ok, r_version = PROTOCOL_VERSION, r_flags = 0\<rparr>"

definition ready_refused :: "error_class \<Rightarrow> ready" where
  "ready_refused status = \<lparr>r_status = status, r_version = PROTOCOL_VERSION, r_flags = 0\<rparr>"

definition is_accepted :: "ready \<Rightarrow> bool" where
  "is_accepted r \<longleftrightarrow> r_status r = Class_Ok"

definition ready_encode :: "ready \<Rightarrow> bytes" where
  "ready_encode r =
     MAGIC @ to_le (ucast (class_as_u8 (r_status r)) :: u16) @ to_le (r_version r)
     @ to_le (r_flags r)"

definition ready_decode :: "bytes \<Rightarrow> wire_error + ready" where
  "ready_decode b =
     res_bind (check_magic (slice b 0 8)) (\<lambda>_.
       let status = (of_le (slice b 8 2) :: u16) in
       if status > 255 then Err WireProtocol
       else Ok \<lparr>r_status = class_from_u8 (ucast status), r_version = of_le (slice b 10 2),
                r_flags = of_le (slice b 12 4)\<rparr>)"

section \<open>Facts\<close>

lemma length_MAGIC [simp]: "length MAGIC = 8"
  by (simp add: MAGIC_def)

lemma slice_front [simp]: "length xs = n \<Longrightarrow> slice (xs @ ys) 0 n = xs"
  by (simp add: slice_def)

lemma slice_skip: "length xs \<le> a \<Longrightarrow> slice (xs @ ys) a n = slice ys (a - length xs) n"
  by (simp add: slice_def)

lemma length_hello_encode: "hello_wf h \<Longrightarrow> length (hello_encode h) = HELLO_LEN"
  by (simp add: hello_encode_def hello_wf_def HELLO_LEN_def)

lemma hello_decode_wf: "hello_decode b = Ok h \<Longrightarrow> length b = HELLO_LEN \<Longrightarrow> hello_wf h"
  by (auto simp: hello_decode_def res_bind_Ok hello_wf_def HELLO_LEN_def)

lemma hello_decode_encode: "hello_wf h \<Longrightarrow> hello_decode (hello_encode h) = Ok h"
  by (simp add: hello_decode_def hello_encode_def check_magic_def hello_wf_def slice_def)

lemma length_ready_encode: "length (ready_encode r) = READY_LEN"
  by (simp add: ready_encode_def READY_LEN_def)

lemma class_byte_small: "ucast (class_as_u8 c) \<le> (255 :: u16)"
  by (cases c) simp_all

lemma ucast_class_byte: "ucast (ucast (class_as_u8 c) :: u16) = class_as_u8 c"
  by (cases c) simp_all

lemma ready_decode_encode: "ready_decode (ready_encode r) = Ok r"
  by (simp add: ready_decode_def ready_encode_def check_magic_def slice_def ucast_class_byte
      leD [OF class_byte_small])

interpretation ready: wire_message ready_encode ready_decode READY_LEN
  by unfold_locales (simp_all add: ready_decode_encode length_ready_encode)

end
