(* ===== verification/Effects.thy ===== *)
theory Effects
  imports Errors
begin

text \<open>
  Actions of the server: they change a state and return, fail with an error, or do not return (\<open>None\<close>, for a
  panic or a wait that nothing ends). \<open>act_bind\<close> is \<open>?\<close> and the semicolon of the source.
\<close>

type_synonym ('s, 'e, 'a) act = "'s \<Rightarrow> ('e + 'a) option \<times> 's"

definition act_return :: "'a \<Rightarrow> ('s, 'e, 'a) act" where "act_return x s = (Some (Ok x), s)"
definition act_throw :: "'e \<Rightarrow> ('s, 'e, 'a) act" where "act_throw e s = (Some (Err e), s)"
definition act_of :: "'e + 'a \<Rightarrow> ('s, 'e, 'a) act" where "act_of r s = (Some r, s)"

definition act_bind :: "('s, 'e, 'a) act \<Rightarrow> ('a \<Rightarrow> ('s, 'e, 'b) act) \<Rightarrow> ('s, 'e, 'b) act" where
  "act_bind m f s =
     (case m s of
        (None, s) \<Rightarrow> (None, s)
      | (Some (Err e), s) \<Rightarrow> (Some (Err e), s)
      | (Some (Ok x), s) \<Rightarrow> f x s)"

lemma act_of_simps: "act_of (Ok x) = act_return x" "act_of (Err e) = act_throw e"
  by (simp_all add: fun_eq_iff act_of_def act_return_def act_throw_def)

lemma act_bind_return [simp]: "act_bind (act_return x) f = f x"
  by (simp add: fun_eq_iff act_bind_def act_return_def)

lemma act_bind_throw [simp]: "act_bind (act_throw e) f = act_throw e"
  by (simp add: fun_eq_iff act_bind_def act_throw_def)

lemma act_bind_assoc: "act_bind (act_bind m f) g = act_bind m (\<lambda>x. act_bind (f x) g)"
  by (simp add: fun_eq_iff act_bind_def split: option.split sum.split prod.split)

lemma act_bind_Ok: "act_bind m f s = (Some (Ok y), s') \<longleftrightarrow> (\<exists>x t. m s = (Some (Ok x), t) \<and> f x t = (Some (Ok y), s'))"
  by (auto simp: act_bind_def split: option.splits sum.splits prod.splits)

text \<open>What every action of a kind keeps is kept by the two of them in a row.\<close>

definition act_keeps :: "('s \<Rightarrow> bool) \<Rightarrow> ('s, 'e, 'a) act \<Rightarrow> bool" where
  "act_keeps I m \<longleftrightarrow> (\<forall>s. I s \<longrightarrow> I (snd (m s)))"

lemma act_keeps_pure [simp]: "act_keeps I (act_return x)" "act_keeps I (act_throw e)"
  by (simp_all add: act_keeps_def act_return_def act_throw_def)

lemma act_keeps_of [simp]: "act_keeps I (act_of r)"
  by (simp add: act_keeps_def act_of_def)

lemma act_keeps_bind: "act_keeps I m \<Longrightarrow> (\<And>x. act_keeps I (f x)) \<Longrightarrow> act_keeps I (act_bind m f)"
  by (fastforce simp: act_keeps_def act_bind_def split: option.split sum.split prod.split)

lemma act_keepsD: "act_keeps I m \<Longrightarrow> I s \<Longrightarrow> m s = (r, s') \<Longrightarrow> I s'"
  by (metis act_keeps_def snd_conv)

text \<open>Actions that leave the state alone.\<close>

definition act_pure :: "('s, 'e, 'a) act \<Rightarrow> bool" where "act_pure m \<longleftrightarrow> (\<forall>s. snd (m s) = s)"

lemma act_pure_basic [simp]: "act_pure (act_return x)" "act_pure (act_throw e)" "act_pure (act_of r)"
  by (simp_all add: act_pure_def act_return_def act_throw_def act_of_def)

lemma act_pure_then: "act_pure m \<Longrightarrow> snd (act_bind m f s) = s \<or> (\<exists>x. snd (act_bind m f s) = snd (f x s))"
proof -
  assume "act_pure m"
  then have "m s = (fst (m s), s)" by (metis act_pure_def prod.collapse)
  then have "act_bind m f s = (case fst (m s) of None \<Rightarrow> (None, s) | Some (Err e) \<Rightarrow> (Some (Err e), s) | Some (Ok x) \<Rightarrow> f x s)"
    by (metis (no_types) act_bind_def case_prod_conv)
  then show ?thesis by (auto split: option.split sum.split)
qed

lemma act_pure_bind: "act_pure m \<Longrightarrow> (\<And>x. act_pure (f x)) \<Longrightarrow> act_pure (act_bind m f)"
  using act_pure_then [of m f] unfolding act_pure_def by metis

lemma snd_act_bind_return: "snd (act_bind m (\<lambda>x. act_return (f x)) s) = snd (m s)"
  by (simp add: act_bind_def act_return_def split: option.split sum.split prod.split)

end
