(* ===== verification/Data_Plane.thy ===== *)
theory Data_Plane
  imports Fetch_Reader Handshake Codec Effects
begin

text \<open>
  One data connection of the server (\<open>aex-server/src/dataplane.rs\<close>): reading with the idle timeout, the
  handshake, and the loop that serves frames. What the socket does is the input: \<open>st_in\<close> is what the
  coming reads return, \<open>st_fails\<close> which of the coming writes fail. \<open>st_sent\<close> is what was written, whole
  frames; a write that fails part way is the business of \<open>write_frame\<close>. The listening socket, the
  threads and the logging are left out.
\<close>

section \<open>The socket\<close>

text \<open>
  One turn of the loop of \<open>read_full\<close>: the server is stopping, a read returned (with no bytes at the end
  of the stream), it timed out after some milliseconds, it was interrupted, or it failed.
\<close>

datatype socket_event = Stopping | Got bytes | Quiet nat | Interrupted | Failed io_kind

datatype read_result = Read_All bytes | Read_End | Read_Err io_kind | Read_Wait

fun read_full :: "nat \<Rightarrow> nat \<Rightarrow> nat \<Rightarrow> bytes \<Rightarrow> socket_event list \<Rightarrow> read_result \<times> socket_event list" where
  "read_full idle need since got [] = (if length got < need then Read_Wait else Read_All got, [])"
| "read_full idle need since got (ev # evs) =
     (if \<not> length got < need then (Read_All got, ev # evs)
      else case ev of
        Stopping \<Rightarrow> (Read_Err Io_Interrupted, ev # evs)
      | Got bs \<Rightarrow>
          if bs = [] then (if got = [] then Read_End else Read_Err Io_UnexpectedEof, ev # evs)
          else
            let room = need - length got in
            if length bs > room then (Read_All (got @ take room bs), Got (drop room bs) # evs)
            else read_full idle need 0 (got @ bs) evs
      | Quiet ms \<Rightarrow>
          if since + ms \<ge> idle then (Read_Err Io_TimedOut, evs)
          else read_full idle need (since + ms) got evs
      | Interrupted \<Rightarrow> read_full idle need since got evs
      | Failed k \<Rightarrow> (Read_Err k, evs))"

section \<open>The state of a connection and its server\<close>

record dp_env =
  dp_config :: server_config
  dp_build :: build
  dp_codecs :: codec_lib
  dp_f16_from_f32 :: "bytes \<Rightarrow> bytes"
  dp_clock :: "nat \<Rightarrow> nat"
  dp_message :: "server_error \<Rightarrow> bytes"

datatype sent = Sent_Ready ready | Sent_Frame frame_header bytes

record 'f dp_state =
  st_in :: "socket_event list"
  st_fails :: "io_kind option list"
  st_sent :: "sent list"
  st_reader :: fetch_reader
  st_sessions :: "'f sessions"
  st_transfers :: transfers
  st_conns :: "(session_id \<times> nat) list"
  st_ticks :: nat

text \<open>An action returns, or waits for its peer; \<open>None\<close> is also a panic below \<open>read_with\<close>.\<close>

type_synonym ('f, 'a) dp = "('f dp_state, server_error, 'a) act"

definition dp_now :: "dp_env \<Rightarrow> ('f, nat) dp" where
  "dp_now env s = (Some (Ok (dp_clock env (st_ticks s))), s\<lparr>st_ticks := st_ticks s + 1\<rparr>)"

text \<open>Write one thing out.\<close>

definition emit :: "sent \<Rightarrow> 'f dp_state \<Rightarrow> (server_error + unit) \<times> 'f dp_state" where
  "emit x s =
     (case st_fails s of
        Some k # fails \<Rightarrow> (Err (SrvIo k), s\<lparr>st_fails := fails\<rparr>)
      | _ \<Rightarrow> (Ok (), s\<lparr>st_fails := tl (st_fails s), st_sent := st_sent s @ [x]\<rparr>))"

definition dp_emit :: "sent \<Rightarrow> ('f, unit) dp" where
  "dp_emit x s = map_prod Some (\<lambda>s. s) (emit x s)"

text \<open>\<open>None\<close> for a clean end of the stream.\<close>

definition recv :: "nat \<Rightarrow> nat \<Rightarrow> ('f, bytes option) dp" where
  "recv idle need s =
     (let (r, evs) = read_full idle need 0 [] (st_in s); s = s\<lparr>st_in := evs\<rparr> in
      (case r of
         Read_All bs \<Rightarrow> Some (Ok (Some bs))
       | Read_End \<Rightarrow> Some (Ok None)
       | Read_Err k \<Rightarrow> Some (Err (SrvIo k))
       | Read_Wait \<Rightarrow> None, s))"

section \<open>Checking a client in\<close>

definition HANDSHAKE_TIMEOUT_MS :: nat where "HANDSHAKE_TIMEOUT_MS = 10 * 1000"

definition dp_session_get :: "dp_env \<Rightarrow> bytes \<Rightarrow> ('f, 'f session) dp" where
  "dp_session_get env sid =
     act_bind (dp_now env) (\<lambda>now_ms s.
       let (r, reg) = get_at (dp_config env) sid now_ms (st_sessions s) in
       (Some r, s\<lparr>st_sessions := reg\<rparr>))"

definition open_data_conn :: "'f session \<Rightarrow> ('f, unit) dp" where
  "open_data_conn session s =
     (let n = unwrap_or (map_of (st_conns s) (ss_id session)) 0 in
      if n \<ge> ss_granted_streams session then (Some (Err SrvExhausted), s)
      else (Some (Ok ()), s\<lparr>st_conns := AList.update (ss_id session) (n + 1) (st_conns s)\<rparr>))"

definition close_data_conn :: "'f session \<Rightarrow> 'f dp_state \<Rightarrow> 'f dp_state" where
  "close_data_conn session s =
     (let n = unwrap_or (map_of (st_conns s) (ss_id session)) 0 in
      s\<lparr>st_conns := AList.update (ss_id session) ((n + U32 - 1) mod U32) (st_conns s)\<rparr>)"

definition check_hello :: "dp_env \<Rightarrow> bytes \<Rightarrow> ('f, 'f session) dp" where
  "check_hello env bs =
     act_bind (act_of (map_err (\<lambda>_. SrvProtocol) (hello_decode bs))) (\<lambda>h.
       if h_version h \<noteq> PROTOCOL_VERSION then act_throw SrvProtocol
       else act_bind (dp_session_get env (h_session_id h)) (\<lambda>session.
         if \<not> constant_time_eq (ss_token session) (h_session_token h) then act_throw SrvAuth
         else act_bind (open_data_conn session) (\<lambda>_. act_return session)))"

text \<open>The answer is sent whichever way the check went, and a failure to send it is what is reported.\<close>

definition handshake :: "dp_env \<Rightarrow> ('f, 'f session) dp" where
  "handshake env =
     act_bind (recv HANDSHAKE_TIMEOUT_MS HELLO_LEN) (\<lambda>got.
       case got of
         None \<Rightarrow> act_throw SrvBadRequest
       | Some bs \<Rightarrow> (\<lambda>s.
           case check_hello env bs s of
             (None, s) \<Rightarrow> (None, s)
           | (Some r, s) \<Rightarrow>
               act_bind
                 (dp_emit (Sent_Ready (case r of Ok _ \<Rightarrow> ready_accepted | Err e \<Rightarrow> ready_refused (server_class e))))
                 (\<lambda>_. act_of r) s))"

section \<open>Frames\<close>

datatype disposition = Continue | Close

definition error_frame :: "frame_header option \<Rightarrow> error_class \<Rightarrow> bytes \<Rightarrow> sent" where
  "error_frame req class message =
     (let (request_id, offset, logical_len) =
            (case req of None \<Rightarrow> (0, 0, 0) | Some h \<Rightarrow> (fh_request_id h, fh_offset h, fh_logical_len h));
          payload = payload_encode \<lparr>ep_class = class, ep_message = message\<rparr>
      in Sent_Frame (error_header request_id offset logical_len (of_nat (length payload))) payload)"

definition send_error :: "frame_header option \<Rightarrow> error_class \<Rightarrow> bytes \<Rightarrow> ('f, unit) dp" where
  "send_error req class message = dp_emit (error_frame req class message)"

definition raw_frame :: "u32 \<Rightarrow> nat \<Rightarrow> bytes \<Rightarrow> sent" where
  "raw_frame request_id offset bs =
     Sent_Frame (data_header request_id (of_nat offset) (of_nat (length bs))) bs"

text \<open>The frame a piece goes out in.\<close>

definition piece_frame ::
    "dp_env \<Rightarrow> u32 \<Rightarrow> layout \<Rightarrow> nat \<Rightarrow> bytes \<Rightarrow> aex_error + sent" where
  "piece_frame env request_id lay offset bs =
     res_bind (layout_block (dp_build env) lay offset (length bs)) (\<lambda>spec.
       case spec of
         None \<Rightarrow> Ok (raw_frame request_id offset bs)
       | Some spec \<Rightarrow>
           let codec = codec_of (dp_build env) (lay_quality lay);
               (shrank, packed) = compress (dp_build env) (dp_codecs env) codec spec bs []
           in res_bind shrank (\<lambda>shrank.
                if shrank
                then Ok (Sent_Frame
                       (data_encoded_header request_id (of_nat offset) codec (q_encoding (lay_quality lay))
                         (of_nat (length packed)) (of_nat (length bs))) packed)
                else Ok (raw_frame request_id offset bs)))"

definition send_piece ::
    "dp_env \<Rightarrow> u32 \<Rightarrow> layout \<Rightarrow> nat \<Rightarrow> bytes \<Rightarrow> 'f dp_state \<Rightarrow> (server_error + unit) \<times> 'f dp_state" where
  "send_piece env request_id lay offset bs s =
     (case piece_frame env request_id lay offset bs of
        Err e \<Rightarrow> (Err (SrvCore e), s)
      | Ok frame \<Rightarrow> emit frame s)"

text \<open>What \<open>serve\<close> is given to call: the piece goes out, and the plan is kept from expiring.\<close>

definition send_and_touch ::
    "dp_env \<Rightarrow> u32 \<Rightarrow> layout \<Rightarrow> nat \<Rightarrow> bytes \<Rightarrow> 'f dp_state \<Rightarrow> (server_error + unit) \<times> 'f dp_state" where
  "send_and_touch env request_id lay offset bs s =
     (case send_piece env request_id lay offset bs s of
        (Err e, s) \<Rightarrow> (Err e, s)
      | (Ok _, s) \<Rightarrow>
          (Ok (), s\<lparr>st_ticks := st_ticks s + 1,
                   st_transfers := transfer_touch (unat request_id) (dp_clock env (st_ticks s)) (st_transfers s)\<rparr>))"

definition dp_fetch :: "dp_env \<Rightarrow> u32 \<Rightarrow> bytes \<Rightarrow> session_id \<Rightarrow> ('f, server_error + transfer_entry) dp" where
  "dp_fetch env request_id ticket sid =
     act_bind (dp_now env) (\<lambda>now_ms s.
       let (r, tr) = fetch (dp_config env) (unat request_id) ticket sid now_ms (st_transfers s) in
       (Some (Ok r), s\<lparr>st_transfers := tr\<rparr>))"

definition dp_serve :: "dp_env \<Rightarrow> transfer_entry \<Rightarrow> frame_header \<Rightarrow> ('f, aex_error + unit) dp" where
  "dp_serve env e h s =
     (case serve (dp_f16_from_f32 env) e (send_and_touch env (fh_request_id h) (te_layout e)) (st_reader s)
             (unat (fh_offset h)) (unat (fh_logical_len h)) s of
        None \<Rightarrow> (None, s)
      | Some (r, rd, s) \<Rightarrow> (Some r, s\<lparr>st_reader := rd\<rparr>))"

definition idle_ms :: "dp_env \<Rightarrow> nat" where
  "idle_ms env = data_conn_idle_timeout_sec (cfg_limits (dp_config env)) * 1000"

definition refuse ::
    "dp_env \<Rightarrow> frame_header \<Rightarrow> error_class \<Rightarrow> server_error \<Rightarrow> disposition \<Rightarrow> ('f, disposition) dp" where
  "refuse env h class e d = act_bind (send_error (Some h) class (dp_message env e)) (\<lambda>_. act_return d)"

text \<open>What happens once the fetch has its plan.\<close>

definition answer_fetch :: "dp_env \<Rightarrow> frame_header \<Rightarrow> transfer_entry \<Rightarrow> ('f, disposition) dp" where
  "answer_fetch env h e =
     (case check_range (te_layout e) (unat (fh_offset h)) (unat (fh_logical_len h)) of
        Err e \<Rightarrow> refuse env h (aex_class e) (SrvCore e) Continue
      | Ok _ \<Rightarrow>
          let isz = itemsize (lay_dtype (te_layout e)) in
          if eps (lay_quality (te_layout e)) \<noteq> None
             \<and> (unat (fh_offset h) mod isz \<noteq> 0 \<or> unat (fh_logical_len h) mod isz \<noteq> 0)
          then refuse env h Class_Request SrvBadRequest Continue
          else act_bind (dp_serve env e h) (\<lambda>served.
            case served of
              Err e \<Rightarrow> refuse env h (aex_class e) (SrvCore e) Continue
            | Ok _ \<Rightarrow> act_return Continue))"

definition handle_fetch :: "dp_env \<Rightarrow> frame_header \<Rightarrow> session_id \<Rightarrow> ('f, disposition) dp" where
  "handle_fetch env h sid =
     (if fh_wire_len h \<noteq> of_nat TICKET_LEN then refuse env h Class_Protocol SrvProtocol Close
      else act_bind (recv (idle_ms env) TICKET_LEN) (\<lambda>ticket.
        case ticket of
          None \<Rightarrow> act_throw SrvProtocol
        | Some ticket \<Rightarrow>
            if unat (fh_logical_len h) > max_fetch_bytes (cfg_transfer (dp_config env))
            then refuse env h Class_Request SrvBadRequest Continue
            else act_bind (dp_fetch env (fh_request_id h) ticket sid) (\<lambda>fetched.
              case fetched of
                Err e \<Rightarrow>
                  refuse env h (server_class e) e (if server_class e = Class_Auth then Close else Continue)
              | Ok e \<Rightarrow> answer_fetch env h e)))"

definition handle_frame :: "dp_env \<Rightarrow> frame_header \<Rightarrow> session_id \<Rightarrow> ('f, disposition) dp" where
  "handle_frame env h sid =
     (case fh_frame_type h of
        FT_Fetch \<Rightarrow> handle_fetch env h sid
      | FT_Ping \<Rightarrow> act_bind (dp_emit (Sent_Frame (bare_header FT_Pong) [])) (\<lambda>_. act_return Continue)
      | FT_Pong \<Rightarrow> act_return Continue
      | _ \<Rightarrow> act_bind (send_error None Class_Protocol (dp_message env SrvProtocol)) (\<lambda>_. act_return Close))"

definition sessions_touch :: "dp_env \<Rightarrow> session_id \<Rightarrow> ('f, unit) dp" where
  "sessions_touch env sid =
     act_bind (dp_now env) (\<lambda>now_ms s. (Some (Ok ()), s\<lparr>st_sessions := touch_at sid now_ms (st_sessions s)\<rparr>))"

text \<open>One turn of the loop of \<open>serve_frames\<close>.\<close>

definition serve_frame :: "dp_env \<Rightarrow> session_id \<Rightarrow> ('f, disposition) dp" where
  "serve_frame env sid =
     act_bind (recv (idle_ms env) HEADER_LEN) (\<lambda>got.
       case got of
         None \<Rightarrow> act_return Close
       | Some bs \<Rightarrow>
           (case header_decode bs of
              Err e \<Rightarrow>
                act_bind (send_error None (wire_class e) (dp_message env SrvProtocol)) (\<lambda>_. act_throw SrvProtocol)
            | Ok h \<Rightarrow> act_bind (sessions_touch env sid) (\<lambda>_. handle_frame env h sid)))"

section \<open>The loop ends with its input\<close>

fun event_size :: "socket_event \<Rightarrow> nat" where
  "event_size (Got bs) = 1 + length bs"
| "event_size _ = 1"

definition in_size :: "socket_event list \<Rightarrow> nat" where "in_size evs = sum_list (map event_size evs)"

lemma in_size_simps [simp]: "in_size [] = 0" "in_size (ev # evs) = event_size ev + in_size evs"
  by (simp_all add: in_size_def)

lemma read_full_shrinks: "in_size (snd (read_full idle need since got evs)) \<le> in_size evs"
proof (induction idle need since got evs rule: read_full.induct)
  case (2 idle need since got ev evs)
  then show ?case by (cases ev) (auto simp: Let_def intro: le_SucI trans_le_add2)
qed simp

text \<open>A read that got something took it.\<close>

lemma read_full_takes:
  "length got < need \<Longrightarrow> fst (read_full idle need since got evs) = Read_All bs \<Longrightarrow>
   in_size (snd (read_full idle need since got evs)) < in_size evs"
proof (induction idle need since got evs rule: read_full.induct)
  case (2 idle need since got ev evs)
  show ?case
  proof (cases ev)
    case (Got xs)
    have "in_size (snd (read_full idle need 0 (got @ xs) evs)) \<le> in_size evs" by (rule read_full_shrinks)
    then show ?thesis using 2 Got by (auto simp: Let_def split: if_splits)
  next
    case (Quiet ms)
    then show ?thesis using 2 by (auto split: if_splits)
  next
    case Interrupted
    then show ?thesis using 2 by auto
  qed (use 2 in auto)
qed simp

lemma length_read_full:
  "length got \<le> need \<Longrightarrow> fst (read_full idle need since got evs) = Read_All bs \<Longrightarrow> length bs = need"
proof (induction idle need since got evs rule: read_full.induct)
  case (1 idle need since got)
  then show ?case by (auto split: if_splits)
next
  case (2 idle need since got ev evs)
  then show ?case by (cases ev) (auto simp: Let_def split: if_splits)
qed

lemma emit_keeps:
  "emit x s = (r, s') \<Longrightarrow> st_in s' = st_in s \<and> st_transfers s' = st_transfers s \<and> st_sessions s' = st_sessions s
    \<and> st_conns s' = st_conns s \<and> st_reader s' = st_reader s \<and> (st_sent s' = st_sent s \<or> st_sent s' = st_sent s @ [x])"
  by (auto simp: emit_def split: list.splits option.splits)

section \<open>What an action keeps\<close>

text \<open>
  A relation between the states before and after that no read of the input, no update of the registries, of the
  reader or of the clock can break, and no write of the things \<open>P\<close> allows. Every action then keeps it.
\<close>

definition dp_keeps :: "('f dp_state \<Rightarrow> 'f dp_state \<Rightarrow> bool) \<Rightarrow> ('f, 'a) dp \<Rightarrow> bool" where
  "dp_keeps R m \<longleftrightarrow> (\<forall>s. R s (snd (m s)))"

lemma dp_keepsD: "dp_keeps R m \<Longrightarrow> m s = (r, s') \<Longrightarrow> R s s'"
  unfolding dp_keeps_def by (metis snd_conv)

locale link_relation =
  fixes R :: "'f dp_state \<Rightarrow> 'f dp_state \<Rightarrow> bool" and P :: "sent \<Rightarrow> bool"
  assumes same: "R s s"
    and trans: "R s t \<Longrightarrow> R t u \<Longrightarrow> R s u"
    and input: "R s (s\<lparr>st_in := snd (read_full idle need 0 [] (st_in s))\<rparr>)"
    and sessions: "R s (s\<lparr>st_ticks := n, st_sessions := reg\<rparr>)"
    and transfers: "R s (s\<lparr>st_ticks := n, st_transfers := tr\<rparr>)"
    and reader: "R s (s\<lparr>st_reader := rd\<rparr>)"
    and failed: "R s (s\<lparr>st_fails := ks\<rparr>)"
    and written: "P x \<Longrightarrow> R s (s\<lparr>st_fails := ks, st_sent := st_sent s @ [x]\<rparr>)"
begin

lemma keeps_pure: "dp_keeps R (act_return x)" "dp_keeps R (act_throw e)" "dp_keeps R (act_of r)"
  by (simp_all add: dp_keeps_def act_return_def act_throw_def act_of_def same)

lemma keeps_bind:
  assumes "dp_keeps R m" "\<And>x. dp_keeps R (f x)"
  shows "dp_keeps R (act_bind m f)"
  unfolding dp_keeps_def
proof
  fix s
  obtain r s' where m: "m s = (r, s')" by fastforce
  have "R s s'" using assms(1) m by (rule dp_keepsD)
  moreover have "R s' (snd (f x s'))" for x using assms(2) by (simp add: dp_keeps_def)
  ultimately show "R s (snd (act_bind m f s))"
    using m trans by (auto simp: act_bind_def split: option.split sum.split)
qed

lemma keeps_recv: "dp_keeps R (recv idle need)"
  using input by (auto simp: dp_keeps_def recv_def Let_def split: prod.split) (metis snd_conv)

lemma emit_R: "P x \<Longrightarrow> R s (snd (emit x s))"
  using failed written by (auto simp: emit_def split: list.split option.split)

lemma keeps_emit: "P x \<Longrightarrow> dp_keeps R (dp_emit x)"
  using emit_R by (simp add: dp_keeps_def dp_emit_def)

lemma keeps_error: "P (error_frame req c message) \<Longrightarrow> dp_keeps R (send_error req c message)"
  unfolding send_error_def by (rule keeps_emit)

lemma keeps_refuse: "(\<And>c message. P (error_frame (Some h) c message)) \<Longrightarrow> dp_keeps R (refuse env h c e d)"
  unfolding refuse_def by (intro keeps_bind keeps_error keeps_pure)

lemma keeps_fetch: "dp_keeps R (dp_fetch env request_id ticket sid)"
  using transfers by (auto simp: dp_keeps_def dp_fetch_def act_bind_def dp_now_def split: prod.split)

lemma keeps_touch: "dp_keeps R (sessions_touch env sid)"
  using sessions by (auto simp: dp_keeps_def sessions_touch_def act_bind_def dp_now_def)

lemma keeps_send:
  assumes "\<And>x. piece_frame env i lay at bs = Ok x \<Longrightarrow> P x"
  shows "R s (snd (send_and_touch env i lay at bs s))"
proof (cases "piece_frame env i lay at bs")
  case (Inr x)
  obtain r s' where e: "emit x s = (r, s')" by fastforce
  with assms Inr emit_R have "R s s'" by (metis snd_conv)
  with e Inr show ?thesis
    using transfers trans by (auto simp: send_and_touch_def send_piece_def split: sum.split)
qed (simp add: send_and_touch_def send_piece_def same)

lemma keeps_serve:
  assumes "\<And>at bs x. piece_frame env (fh_request_id h) (te_layout e) at bs = Ok x \<Longrightarrow> P x"
  shows "dp_keeps R (dp_serve env e h)"
  unfolding dp_keeps_def
proof
  fix s
  have "send_keeps (R s) (send_and_touch env (fh_request_id h) (te_layout e))"
    using keeps_send [OF assms] trans by (auto simp: send_keeps_def)
  then show "R s (snd (dp_serve env e h s))"
    using same reader trans by (auto simp: dp_serve_def split: option.split dest!: serve_keeps)
qed

lemma keeps_answer:
  assumes "\<And>at bs x. piece_frame env (fh_request_id h) (te_layout e) at bs = Ok x \<Longrightarrow> P x"
    and "\<And>c message. P (error_frame (Some h) c message)"
  shows "dp_keeps R (answer_fetch env h e)"
  using assms unfolding answer_fetch_def Let_def
  by (auto intro!: keeps_bind keeps_serve keeps_refuse keeps_pure split: sum.split)

lemma keeps_handle_fetch:
  assumes "\<And>lay at bs x. piece_frame env (fh_request_id h) lay at bs = Ok x \<Longrightarrow> P x"
    and "\<And>c message. P (error_frame (Some h) c message)"
  shows "dp_keeps R (handle_fetch env h sid)"
  using assms unfolding handle_fetch_def
  by (auto intro!: keeps_bind keeps_recv keeps_fetch keeps_answer keeps_refuse keeps_pure split: sum.split option.split)

lemma keeps_handle_frame:
  assumes "\<And>x. P x"
  shows "dp_keeps R (handle_frame env h sid)"
  using assms unfolding handle_frame_def
  by (auto intro!: keeps_bind keeps_handle_fetch keeps_emit keeps_error keeps_pure split: frame_type.split)

end

text \<open>Nothing puts input back, and nothing but the handshake and the end of the connection counts connections.\<close>

interpretation takes: link_relation "\<lambda>s s' :: 'f dp_state. in_size (st_in s') \<le> in_size (st_in s)" "\<lambda>_. True"
  by unfold_locales (auto simp: read_full_shrinks)

interpretation conns: link_relation "\<lambda>s s' :: 'f dp_state. st_conns s' = st_conns s" "\<lambda>_. True"
  by unfold_locales auto

text \<open>What was sent stays sent, and only things of one kind are added.\<close>

definition sends_only :: "(sent \<Rightarrow> bool) \<Rightarrow> 'f dp_state \<Rightarrow> 'f dp_state \<Rightarrow> bool" where
  "sends_only P s s' \<longleftrightarrow> (\<exists>new. st_sent s' = st_sent s @ new \<and> list_all P new)"

interpretation sends: link_relation "sends_only P" P for P
  by unfold_locales (force simp: sends_only_def)+

section \<open>The loop\<close>

text \<open>A turn after which the loop goes on has read a header.\<close>

lemma serve_frame_takes:
  assumes "serve_frame env sid s = (Some (Ok Continue), s')"
  shows "in_size (st_in s') < in_size (st_in s)"
proof -
  obtain r s1 where r: "recv (idle_ms env) HEADER_LEN s = (r, s1)" by fastforce
  from assms r obtain bs where bs: "r = Some (Ok (Some bs))"
    by (auto simp: serve_frame_def act_bind_def act_return_def split: option.splits sum.splits)
  with r have "in_size (st_in s1) < in_size (st_in s)"
    using read_full_takes [of "[]" HEADER_LEN "idle_ms env" 0 "st_in s" bs]
    by (auto simp: recv_def Let_def HEADER_LEN_def split: prod.splits read_result.splits)
  moreover have "in_size (st_in s') \<le> in_size (st_in s1)"
  proof (cases "header_decode bs")
    case (Inl e)
    then show ?thesis using assms r bs
      by (auto simp: serve_frame_def act_bind_def act_throw_def split: option.splits sum.splits prod.splits)
  next
    case (Inr h)
    have "act_bind (sessions_touch env sid) (\<lambda>_. handle_frame env h sid) s1 = (Some (Ok Continue), s')"
      using assms r bs Inr by (simp add: serve_frame_def act_bind_def [of "recv _ _"])
    with takes.keeps_bind [OF takes.keeps_touch takes.keeps_handle_frame [OF TrueI]]
    show ?thesis by (rule dp_keepsD)
  qed
  ultimately show ?thesis by linarith
qed

function serve_frames :: "dp_env \<Rightarrow> session_id \<Rightarrow> ('f, unit) dp" where
  "serve_frames env sid s =
     (case serve_frame env sid s of
        (None, s) \<Rightarrow> (None, s)
      | (Some (Err e), s) \<Rightarrow> (Some (Err e), s)
      | (Some (Ok Close), s) \<Rightarrow> (Some (Ok ()), s)
      | (Some (Ok Continue), s) \<Rightarrow> serve_frames env sid s)"
  by pat_completeness auto
termination
  by (relation "measure (\<lambda>(env, sid, s). in_size (st_in s))") (auto intro: serve_frame_takes dest: sym)

declare serve_frames.simps [simp del]

text \<open>The whole of a connection, from the accepted socket to its end.\<close>

definition serve_connection :: "dp_env \<Rightarrow> ('f, unit) dp" where
  "serve_connection env s =
     (case handshake env s of
        (None, s) \<Rightarrow> (None, s)
      | (Some (Err e), s) \<Rightarrow> (Some (Err e), s)
      | (Some (Ok session), s) \<Rightarrow>
          (case serve_frames env (ss_id session) s of
             (None, s) \<Rightarrow> (None, s)
           | (Some r, s) \<Rightarrow> (Some r, close_data_conn session s)))"

section \<open>What goes out\<close>

fun is_data :: "sent \<Rightarrow> bool" where
  "is_data (Sent_Frame h _) \<longleftrightarrow> fh_frame_type h = FT_Data"
| "is_data _ \<longleftrightarrow> False"

fun sent_request :: "sent \<Rightarrow> u32" where
  "sent_request (Sent_Frame h _) = fh_request_id h"
| "sent_request _ = 0"

lemma error_frame_not_data [simp]: "\<not> is_data (error_frame req class message)"
  by (simp add: error_frame_def error_header_def Let_def split: prod.split)

text \<open>Pieces are data of the fetch they answer.\<close>

lemma piece_frame_data:
  "piece_frame env request_id lay at bs = Ok x \<Longrightarrow> is_data x \<and> sent_request x = request_id"
  by (auto simp: piece_frame_def raw_frame_def data_header_def data_encoded_header_def Let_def res_bind_Ok case_prod_unfold
      split: option.splits if_splits)

text \<open>
  No data without the right to it: the plan exists, belongs to the session of the connection, has not
  expired, and its ticket is what came with the fetch; the range is inside the stream and the limit.
\<close>

definition fetch_allowed :: "dp_env \<Rightarrow> frame_header \<Rightarrow> session_id \<Rightarrow> bytes \<Rightarrow> transfers \<Rightarrow> transfer_entry \<Rightarrow> bool" where
  "fetch_allowed env h sid ticket tr e \<longleftrightarrow>
     map_of (tr_entries tr) (unat (fh_request_id h)) = Some e \<and> te_session e = sid
     \<and> constant_time_eq (te_ticket e) ticket
     \<and> unat (fh_logical_len h) \<le> max_fetch_bytes (cfg_transfer (dp_config env))
     \<and> unat (fh_offset h) + unat (fh_logical_len h) \<le> lay_total_bytes (te_layout e)"

lemma check_range_within: "check_range lay offset len = Ok u \<Longrightarrow> offset + len \<le> lay_total_bytes lay"
  by (auto simp: check_range_def cadd_def split: option.splits if_splits)

lemma answer_fetch_sends:
  "dp_keeps (sends_only (\<lambda>x. is_data x \<longrightarrow> sent_request x = fh_request_id h
      \<and> unat (fh_offset h) + unat (fh_logical_len h) \<le> lay_total_bytes (te_layout e))) (answer_fetch env h e)"
proof (cases "check_range (te_layout e) (unat (fh_offset h)) (unat (fh_logical_len h))")
  case (Inr u)
  then have "unat (fh_offset h) + unat (fh_logical_len h) \<le> lay_total_bytes (te_layout e)" by (rule check_range_within)
  then show ?thesis by (intro sends.keeps_answer) (auto dest: piece_frame_data)
next
  case (Inl e)
  then show ?thesis by (simp add: answer_fetch_def sends.keeps_refuse)
qed

lemma recv_keeps:
  "recv idle need s = (r, s') \<Longrightarrow> st_transfers s' = st_transfers s \<and> st_sent s' = st_sent s \<and> st_sessions s' = st_sessions s
     \<and> st_conns s' = st_conns s \<and> st_fails s' = st_fails s \<and> st_reader s' = st_reader s \<and> st_ticks s' = st_ticks s
     \<and> st_in s' = snd (read_full idle need 0 [] (st_in s))
     \<and> (\<forall>bs. r = Some (Ok (Some bs)) \<longleftrightarrow> fst (read_full idle need 0 [] (st_in s)) = Read_All bs)"
  by (auto simp: recv_def Let_def split: prod.splits read_result.splits)

lemma dp_fetch_keeps:
  "dp_fetch env request_id ticket sid s = (r, s') \<Longrightarrow> st_sent s' = st_sent s \<and> st_in s' = st_in s \<and> st_sessions s' = st_sessions s
     \<and> st_conns s' = st_conns s \<and> st_fails s' = st_fails s \<and> st_reader s' = st_reader s
     \<and> r = Some (Ok (fst (fetch (dp_config env) (unat request_id) ticket sid (dp_clock env (st_ticks s)) (st_transfers s))))"
  by (auto simp: dp_fetch_def act_bind_def dp_now_def split: prod.splits)

lemma fetch_entry:
  assumes "fetch c request_id ticket sid now_ms tr = (Ok e, tr')"
  shows "\<exists>old. map_of (tr_entries tr) request_id = Some old \<and> te_session old = sid \<and> constant_time_eq (te_ticket old) ticket
    \<and> e = entry_touch now_ms old \<and> \<not> entry_expired now_ms (ttl_ms c) old"
  using assms by (auto simp: fetch_def Let_def split: option.splits if_splits)

lemma handle_fetch_data:
  assumes "handle_fetch env h sid s = (r, s')"
  shows "\<exists>new. st_sent s' = st_sent s @ new
    \<and> (\<forall>x \<in> set new. is_data x \<longrightarrow> sent_request x = fh_request_id h
        \<and> (\<exists>ticket e. fst (read_full (idle_ms env) TICKET_LEN 0 [] (st_in s)) = Read_All ticket
              \<and> fetch_allowed env h sid ticket (st_transfers s) e))"
proof -
  have quiet: ?thesis if "refuse env h c e d st = (r, s')" "st_sent st = st_sent s" for c e d st
  proof -
    have "dp_keeps (sends_only (\<lambda>x. \<not> is_data x)) (refuse env h c e d :: ('a, disposition) dp)"
      by (rule sends.keeps_refuse) simp
    from dp_keepsD [OF this that(1)] show ?thesis using that(2) by (auto simp: sends_only_def list_all_iff)
  qed
  obtain r1 s1 where recv: "recv (idle_ms env) TICKET_LEN s = (r1, s1)" by fastforce
  note keeps = recv_keeps [OF recv]
  show ?thesis
  proof (cases "fh_wire_len h \<noteq> of_nat TICKET_LEN \<or> (\<nexists>ticket. r1 = Some (Ok (Some ticket)))")
    case True
    show ?thesis
    proof (cases "fh_wire_len h = of_nat TICKET_LEN")
      case len: True
      with True have "\<nexists>ticket. r1 = Some (Ok (Some ticket))" by blast
      then have "st_sent s' = st_sent s"
        using assms recv keeps len
        by (auto simp: handle_fetch_def act_bind_def [of "recv _ _"] act_throw_def split: option.splits sum.splits)
      then show ?thesis by simp
    next
      case False
      then show ?thesis using assms quiet by (force simp: handle_fetch_def)
    qed
  next
    case False
    then obtain ticket where r1: "r1 = Some (Ok (Some ticket))" by blast
    obtain r2 s2 where f: "dp_fetch env (fh_request_id h) ticket sid s1 = (r2, s2)" by fastforce
    note keeps2 = dp_fetch_keeps [OF f]
    let ?f = "fetch (dp_config env) (unat (fh_request_id h)) ticket sid (dp_clock env (st_ticks s1)) (st_transfers s1)"
    show ?thesis
    proof (cases "unat (fh_logical_len h) > max_fetch_bytes (cfg_transfer (dp_config env)) \<or> (\<exists>e. fst ?f = Err e)")
      case True
      then show ?thesis
        using assms recv r1 False f keeps keeps2 quiet
        by (auto simp: handle_fetch_def act_bind_def [of "recv _ _"] act_bind_def [of "dp_fetch _ _ _ _"] split: if_splits)
    next
      case not_refused: False
      then obtain e tr' where ok: "?f = (Ok e, tr')" by (metis prod.collapse sum.exhaust)
      then obtain old where old: "map_of (tr_entries (st_transfers s)) (unat (fh_request_id h)) = Some old"
        "te_session old = sid" "constant_time_eq (te_ticket old) ticket" "te_layout e = te_layout old"
        using fetch_entry [OF ok] keeps by auto
      have "answer_fetch env h e s2 = (r, s')"
        using assms recv r1 False f keeps2 ok not_refused
        by (simp add: handle_fetch_def act_bind_def [of "recv _ _"] act_bind_def [of "dp_fetch _ _ _ _"])
      from dp_keepsD [OF answer_fetch_sends this] obtain new where "st_sent s' = st_sent s2 @ new"
        "\<forall>x \<in> set new. is_data x \<longrightarrow> sent_request x = fh_request_id h
          \<and> unat (fh_offset h) + unat (fh_logical_len h) \<le> lay_total_bytes (te_layout old)"
        using old(4) by (auto simp: sends_only_def list_all_iff)
      moreover have "fst (read_full (idle_ms env) TICKET_LEN 0 [] (st_in s)) = Read_All ticket" using keeps r1 by blast
      moreover have "st_sent s2 = st_sent s" using keeps keeps2 by simp
      ultimately show ?thesis
        using old not_refused by (intro exI [of _ new]) (auto simp: fetch_allowed_def not_less)
    qed
  qed
qed

section \<open>A fetch is answered whole\<close>

lemma emit_no_fail: "st_fails s = [] \<Longrightarrow> emit x s = (Ok (), s\<lparr>st_sent := st_sent s @ [x]\<rparr>)"
  by (simp add: emit_def)

text \<open>What stays as it was while data goes out.\<close>

definition same_link :: "'f dp_state \<Rightarrow> 'f dp_state \<Rightarrow> bool" where
  "same_link s s' \<longleftrightarrow> st_in s' = st_in s \<and> st_fails s' = st_fails s \<and> st_sessions s' = st_sessions s \<and> st_conns s' = st_conns s"

lemma same_link_trans: "same_link s t \<Longrightarrow> same_link t u \<Longrightarrow> same_link s u"
  by (simp add: same_link_def)

lemma send_all_frames:
  assumes "st_fails s = []" "\<And>at n. (at, n) \<in> set ps \<Longrightarrow> \<exists>x. piece_frame env i lay at (slice stream at n) = Ok x"
  shows "\<exists>s' new. send_all (send_and_touch env i lay) stream ps s = (Ok (), s') \<and> same_link s s'
    \<and> st_sent s' = st_sent s @ new
    \<and> list_all2 (\<lambda>(at, n) x. piece_frame env i lay at (slice stream at n) = Ok x) ps new"
  using assms
proof (induction ps arbitrary: s)
  case Nil
  then show ?case by (simp add: same_link_def)
next
  case (Cons p ps)
  obtain at n where p: "p = (at, n)" by fastforce
  with Cons.prems(2) obtain x where x: "piece_frame env i lay at (slice stream at n) = Ok x" by fastforce
  let ?s = "s\<lparr>st_sent := st_sent s @ [x], st_ticks := st_ticks s + 1,
      st_transfers := transfer_touch (unat i) (dp_clock env (st_ticks s)) (st_transfers s)\<rparr>"
  have send: "send_and_touch env i lay at (slice stream at n) s = (Ok (), ?s)"
    using x Cons.prems(1) by (simp add: send_and_touch_def send_piece_def emit_no_fail)
  have "same_link s ?s" by (simp add: same_link_def)
  moreover obtain s' new where "send_all (send_and_touch env i lay) stream ps ?s = (Ok (), s')" "same_link ?s s'"
    "st_sent s' = st_sent ?s @ new" "list_all2 (\<lambda>(at, n) x. piece_frame env i lay at (slice stream at n) = Ok x) ps new"
    using Cons.IH [of ?s] Cons.prems by auto
  ultimately show ?case
    using send x p by (intro exI [of _ s'] exI [of _ "x # new"]) (auto intro: same_link_trans)
qed

definition whole_elements :: "layout \<Rightarrow> frame_header \<Rightarrow> bool" where
  "whole_elements lay h \<longleftrightarrow>
     eps (lay_quality lay) = None
     \<or> unat (fh_offset h) mod itemsize (lay_dtype lay) = 0 \<and> unat (fh_logical_len h) mod itemsize (lay_dtype lay) = 0"

lemma handle_fetch_whole:
  assumes ticket: "read_full (idle_ms env) TICKET_LEN 0 [] (st_in s) = (Read_All ticket, rest)"
    and len: "fh_wire_len h = of_nat TICKET_LEN"
    and allowed: "fetch_allowed env h sid ticket (st_transfers s) e"
      "\<not> entry_expired (dp_clock env (st_ticks s)) (ttl_ms (dp_config env)) e"
    and stream: "reads_stream (dp_f16_from_f32 env) (te_dataset e) (te_layout e) stream" "lay_total_bytes (te_layout e) < U64"
    and buffer: "0 < length (fr_buffer (st_reader s))"
    and elements: "whole_elements (te_layout e) h"
    and frames: "\<And>at n. (at, n) \<in> set (cuts (length (fr_buffer (st_reader s))) (te_layout e) (unat (fh_offset h)) (unat (fh_logical_len h)))
      \<Longrightarrow> \<exists>x. piece_frame env (fh_request_id h) (te_layout e) at (slice stream at n) = Ok x"
    and fails: "st_fails s = []"
  shows "\<exists>s' new. handle_fetch env h sid s = (Some (Ok Continue), s') \<and> st_in s' = rest \<and> st_fails s' = []
    \<and> st_sent s' = st_sent s @ new
    \<and> list_all2 (\<lambda>(at, n) x. piece_frame env (fh_request_id h) (te_layout e) at (slice stream at n) = Ok x)
        (cuts (length (fr_buffer (st_reader s))) (te_layout e) (unat (fh_offset h)) (unat (fh_logical_len h))) new"
proof -
  let ?now = "dp_clock env (st_ticks s)" and ?e = "entry_touch (dp_clock env (st_ticks s)) e"
  let ?cuts = "cuts (length (fr_buffer (st_reader s))) (te_layout e) (unat (fh_offset h)) (unat (fh_logical_len h))"
  let ?s1 = "s\<lparr>st_in := rest\<rparr>"
  have recv: "recv (idle_ms env) TICKET_LEN s = (Some (Ok (Some ticket)), ?s1)" using ticket by (simp add: recv_def)
  obtain tr where f: "fetch (dp_config env) (unat (fh_request_id h)) ticket sid ?now (st_transfers s) = (Ok ?e, tr)"
    using allowed by (auto simp: fetch_def fetch_allowed_def Let_def)
  define s2 where "s2 = ?s1\<lparr>st_ticks := st_ticks s + 1, st_transfers := tr\<rparr>"
  have df: "dp_fetch env (fh_request_id h) ticket sid ?s1 = (Some (Ok (Ok ?e)), s2)"
    using f by (simp add: dp_fetch_def act_bind_def dp_now_def s2_def)
  have rng: "unat (fh_offset h) + unat (fh_logical_len h) \<le> lay_total_bytes (te_layout e)"
    using allowed(1) by (simp add: fetch_allowed_def)
  then have chk: "check_range (te_layout e) (unat (fh_offset h)) (unat (fh_logical_len h)) = Ok ()"
    using stream(2) by (auto simp: check_range_def cadd_def)
  have s2: "st_fails s2 = []" "st_reader s2 = st_reader s" "st_sent s2 = st_sent s" "st_in s2 = rest"
    using fails by (simp_all add: s2_def)
  obtain s3 new where all: "send_all (send_and_touch env (fh_request_id h) (te_layout e)) stream ?cuts s2 = (Ok (), s3)"
      "same_link s2 s3" "st_sent s3 = st_sent s2 @ new"
      "list_all2 (\<lambda>(at, n) x. piece_frame env (fh_request_id h) (te_layout e) at (slice stream at n) = Ok x) ?cuts new"
    using send_all_frames [of s2 ?cuts env "fh_request_id h" "te_layout e" stream] s2(1) frames by blast
  obtain rd where "serve (dp_f16_from_f32 env) ?e (send_and_touch env (fh_request_id h) (te_layout e)) (st_reader s)
      (unat (fh_offset h)) (unat (fh_logical_len h)) s2 = Some (Ok (Ok ()), rd, s3)"
    using serve_correct [of "dp_f16_from_f32 env" ?e stream "st_reader s" "unat (fh_offset h)" "unat (fh_logical_len h)"
        "send_and_touch env (fh_request_id h) (te_layout e)" s2] stream buffer rng all(1) by auto
  then have "answer_fetch env h ?e s2 = (Some (Ok Continue), s3\<lparr>st_reader := rd\<rparr>)"
    using chk elements s2(2)
    by (auto simp: answer_fetch_def whole_elements_def dp_serve_def act_bind_def act_return_def Let_def)
  moreover have "\<not> unat (fh_logical_len h) > max_fetch_bytes (cfg_transfer (dp_config env))"
    using allowed(1) by (simp add: fetch_allowed_def)
  ultimately have "handle_fetch env h sid s = (Some (Ok Continue), s3\<lparr>st_reader := rd\<rparr>)"
    using len recv df by (simp add: handle_fetch_def act_bind_def [of "recv _ _"] act_bind_def [of "dp_fetch _ _ _ _"])
  then show ?thesis using all(2-4) s2
    by (intro exI [of _ "s3\<lparr>st_reader := rd\<rparr>"] exI [of _ new]) (simp add: same_link_def)
qed

section \<open>Checking in and out\<close>

definition conn_count :: "session_id \<Rightarrow> 'f dp_state \<Rightarrow> nat" where
  "conn_count sid s = unwrap_or (map_of (st_conns s) sid) 0"

lemma conn_count_in [simp]: "conn_count sid (s\<lparr>st_in := evs\<rparr>) = conn_count sid s"
  by (simp add: conn_count_def)

lemma session_touch_id [simp]: "ss_id (session_touch n s) = ss_id s" "ss_granted_streams (session_touch n s) = ss_granted_streams s"
  by (simp_all add: session_touch_def)

lemma check_hello_Ok:
  assumes "check_hello env bs s = (Some (Ok session), s')"
  shows "\<exists>h old. hello_decode bs = Ok h \<and> h_version h = PROTOCOL_VERSION
    \<and> map_of (st_sessions s) (h_session_id h) = Some old \<and> session = session_touch (dp_clock env (st_ticks s)) old
    \<and> \<not> session_expired (dp_clock env (st_ticks s)) (idle_timeout_ms (dp_config env)) old
    \<and> constant_time_eq (ss_token old) (h_session_token h)
    \<and> conn_count (ss_id session) s < ss_granted_streams session
    \<and> st_conns s' = AList.update (ss_id session) (conn_count (ss_id session) s + 1) (st_conns s)
    \<and> st_sent s' = st_sent s \<and> st_fails s' = st_fails s \<and> st_in s' = st_in s"
  using assms
  by (auto simp: check_hello_def act_bind_def act_of_def act_throw_def act_return_def dp_session_get_def dp_now_def get_at_def
      open_data_conn_def conn_count_def Let_def session_touch_def split: sum.splits if_splits option.splits prod.splits)

lemma check_hello_Err:
  assumes "check_hello env bs s = (Some (Err e), s')"
  shows "st_conns s' = st_conns s \<and> st_sent s' = st_sent s"
  using assms
  by (auto simp: check_hello_def act_bind_def act_of_def act_throw_def act_return_def dp_session_get_def dp_now_def get_at_def
      open_data_conn_def Let_def session_touch_def split: sum.splits if_splits option.splits prod.splits)

lemma dp_bind_simps:
  "m s = (Some (Ok x), s1) \<Longrightarrow> act_bind m f s = f x s1"
  "m s = (Some (Err e), s1) \<Longrightarrow> act_bind m f s = (Some (Err e), s1)"
  "m s = (None, s1) \<Longrightarrow> act_bind m f s = (None, s1)"
  by (simp_all add: act_bind_def)

lemma emit_then:
  "act_bind (dp_emit x) (\<lambda>_. act_of r) s = (Some (res_bind (fst (emit x s)) (\<lambda>_. r)), snd (emit x s))"
  by (cases "emit x s") (auto simp: act_bind_def dp_emit_def act_of_def split: sum.split)

lemma handshake_cases:
  assumes "handshake env s = (Some r, s')"
  obtains (Unread) "st_conns s' = st_conns s" "st_sent s' = st_sent s" "\<exists>e. r = Err e"
  | (Refused) bs s1 e where "fst (read_full HANDSHAKE_TIMEOUT_MS HELLO_LEN 0 [] (st_in s)) = Read_All bs"
      "check_hello env bs (s\<lparr>st_in := snd (read_full HANDSHAKE_TIMEOUT_MS HELLO_LEN 0 [] (st_in s))\<rparr>) = (Some (Err e), s1)"
      "s' = snd (emit (Sent_Ready (ready_refused (server_class e))) s1)" "\<exists>e. r = Err e"
  | (Checked_in) bs s1 session where "fst (read_full HANDSHAKE_TIMEOUT_MS HELLO_LEN 0 [] (st_in s)) = Read_All bs"
      "check_hello env bs (s\<lparr>st_in := snd (read_full HANDSHAKE_TIMEOUT_MS HELLO_LEN 0 [] (st_in s))\<rparr>) = (Some (Ok session), s1)"
      "s' = snd (emit (Sent_Ready ready_accepted) s1)" "r = res_map (\<lambda>_. session) (fst (emit (Sent_Ready ready_accepted) s1))"
proof -
  obtain rd evs where rd: "read_full HANDSHAKE_TIMEOUT_MS HELLO_LEN 0 [] (st_in s) = (rd, evs)" by fastforce
  show thesis
  proof (cases rd)
    case (Read_All bs)
    then have recv: "recv HANDSHAKE_TIMEOUT_MS HELLO_LEN s = (Some (Ok (Some bs)), s\<lparr>st_in := evs\<rparr>)"
      using rd by (simp add: recv_def)
    obtain c s1 where c: "check_hello env bs (s\<lparr>st_in := evs\<rparr>) = (c, s1)" by fastforce
    note step = handshake_def dp_bind_simps(1) [where m = "recv HANDSHAKE_TIMEOUT_MS HELLO_LEN", OF recv] c emit_then
    consider "c = None" | e where "c = Some (Err e)" | session where "c = Some (Ok session)"
      by (metis option.exhaust sum.exhaust)
    then show thesis
    proof cases
      case 1
      then show thesis using assms by (simp add: step)
    next
      case 2
      then have "s' = snd (emit (Sent_Ready (ready_refused (server_class e))) s1)"
        "r = res_bind (fst (emit (Sent_Ready (ready_refused (server_class e))) s1)) (\<lambda>_. Err e)"
        using assms by (simp_all add: step)
      moreover from this(2) have "\<exists>e. r = Err e"
        by (cases "fst (emit (Sent_Ready (ready_refused (server_class e))) s1)") auto
      ultimately show thesis using Refused rd Read_All c 2 by auto
    next
      case 3
      then have "s' = snd (emit (Sent_Ready ready_accepted) s1)"
        "r = res_bind (fst (emit (Sent_Ready ready_accepted) s1)) (\<lambda>_. Ok session)"
        using assms by (simp_all add: step)
      moreover from this(2) have "r = res_map (\<lambda>_. session) (fst (emit (Sent_Ready ready_accepted) s1))"
        by (cases "fst (emit (Sent_Ready ready_accepted) s1)") auto
      ultimately show thesis using Checked_in rd Read_All c 3 by auto
    qed
  qed (use assms rd Unread in \<open>auto simp: handshake_def recv_def act_bind_def act_throw_def split: prod.splits\<close>)
qed

text \<open>Who gets past the handshake.\<close>

lemma handshake_Ok:
  assumes "handshake env s = (Some (Ok session), s')"
  shows "\<exists>bs h old. fst (read_full HANDSHAKE_TIMEOUT_MS HELLO_LEN 0 [] (st_in s)) = Read_All bs
    \<and> hello_decode bs = Ok h \<and> h_version h = PROTOCOL_VERSION
    \<and> map_of (st_sessions s) (h_session_id h) = Some old \<and> session = session_touch (dp_clock env (st_ticks s)) old
    \<and> \<not> session_expired (dp_clock env (st_ticks s)) (idle_timeout_ms (dp_config env)) old
    \<and> constant_time_eq (ss_token old) (h_session_token h)
    \<and> conn_count (ss_id session) s < ss_granted_streams session
    \<and> st_conns s' = AList.update (ss_id session) (conn_count (ss_id session) s + 1) (st_conns s)
    \<and> st_sent s' = st_sent s @ [Sent_Ready ready_accepted]"
  using assms
proof (cases rule: handshake_cases [OF assms])
  case (3 bs s1 session1)
  then have "fst (emit (Sent_Ready ready_accepted) s1) = Ok ()" "session1 = session"
    by (cases "fst (emit (Sent_Ready ready_accepted) s1)"; simp)+
  moreover from this(1) have "st_sent s' = st_sent s1 @ [Sent_Ready ready_accepted]" "st_conns s' = st_conns s1"
    using 3(3) by (auto simp: emit_def split: list.splits option.splits)
  ultimately show ?thesis using check_hello_Ok [OF 3(2)] 3(1) by (fastforce simp: conn_count_def)
qed auto

lemma serve_frame_conns:
  assumes "serve_frame env sid s = (r, s')"
  shows "st_conns s' = st_conns s"
proof -
  have "dp_keeps (\<lambda>s s'. st_conns s' = st_conns s) (serve_frame env sid :: ('a, disposition) dp)"
    unfolding serve_frame_def
    by (auto intro!: conns.keeps_bind conns.keeps_recv conns.keeps_pure conns.keeps_error conns.keeps_touch
        conns.keeps_handle_frame split: option.split sum.split)
  from dp_keepsD [OF this assms] show ?thesis .
qed

lemma serve_frames_conns: "st_conns (snd (serve_frames env sid s)) = st_conns s"
proof (induction env sid s rule: serve_frames.induct)
  case (1 env sid s)
  obtain r s' where f: "serve_frame env sid s = (r, s')" by fastforce
  then have "st_conns s' = st_conns s" by (rule serve_frame_conns)
  with f 1 show ?case
    by (subst serve_frames.simps) (auto split: option.split sum.split disposition.split)
qed

lemma emit_conns [simp]: "st_conns (snd (emit x s)) = st_conns s"
  by (simp add: emit_def split: list.split option.split)

text \<open>A connection that is counted in is counted out, unless its \<open>READY\<close> cannot be written.\<close>

lemma serve_connection_conns:
  assumes "serve_connection env s = (Some r, s')" and "st_fails s = []"
    and small: "\<And>sid session. map_of (st_sessions s) sid = Some session \<Longrightarrow> ss_granted_streams session < U32"
  shows "conn_count sid s' = conn_count sid s"
proof -
  obtain hr s1 where h: "handshake env s = (Some hr, s1)"
    using assms(1) by (auto simp: serve_connection_def split: prod.splits option.splits)
  show ?thesis
  proof (cases hr)
    case (Inl e)
    then have s': "s' = s1" using assms(1) h by (simp add: serve_connection_def)
    show ?thesis
    proof (cases rule: handshake_cases [OF h])
      case (3 bs s2 session)
      then have "st_fails s2 = []" using check_hello_Ok [OF 3(2)] assms(2) by auto
      then show ?thesis using 3 Inl by (simp add: emit_no_fail)
    qed (use s' in \<open>auto simp: conn_count_def dest: check_hello_Err\<close>)
  next
    case (Inr session)
    then have ok: "conn_count (ss_id session) s < ss_granted_streams session" "ss_granted_streams session < U32"
      "st_conns s1 = AList.update (ss_id session) (conn_count (ss_id session) s + 1) (st_conns s)"
      using handshake_Ok [OF h [unfolded Inr]] small by auto
    obtain r2 s2 where f: "serve_frames env (ss_id session) s1 = (Some r2, s2)" "s' = close_data_conn session s2"
      using assms(1) h Inr by (auto simp: serve_connection_def split: prod.splits option.splits)
    have "st_conns s2 = st_conns s1" using serve_frames_conns [of env "ss_id session" s1] f(1) by simp
    then have "st_conns s' = AList.update (ss_id session) ((conn_count (ss_id session) s + 1 + U32 - 1) mod U32) (st_conns s1)"
      using f(2) ok(3) by (simp add: close_data_conn_def Let_def update_Some_unfold)
    moreover have "(conn_count (ss_id session) s + 1 + U32 - 1) mod U32 = conn_count (ss_id session) s"
      using ok(1,2) by simp
    ultimately show ?thesis using ok(3) by (auto simp: conn_count_def update_conv)
  qed
qed

text \<open>
  \<open>READY\<close> is written after the connection was counted in, and its failure leaves the handshake without
  counting it out again.
\<close>

lemma handshake_leaks:
  assumes bs: "read_full HANDSHAKE_TIMEOUT_MS HELLO_LEN 0 [] (st_in s) = (Read_All bs, rest)"
    and ok: "check_hello env bs (s\<lparr>st_in := rest\<rparr>) = (Some (Ok session), s1)"
    and fails: "st_fails s = Some k # ks"
  shows "serve_connection env s = (Some (Err (SrvIo k)), s1\<lparr>st_fails := ks\<rparr>)
    \<and> conn_count (ss_id session) (s1\<lparr>st_fails := ks\<rparr>) = conn_count (ss_id session) s + 1"
proof -
  have c: "st_fails s1 = Some k # ks" "st_conns s1 = AList.update (ss_id session) (conn_count (ss_id session) s + 1) (st_conns s)"
    using check_hello_Ok [OF ok] fails by auto
  have "recv HANDSHAKE_TIMEOUT_MS HELLO_LEN s = (Some (Ok (Some bs)), s\<lparr>st_in := rest\<rparr>)" using bs by (simp add: recv_def)
  then have "handshake env s = (Some (Err (SrvIo k)), s1\<lparr>st_fails := ks\<rparr>)"
    using ok c(1) by (simp add: handshake_def act_bind_def [of "recv _ _"] emit_then emit_def)
  then show ?thesis using c by (simp add: serve_connection_def conn_count_def update_conv)
qed

section \<open>A server to run\<close>

text \<open>
  A build without codecs, one session with one plan: three bytes, served through a buffer of two. The properties
  are tried on it.
\<close>

definition sample_env :: dp_env where
  "sample_env = \<lparr>dp_config = default_config, dp_build = \<lparr>feat_sz = False, feat_zfp = False\<rparr>,
     dp_codecs = \<lparr>lib_deflate = (\<lambda>_. None), lib_inflate = (\<lambda>_ _. None), lib_sz_compress = (\<lambda>_ _ _ _. None),
       lib_sz_expand = (\<lambda>_ _ _. None), lib_zfp_compress = (\<lambda>_ _ _ _. None), lib_zfp_expand = (\<lambda>_ _ _ _. None)\<rparr>,
     dp_f16_from_f32 = (\<lambda>_. [0, 0]), dp_clock = (\<lambda>_. 0), dp_message = (\<lambda>_. [])\<rparr>"

definition sample_entry :: transfer_entry where
  "sample_entry = \<lparr>te_request_id = 1, te_session = replicate 16 1, te_ticket = replicate 16 9,
     te_dataset = \<lparr>ds_dtype = Uint8, ds_shape = [3], ds_read = (\<lambda>a n. Ok (slice [1, 2, 3] a n)), ds_decoded_chunk_bytes = None, ds_prepare = Ok ()\<rparr>,
     te_layout = \<lparr>lay_out_shape = [3], lay_dtype = Uint8, lay_src_dtype = Uint8, lay_total_bytes = 3, lay_quality = exact,
       lay_kind = Contiguous 0 3\<rparr>,
     te_last_used_ms = 0\<rparr>"

definition sample_state :: "socket_event list \<Rightarrow> io_kind option list \<Rightarrow> nat dp_state" where
  "sample_state evs fails = \<lparr>st_in = evs, st_fails = fails, st_sent = [], st_reader = fetch_reader_new 2,
     st_sessions = [(replicate 16 1, new_session default_config ''c'' 1 0 (replicate 16 1) (replicate 16 2))],
     st_transfers = transfers_new\<lparr>tr_entries := [(1, sample_entry)], tr_by_session := [(replicate 16 1, [1])]\<rparr>,
     st_conns = [], st_ticks = 0\<rparr>"

definition sample_hello :: hello where
  "sample_hello = hello_new (replicate 16 1) (replicate 16 2)"

lemma read_full_at_once:
  "length bs = need \<Longrightarrow> bs \<noteq> [] \<Longrightarrow> read_full idle need 0 [] (Got bs # evs) = (Read_All bs, evs)"
  by (cases evs) auto

lemma sample_read: "read_full idle HELLO_LEN 0 [] (Got (hello_encode sample_hello) # evs) = (Read_All (hello_encode sample_hello), evs)"
proof (rule read_full_at_once)
  show len: "length (hello_encode sample_hello) = HELLO_LEN"
    by (rule length_hello_encode) (simp add: hello_wf_def sample_hello_def hello_new_def)
  then show "hello_encode sample_hello \<noteq> []" by (auto simp: HELLO_LEN_def)
qed

lemma sample_check:
  "\<exists>session s1. check_hello sample_env (hello_encode sample_hello) (sample_state evs fails) = (Some (Ok session), s1)
     \<and> ss_id session = replicate 16 1"
proof -
  have "hello_decode (hello_encode sample_hello) = Ok sample_hello"
    by (rule hello_decode_encode) (simp add: hello_wf_def sample_hello_def hello_new_def)
  then show ?thesis
    by (simp add: check_hello_def act_bind_def act_of_def act_return_def dp_session_get_def dp_now_def get_at_def
        open_data_conn_def session_expired_def session_touch_def sample_state_def sample_env_def sample_hello_def hello_new_def
        new_session_def granted_def default_config_def default_limits_def constant_time_eq_iff Let_def)
qed

lemma sample_handshake:
  "\<exists>session s'. handshake sample_env (sample_state (Got (hello_encode sample_hello) # evs) []) = (Some (Ok session), s')
     \<and> ss_id session = replicate 16 1 \<and> st_in s' = evs \<and> st_fails s' = []"
proof -
  let ?s = "sample_state (Got (hello_encode sample_hello) # evs) []"
  obtain session s1 where c: "check_hello sample_env (hello_encode sample_hello) (?s\<lparr>st_in := evs\<rparr>) = (Some (Ok session), s1)"
    "ss_id session = replicate 16 1"
    using sample_check [of evs "[]"] by (auto simp: sample_state_def)
  have "recv HANDSHAKE_TIMEOUT_MS HELLO_LEN ?s = (Some (Ok (Some (hello_encode sample_hello))), ?s\<lparr>st_in := evs\<rparr>)"
    by (simp add: recv_def sample_state_def sample_read del: read_full.simps)
  moreover have "st_fails s1 = []" using check_hello_Ok [OF c(1)] by (auto simp: sample_state_def)
  moreover have "st_in s1 = evs"
    using check_hello_Ok [OF c(1)] by auto
  ultimately show ?thesis
    using c by (simp add: handshake_def act_bind_def [of "recv _ _"] emit_then emit_no_fail)
qed

lemma sample_stream:
  "reads_stream (dp_f16_from_f32 sample_env) (te_dataset sample_entry) (te_layout sample_entry) [1, 2, 3]"
  by (auto simp: reads_stream_def read_range_def read_with_def check_range_def cadd_def read_source_def wadd_def U64_def
      sample_entry_def)

end
