(* ===== verification/Client_Conn.thy ===== *)
theory Client_Conn
  imports Data_Plane
begin

text \<open>
  One data connection of the client (\<open>DataConn\<close> of \<open>aex-client/src/pool.rs\<close>): the handshake, what is sent for
  a fetch, and what is done with a frame that comes back. The socket being read is the bytes that arrive before the
  peer hangs up. A read that fails part way leaves the destination unspecified, so an error carries none.
\<close>

section \<open>Opening\<close>

text \<open>What is sent, and what comes of the answer: the bytes after \<open>READY\<close>.\<close>

definition client_handshake :: "bytes \<Rightarrow> bytes \<Rightarrow> bytes \<Rightarrow> bytes \<times> (client_error + bytes)" where
  "client_handshake session_id session_token input =
     (hello_encode (hello_new session_id session_token),
      res_bind (map_err client_of_wire (read_exact READY_LEN input)) (\<lambda>(bs, rest).
      res_bind (map_err client_of_wire (ready_decode bs)) (\<lambda>ready.
      if \<not> is_accepted ready then Err (CliData (r_status ready)) else Ok rest)))"

text \<open>
  \<open>reconnect\<close>, over the results of its connection attempts: the result it returns, and after how many
  retries. \<open>None\<close> is an attempt that has not come back.
\<close>

fun reconnect_from :: "nat \<Rightarrow> nat \<Rightarrow> (client_error + 'c) list \<Rightarrow> (nat \<times> (client_error + 'c)) option" where
  "reconnect_from attempts attempt [] = None"
| "reconnect_from attempts attempt (r # rest) =
     (case r of
        Err e \<Rightarrow>
          if is_retryable e \<and> attempt < attempts then reconnect_from attempts (attempt + 1) rest else Some (attempt, r)
      | Ok _ \<Rightarrow> Some (attempt, r))"

definition reconnect :: "nat \<Rightarrow> (client_error + 'c) list \<Rightarrow> (nat \<times> (client_error + 'c)) option" where
  "reconnect attempts rs = reconnect_from attempts 0 rs"

section \<open>Fetching\<close>

definition fetch_frame :: "u32 \<Rightarrow> bytes \<Rightarrow> u64 \<Rightarrow> u64 \<Rightarrow> bytes" where
  "fetch_frame request_id ticket offset len = header_encode (fetch_header request_id offset len) @ ticket"

text \<open>Raw is raw, and a block is smaller than what it holds.\<close>

definition sane_lengths :: "frame_header \<Rightarrow> bool" where
  "sane_lengths h \<longleftrightarrow> (if fh_codec h = Raw then fh_wire_len h = fh_logical_len h else fh_wire_len h < fh_logical_len h)"

text \<open>Where in the chunk a frame's bytes go, if they are all inside it.\<close>

definition place_in_chunk :: "frame_header \<Rightarrow> nat \<Rightarrow> nat \<Rightarrow> nat option" where
  "place_in_chunk h offset len =
     filter_opt (\<lambda>start. case cadd start (unat (fh_logical_len h)) of None \<Rightarrow> False | Some end \<Rightarrow> end \<le> len)
       (csub (unat (fh_offset h)) offset)"

definition receive_data ::
    "build \<Rightarrow> codec_lib \<Rightarrow> frame_header \<Rightarrow> u32 \<Rightarrow> nat \<Rightarrow> bytes \<Rightarrow> bytes \<Rightarrow> client_error + (bytes \<times> bytes)" where
  "receive_data b lib h request_id offset dst input =
     (if fh_request_id h \<noteq> request_id then Err CliProtocol
      else if \<not> codec_supported b (fh_codec h) then Err CliProtocol
      else if \<not> sane_lengths h then Err CliProtocol
      else case place_in_chunk h offset (length dst) of
        None \<Rightarrow> Err CliProtocol
      | Some start \<Rightarrow>
          if fh_codec h = Raw then
            res_map (\<lambda>(bs, rest). (write_at dst start bs, rest))
              (map_err client_of_wire (read_exact (unat (fh_logical_len h)) input))
          else
            res_bind (map_err client_of_wire (read_exact (unat (fh_wire_len h)) input)) (\<lambda>(packed, rest).
            res_map (\<lambda>bs. (write_at dst start bs, rest))
              (map_err (\<lambda>_. CliProtocol) (decompress_into b lib (fh_codec h) packed (unat (fh_logical_len h))))))"

definition receive_error :: "frame_header \<Rightarrow> bytes \<Rightarrow> client_error + (client_error \<times> bytes)" where
  "receive_error h input =
     res_bind (map_err client_of_wire (read_exact (unat (fh_wire_len h)) input)) (\<lambda>(payload, rest).
     res_map (\<lambda>e. (CliData (ep_class e), rest)) (map_err client_of_wire (payload_decode payload)))"

section \<open>Facts\<close>

lemma read_exact_Ok: "read_exact n s = Ok (xs, rest) \<longleftrightarrow> n \<le> length s \<and> xs = take n s \<and> rest = drop n s"
  by (auto simp: read_exact_def)

text \<open>A frame is written inside the chunk it was asked for and nowhere else.\<close>

lemma receive_data_within:
  assumes "receive_data b lib h request_id offset dst input = Ok (dst', rest)"
    and expand: "\<And>src n bs. decompress_into b lib (fh_codec h) src n = Ok bs \<Longrightarrow> length bs = n"
  shows "\<exists>start bs. unat (fh_offset h) = offset + start \<and> length bs = unat (fh_logical_len h)
    \<and> start + length bs \<le> length dst \<and> dst' = write_at dst start bs \<and> length dst' = length dst"
proof -
  from assms(1) obtain start where start: "place_in_chunk h offset (length dst) = Some start"
    by (auto simp: receive_data_def split: if_splits option.splits)
  then have place: "unat (fh_offset h) = offset + start" "start + unat (fh_logical_len h) \<le> length dst"
    by (auto simp: place_in_chunk_def filter_opt_Some csub_Some cadd_Some split: option.splits)
  obtain bs where bs: "dst' = write_at dst start bs" "length bs = unat (fh_logical_len h)"
    using assms start
    by (auto simp: receive_data_def res_map_Ok res_bind_Ok read_exact_Ok split: if_splits)
  then show ?thesis using place by (intro exI [of _ start] exI [of _ bs]) simp
qed

lemma place_in_chunk_at:
  assumes "offset \<le> at" "at + n \<le> offset + len" "at + n < U64" "unat (fh_offset h) = at" "unat (fh_logical_len h) = n"
  shows "place_in_chunk h offset len = Some (at - offset)"
  using assms by (auto simp: place_in_chunk_def csub_def cadd_def)

lemma unat_of_nat_U64: "n < U64 \<Longrightarrow> unat (of_nat n :: u64) = n"
  by (simp add: unat_of_nat U64_def)

text \<open>What a lossless piece of the server carries reaches its place.\<close>

definition lossless :: "build \<Rightarrow> layout \<Rightarrow> bool" where
  "lossless b lay \<longleftrightarrow> codec_of b (lay_quality lay) \<in> {Raw, Gzip} \<and> eps (lay_quality lay) = None"

definition inflates :: "codec_lib \<Rightarrow> codec_lib \<Rightarrow> bool" where
  "inflates server client \<longleftrightarrow>
     (\<forall>src stream. lib_deflate server src = Some stream \<longrightarrow> lib_inflate client stream (length src) = Some src)"

lemma piece_received:
  assumes piece: "piece_frame env request_id lay at bs = Ok (Sent_Frame h payload)"
    and kind: "lossless (dp_build env) lay" "inflates (dp_codecs env) lib"
    and inside: "offset \<le> at" "at + length bs \<le> offset + length dst" "at + length bs < U64"
  shows "receive_data b lib h request_id offset dst (payload @ rest) = Ok (write_at dst (at - offset) bs, rest)
    \<and> fh_frame_type h = FT_Data \<and> unat (fh_logical_len h) = length bs"
proof -
  let ?codec = "codec_of (dp_build env) (lay_quality lay)"
  have small: "length bs < U64" "at < U64" using inside(3) by linarith+
  have raw: ?thesis if "Sent_Frame h payload = raw_frame request_id at bs"
    using that inside small place_in_chunk_at [OF inside(1,2,3), of h]
    by (auto simp: raw_frame_def receive_data_def data_header_def sane_lengths_def unat_of_nat_U64)
  show ?thesis
  proof (cases "?codec = Raw")
    case True
    then show ?thesis using piece raw by (simp add: piece_frame_def layout_block_def)
  next
    case False
    with kind(1) have gzip: "?codec = Gzip" by (auto simp: lossless_def)
    then obtain spec where spec: "for_range (lay_out_shape lay) (lay_dtype lay) 0 at (length bs) = Ok spec"
      using piece kind(1) by (auto simp: piece_frame_def layout_block_def lossless_def res_bind_Ok res_map_Ok)
    obtain shrank packed where c: "compress (dp_build env) (dp_codecs env) Gzip spec bs [] = (shrank, packed)" by fastforce
    from piece gzip spec kind(1) c have out: "res_bind shrank (\<lambda>shrank. if shrank
          then Ok (Sent_Frame (data_encoded_header request_id (of_nat at) Gzip (q_encoding (lay_quality lay))
            (of_nat (length packed)) (of_nat (length bs))) packed)
          else Ok (raw_frame request_id at bs)) = Ok (Sent_Frame h payload)"
      by (simp add: piece_frame_def layout_block_def lossless_def Let_def)
    then consider "shrank = Ok True" | "shrank = Ok False" by (auto simp: res_bind_Ok)
    then show ?thesis
    proof cases
      case 1
      then have h: "h = data_encoded_header request_id (of_nat at) Gzip (q_encoding (lay_quality lay))
          (of_nat (length packed)) (of_nat (length bs))" "payload = packed"
        using out by auto
      have packed: "length packed < length bs" using compress_Ok(1) c 1 by blast
      have "inflates (dp_codecs env) lib" by (fact kind(2))
      obtain stream where s: "packed = block_encode spec @ stream" "lib_deflate (dp_codecs env) bs = Some stream"
        using compress_Ok(3) [of "dp_build env" "dp_codecs env" Gzip spec bs "[]" packed] c 1 by (auto simp: gzip_compress_def)
      have d: "decompress_into b lib Gzip packed (length bs) = Ok bs"
        unfolding s(1)
        using decompress_stream [of spec "length bs" b lib Gzip stream] for_range_ok [OF spec small(1)] s(2) kind(2)
        by (simp add: inflates_def gzip_expand_def f64_is_finite_def f64_lt_zero_def f64_exponent_def f64_sign_def)
      have "(of_nat (length packed) :: u64) < of_nat (length bs)"
        using packed small by (simp add: word_less_nat_alt unat_of_nat_U64)
      then show ?thesis
        using h d inside small packed place_in_chunk_at [OF inside(1,2,3), of h]
        by (simp add: receive_data_def data_encoded_header_def sane_lengths_def unat_of_nat_U64)
    next
      case 2
      then show ?thesis using out raw by simp
    qed
  qed
qed

section \<open>A chunk received whole\<close>

text \<open>
  One chunk on a connection with nothing else outstanding: frames are read and their data put in place until as
  many bytes were counted as the chunk has.
\<close>

lemma read_frame_header_Ok: "read_frame_header s = Ok (h, rest) \<Longrightarrow> length rest < length s"
  by (auto simp: read_frame_header_def res_bind_Ok res_map_Ok read_exact_Ok HEADER_LEN_def split: prod.splits)

lemma receive_data_shrinks: "receive_data b lib h request_id offset dst input = Ok (dst', rest) \<Longrightarrow> length rest \<le> length input"
  by (auto simp: receive_data_def res_map_Ok res_bind_Ok read_exact_Ok split: if_splits option.splits)

function receive_chunk ::
    "build \<Rightarrow> codec_lib \<Rightarrow> u32 \<Rightarrow> nat \<Rightarrow> nat \<Rightarrow> bytes \<Rightarrow> bytes \<Rightarrow> client_error + (bytes \<times> bytes)" where
  "receive_chunk b lib request_id offset received dst input =
     (if received \<ge> length dst then Ok (dst, input)
      else case read_frame_header input of
        Err e \<Rightarrow> Err (client_of_wire e)
      | Ok (h, rest) \<Rightarrow>
          (case fh_frame_type h of
             FT_Data \<Rightarrow>
               (case receive_data b lib h request_id offset dst rest of
                  Err e \<Rightarrow> Err e
                | Ok (dst', rest') \<Rightarrow>
                    receive_chunk b lib request_id offset (received + unat (fh_logical_len h)) dst' rest')
           | FT_Error \<Rightarrow> res_bind (receive_error h rest) (\<lambda>(e, _). Err e)
           | FT_Ping \<Rightarrow> receive_chunk b lib request_id offset received dst rest
           | FT_Pong \<Rightarrow> receive_chunk b lib request_id offset received dst rest
           | FT_Fetch \<Rightarrow> Err CliProtocol))"
  by pat_completeness auto
termination
  by (relation "measure (\<lambda>(b, lib, request_id, offset, received, dst, input). length input)")
    (auto dest!: read_frame_header_Ok receive_data_shrinks)

declare receive_chunk.simps [simp del]

fun sent_bytes :: "sent \<Rightarrow> bytes" where
  "sent_bytes (Sent_Ready r) = ready_encode r"
| "sent_bytes (Sent_Frame h payload) = header_encode h @ payload"

lemma read_frame_header_append: "read_frame_header (header_encode h @ rest) = Ok (h, rest)"
  by (simp add: read_frame_header_def header_decode_encode)

lemma pieces_received:
  assumes "list_all2 (\<lambda>(at, n) x. piece_frame env i lay at (slice stream at n) = Ok x) ps frames"
    and "tiles (offset + received) (length dst - received) ps" "received \<le> length dst"
    and "offset + length dst \<le> length stream" "length stream < U64"
    and "slice dst 0 received = slice stream offset received"
    and kind: "lossless (dp_build env) lay" "inflates (dp_codecs env) lib"
  shows "receive_chunk b lib i offset received dst (concat (map sent_bytes frames) @ rest)
    = Ok (slice stream offset (length dst), rest)"
  using assms(1-6)
proof (induction ps frames arbitrary: received dst rule: list_all2_induct)
  case Nil
  then have "received = length dst" by simp
  then show ?case using Nil.prems by (subst receive_chunk.simps) (simp add: slice_def)
next
  case (Cons p ps x frames)
  obtain at n where p: "p = (at, n)" by fastforce
  let ?bs = "slice stream at n"
  from Cons.prems p have t: "at = offset + received" "0 < n" "received + n \<le> length dst"
    "tiles (offset + (received + n)) (length dst - (received + n)) ps"
    by (auto simp: add.assoc)
  then have len: "length ?bs = n" using Cons.prems by simp
  obtain h payload where x: "x = Sent_Frame h payload"
    using Cons.hyps(1) p by (cases x) (auto dest: piece_frame_data)
  have got: "receive_data b lib h i offset dst (payload @ concat (map sent_bytes frames) @ rest)
      = Ok (write_at dst received ?bs, concat (map sent_bytes frames) @ rest)"
      "fh_frame_type h = FT_Data" "unat (fh_logical_len h) = n"
    using piece_received [of env i lay at ?bs h payload lib offset dst b "concat (map sent_bytes frames) @ rest"]
      Cons.hyps(1) Cons.prems p x kind t(1,3) len by auto
  let ?dst = "write_at dst received ?bs"
  have dst: "length ?dst = length dst" using t(3) len by simp
  have "slice ?dst 0 (received + n) = slice dst 0 received @ ?bs"
    using take_write_at [of received dst ?bs] t(3) len by (simp add: slice_def)
  then have "slice ?dst 0 (received + n) = slice stream offset (received + n)"
    using Cons.prems(5) t(1) by (simp add: slice_add)
  then have "receive_chunk b lib i offset (received + n) ?dst (concat (map sent_bytes frames) @ rest)
      = Ok (slice stream offset (length dst), rest)"
    using Cons.IH [of "received + n" ?dst] Cons.prems t dst by simp
  then show ?case
    using x got t(2,3) by (subst receive_chunk.simps) (simp add: read_frame_header_append)
qed

text \<open>From the server's plan to the client's buffer.\<close>

lemma fetch_end_to_end_lemma:
  assumes ticket: "read_full (idle_ms env) TICKET_LEN 0 [] (st_in s) = (Read_All ticket, evs)"
    and h: "h = fetch_header i offset len" "unat len = length dst"
    and allowed: "fetch_allowed env h sid ticket (st_transfers s) e"
      "\<not> entry_expired (dp_clock env (st_ticks s)) (ttl_ms (dp_config env)) e"
    and stream: "reads_stream (dp_f16_from_f32 env) (te_dataset e) (te_layout e) stream" "lay_total_bytes (te_layout e) < U64"
    and buffer: "0 < length (fr_buffer (st_reader s))"
    and kind: "lossless (dp_build env) (te_layout e)" "inflates (dp_codecs env) lib"
    and frames: "\<And>at n. (at, n) \<in> set (cuts (length (fr_buffer (st_reader s))) (te_layout e) (unat offset) (unat len))
      \<Longrightarrow> \<exists>x. piece_frame env i (te_layout e) at (slice stream at n) = Ok x"
    and fails: "st_fails s = []"
  shows "\<exists>s' new. handle_fetch env h sid s = (Some (Ok Continue), s') \<and> st_in s' = evs \<and> st_sent s' = st_sent s @ new
    \<and> receive_chunk b lib i (unat offset) 0 dst (concat (map sent_bytes new) @ rest) = Ok (slice stream (unat offset) (length dst), rest)"
proof -
  let ?cuts = "cuts (length (fr_buffer (st_reader s))) (te_layout e) (unat offset) (unat len)"
  have hs: "fh_request_id h = i" "fh_offset h = offset" "fh_logical_len h = len" "fh_wire_len h = of_nat TICKET_LEN"
    using h(1) by (simp_all add: fetch_header_def)
  have "whole_elements (te_layout e) h" using kind(1) by (simp add: whole_elements_def lossless_def)
  then obtain s' new where run: "handle_fetch env h sid s = (Some (Ok Continue), s')" "st_in s' = evs" "st_sent s' = st_sent s @ new"
    and new: "list_all2 (\<lambda>(at, n) x. piece_frame env i (te_layout e) at (slice stream at n) = Ok x) ?cuts new"
    using handle_fetch_whole [OF ticket hs(4) allowed stream buffer _ _ fails] frames hs by auto
  have "unat offset + length dst \<le> length stream"
    using allowed(1) stream(1) hs h(2) by (simp add: fetch_allowed_def reads_stream_def)
  then have "receive_chunk b lib i (unat offset) 0 dst (concat (map sent_bytes new) @ rest) = Ok (slice stream (unat offset) (length dst), rest)"
    using pieces_received [OF new, of "unat offset" 0 dst lib b rest] cuts_tiles [OF buffer] stream kind h(2)
    by (simp add: reads_stream_def)
  then show ?thesis using run by blast
qed

end
