(* ===== verification/Client_Plan.thy ===== *)
theory Client_Plan
  imports Convert
begin

text \<open>
  The client's side of a transfer: its settings (\<open>aex-client/src/config.rs\<close>), the plan a server's reply is
  turned into and the chunks it is fetched in (\<open>aex-client/src/transfer.rs\<close>), and the choice of the
  chunk size (\<open>aex-client/src/client.rs\<close>). Durations and throughput figures are left out.
\<close>

section \<open>Settings\<close>

definition CLIENT_DEFAULT_STREAMS :: nat where "CLIENT_DEFAULT_STREAMS = 8"
definition DEFAULT_CREDIT :: nat where "DEFAULT_CREDIT = 16"

record client_config =
  cc_streams :: nat
  cc_client_name :: string
  cc_connect_timeout_ms :: nat
  cc_max_message_bytes :: nat
  cc_chunk_bytes :: nat
  cc_credit :: nat
  cc_max_retries :: nat
  cc_data_endpoint :: "string option"

definition client_default :: "string \<Rightarrow> client_config" where
  "client_default default_client_name =
     \<lparr>cc_streams = CLIENT_DEFAULT_STREAMS, cc_client_name = default_client_name,
      cc_connect_timeout_ms = 10 * 1000, cc_max_message_bytes = 4 * 1024 * 1024,
      cc_chunk_bytes = 0, cc_credit = DEFAULT_CREDIT, cc_max_retries = 3, cc_data_endpoint = None\<rparr>"

text \<open>\<open>parse_int\<close> stands for \<open>str::parse\<close> at an unsigned type with the given bound.\<close>

definition with_env ::
    "(nat \<Rightarrow> string \<Rightarrow> nat option) \<Rightarrow> (string \<Rightarrow> string option) \<Rightarrow> client_config \<Rightarrow> client_config" where
  "with_env parse_int lookup c =
     (let number = (\<lambda>bound name old. unwrap_or (Option.bind (lookup name) (parse_int bound)) old) in
      \<lparr>cc_streams = number U32 ''AEX_STREAMS'' (cc_streams c),
       cc_client_name = unwrap_or (lookup ''AEX_CLIENT_NAME'') (cc_client_name c),
       cc_connect_timeout_ms = number U64 ''AEX_CONNECT_TIMEOUT_MS'' (cc_connect_timeout_ms c),
       cc_max_message_bytes = number U64 ''AEX_MAX_MESSAGE_BYTES'' (cc_max_message_bytes c),
       cc_chunk_bytes = number U64 ''AEX_CHUNK_BYTES'' (cc_chunk_bytes c),
       cc_credit = number U32 ''AEX_CREDIT'' (cc_credit c),
       cc_max_retries = number U32 ''AEX_MAX_RETRIES'' (cc_max_retries c),
       cc_data_endpoint =
         (case lookup ''AEX_DATA_ENDPOINT'' of Some v \<Rightarrow> Some v | None \<Rightarrow> cc_data_endpoint c)\<rparr>)"

section \<open>A plan\<close>

text \<open>The wire's \<open>TransferPlan\<close>, and the client's.\<close>

record proto_plan =
  pp_request_id :: nat
  pp_ticket :: bytes
  pp_dtype :: int
  pp_shape :: "int list"
  pp_total_bytes :: nat
  pp_codec :: u32
  pp_applied_quality :: "proto_quality option"
  pp_inline_data :: bytes

record plan =
  pl_request_id :: nat
  pl_ticket :: bytes
  pl_dtype :: dtype
  pl_shape :: "nat list"
  pl_total_bytes :: nat
  pl_applied_quality :: quality_spec
  pl_requested_quality :: quality_spec
  pl_inline_data :: bytes

definition shape_from_proto :: "int list \<Rightarrow> client_error + nat list" where
  "shape_from_proto dims = res_traverse (\<lambda>n. if n < 0 then Err CliProtocol else Ok (nat n)) dims"

definition nbytes :: "nat list \<Rightarrow> dtype \<Rightarrow> nat" where
  "nbytes dims d = foldl sat_mul (itemsize d) dims"

definition is_inline :: "plan \<Rightarrow> bool" where "is_inline p \<longleftrightarrow> pl_request_id p = 0"

definition plan_check :: "plan \<Rightarrow> client_error + unit" where
  "plan_check p =
     (let expected = nbytes (pl_shape p) (pl_dtype p) in
      if expected \<noteq> pl_total_bytes p then Err CliProtocol
      else if is_inline p \<and> length (pl_inline_data p) \<noteq> pl_total_bytes p then Err CliProtocol
      else Ok ())"

definition plan_from_proto :: "quality_spec \<Rightarrow> proto_plan \<Rightarrow> client_error + plan" where
  "plan_from_proto requested pp =
     res_bind (map_err (\<lambda>_. CliProtocol) (dtype_from_i32 (pp_dtype pp))) (\<lambda>d.
     res_bind (shape_from_proto (pp_shape pp)) (\<lambda>dims.
     res_bind (if pp_request_id pp = 0 then Ok (replicate 16 0)
               else if length (pp_ticket pp) \<noteq> 16 then Err CliProtocol
               else Ok (pp_ticket pp)) (\<lambda>ticket.
       let p = \<lparr>pl_request_id = pp_request_id pp, pl_ticket = ticket, pl_dtype = d, pl_shape = dims,
                pl_total_bytes = pp_total_bytes pp,
                pl_applied_quality =
                  (quality_from_proto (pp_applied_quality pp))\<lparr>q_codec := codec_from_u32 (pp_codec pp)\<rparr>,
                pl_requested_quality = requested, pl_inline_data = pp_inline_data pp\<rparr>
       in res_bind (plan_check p) (\<lambda>_. Ok p))))"

text \<open>\<open>(0..total).step_by(chunk)\<close>, each offset with its length.\<close>

definition plan_chunks :: "plan \<Rightarrow> nat \<Rightarrow> (nat \<times> nat) list" where
  "plan_chunks p chunk_bytes =
     (let chunk_bytes = max chunk_bytes 1 in
      map (\<lambda>k. (k * chunk_bytes, min chunk_bytes (pl_total_bytes p - k * chunk_bytes)))
        [0..<div_ceil (pl_total_bytes p) chunk_bytes])"

section \<open>The chunk size\<close>

definition MIN_CHUNK_BYTES :: nat where "MIN_CHUNK_BYTES = 256 * 1024"

definition split_for_streams :: "nat \<Rightarrow> nat \<Rightarrow> nat \<Rightarrow> nat" where
  "split_for_streams chunk_bytes total_bytes streams =
     (let streams = max streams 1 in
      if div_ceil total_bytes chunk_bytes \<ge> streams then chunk_bytes
      else min (max (div_ceil total_bytes streams) MIN_CHUNK_BYTES) chunk_bytes)"

record session_info =
  si_granted_streams :: nat
  si_default_chunk_bytes :: nat
  si_max_fetch_bytes :: nat
  si_max_fancy_indices :: nat

definition clamp :: "nat \<Rightarrow> nat \<Rightarrow> nat \<Rightarrow> nat" where
  "clamp n low high = (if n < low then low else if n > high then high else n)"

definition choose_chunk_bytes :: "client_config \<Rightarrow> session_info \<Rightarrow> nat \<Rightarrow> nat \<Rightarrow> nat" where
  "choose_chunk_bytes c si streams total_bytes =
     (let ceiling = max (si_max_fetch_bytes si) 1 in
      if cc_chunk_bytes c \<noteq> 0 then clamp (cc_chunk_bytes c) 1 ceiling
      else split_for_streams (clamp (si_default_chunk_bytes si) 1 ceiling) total_bytes streams)"

text \<open>What the client asks for is what its own build can expand.\<close>

definition expandable :: "build \<Rightarrow> quality_spec \<Rightarrow> quality_spec" where
  "expandable b q =
     (if encoding_supported b (q_encoding q) \<and> codec_supported b (codec_of b q) then q else exact)"

section \<open>Endpoints\<close>

definition rsplit_once :: "char \<Rightarrow> string \<Rightarrow> (string \<times> string) option" where
  "rsplit_once c s =
     (if c \<in> set s
      then Some (rev (tl (dropWhile (\<lambda>x. x \<noteq> c) (rev s))), rev (takeWhile (\<lambda>x. x \<noteq> c) (rev s)))
      else None)"

text \<open>\<open>is_ip\<close> is \<open>parse::<IpAddr>().is_ok()\<close>, and \<open>parse_int\<close> as above.\<close>

definition strip_brackets :: "(string \<Rightarrow> bool) \<Rightarrow> string \<Rightarrow> string" where
  "strip_brackets is_ip host =
     (if host \<noteq> [] \<and> hd host = CHR ''['' \<and> tl host \<noteq> [] \<and> last (tl host) = CHR '']''
         \<and> is_ip (butlast (tl host))
      then butlast (tl host) else host)"

definition parse_endpoint ::
    "(string \<Rightarrow> bool) \<Rightarrow> (nat \<Rightarrow> string \<Rightarrow> nat option) \<Rightarrow> string \<Rightarrow> client_error + (string \<times> nat)" where
  "parse_endpoint is_ip parse_int endpoint =
     ok_or
       (filter_opt (\<lambda>(host, _). host \<noteq> [])
         (Option.bind (rsplit_once (CHR '':'') endpoint) (\<lambda>(host, port).
            map_option (\<lambda>port. (strip_brackets is_ip host, port)) (parse_int (2 ^ 16) port))))
       CliBadRequest"

section \<open>Chunks cover the stream\<close>

text \<open>The ranges follow each other from \<open>at\<close> to \<open>stop\<close>, none of them empty.\<close>

fun covers :: "nat \<Rightarrow> nat \<Rightarrow> (nat \<times> nat) list \<Rightarrow> bool" where
  "covers at stop [] \<longleftrightarrow> at = stop"
| "covers at stop ((offset, len) # rest) \<longleftrightarrow> offset = at \<and> 0 < len \<and> covers (at + len) stop rest"

lemma covers_append: "covers a c (xs @ ys) \<longleftrightarrow> (\<exists>b. covers a b xs \<and> covers b c ys)"
  by (induction xs arbitrary: a) auto

lemma covers_le: "covers at stop cs \<Longrightarrow> at \<le> stop"
  by (induction at stop cs rule: covers.induct) auto

lemma covers_mem: "covers at stop cs \<Longrightarrow> (offset, len) \<in> set cs \<Longrightarrow> at \<le> offset \<and> offset + len \<le> stop \<and> 0 < len"
  by (induction at stop cs rule: covers.induct) (auto dest: covers_le)

lemma step_covers:
  assumes "0 < (c :: nat)" "k * c < n + c"
  shows "covers 0 (min (k * c) n) (map (\<lambda>k. (k * c, min c (n - k * c))) [0..<k])"
  using assms
proof (induction k)
  case (Suc k)
  then have "k * c < n" by simp
  then have "min (k * c) n = k * c" "min (Suc k * c) n = k * c + min c (n - k * c)"
    "0 < min c (n - k * c)" using Suc.prems(1) by auto
  then show ?case using Suc by (auto simp: covers_append)
qed simp

lemma plan_chunks_cover: "covers 0 (pl_total_bytes p) (plan_chunks p chunk_bytes)"
proof -
  let ?c = "max chunk_bytes 1" and ?total = "pl_total_bytes p"
  let ?k = "div_ceil ?total ?c"
  have b: "?total \<le> ?k * ?c" "?k * ?c < ?total + ?c" using div_ceil_bounds [of ?c ?total] by simp_all
  have "covers 0 (min (?k * ?c) ?total) (plan_chunks p chunk_bytes)"
    unfolding plan_chunks_def Let_def by (rule step_covers) (use b in simp_all)
  then show ?thesis using b(1) by (simp add: min_absorb2)
qed

lemma plan_chunks_le: "(offset, len) \<in> set (plan_chunks p chunk_bytes) \<Longrightarrow> len \<le> max chunk_bytes 1"
  by (auto simp: plan_chunks_def Let_def)

lemma choose_chunk_bytes_bounds:
  "choose_chunk_bytes c si streams total_bytes \<le> max (si_max_fetch_bytes si) 1"
  by (auto simp: choose_chunk_bytes_def split_for_streams_def clamp_def Let_def)

lemma plan_chunks_bounds:
  "\<forall>(offset, len) \<in> set (plan_chunks p (choose_chunk_bytes c si streams total_bytes)).
     0 < len \<and> len \<le> max (si_max_fetch_bytes si) 1"
  using plan_chunks_le covers_mem [OF plan_chunks_cover] choose_chunk_bytes_bounds [of c si streams total_bytes]
  by (fastforce intro: le_trans)

end
