(* ===== verification/Pool.thy ===== *)
theory Pool
  imports Client_Conn Client_Plan "HOL-Library.Multiset"
begin

text \<open>
  The client's transfer over its connections (\<open>DataPool::fetch\<close> and \<open>Transfer\<close> in \<open>aex-client/src/pool.rs\<close>).
  The threads share a queue of chunks under one lock and a condition variable; each has its own connection and the
  chunks it has in flight. A step is one thread's: one section under the lock, with what the thread does to its own
  data and slices around it. \<open>sh_wakes\<close> counts the calls of \<open>notify_all\<close>. What the server sends, and when a
  connection fails, is open. \<open>sh_done\<close> and \<open>sh_lost\<close> are ghosts: the chunks that were completed, and those
  that were dropped because the transfer is failing.
\<close>

section \<open>State\<close>

record chunk =
  ck_part :: nat
  ck_offset :: nat
  ck_len :: nat
  ck_attempts :: nat

record in_flight =
  fl_chunk :: chunk
  fl_slice :: scatter_slice
  fl_received :: nat

record fetch_spec =
  fs_credit :: nat
  fs_max_retries :: nat

record fetch_part =
  fp_request_id :: u32
  fp_ticket :: bytes
  fp_chunks :: "(nat \<times> nat) list"
  fp_dst :: bytes

record part =
  pt_request_id :: u32
  pt_ticket :: bytes
  pt_scatter :: scatter

record shared =
  sh_queue :: "chunk list"
  sh_remaining :: nat
  sh_live :: nat
  sh_retries :: nat
  sh_error :: "client_error option"
  sh_last_conn_error :: "client_error option"
  sh_parts :: "part list"
  sh_wire_bytes :: nat
  sh_wakes :: nat
  sh_done :: "chunk list"
  sh_lost :: "chunk list"

text \<open>
  Where a thread is: at the top of \<open>drive\<close>; opening a connection; with chunks taken off the queue and not
  asked for; in the condition variable; waiting for a frame; dealing with an error of its connection, with
  whether a chunk has used up its retries; about to leave; gone.
\<close>

datatype phase =
  Ready | Reconnecting | Topping "chunk list" | Asleep | Reading | Breaking client_error bool
| Leaving "client_error option" | Gone

record worker =
  wk_conn :: bool
  wk_flight :: "in_flight list"
  wk_phase :: phase

section \<open>Operations under the lock\<close>

definition notify_all :: "shared \<Rightarrow> shared" where
  "notify_all sh = sh\<lparr>sh_wakes := sh_wakes sh + 1\<rparr>"

definition leave :: "client_error option \<Rightarrow> shared \<Rightarrow> shared" where
  "leave conn_error sh =
     notify_all (sh\<lparr>sh_live := sh_live sh - 1,
       sh_last_conn_error := (if conn_error \<noteq> None then conn_error else sh_last_conn_error sh)\<rparr>)"

definition complete :: "chunk \<Rightarrow> shared \<Rightarrow> shared" where
  "complete c sh =
     (let sh = sh\<lparr>sh_remaining := sh_remaining sh - 1, sh_done := c # sh_done sh\<rparr>
      in if sh_remaining sh = 0 then notify_all sh else sh)"

definition give_back :: "chunk list \<Rightarrow> shared \<Rightarrow> shared" where
  "give_back cs sh = (if cs = [] then sh else notify_all (sh\<lparr>sh_queue := foldr (#) cs (sh_queue sh)\<rparr>))"

definition lose :: "chunk list \<Rightarrow> shared \<Rightarrow> shared" where
  "lose cs sh = sh\<lparr>sh_lost := cs @ sh_lost sh\<rparr>"

definition retry :: "fetch_spec \<Rightarrow> chunk \<Rightarrow> bool \<Rightarrow> shared \<Rightarrow> bool \<times> shared" where
  "retry spec c charge sh =
     (let c = c\<lparr>ck_attempts := ck_attempts c + of_bool charge\<rparr> in
      if ck_attempts c > fs_max_retries spec then (False, lose [c] sh)
      else (True, notify_all (sh\<lparr>sh_retries := sh_retries sh + 1, sh_queue := c # sh_queue sh\<rparr>)))"

definition fail_transfer :: "client_error \<Rightarrow> shared \<Rightarrow> shared" where
  "fail_transfer e sh = notify_all (sh\<lparr>sh_error := (case sh_error sh of None \<Rightarrow> Some e | Some first \<Rightarrow> Some first)\<rparr>)"

text \<open>The locked part of \<open>step\<close>.\<close>

fun top_up :: "nat \<Rightarrow> chunk list \<Rightarrow> chunk list \<Rightarrow> chunk list \<times> chunk list" where
  "top_up room fresh [] = (fresh, [])"
| "top_up room fresh (c # queue) =
     (if length fresh < room then top_up room (fresh @ [c]) queue else (fresh, c # queue))"

datatype turn = Go "chunk list" | Finished | Unaccounted | Wait

definition take_turn :: "fetch_spec \<Rightarrow> in_flight list \<Rightarrow> shared \<Rightarrow> turn \<times> shared" where
  "take_turn spec flight sh =
     (let credit = max (fs_credit spec) 1;
          (fresh, queue) =
            (if sh_error sh = None then top_up (credit - length flight) [] (sh_queue sh) else ([], sh_queue sh));
          sh = sh\<lparr>sh_queue := queue\<rparr>
      in if flight \<noteq> [] \<or> fresh \<noteq> [] then (Go fresh, sh)
         else if sh_error sh \<noteq> None \<or> sh_remaining sh = 0 then (Finished, sh)
         else if sh_live sh = 1 then (Unaccounted, sh)
         else (Wait, sh))"

section \<open>The buffers\<close>

definition on_part :: "chunk \<Rightarrow> (scatter \<Rightarrow> scatter) \<Rightarrow> shared \<Rightarrow> shared" where
  "on_part c f sh =
     sh\<lparr>sh_parts := (sh_parts sh)[ck_part c := (sh_parts sh ! ck_part c)\<lparr>pt_scatter := f (pt_scatter (sh_parts sh ! ck_part c))\<rparr>]\<rparr>"

definition claim_chunk :: "chunk \<Rightarrow> shared \<Rightarrow> wire_error + (in_flight \<times> shared)" where
  "claim_chunk c sh =
     res_map (\<lambda>(s, sb). (\<lparr>fl_chunk = c, fl_slice = s, fl_received = 0\<rparr>, on_part c (\<lambda>_. sb) sh))
       (claim (ck_offset c) (ck_len c) (pt_scatter (sh_parts sh ! ck_part c)))"

definition release :: "in_flight \<Rightarrow> shared \<Rightarrow> shared" where
  "release f sh = on_part (fl_chunk f) (drop_slice (fl_slice f)) sh"

definition chunk_bytes :: "in_flight \<Rightarrow> shared \<Rightarrow> bytes" where
  "chunk_bytes f sh = slice_load (fl_slice f) (pt_scatter (sh_parts sh ! ck_part (fl_chunk f)))"

definition overwrite :: "in_flight \<Rightarrow> bytes \<Rightarrow> shared \<Rightarrow> shared" where
  "overwrite f bs sh =
     on_part (fl_chunk f) (\<lambda>sb. sb\<lparr>sb_bytes := write_at (sb_bytes sb) (sl_offset (fl_slice f)) bs\<rparr>) sh"

definition request_of :: "chunk \<Rightarrow> shared \<Rightarrow> u32" where
  "request_of c sh = pt_request_id (sh_parts sh ! ck_part c)"

fun release_all :: "in_flight list \<Rightarrow> shared \<Rightarrow> shared" where
  "release_all [] sh = sh"
| "release_all (f # fs) sh = release_all fs (release f sh)"

section \<open>The steps of a thread\<close>

definition is_io :: "client_error \<Rightarrow> bool" where
  "is_io e \<longleftrightarrow> (\<exists>k. e = CliIo k)"

text \<open>
  \<open>good f h dst dst'\<close> restricts the data that arrives: \<open>\<lambda>_ _ _ _. True\<close> is any server. A read that fails
  leaves any bytes in the range that was being read.
\<close>

inductive work_step ::
    "fetch_spec \<Rightarrow> build \<Rightarrow> codec_lib \<Rightarrow> (in_flight \<Rightarrow> frame_header \<Rightarrow> bytes \<Rightarrow> bytes \<Rightarrow> bool)
     \<Rightarrow> worker \<Rightarrow> shared \<Rightarrow> worker \<Rightarrow> shared \<Rightarrow> bool"
  for spec :: fetch_spec and b :: build and lib :: codec_lib
    and good :: "in_flight \<Rightarrow> frame_header \<Rightarrow> bytes \<Rightarrow> bytes \<Rightarrow> bool"
where
  \<comment> \<open>no connection: give up if the transfer has ended, open one otherwise\<close>
  stop: "sh_error sh \<noteq> None \<Longrightarrow>
    work_step spec b lib good \<lparr>wk_conn = False, wk_flight = fl, wk_phase = Ready\<rparr> sh
      \<lparr>wk_conn = False, wk_flight = fl, wk_phase = Leaving None\<rparr> sh"
| reopen: "sh_error sh = None \<Longrightarrow>
    work_step spec b lib good \<lparr>wk_conn = False, wk_flight = fl, wk_phase = Ready\<rparr> sh
      \<lparr>wk_conn = False, wk_flight = fl, wk_phase = Reconnecting\<rparr> sh"
| opened:
    "work_step spec b lib good \<lparr>wk_conn = c, wk_flight = fl, wk_phase = Reconnecting\<rparr> sh
      \<lparr>wk_conn = True, wk_flight = fl, wk_phase = Ready\<rparr> sh"
| not_opened:
    "work_step spec b lib good \<lparr>wk_conn = c, wk_flight = fl, wk_phase = Reconnecting\<rparr> sh
      \<lparr>wk_conn = c, wk_flight = fl, wk_phase = Leaving (Some e)\<rparr> sh"
  \<comment> \<open>the locked part of a step\<close>
| go: "take_turn spec fl sh = (Go fresh, sh') \<Longrightarrow>
    work_step spec b lib good \<lparr>wk_conn = True, wk_flight = fl, wk_phase = Ready\<rparr> sh
      \<lparr>wk_conn = True, wk_flight = fl, wk_phase = Topping fresh\<rparr> sh'"
| finished: "take_turn spec fl sh = (Finished, sh') \<Longrightarrow>
    work_step spec b lib good \<lparr>wk_conn = True, wk_flight = fl, wk_phase = Ready\<rparr> sh
      \<lparr>wk_conn = True, wk_flight = fl, wk_phase = Leaving None\<rparr> sh'"
| unaccounted: "take_turn spec fl sh = (Unaccounted, sh') \<Longrightarrow>
    work_step spec b lib good \<lparr>wk_conn = True, wk_flight = fl, wk_phase = Ready\<rparr> sh
      \<lparr>wk_conn = True, wk_flight = fl, wk_phase = Breaking CliProtocol False\<rparr> sh'"
| sleep: "take_turn spec fl sh = (Wait, sh') \<Longrightarrow>
    work_step spec b lib good \<lparr>wk_conn = True, wk_flight = fl, wk_phase = Ready\<rparr> sh
      \<lparr>wk_conn = True, wk_flight = fl, wk_phase = Asleep\<rparr> sh'"
| spurious:
    "work_step spec b lib good \<lparr>wk_conn = c, wk_flight = fl, wk_phase = Asleep\<rparr> sh
      \<lparr>wk_conn = c, wk_flight = fl, wk_phase = Ready\<rparr> sh"
  \<comment> \<open>asking for what was taken off the queue\<close>
| asked:
    "work_step spec b lib good \<lparr>wk_conn = c, wk_flight = fl, wk_phase = Topping []\<rparr> sh
      \<lparr>wk_conn = c, wk_flight = fl, wk_phase = Reading\<rparr> sh"
| ask: "claim_chunk x sh = Ok (f, sh') \<Longrightarrow>
    work_step spec b lib good \<lparr>wk_conn = c, wk_flight = fl, wk_phase = Topping (x # fresh)\<rparr> sh
      \<lparr>wk_conn = c, wk_flight = fl @ [f], wk_phase = Topping fresh\<rparr> sh'"
| ask_failed: "claim_chunk x sh = Ok (f, sh') \<Longrightarrow>
    work_step spec b lib good \<lparr>wk_conn = c, wk_flight = fl, wk_phase = Topping (x # fresh)\<rparr> sh
      \<lparr>wk_conn = c, wk_flight = fl @ [f], wk_phase = Breaking (CliIo k) False\<rparr> (give_back fresh sh')"
| claimed_already: "claim_chunk x sh = Err e \<Longrightarrow>
    work_step spec b lib good \<lparr>wk_conn = c, wk_flight = fl, wk_phase = Topping (x # fresh)\<rparr> sh
      \<lparr>wk_conn = c, wk_flight = fl, wk_phase = Breaking (client_of_wire e) False\<rparr> (give_back fresh (lose [x] sh))"
  \<comment> \<open>one frame\<close>
| no_header:
    "work_step spec b lib good \<lparr>wk_conn = c, wk_flight = fl, wk_phase = Reading\<rparr> sh
      \<lparr>wk_conn = c, wk_flight = fl, wk_phase = Breaking (client_of_wire e) False\<rparr> sh"
| data_more: "fh_frame_type h = FT_Data \<Longrightarrow>
    receive_data b lib h (request_of (fl_chunk f) sh) (ck_offset (fl_chunk f)) (chunk_bytes f sh) input = Ok (dst, rest) \<Longrightarrow>
    good f h (chunk_bytes f sh) dst \<Longrightarrow>
    received = wadd (fl_received f) (unat (fh_logical_len h)) \<Longrightarrow> received < ck_len (fl_chunk f) \<Longrightarrow>
    work_step spec b lib good \<lparr>wk_conn = c, wk_flight = f # fl, wk_phase = Reading\<rparr> sh
      \<lparr>wk_conn = c, wk_flight = f\<lparr>fl_received := received\<rparr> # fl, wk_phase = Ready\<rparr>
      ((overwrite f dst sh)\<lparr>sh_wire_bytes := wadd (sh_wire_bytes sh) (unat (fh_wire_len h))\<rparr>)"
| data_last: "fh_frame_type h = FT_Data \<Longrightarrow>
    receive_data b lib h (request_of (fl_chunk f) sh) (ck_offset (fl_chunk f)) (chunk_bytes f sh) input = Ok (dst, rest) \<Longrightarrow>
    good f h (chunk_bytes f sh) dst \<Longrightarrow>
    wadd (fl_received f) (unat (fh_logical_len h)) \<ge> ck_len (fl_chunk f) \<Longrightarrow>
    work_step spec b lib good \<lparr>wk_conn = c, wk_flight = f # fl, wk_phase = Reading\<rparr> sh
      \<lparr>wk_conn = c, wk_flight = fl, wk_phase = Ready\<rparr>
      (complete (fl_chunk f) (release f
        ((overwrite f dst sh)\<lparr>sh_wire_bytes := wadd (sh_wire_bytes sh) (unat (fh_wire_len h))\<rparr>)))"
| data_failed: "fh_frame_type h = FT_Data \<Longrightarrow>
    receive_data b lib h (request_of (fl_chunk f) sh) (ck_offset (fl_chunk f)) (chunk_bytes f sh) input = Err e \<Longrightarrow>
    length junk = length (chunk_bytes f sh) \<Longrightarrow>
    work_step spec b lib good \<lparr>wk_conn = c, wk_flight = f # fl, wk_phase = Reading\<rparr> sh
      \<lparr>wk_conn = c, wk_flight = f # fl, wk_phase = Breaking e False\<rparr> (overwrite f junk sh)"
| error_unread: "fh_frame_type h = FT_Error \<Longrightarrow> receive_error h input = Err e \<Longrightarrow>
    work_step spec b lib good \<lparr>wk_conn = c, wk_flight = fl, wk_phase = Reading\<rparr> sh
      \<lparr>wk_conn = c, wk_flight = fl, wk_phase = Breaking e False\<rparr> sh"
| error_of_conn: "fh_frame_type h = FT_Error \<Longrightarrow> receive_error h input = Ok (e, rest) \<Longrightarrow> fh_request_id h = 0 \<Longrightarrow>
    work_step spec b lib good \<lparr>wk_conn = c, wk_flight = fl, wk_phase = Reading\<rparr> sh
      \<lparr>wk_conn = c, wk_flight = fl, wk_phase = Breaking e False\<rparr> sh"
| error_of_other: "fh_frame_type h = FT_Error \<Longrightarrow> receive_error h input = Ok (e, rest) \<Longrightarrow> fh_request_id h \<noteq> 0 \<Longrightarrow>
    fh_request_id h \<noteq> request_of (fl_chunk f) sh \<or> unat (fh_offset h) \<noteq> ck_offset (fl_chunk f) \<Longrightarrow>
    work_step spec b lib good \<lparr>wk_conn = c, wk_flight = f # fl, wk_phase = Reading\<rparr> sh
      \<lparr>wk_conn = c, wk_flight = fl, wk_phase = Breaking CliProtocol False\<rparr> (lose [fl_chunk f] (release f sh))"
| error_retried: "fh_frame_type h = FT_Error \<Longrightarrow> receive_error h input = Ok (e, rest) \<Longrightarrow> fh_request_id h \<noteq> 0 \<Longrightarrow>
    fh_request_id h = request_of (fl_chunk f) sh \<Longrightarrow> unat (fh_offset h) = ck_offset (fl_chunk f) \<Longrightarrow>
    is_retryable e \<Longrightarrow> retry spec (fl_chunk f) True (release f sh) = (True, sh') \<Longrightarrow>
    work_step spec b lib good \<lparr>wk_conn = c, wk_flight = f # fl, wk_phase = Reading\<rparr> sh
      \<lparr>wk_conn = c, wk_flight = fl, wk_phase = Ready\<rparr> sh'"
| error_exhausted: "fh_frame_type h = FT_Error \<Longrightarrow> receive_error h input = Ok (e, rest) \<Longrightarrow> fh_request_id h \<noteq> 0 \<Longrightarrow>
    fh_request_id h = request_of (fl_chunk f) sh \<Longrightarrow> unat (fh_offset h) = ck_offset (fl_chunk f) \<Longrightarrow>
    is_retryable e \<Longrightarrow> retry spec (fl_chunk f) True (release f sh) = (False, sh') \<Longrightarrow>
    work_step spec b lib good \<lparr>wk_conn = c, wk_flight = f # fl, wk_phase = Reading\<rparr> sh
      \<lparr>wk_conn = c, wk_flight = fl, wk_phase = Ready\<rparr> (fail_transfer e sh')"
| error_final: "fh_frame_type h = FT_Error \<Longrightarrow> receive_error h input = Ok (e, rest) \<Longrightarrow> fh_request_id h \<noteq> 0 \<Longrightarrow>
    fh_request_id h = request_of (fl_chunk f) sh \<Longrightarrow> unat (fh_offset h) = ck_offset (fl_chunk f) \<Longrightarrow>
    \<not> is_retryable e \<Longrightarrow>
    work_step spec b lib good \<lparr>wk_conn = c, wk_flight = f # fl, wk_phase = Reading\<rparr> sh
      \<lparr>wk_conn = c, wk_flight = fl, wk_phase = Ready\<rparr> (fail_transfer e (lose [fl_chunk f] (release f sh)))"
| idle: "fh_frame_type (h :: frame_header) \<in> {FT_Ping, FT_Pong} \<Longrightarrow>
    work_step spec b lib good \<lparr>wk_conn = c, wk_flight = fl, wk_phase = Reading\<rparr> sh
      \<lparr>wk_conn = c, wk_flight = fl, wk_phase = Ready\<rparr> sh"
| pong_failed: "fh_frame_type (h :: frame_header) = FT_Ping \<Longrightarrow>
    work_step spec b lib good \<lparr>wk_conn = c, wk_flight = fl, wk_phase = Reading\<rparr> sh
      \<lparr>wk_conn = c, wk_flight = fl, wk_phase = Breaking (CliIo k) False\<rparr> sh"
| not_a_reply: "fh_frame_type (h :: frame_header) = FT_Fetch \<Longrightarrow>
    work_step spec b lib good \<lparr>wk_conn = c, wk_flight = fl, wk_phase = Reading\<rparr> sh
      \<lparr>wk_conn = c, wk_flight = fl, wk_phase = Breaking CliProtocol False\<rparr> sh"
  \<comment> \<open>the connection is done with: its chunks go back, newest first, or the transfer ends\<close>
| requeue: "retry spec (fl_chunk f) (fl = []) (release f sh) = (ok, sh') \<Longrightarrow>
    work_step spec b lib good \<lparr>wk_conn = c, wk_flight = fl @ [f], wk_phase = Breaking (CliIo k) exhausted\<rparr> sh
      \<lparr>wk_conn = False, wk_flight = fl, wk_phase = Breaking (CliIo k) (exhausted \<or> \<not> ok)\<rparr> sh'"
| requeued:
    "work_step spec b lib good \<lparr>wk_conn = c, wk_flight = [], wk_phase = Breaking (CliIo k) False\<rparr> sh
      \<lparr>wk_conn = False, wk_flight = [], wk_phase = Ready\<rparr> sh"
| exhausted:
    "work_step spec b lib good \<lparr>wk_conn = c, wk_flight = [], wk_phase = Breaking (CliIo k) True\<rparr> sh
      \<lparr>wk_conn = False, wk_flight = [], wk_phase = Ready\<rparr> (fail_transfer (CliIo k) sh)"
| broken: "\<not> is_io e \<Longrightarrow>
    work_step spec b lib good \<lparr>wk_conn = c, wk_flight = fl, wk_phase = Breaking e exhausted\<rparr> sh
      \<lparr>wk_conn = False, wk_flight = [], wk_phase = Ready\<rparr>
      (fail_transfer e (lose (map fl_chunk fl) (release_all fl sh)))"
| left:
    "work_step spec b lib good \<lparr>wk_conn = c, wk_flight = fl, wk_phase = Leaving ce\<rparr> sh
      \<lparr>wk_conn = c, wk_flight = fl, wk_phase = Gone\<rparr> (leave ce sh)"

text \<open>A step of the transfer: one thread moves, and a notification wakes all that sleep.\<close>

definition rouse :: "bool \<Rightarrow> worker \<Rightarrow> worker" where
  "rouse woken w = (if woken \<and> wk_phase w = Asleep then w\<lparr>wk_phase := Ready\<rparr> else w)"

inductive pool_step ::
    "fetch_spec \<Rightarrow> build \<Rightarrow> codec_lib \<Rightarrow> (in_flight \<Rightarrow> frame_header \<Rightarrow> bytes \<Rightarrow> bytes \<Rightarrow> bool)
     \<Rightarrow> worker list \<times> shared \<Rightarrow> worker list \<times> shared \<Rightarrow> bool"
  for spec :: fetch_spec and b :: build and lib :: codec_lib
    and good :: "in_flight \<Rightarrow> frame_header \<Rightarrow> bytes \<Rightarrow> bytes \<Rightarrow> bool"
where
  move: "work_step spec b lib good w sh w' sh' \<Longrightarrow>
    pool_step spec b lib good (as @ w # bs, sh)
      (map (rouse (sh_wakes sh' \<noteq> sh_wakes sh)) as @ w' # map (rouse (sh_wakes sh' \<noteq> sh_wakes sh)) bs, sh')"

section \<open>Starting and ending\<close>

definition queue_of :: "fetch_part list \<Rightarrow> chunk list" where
  "queue_of ps =
     concat (map (\<lambda>(i, p). map (\<lambda>(offset, len). \<lparr>ck_part = i, ck_offset = offset, ck_len = len, ck_attempts = 0\<rparr>) (fp_chunks p))
       (List.enumerate 0 ps))"

definition start_transfer :: "fetch_part list \<Rightarrow> nat \<Rightarrow> shared" where
  "start_transfer ps used =
     \<lparr>sh_queue = queue_of ps, sh_remaining = length (queue_of ps), sh_live = used, sh_retries = 0, sh_error = None,
      sh_last_conn_error = None,
      sh_parts = map (\<lambda>p. \<lparr>pt_request_id = fp_request_id p, pt_ticket = fp_ticket p, pt_scatter = scatter_new (fp_dst p)\<rparr>) ps,
      sh_wire_bytes = 0, sh_wakes = 0, sh_done = [], sh_lost = []\<rparr>"

text \<open>A slot may have lost its connection before, and a thread may fail to start: it leaves at once.\<close>

definition fresh_worker :: "worker \<Rightarrow> bool" where
  "fresh_worker w \<longleftrightarrow> wk_flight w = [] \<and> (wk_phase w = Ready \<or> (\<exists>e. wk_phase w = Leaving (Some e)))"

inductive pool_reach ::
    "fetch_spec \<Rightarrow> build \<Rightarrow> codec_lib \<Rightarrow> (in_flight \<Rightarrow> frame_header \<Rightarrow> bytes \<Rightarrow> bytes \<Rightarrow> bool)
     \<Rightarrow> fetch_part list \<Rightarrow> worker list \<times> shared \<Rightarrow> bool"
  for spec :: fetch_spec and b :: build and lib :: codec_lib
    and good :: "in_flight \<Rightarrow> frame_header \<Rightarrow> bytes \<Rightarrow> bytes \<Rightarrow> bool" and ps :: "fetch_part list"
where
  begun: "list_all fresh_worker ws \<Longrightarrow> ws \<noteq> [] \<Longrightarrow> length ws \<le> length (queue_of ps) \<Longrightarrow>
    pool_reach spec b lib good ps (ws, start_transfer ps (length ws))"
| moved: "pool_reach spec b lib good ps x \<Longrightarrow> pool_step spec b lib good x y \<Longrightarrow> pool_reach spec b lib good ps y"

record fetched =
  fd_streams :: nat
  fd_retries :: nat
  fd_wire_bytes :: nat

text \<open>What \<open>fetch\<close> returns once every thread has left.\<close>

definition outcome :: "nat \<Rightarrow> shared \<Rightarrow> client_error + fetched" where
  "outcome used sh =
     (case sh_error sh of
        Some e \<Rightarrow> Err e
      | None \<Rightarrow>
          if sh_remaining sh > 0 then Err (unwrap_or (sh_last_conn_error sh) (CliData Class_Transient))
          else Ok \<lparr>fd_streams = used, fd_retries = sh_retries sh, fd_wire_bytes = sh_wire_bytes sh\<rparr>)"

section \<open>What the operations leave alone\<close>

lemma on_part_simps [simp]:
  "sh_queue (on_part c g sh) = sh_queue sh" "sh_remaining (on_part c g sh) = sh_remaining sh"
  "sh_live (on_part c g sh) = sh_live sh" "sh_error (on_part c g sh) = sh_error sh"
  "sh_wakes (on_part c g sh) = sh_wakes sh" "sh_done (on_part c g sh) = sh_done sh" "sh_lost (on_part c g sh) = sh_lost sh"
  by (simp_all add: on_part_def)

lemma release_simps [simp]:
  "sh_queue (release f sh) = sh_queue sh" "sh_remaining (release f sh) = sh_remaining sh"
  "sh_live (release f sh) = sh_live sh" "sh_error (release f sh) = sh_error sh"
  "sh_wakes (release f sh) = sh_wakes sh" "sh_done (release f sh) = sh_done sh" "sh_lost (release f sh) = sh_lost sh"
  by (simp_all add: release_def)

lemma release_all_simps [simp]:
  "sh_queue (release_all fs sh) = sh_queue sh" "sh_remaining (release_all fs sh) = sh_remaining sh"
  "sh_live (release_all fs sh) = sh_live sh" "sh_error (release_all fs sh) = sh_error sh"
  "sh_wakes (release_all fs sh) = sh_wakes sh" "sh_done (release_all fs sh) = sh_done sh"
  "sh_lost (release_all fs sh) = sh_lost sh"
  by (induction fs arbitrary: sh) simp_all

lemma overwrite_simps [simp]:
  "sh_queue (overwrite f bs sh) = sh_queue sh" "sh_remaining (overwrite f bs sh) = sh_remaining sh"
  "sh_live (overwrite f bs sh) = sh_live sh" "sh_error (overwrite f bs sh) = sh_error sh"
  "sh_wakes (overwrite f bs sh) = sh_wakes sh" "sh_done (overwrite f bs sh) = sh_done sh"
  "sh_lost (overwrite f bs sh) = sh_lost sh"
  by (simp_all add: overwrite_def)

lemmas shared_defs = notify_all_def leave_def complete_def give_back_def lose_def fail_transfer_def Let_def

lemma foldr_Cons: "foldr (#) xs ys = xs @ ys"
  by (induction xs) auto

lemma claim_chunk_Ok:
  "claim_chunk x sh = Ok (f, sh') \<Longrightarrow>
   f = \<lparr>fl_chunk = x, fl_slice = \<lparr>sl_offset = ck_offset x, sl_len = ck_len x\<rparr>, fl_received = 0\<rparr>
   \<and> (\<exists>g. sh' = on_part x g sh)"
  by (auto simp: claim_chunk_def res_map_Ok claim_Ok)

lemma top_up_append: "top_up room fresh queue = (fresh', queue') \<Longrightarrow> fresh' @ queue' = fresh @ queue"
  by (induction room fresh queue rule: top_up.induct) (auto split: if_splits)

lemma top_up_empty: "top_up room fresh queue = ([], queue') \<Longrightarrow> 0 < room \<Longrightarrow> queue' = [] \<and> queue = []"
  using top_up_append [of room fresh queue "[]" queue']
  by (induction room fresh queue rule: top_up.induct) (auto split: if_splits)

lemma take_turn_Go:
  assumes "take_turn spec fl sh = (Go fresh, sh')"
  shows "(fl \<noteq> [] \<or> fresh \<noteq> []) \<and> (\<exists>queue. sh' = sh\<lparr>sh_queue := queue\<rparr> \<and> sh_queue sh = fresh @ queue)"
proof -
  obtain f queue where tq: "(if sh_error sh = None then top_up (max (fs_credit spec) 1 - length fl) [] (sh_queue sh) else ([], sh_queue sh))
      = (f, queue)" by fastforce
  with assms have "sh' = sh\<lparr>sh_queue := queue\<rparr>" "f = fresh" "fl \<noteq> [] \<or> fresh \<noteq> []"
    by (auto simp: take_turn_def Let_def split: if_splits)
  moreover from this tq have "sh_queue sh = fresh @ queue" by (auto dest: top_up_append split: if_splits)
  ultimately show ?thesis by blast
qed

lemma take_turn_other:
  assumes "take_turn spec fl sh = (t, sh')" "\<nexists>fresh. t = Go fresh"
  shows "fl = [] \<and> sh' = sh
    \<and> (t = Finished \<and> (sh_error sh \<noteq> None \<or> sh_remaining sh = 0)
       \<or> sh_error sh = None \<and> sh_remaining sh > 0 \<and> sh_queue sh = []
         \<and> (t = Unaccounted \<and> sh_live sh = 1 \<or> t = Wait \<and> sh_live sh \<noteq> 1))"
proof -
  obtain fresh queue where tq: "(if sh_error sh = None then top_up (max (fs_credit spec) 1 - length fl) [] (sh_queue sh) else ([], sh_queue sh))
      = (fresh, queue)" by fastforce
  with assms have e: "fl = []" "fresh = []" "sh' = sh\<lparr>sh_queue := queue\<rparr>"
    by (auto simp: take_turn_def Let_def split: if_splits)
  moreover have "queue = sh_queue sh \<and> (sh_error sh = None \<longrightarrow> sh_queue sh = [])"
    using tq e top_up_empty [of "max (fs_credit spec) 1" "[]" "sh_queue sh" queue] by (auto split: if_splits)
  ultimately show ?thesis using assms tq by (auto simp: take_turn_def Let_def split: if_splits)
qed

section \<open>No chunk goes missing\<close>

definition ck_id :: "chunk \<Rightarrow> nat \<times> nat \<times> nat" where
  "ck_id c = (ck_part c, ck_offset c, ck_len c)"

fun topping :: "phase \<Rightarrow> chunk list" where
  "topping (Topping fresh) = fresh"
| "topping _ = []"

definition holds :: "worker \<Rightarrow> chunk list" where
  "holds w = map fl_chunk (wk_flight w) @ topping (wk_phase w)"

definition ids_of :: "chunk list \<Rightarrow> (nat \<times> nat \<times> nat) multiset" where
  "ids_of cs = image_mset ck_id (mset cs)"

lemma ids_of_simps [simp]:
  "ids_of [] = {#}" "ids_of (c # cs) = add_mset (ck_id c) (ids_of cs)" "ids_of (cs @ ds) = ids_of cs + ids_of ds"
  by (simp_all add: ids_of_def)

lemma ids_of_concat: "ids_of (concat css) = sum_list (map ids_of css)"
  by (induction css) simp_all

lemma ids_of_map_fl [simp]: "ck_id (c\<lparr>ck_attempts := n\<rparr>) = ck_id c"
  by (simp add: ck_id_def)

lemma retry_cases:
  assumes "retry spec c charge sh = (ok, sh')"
  obtains (Again) c' where "ok" "ck_id c' = ck_id c"
      "sh' = notify_all (sh\<lparr>sh_retries := sh_retries sh + 1, sh_queue := c' # sh_queue sh\<rparr>)"
  | (Used_up) c' where "\<not> ok" "ck_id c' = ck_id c" "sh' = lose [c'] sh"
  using assms Again [of "c\<lparr>ck_attempts := ck_attempts c + of_bool charge\<rparr>"]
    Used_up [of "c\<lparr>ck_attempts := ck_attempts c + of_bool charge\<rparr>"]
  by (auto simp: retry_def Let_def split: if_splits)

definition kept :: "shared \<Rightarrow> (nat \<times> nat \<times> nat) multiset" where
  "kept sh = ids_of (sh_queue sh) + ids_of (sh_done sh) + ids_of (sh_lost sh)"

text \<open>One thread's step moves chunks and neither makes nor drops any.\<close>

lemma work_step_ids:
  "work_step spec b lib good w sh w' sh' \<Longrightarrow> ids_of (holds w') + kept sh' = ids_of (holds w) + kept sh"
proof (induction rule: work_step.induct)
  case (requeue f fl sh ok sh' c k exhausted)
  then show ?case
    by (cases rule: retry_cases [OF requeue]) (auto simp: holds_def kept_def shared_defs)
next
  case (error_retried h input e rest f sh sh' c fl)
  then show ?case
    by (cases rule: retry_cases [OF error_retried(7)]) (auto simp: holds_def kept_def shared_defs)
next
  case (error_exhausted h input e rest f sh sh' c fl)
  then show ?case
    by (cases rule: retry_cases [OF error_exhausted(7)]) (auto simp: holds_def kept_def shared_defs)
qed (auto simp: holds_def kept_def shared_defs foldr_Cons ac_simps
      dest!: take_turn_Go take_turn_other claim_chunk_Ok)

fun failing_phase :: "phase \<Rightarrow> bool" where
  "failing_phase (Breaking e exhausted) \<longleftrightarrow> \<not> is_io e \<or> exhausted"
| "failing_phase _ \<longleftrightarrow> False"

text \<open>A chunk is dropped only by a thread that then ends the transfer.\<close>

lemma claim_error: "claim_chunk x sh = Err e \<Longrightarrow> \<not> is_io (client_of_wire e)"
  by (auto simp: claim_chunk_def claim_def is_io_def res_map_def split: sum.splits option.splits if_splits)

lemma fail_transfer_error [simp]: "sh_error (fail_transfer e sh) \<noteq> None"
  by (simp add: fail_transfer_def notify_all_def split: option.split)

lemma work_step_lost:
  assumes "work_step spec b lib good w sh w' sh'"
  shows "sh_lost sh' \<noteq> [] \<Longrightarrow> sh_lost sh \<noteq> [] \<or> sh_error sh' \<noteq> None \<or> failing_phase (wk_phase w')"
    and "sh_error sh \<noteq> None \<Longrightarrow> sh_error sh' \<noteq> None"
    and "failing_phase (wk_phase w) \<Longrightarrow> failing_phase (wk_phase w') \<or> sh_error sh' \<noteq> None"
  using assms
  by (induction rule: work_step.induct)
    (auto simp: notify_all_def leave_def complete_def give_back_def lose_def Let_def is_io_def
      dest!: take_turn_Go take_turn_other claim_chunk_Ok claim_error elim!: retry_cases split: if_splits)

lemma work_step_count:
  "work_step spec b lib good w sh w' sh' \<Longrightarrow> (holds w \<noteq> [] \<Longrightarrow> 0 < sh_remaining sh) \<Longrightarrow>
   sh_remaining sh' + length (sh_done sh') = sh_remaining sh + length (sh_done sh)"
  by (induction rule: work_step.induct)
    (auto simp: shared_defs holds_def dest!: take_turn_Go take_turn_other claim_chunk_Ok elim!: retry_cases)

definition present :: "worker \<Rightarrow> nat" where
  "present w = of_bool (wk_phase w \<noteq> Gone)"

lemma work_step_live:
  "work_step spec b lib good w sh w' sh' \<Longrightarrow> 0 < sh_live sh \<Longrightarrow> sh_live sh' + present w = sh_live sh + present w'"
  by (induction rule: work_step.induct)
    (auto simp: shared_defs present_def dest!: take_turn_Go take_turn_other claim_chunk_Ok elim!: retry_cases)

text \<open>Where each thread can be, and the slices it has.\<close>

fun phase_ok :: "phase \<Rightarrow> bool \<Rightarrow> in_flight list \<Rightarrow> bool" where
  "phase_ok Ready conn fl \<longleftrightarrow> conn \<or> fl = []"
| "phase_ok (Topping fresh) conn fl \<longleftrightarrow> conn \<and> (fl \<noteq> [] \<or> fresh \<noteq> [])"
| "phase_ok Asleep conn fl \<longleftrightarrow> conn \<and> fl = []"
| "phase_ok Reading conn fl \<longleftrightarrow> conn \<and> fl \<noteq> []"
| "phase_ok (Breaking e exhausted) conn fl \<longleftrightarrow> True"
| "phase_ok _ conn fl \<longleftrightarrow> fl = []"

definition flight_ok :: "in_flight \<Rightarrow> bool" where
  "flight_ok f \<longleftrightarrow> fl_slice f = \<lparr>sl_offset = ck_offset (fl_chunk f), sl_len = ck_len (fl_chunk f)\<rparr>"

definition worker_ok :: "worker \<Rightarrow> bool" where
  "worker_ok w \<longleftrightarrow> phase_ok (wk_phase w) (wk_conn w) (wk_flight w) \<and> list_all flight_ok (wk_flight w)"

lemma work_step_worker_ok:
  "work_step spec b lib good w sh w' sh' \<Longrightarrow> worker_ok w \<Longrightarrow> worker_ok w'"
  by (induction rule: work_step.induct)
    (auto simp: worker_ok_def flight_ok_def dest!: take_turn_Go take_turn_other claim_chunk_Ok)

text \<open>Whatever could end a sleep is notified.\<close>

lemma work_step_wakes:
  "work_step spec b lib good w sh w' sh' \<Longrightarrow> sh_wakes sh' = sh_wakes sh \<Longrightarrow>
   sh_error sh' = sh_error sh \<and> sh_live sh' = sh_live sh \<and> (sh_remaining sh = sh_remaining sh' \<or> 0 < sh_remaining sh')
   \<and> (sh_queue sh = [] \<longrightarrow> sh_queue sh' = [])"
  by (induction rule: work_step.induct)
    (auto simp: shared_defs dest!: take_turn_Go take_turn_other claim_chunk_Ok elim!: retry_cases split: if_splits)

lemma work_step_sleeps:
  "work_step spec b lib good w sh w' sh' \<Longrightarrow> wk_phase w' = Asleep \<Longrightarrow>
   sh' = sh \<and> sh_error sh = None \<and> 0 < sh_remaining sh \<and> sh_queue sh = [] \<and> sh_live sh \<noteq> 1"
  by (induction rule: work_step.induct) (auto dest!: take_turn_other)

text \<open>The invariant of a transfer, for the chunks it began with.\<close>

definition pool_ok :: "(nat \<times> nat \<times> nat) multiset \<Rightarrow> worker list \<times> shared \<Rightarrow> bool" where
  "pool_ok chunk_ids x =
     (case x of (ws, sh) \<Rightarrow>
        ids_of (concat (map holds ws)) + kept sh = chunk_ids
        \<and> sh_remaining sh + length (sh_done sh) = size chunk_ids
        \<and> sh_live sh = sum_list (map present ws)
        \<and> (sh_lost sh \<noteq> [] \<longrightarrow> sh_error sh \<noteq> None \<or> (\<exists>w \<in> set ws. failing_phase (wk_phase w)))
        \<and> list_all worker_ok ws
        \<and> ((\<exists>w \<in> set ws. wk_phase w = Asleep) \<longrightarrow>
             sh_error sh = None \<and> 0 < sh_remaining sh \<and> sh_queue sh = [] \<and> sh_live sh \<noteq> 1))"

lemma rouse_simps [simp]:
  "holds (rouse woken w) = holds w" "present (rouse woken w) = present w"
  "failing_phase (wk_phase (rouse woken w)) = failing_phase (wk_phase w)"
  "wk_flight (rouse woken w) = wk_flight w"
  by (simp_all add: rouse_def holds_def present_def)

lemma rouse_ok [simp]: "worker_ok w \<Longrightarrow> worker_ok (rouse woken w)"
  by (auto simp: rouse_def worker_ok_def)

lemma rouse_asleep: "wk_phase (rouse woken w) = Asleep \<Longrightarrow> \<not> woken \<and> wk_phase w = Asleep"
  by (auto simp: rouse_def split: if_splits)

lemma map_rouse [simp]: "map holds (map (rouse woken) ws) = map holds ws" "map present (map (rouse woken) ws) = map present ws"
  "holds \<circ> rouse woken = holds" "present \<circ> rouse woken = present"
  by (simp_all add: comp_def)

lemma size_ids [simp]: "size (ids_of cs) = length cs"
  by (simp add: ids_of_def)

lemma pool_ok_remaining:
  assumes "pool_ok chunk_ids (ws, sh)"
  shows "sh_remaining sh = length (sh_queue sh) + length (sh_lost sh) + length (concat (map holds ws))"
proof -
  have "size (ids_of (concat (map holds ws)) + kept sh) = sh_remaining sh + length (sh_done sh)"
    using assms by (simp add: pool_ok_def)
  then show ?thesis by (simp add: kept_def del: ids_of_simps)
qed

lemma pool_step_ok:
  assumes "pool_step spec b lib good x y" "pool_ok chunk_ids x"
  shows "pool_ok chunk_ids y"
  using assms
proof cases
  case (move w sh w' sh' as bs)
  note step = move(3) and x = move(1)
  let ?r = "map (rouse (sh_wakes sh' \<noteq> sh_wakes sh))"
  have ok: "pool_ok chunk_ids (as @ w # bs, sh)" using assms(2) x by simp
  have remaining: "holds w \<noteq> [] \<Longrightarrow> 0 < sh_remaining sh"
    using pool_ok_remaining [OF ok] by (cases "holds w") simp_all
  have here: "present w = 1" using step by (induction rule: work_step.induct) (simp_all add: present_def)
  then have live: "0 < sh_live sh" using ok by (simp add: pool_ok_def)
  let ?rest = "ids_of (concat (map holds as)) + ids_of (concat (map holds bs))"
  have "chunk_ids = (ids_of (holds w) + kept sh) + ?rest" using ok by (auto simp: pool_ok_def ac_simps)
  also have "\<dots> = (ids_of (holds w') + kept sh') + ?rest" by (simp only: work_step_ids [OF step])
  finally have 1: "ids_of (concat (map holds (?r as @ w' # ?r bs))) + kept sh' = chunk_ids" by (simp add: ac_simps)
  have 2: "sh_remaining sh' + length (sh_done sh') = size chunk_ids"
    using work_step_count [OF step remaining] ok by (simp add: pool_ok_def)
  have 3: "sh_live sh' = sum_list (map present (?r as @ w' # ?r bs))"
    using work_step_live [OF step live] ok by (simp add: pool_ok_def comp_def)
  have 4: "sh_lost sh' \<noteq> [] \<longrightarrow> sh_error sh' \<noteq> None \<or> (\<exists>w \<in> set (?r as @ w' # ?r bs). failing_phase (wk_phase w))"
  proof -
    have "sh_lost sh \<noteq> [] \<Longrightarrow> sh_error sh \<noteq> None \<or> failing_phase (wk_phase w)
        \<or> (\<exists>u \<in> set as. failing_phase (wk_phase u)) \<or> (\<exists>u \<in> set bs. failing_phase (wk_phase u))"
      using ok by (auto simp: pool_ok_def)
    then show ?thesis using work_step_lost [OF step] by (simp add: bex_Un) blast
  qed
  have 5: "list_all worker_ok (?r as @ w' # ?r bs)"
    using work_step_worker_ok [OF step] ok by (auto simp: pool_ok_def list_all_iff)
  have 6: "sh_error sh' = None \<and> 0 < sh_remaining sh' \<and> sh_queue sh' = [] \<and> sh_live sh' \<noteq> 1"
    if u: "u \<in> set (?r as @ w' # ?r bs)" "wk_phase u = Asleep" for u
  proof (cases "wk_phase w' = Asleep")
    case True
    then show ?thesis using work_step_sleeps [OF step] by auto
  next
    case False
    then obtain v where "v \<in> set (as @ bs)" "u = rouse (sh_wakes sh' \<noteq> sh_wakes sh) v" using u by auto
    then have "sh_wakes sh' = sh_wakes sh" "wk_phase v = Asleep" using u(2) rouse_asleep by auto
    then show ?thesis using \<open>v \<in> _\<close> work_step_wakes [OF step] ok by (auto simp: pool_ok_def)
  qed
  show ?thesis unfolding move(2) pool_ok_def prod.case using 1 2 3 4 5 6 by blast
qed

lemma pool_start_ok:
  assumes "list_all fresh_worker ws" "ws \<noteq> []"
  shows "pool_ok (ids_of (queue_of ps)) (ws, start_transfer ps (length ws))"
proof -
  have w: "holds w = []" "present w = 1" "worker_ok w" "\<not> failing_phase (wk_phase w)" "wk_phase w \<noteq> Asleep"
    if "w \<in> set ws" for w
    using assms(1) that by (fastforce simp: list_all_iff fresh_worker_def holds_def present_def worker_ok_def)+
  have "map holds ws = map (\<lambda>_. []) ws" "map present ws = map (\<lambda>_. 1) ws" using w by auto
  then show ?thesis using w
    by (auto simp: pool_ok_def start_transfer_def kept_def list_all_iff sum_list_replicate map_replicate_const)
qed

lemma pool_reach_ok: "pool_reach spec b lib good ps x \<Longrightarrow> pool_ok (ids_of (queue_of ps)) x"
  by (induction rule: pool_reach.induct) (auto intro: pool_start_ok pool_step_ok)

text \<open>Nothing is held when everyone sleeps or has left, and then nothing remains.\<close>

lemma all_quiet:
  assumes ok: "pool_ok chunk_ids (ws, sh)" and quiet: "\<forall>w \<in> set ws. wk_phase w \<in> {Asleep, Gone}"
    and "sh_error sh = None" "sh_queue sh = []"
  shows "sh_remaining sh = 0"
proof -
  have "holds w = []" if "w \<in> set ws" for w
    using ok quiet that by (fastforce simp: pool_ok_def list_all_iff worker_ok_def holds_def)
  then have "concat (map holds ws) = []" by simp
  moreover have "sh_lost sh = []" using ok quiet assms(3) by (fastforce simp: pool_ok_def)
  ultimately show ?thesis using pool_ok_remaining [OF ok] assms(4) by simp
qed

text \<open>The transfer does not hang: some thread that is still there is not asleep.\<close>

lemma pool_awake:
  assumes ok: "pool_ok chunk_ids (ws, sh)" and "\<exists>w \<in> set ws. wk_phase w \<noteq> Gone"
  shows "\<exists>w \<in> set ws. wk_phase w \<noteq> Gone \<and> wk_phase w \<noteq> Asleep"
proof (rule ccontr)
  assume "\<not> ?thesis"
  then have quiet: "\<forall>w \<in> set ws. wk_phase w \<in> {Asleep, Gone}" by auto
  with assms(2) have "sh_error sh = None" "0 < sh_remaining sh" "sh_queue sh = []"
    using ok by (auto simp: pool_ok_def)
  then show False using all_quiet [OF ok quiet] by simp
qed

text \<open>The check for chunks that are unaccounted for never finds any.\<close>

lemma never_unaccounted:
  assumes ok: "pool_ok chunk_ids (as @ w # bs, sh)" and w: "wk_phase w = Ready"
  shows "fst (take_turn spec (wk_flight w) sh) \<noteq> Unaccounted"
proof
  assume "fst (take_turn spec (wk_flight w) sh) = Unaccounted"
  then obtain sh' where "take_turn spec (wk_flight w) sh = (Unaccounted, sh')" by (metis prod.collapse)
  from take_turn_other [OF this] have t: "wk_flight w = []" "sh_error sh = None" "0 < sh_remaining sh" "sh_queue sh = []" "sh_live sh = 1"
    by auto
  have gone: "wk_phase u = Gone" if "u \<in> set as \<union> set bs" for u
  proof -
    have "sum_list (map present as) + sum_list (map present bs) = 0" using ok t(5) w by (simp add: pool_ok_def present_def)
    then show ?thesis using that by (auto simp: present_def)
  qed
  have "holds u = []" if "u \<in> set as \<union> set bs" for u
  proof -
    have "worker_ok u" using ok that by (auto simp: pool_ok_def list_all_iff)
    then show ?thesis using gone [OF that] by (simp add: worker_ok_def holds_def)
  qed
  then have "concat (map holds (as @ w # bs)) = []" using t(1) w by (auto simp: holds_def)
  moreover have "sh_lost sh = []" using ok gone w t(2) by (fastforce simp: pool_ok_def)
  ultimately show False using pool_ok_remaining [OF ok] t(3,4) by simp
qed

text \<open>A thread that waits for a frame has a fetch outstanding, so \<open>expect\<close> does not panic.\<close>

lemma reading_has_flight:
  "pool_ok chunk_ids (ws, sh) \<Longrightarrow> w \<in> set ws \<Longrightarrow> wk_phase w = Reading \<Longrightarrow> wk_flight w \<noteq> []"
  by (auto simp: pool_ok_def list_all_iff worker_ok_def)

text \<open>Every thread that is not asleep can take a step, whatever the state and the server.\<close>

lemma ready_can_move: "\<exists>w' sh'. work_step spec b lib good \<lparr>wk_conn = c, wk_flight = fl, wk_phase = Ready\<rparr> sh w' sh'"
proof (cases c)
  case True
  obtain t sh' where "take_turn spec fl sh = (t, sh')" by fastforce
  then show ?thesis using True by (cases t; simp) (blast intro: go finished unaccounted sleep)+
next
  case False
  then show ?thesis by (cases "sh_error sh = None"; simp) (blast intro: stop reopen)+
qed

lemma topping_can_move: "\<exists>w' sh'. work_step spec b lib good \<lparr>wk_conn = c, wk_flight = fl, wk_phase = Topping fresh\<rparr> sh w' sh'"
proof (cases fresh)
  case (Cons x rest)
  then show ?thesis by (cases "claim_chunk x sh") (force intro: ask claimed_already)+
qed (blast intro: asked)

lemma breaking_can_move: "\<exists>w' sh'. work_step spec b lib good \<lparr>wk_conn = c, wk_flight = fl, wk_phase = Breaking e used\<rparr> sh w' sh'"
proof (cases "is_io e")
  case True
  then obtain k where k: "e = CliIo k" by (auto simp: is_io_def)
  show ?thesis
  proof (cases fl rule: rev_cases)
    case Nil
    then show ?thesis using k by (cases used; simp) (blast intro: requeued exhausted)+
  next
    case (snoc fl' f)
    obtain ok sh' where "retry spec (fl_chunk f) (fl' = []) (release f sh) = (ok, sh')" by fastforce
    then show ?thesis using snoc k by (blast intro: requeue)
  qed
qed (blast intro: broken)

lemma worker_can_move:
  assumes "wk_phase w \<noteq> Gone" "wk_phase w \<noteq> Asleep"
  shows "\<exists>w' sh'. work_step spec b lib good w sh w' sh'"
proof -
  obtain c fl ph where w: "w = \<lparr>wk_conn = c, wk_flight = fl, wk_phase = ph\<rparr>" by (cases w)
  show ?thesis
    using assms unfolding w
    by (cases ph; simp add: ready_can_move topping_can_move breaking_can_move) (blast intro: opened no_header left)+
qed

lemma pool_can_move:
  assumes ok: "pool_ok chunk_ids (ws, sh)" and "\<exists>w \<in> set ws. wk_phase w \<noteq> Gone"
  shows "\<exists>as w bs w' sh'. ws = as @ w # bs \<and> wk_phase w \<noteq> Asleep \<and> work_step spec b lib good w sh w' sh'"
proof -
  obtain w where w: "w \<in> set ws" "wk_phase w \<noteq> Gone" "wk_phase w \<noteq> Asleep" using pool_awake [OF assms] by blast
  then show ?thesis using worker_can_move [OF w(2,3)] by (metis split_list)
qed

end
