(* ===== verification/Pool_Buffers.thy ===== *)
theory Pool_Buffers
  imports Pool
begin

text \<open>
  What a transfer of \<open>client/src/pool.rs\<close> leaves in the caller's buffers when the server answers each request
  with the bytes of the range: the chunks of a transfer are apart, so the threads never write over each
  other, and when the last one has left without an error every buffer holds the source. A server that runs
  \<open>Data_Plane\<close> is such a server.
\<close>

section \<open>The buffers are filled\<close>

definition buf :: "nat \<Rightarrow> shared \<Rightarrow> bytes" where
  "buf p sh = sb_bytes (pt_scatter (sh_parts sh ! p))"

text \<open>
  A server that answers each fetch with the bytes of the stream, in order and no more than was asked for. It may
  still stop, fail or refuse at any point.
\<close>

definition honest :: "(nat \<Rightarrow> bytes) \<Rightarrow> in_flight \<Rightarrow> frame_header \<Rightarrow> bytes \<Rightarrow> bytes \<Rightarrow> bool" where
  "honest src f h dst dst' \<longleftrightarrow>
     (let c = fl_chunk f; r = fl_received f; n = unat (fh_logical_len h) in
      r + n \<le> ck_len c \<and> dst' = write_at dst r (slice (src (ck_part c)) (ck_offset c + r) n))"

definition good_flight :: "(nat \<Rightarrow> bytes) \<Rightarrow> shared \<Rightarrow> in_flight \<Rightarrow> bool" where
  "good_flight src sh f \<longleftrightarrow>
     (let c = fl_chunk f; r = fl_received f in
      r \<le> ck_len c \<and> slice (buf (ck_part c) sh) (ck_offset c) r = slice (src (ck_part c)) (ck_offset c) r)"

definition good_done :: "(nat \<Rightarrow> bytes) \<Rightarrow> shared \<Rightarrow> chunk \<Rightarrow> bool" where
  "good_done src sh c \<longleftrightarrow>
     slice (buf (ck_part c) sh) (ck_offset c) (ck_len c) = slice (src (ck_part c)) (ck_offset c) (ck_len c)"

definition in_buffer :: "(nat \<Rightarrow> bytes) \<Rightarrow> shared \<Rightarrow> chunk \<Rightarrow> bool" where
  "in_buffer src sh c \<longleftrightarrow>
     ck_part c < length (sh_parts sh) \<and> length (buf (ck_part c) sh) = length (src (ck_part c))
     \<and> ck_offset c + ck_len c \<le> length (src (ck_part c)) \<and> ck_len c < U64"

fun apart :: "nat \<times> nat \<times> nat \<Rightarrow> nat \<times> nat \<times> nat \<Rightarrow> bool" where
  "apart (p, a, m) (q, b, n) \<longleftrightarrow> p \<noteq> q \<or> a + m \<le> b \<or> b + n \<le> a"

lemma buf_on_part:
  "(\<And>sb. sb_bytes (g sb) = sb_bytes sb) \<Longrightarrow> buf p (on_part c g sh) = buf p sh"
  by (cases "p = ck_part c \<and> p < length (sh_parts sh)") (auto simp: buf_def on_part_def nth_list_update list_update_beyond)

lemma buf_release [simp]: "buf p (release f sh) = buf p sh"
  unfolding release_def by (rule buf_on_part) (simp add: drop_slice_def split: option.split)

lemma buf_release_all [simp]: "buf p (release_all fs sh) = buf p sh"
  by (induction fs arbitrary: sh) simp_all

lemma length_parts [simp]:
  "length (sh_parts (on_part c g sh)) = length (sh_parts sh)" "length (sh_parts (release f sh)) = length (sh_parts sh)"
  "length (sh_parts (overwrite f bs sh)) = length (sh_parts sh)" "length (sh_parts (release_all fs sh)) = length (sh_parts sh)"
proof -
  show [simp]: "length (sh_parts (on_part c g sh)) = length (sh_parts sh)" for c g sh by (simp add: on_part_def)
  show [simp]: "length (sh_parts (release f sh)) = length (sh_parts sh)" for f sh by (simp add: release_def)
  show "length (sh_parts (overwrite f bs sh)) = length (sh_parts sh)" by (simp add: overwrite_def)
  show "length (sh_parts (release_all fs sh)) = length (sh_parts sh)" by (induction fs arbitrary: sh) simp_all
qed

lemma claim_chunk_buf:
  "claim_chunk x sh = Ok (f, sh') \<Longrightarrow> buf p sh' = buf p sh \<and> length (sh_parts sh') = length (sh_parts sh)"
  by (cases "p = ck_part x \<and> p < length (sh_parts sh)")
    (auto simp: claim_chunk_def res_map_Ok claim_Ok buf_def on_part_def nth_list_update list_update_beyond)

lemma buf_overwrite:
  assumes "flight_ok f" "ck_part (fl_chunk f) < length (sh_parts sh)"
  shows "buf p (overwrite f bs sh) =
    (if p = ck_part (fl_chunk f) then write_at (buf p sh) (ck_offset (fl_chunk f)) bs else buf p sh)"
  using assms by (simp add: buf_def overwrite_def on_part_def nth_list_update flight_ok_def)

text \<open>A step writes only into the range of the thread's oldest chunk.\<close>

definition writes_in :: "chunk \<Rightarrow> shared \<Rightarrow> shared \<Rightarrow> bool" where
  "writes_in c sh sh' \<longleftrightarrow>
     length (sh_parts sh') = length (sh_parts sh) \<and> (\<forall>p. length (buf p sh') = length (buf p sh))
     \<and> (\<forall>p a n. (p \<noteq> ck_part c \<or> a + n \<le> ck_offset c \<or> ck_offset c + ck_len c \<le> a) \<longrightarrow>
          slice (buf p sh') a n = slice (buf p sh) a n)"

lemma writes_in_same: "length (sh_parts sh') = length (sh_parts sh) \<Longrightarrow> (\<And>p. buf p sh' = buf p sh) \<Longrightarrow> writes_in c sh sh'"
  by (simp add: writes_in_def)

lemma chunk_bytes_eq: "flight_ok f \<Longrightarrow> chunk_bytes f sh = slice (buf (ck_part (fl_chunk f)) sh) (ck_offset (fl_chunk f)) (ck_len (fl_chunk f))"
  by (simp add: chunk_bytes_def slice_load_def buf_def flight_ok_def)

lemma writes_in_overwrite:
  assumes f: "flight_ok f" "in_buffer src sh (fl_chunk f)" and len: "length bs = ck_len (fl_chunk f)"
  shows "writes_in (fl_chunk f) sh (overwrite f bs sh)"
proof -
  have "slice (write_at xs (ck_offset (fl_chunk f)) bs) a n = slice xs a n"
    if "a + n \<le> ck_offset (fl_chunk f) \<or> ck_offset (fl_chunk f) + ck_len (fl_chunk f) \<le> a"
      "ck_offset (fl_chunk f) + ck_len (fl_chunk f) \<le> length xs" for a n and xs :: bytes
    using that len by (intro slice_write_at_other) auto
  then show ?thesis using f len by (auto simp: writes_in_def in_buffer_def buf_overwrite)
qed

text \<open>The front of a chunk grows by what an honest frame holds.\<close>

lemma honest_overwrite:
  assumes f: "flight_ok f" "in_buffer src sh (fl_chunk f)" "good_flight src sh f"
    and h: "honest src f h (chunk_bytes f sh) dst"
  defines "c \<equiv> fl_chunk f" and "m \<equiv> fl_received f + unat (fh_logical_len h)"
  shows "length dst = ck_len c" "m \<le> ck_len c"
    "slice (buf (ck_part c) (overwrite f dst sh)) (ck_offset c) m = slice (src (ck_part c)) (ck_offset c) m"
proof -
  let ?old = "chunk_bytes f sh" and ?r = "fl_received f" and ?n = "unat (fh_logical_len h)"
  let ?new = "slice (src (ck_part c)) (ck_offset c + ?r) ?n"
  have old: "length ?old = ck_len c" "take ?r ?old = slice (src (ck_part c)) (ck_offset c) ?r"
    using f by (auto simp: chunk_bytes_eq in_buffer_def good_flight_def c_def Let_def slice_def min_def take_take)
  have m: "m \<le> ck_len c" and dst: "dst = write_at ?old ?r ?new" using h by (auto simp: honest_def Let_def c_def m_def)
  have new: "length ?new = ?n" using f(2) m by (simp add: in_buffer_def c_def m_def)
  show "m \<le> ck_len c" by (fact m)
  show len: "length dst = ck_len c" using dst old new m by (simp add: m_def)
  have "take m dst = take ?r ?old @ ?new" using take_write_at [of ?r ?old ?new] dst old(1) new m by (simp add: m_def)
  also have "\<dots> = slice (src (ck_part c)) (ck_offset c) m" using old(2) by (simp add: m_def slice_add)
  finally have "take m dst = slice (src (ck_part c)) (ck_offset c) m" .
  moreover have "slice (write_at (buf (ck_part c) sh) (ck_offset c) dst) (ck_offset c) m = take m dst"
  proof -
    let ?b = "write_at (buf (ck_part c) sh) (ck_offset c) dst"
    have "slice ?b (ck_offset c) (length dst) = dst" by (rule slice_write_at_same) (use f(2) len in \<open>simp add: in_buffer_def c_def\<close>)
    then have "slice ?b (ck_offset c) m = take m dst" using m len by (metis slice_def take_take min.absorb1)
    then show ?thesis .
  qed
  ultimately show "slice (buf (ck_part c) (overwrite f dst sh)) (ck_offset c) m = slice (src (ck_part c)) (ck_offset c) m"
    using f by (simp add: buf_overwrite in_buffer_def c_def)
qed

lemma good_flight_writes:
  assumes "writes_in c sh sh'" "good_flight src sh f" "apart (ck_id c) (ck_id (fl_chunk f))"
  shows "good_flight src sh' f"
proof -
  have "slice (buf (ck_part (fl_chunk f)) sh') (ck_offset (fl_chunk f)) (fl_received f)
      = slice (buf (ck_part (fl_chunk f)) sh) (ck_offset (fl_chunk f)) (fl_received f)"
    using assms unfolding writes_in_def good_flight_def Let_def ck_id_def by auto
  then show ?thesis using assms(2) by (simp add: good_flight_def Let_def)
qed

lemma good_done_writes:
  "writes_in c sh sh' \<Longrightarrow> good_done src sh d \<Longrightarrow> apart (ck_id c) (ck_id d) \<Longrightarrow> good_done src sh' d"
  unfolding writes_in_def good_done_def ck_id_def by auto

lemma buf_ops [simp]:
  "buf p (notify_all sh) = buf p sh" "buf p (leave ce sh) = buf p sh" "buf p (complete x sh) = buf p sh"
  "buf p (give_back cs sh) = buf p sh" "buf p (lose cs sh) = buf p sh" "buf p (fail_transfer e sh) = buf p sh"
  "buf p (sh\<lparr>sh_wire_bytes := n\<rparr>) = buf p sh" "buf p (sh\<lparr>sh_queue := q\<rparr>) = buf p sh" "buf p (sh\<lparr>sh_retries := n\<rparr>) = buf p sh"
  by (simp_all add: buf_def shared_defs)

lemma parts_ops [simp]:
  "sh_parts (notify_all sh) = sh_parts sh" "sh_parts (leave ce sh) = sh_parts sh" "sh_parts (complete x sh) = sh_parts sh"
  "sh_parts (give_back cs sh) = sh_parts sh" "sh_parts (lose cs sh) = sh_parts sh" "sh_parts (fail_transfer e sh) = sh_parts sh"
  by (simp_all add: shared_defs)

lemma done_ops [simp]:
  "sh_done (notify_all sh) = sh_done sh" "sh_done (leave ce sh) = sh_done sh" "sh_done (complete x sh) = x # sh_done sh"
  "sh_done (give_back cs sh) = sh_done sh" "sh_done (lose cs sh) = sh_done sh" "sh_done (fail_transfer e sh) = sh_done sh"
  by (simp_all add: shared_defs)

text \<open>What one thread does to the buffers, to its own chunks and to those that are done.\<close>

fun is_breaking :: "phase \<Rightarrow> bool" where
  "is_breaking (Breaking e exhausted) \<longleftrightarrow> True"
| "is_breaking _ \<longleftrightarrow> False"

text \<open>A thread whose connection broke will fetch its chunks again, whatever is in their ranges now.\<close>

definition worker_good :: "(nat \<Rightarrow> bytes) \<Rightarrow> shared \<Rightarrow> worker \<Rightarrow> bool" where
  "worker_good src sh w \<longleftrightarrow> is_breaking (wk_phase w) \<or> (\<forall>f \<in> set (wk_flight w). good_flight src sh f)"

definition sep :: "(nat \<times> nat \<times> nat) multiset \<Rightarrow> bool" where
  "sep chunk_ids \<longleftrightarrow> (\<forall>x y. {#x, y#} \<subseteq># chunk_ids \<longrightarrow> apart x y)"

lemma sep_two:
  assumes "sep (M + N)" "x \<in># M" "y \<in># N"
  shows "apart x y"
proof -
  have "{#x#} + {#y#} \<subseteq># M + N" using assms(2,3) by (intro subset_mset.add_mono) simp_all
  then have "{#x, y#} \<subseteq># M + N" by (simp add: add_mset_commute)
  then show ?thesis using assms(1) unfolding sep_def by blast
qed

lemma sep_mono: "sep N \<Longrightarrow> M \<subseteq># N \<Longrightarrow> sep M"
  unfolding sep_def using subset_mset.order_trans by blast

lemma ids_of_mem: "c \<in> set cs \<Longrightarrow> ck_id c \<in># ids_of cs"
  by (simp add: ids_of_def)

lemma sep_holds:
  assumes "sep (ids_of (holds w))" "wk_flight w = f # fl" "g \<in> set fl"
  shows "apart (ck_id (fl_chunk f)) (ck_id (fl_chunk g))"
proof (rule sep_two)
  show "sep ({#ck_id (fl_chunk f)#} + ids_of (map fl_chunk fl @ topping (wk_phase w)))"
    using assms(1,2) by (simp add: holds_def)
  show "ck_id (fl_chunk g) \<in># ids_of (map fl_chunk fl @ topping (wk_phase w))"
    using assms(3) by (intro ids_of_mem) simp
qed simp

text \<open>A step leaves the buffers alone, or writes to one chunk that the thread holds.\<close>

definition step_quiet :: "(nat \<Rightarrow> bytes) \<Rightarrow> shared \<Rightarrow> worker \<Rightarrow> shared \<Rightarrow> bool" where
  "step_quiet src sh w' sh' \<longleftrightarrow>
     length (sh_parts sh') = length (sh_parts sh) \<and> (\<forall>p. buf p sh' = buf p sh) \<and> sh_done sh' = sh_done sh
     \<and> (is_breaking (wk_phase w') \<or> (\<forall>f \<in> set (wk_flight w'). good_flight src sh f \<or> fl_received f = 0))"

definition step_writes :: "(nat \<Rightarrow> bytes) \<Rightarrow> shared \<Rightarrow> worker \<Rightarrow> shared \<Rightarrow> chunk \<Rightarrow> bool" where
  "step_writes src sh w' sh' c \<longleftrightarrow>
     writes_in c sh sh' \<and> worker_good src sh' w'
     \<and> (sh_done sh' = sh_done sh \<or> sh_done sh' = c # sh_done sh \<and> good_done src sh' c)"

lemma step_quiet_writes:
  assumes "step_quiet src sh w' sh'"
  shows "step_writes src sh w' sh' c"
proof -
  have "writes_in c sh sh'" using assms by (intro writes_in_same) (simp_all add: step_quiet_def)
  moreover have "worker_good src sh' w'"
    using assms by (auto simp: step_quiet_def worker_good_def good_flight_def Let_def)
  ultimately show ?thesis using assms by (simp add: step_writes_def step_quiet_def)
qed

text \<open>The rest of what is in flight on the connection.\<close>

lemma others_good:
  assumes "writes_in (fl_chunk f) sh sh'" "worker_good src sh w" "sep (ids_of (holds w))" "wk_flight w = f # fl" "g \<in> set fl"
    and "\<not> is_breaking (wk_phase w)"
  shows "good_flight src sh' g"
  using good_flight_writes [OF assms(1)] sep_holds [OF assms(3-5)] assms(2,4-6) by (simp add: worker_good_def)

lemma writes_in_wire [simp]: "writes_in c sh (sh'\<lparr>sh_wire_bytes := n\<rparr>) = writes_in c sh sh'"
  by (simp add: writes_in_def)

lemma good_wire [simp]: "good_flight src (sh\<lparr>sh_wire_bytes := n\<rparr>) = good_flight src sh"
  by (simp add: good_flight_def fun_eq_iff)

lemma retry_keeps:
  "retry spec c charge sh = (ok, sh') \<Longrightarrow> sh_parts sh' = sh_parts sh \<and> sh_done sh' = sh_done sh \<and> buf p sh' = buf p sh"
  by (auto simp: retry_def Let_def buf_def shared_defs split: if_splits)

lemma work_step_writes:
  assumes "work_step spec b lib (honest src) w sh w' sh'"
    and "worker_ok w" "worker_good src sh w" "sep (ids_of (holds w))" "\<And>c. c \<in> set (holds w) \<Longrightarrow> in_buffer src sh c"
  shows "step_quiet src sh w' sh' \<or> (\<exists>c \<in> set (holds w). step_writes src sh w' sh' c)"
  using assms
proof (induction rule: work_step.induct)
  case (data_more h f sh input dst rest received c fl)
  then have f: "flight_ok f" "in_buffer src sh (fl_chunk f)" "good_flight src sh f"
    by (auto simp: worker_ok_def worker_good_def holds_def)
  note new = honest_overwrite [OF f data_more(3)]
  note w = writes_in_overwrite [OF f(1,2) new(1)]
  have "received = fl_received f + unat (fh_logical_len h)"
    using new(2) f(2) data_more(4) by (simp add: in_buffer_def wadd_eq)
  then have "good_flight src (overwrite f dst sh) (f\<lparr>fl_received := received\<rparr>)"
    using new(2,3) by (simp add: good_flight_def Let_def)
  then have "step_writes src sh \<lparr>wk_conn = c, wk_flight = f\<lparr>fl_received := received\<rparr> # fl, wk_phase = Ready\<rparr>
      (overwrite f dst sh\<lparr>sh_wire_bytes := wadd (sh_wire_bytes sh) (unat (fh_wire_len h))\<rparr>) (fl_chunk f)"
    using w others_good [OF w data_more(7,8)] by (auto simp: step_writes_def worker_good_def)
  then show ?case by (auto simp: holds_def)
next
  case (data_last h f sh input dst rest c fl)
  then have f: "flight_ok f" "in_buffer src sh (fl_chunk f)" "good_flight src sh f"
    by (auto simp: worker_ok_def worker_good_def holds_def)
  note new = honest_overwrite [OF f data_last(3)]
  note w = writes_in_overwrite [OF f(1,2) new(1)]
  let ?sh = "complete (fl_chunk f) (release f (overwrite f dst sh\<lparr>sh_wire_bytes := wadd (sh_wire_bytes sh) (unat (fh_wire_len h))\<rparr>))"
  have "fl_received f + unat (fh_logical_len h) = ck_len (fl_chunk f)"
    using new(2) f(2) data_last(4) by (simp add: in_buffer_def wadd_eq)
  then have "good_done src ?sh (fl_chunk f)" using new(3) by (simp add: good_done_def)
  moreover have w': "writes_in (fl_chunk f) sh ?sh" using w by (simp add: writes_in_def)
  ultimately have "step_writes src sh \<lparr>wk_conn = c, wk_flight = fl, wk_phase = Ready\<rparr> ?sh (fl_chunk f)"
    using others_good [OF w' data_last(6,7)] by (auto simp: step_writes_def worker_good_def)
  then show ?case by (auto simp: holds_def)
next
  case (data_failed h f sh input e junk c fl)
  then have f: "flight_ok f" "in_buffer src sh (fl_chunk f)"
    by (auto simp: worker_ok_def holds_def)
  then have "length junk = ck_len (fl_chunk f)" using data_failed(3) by (simp add: chunk_bytes_eq in_buffer_def)
  note w = writes_in_overwrite [OF f this]
  have "step_writes src sh \<lparr>wk_conn = c, wk_flight = f # fl, wk_phase = Breaking e False\<rparr> (overwrite f junk sh) (fl_chunk f)"
    using w by (simp add: step_writes_def worker_good_def)
  then show ?case by (auto simp: holds_def)
next
  case (requeue f fl sh ok sh' c k exhausted)
  then show ?case using retry_keeps [OF requeue(1)] by (simp add: step_quiet_def)
next
  case (error_retried h input e rest f sh sh' c fl)
  then show ?case using retry_keeps [OF error_retried(7)] by (simp add: step_quiet_def worker_good_def)
next
  case (error_exhausted h input e rest f sh sh' c fl)
  then show ?case using retry_keeps [OF error_exhausted(7)] by (simp add: step_quiet_def worker_good_def)
qed (auto simp: step_quiet_def worker_good_def dest!: take_turn_Go take_turn_other
      dest: claim_chunk_buf claim_chunk_Ok)

lemma worker_good_rouse [simp]: "worker_good src sh (rouse woken w) = worker_good src sh w"
  by (simp add: worker_good_def rouse_def)

definition ids_fit :: "(nat \<Rightarrow> bytes) \<Rightarrow> (nat \<times> nat \<times> nat) multiset \<Rightarrow> shared \<Rightarrow> bool" where
  "ids_fit src chunk_ids sh \<longleftrightarrow>
     (\<forall>p < length (sh_parts sh). length (buf p sh) = length (src p))
     \<and> (\<forall>p a n. (p, a, n) \<in># chunk_ids \<longrightarrow> p < length (sh_parts sh) \<and> a + n \<le> length (src p) \<and> n < U64)"

definition pool_good :: "(nat \<Rightarrow> bytes) \<Rightarrow> (nat \<times> nat \<times> nat) multiset \<Rightarrow> worker list \<times> shared \<Rightarrow> bool" where
  "pool_good src chunk_ids x =
     (case x of (ws, sh) \<Rightarrow>
        list_all (worker_good src sh) ws \<and> list_all (good_done src sh) (sh_done sh) \<and> ids_fit src chunk_ids sh)"

lemma worker_good_writes:
  assumes "writes_in c sh sh'" "worker_good src sh u" "\<And>d. d \<in> set (holds u) \<Longrightarrow> apart (ck_id c) (ck_id d)"
  shows "worker_good src sh' u"
  using assms good_flight_writes [OF assms(1)] by (auto simp: worker_good_def holds_def)

lemma pool_step_good:
  assumes "pool_step spec b lib (honest src) x y" "pool_ok chunk_ids x" "pool_good src chunk_ids x" "sep chunk_ids"
  shows "pool_good src chunk_ids y"
  using assms(1)
proof cases
  case (move w sh w' sh' as bs)
  note step = move(3) and x = move(1)
  have ok: "ids_of (holds w) + (ids_of (concat (map holds (as @ bs))) + kept sh) = chunk_ids" "worker_ok w"
    using assms(2) x by (auto simp: pool_ok_def ac_simps)
  have good: "worker_good src sh w" "\<And>u. u \<in> set (as @ bs) \<Longrightarrow> worker_good src sh u"
      "\<And>d. d \<in> set (sh_done sh) \<Longrightarrow> good_done src sh d" "ids_fit src chunk_ids sh"
    using assms(3) x by (auto simp: pool_good_def list_all_iff)
  have fit: "in_buffer src sh c" if "c \<in> set (holds w)" for c
  proof -
    have "ck_id c \<in># chunk_ids" using ids_of_mem [OF that] ok(1) by auto
    then show ?thesis using good(4) by (auto simp: ids_fit_def in_buffer_def ck_id_def)
  qed
  have "sep (ids_of (holds w))" using sep_mono [OF assms(4)] ok(1) by auto
  with work_step_writes [OF step ok(2) good(1) _ fit]
  consider (quiet) "step_quiet src sh w' sh'" | (writes) c where "c \<in> set (holds w)" "step_writes src sh w' sh' c" by blast
  then obtain c where c: "step_writes src sh w' sh' c"
    and keep: "\<And>u. u \<in> set (as @ bs) \<Longrightarrow> worker_good src sh' u" "\<And>d. d \<in> set (sh_done sh) \<Longrightarrow> good_done src sh' d"
  proof cases
    case quiet
    then have "\<And>p. buf p sh' = buf p sh" by (simp add: step_quiet_def)
    then have "worker_good src sh' u = worker_good src sh u" "good_done src sh' d = good_done src sh d" for u d
      by (simp_all add: worker_good_def good_flight_def good_done_def)
    then show ?thesis using that [OF step_quiet_writes [OF quiet]] good(2,3) by blast
  next
    case (writes c)
    then have w: "writes_in c sh sh'" by (simp add: step_writes_def)
    have far: "apart (ck_id c) (ck_id d)" if "ck_id d \<in># ids_of (concat (map holds (as @ bs))) + kept sh" for d
      using sep_two [of "ids_of (holds w)"] ids_of_mem [OF writes(1)] that ok(1) assms(4) by blast
    have "worker_good src sh' u" if "u \<in> set (as @ bs)" for u
    proof (rule worker_good_writes [OF w good(2) [OF that]])
      fix d
      assume "d \<in> set (holds u)"
      then have "d \<in> set (concat (map holds (as @ bs)))" using that by auto
      from far [OF union_iff [THEN iffD2, OF disjI1, OF ids_of_mem [OF this]]] show "apart (ck_id c) (ck_id d)" .
    qed
    moreover have "good_done src sh' d" if "d \<in> set (sh_done sh)" for d
      using good_done_writes [OF w good(3) [OF that] far] ids_of_mem [OF that] by (simp add: kept_def)
    ultimately show ?thesis using that [OF writes(2)] by blast
  qed
  have "ids_fit src chunk_ids sh'" using good(4) c by (auto simp: ids_fit_def step_writes_def writes_in_def)
  moreover have "list_all (good_done src sh') (sh_done sh')" using c keep(2) by (auto simp: step_writes_def list_all_iff)
  moreover have "list_all (worker_good src sh') (map (rouse woken) as @ w' # map (rouse woken) bs)" for woken
    using c keep(1) by (auto simp: step_writes_def list_all_iff)
  ultimately show ?thesis unfolding move(2) by (simp add: pool_good_def)
qed

section \<open>Chunks that cover their buffers\<close>

lemma sep_sorted: "sorted_wrt apart xs \<Longrightarrow> sep (mset xs)"
proof (induction xs)
  case (Cons z xs)
  then have IH: "sep (mset xs)" and z: "\<And>x. x \<in> set xs \<Longrightarrow> apart z x" by auto
  have sym: "apart x y = apart y x" for x y by (cases x; cases y) auto
  have "apart x y" if "{#x, y#} \<subseteq># add_mset z (mset xs)" for x y
  proof (cases "x = z \<or> y = z")
    case True
    then have "x = z \<and> y \<in> set xs \<or> y = z \<and> x \<in> set xs" using that by (auto simp: add_mset_commute)
    then show ?thesis using z sym by blast
  next
    case False
    have "count {#x, y#} a \<le> count (mset xs) a" for a
      using mset_subset_eq_count [OF that, of a] False by (cases "a = z") (auto simp: not_in_iff split: if_splits)
    then have "{#x, y#} \<subseteq># mset xs" by (rule mset_subset_eqI)
    then show ?thesis using IH unfolding sep_def by blast
  qed
  then show ?case by (simp add: sep_def)
qed (simp add: sep_def)

definition queue_from :: "nat \<Rightarrow> fetch_part list \<Rightarrow> chunk list" where
  "queue_from i ps =
     concat (map (\<lambda>(i, p). map (\<lambda>(offset, len). \<lparr>ck_part = i, ck_offset = offset, ck_len = len, ck_attempts = 0\<rparr>) (fp_chunks p))
       (List.enumerate i ps))"

lemma queue_from_Cons:
  "map ck_id (queue_from i (p # ps)) = map (\<lambda>(offset, len). (i, offset, len)) (fp_chunks p) @ map ck_id (queue_from (Suc i) ps)"
  by (auto simp: queue_from_def ck_id_def)

lemma covers_apart: "covers a n cs \<Longrightarrow> sorted_wrt apart (map (\<lambda>(offset, len). (i, offset, len)) cs)"
  by (induction a n cs rule: covers.induct) (auto dest: covers_mem)

lemma queue_from_mem:
  "x \<in> set (map ck_id (queue_from i ps)) \<longleftrightarrow>
   (\<exists>j offset len. x = (i + j, offset, len) \<and> j < length ps \<and> (offset, len) \<in> set (fp_chunks (ps ! j)))"
proof (induction ps arbitrary: i)
  case (Cons p ps)
  show ?case
    unfolding queue_from_Cons set_append Un_iff Cons.IH by (auto simp: nth_Cons' split: if_splits)
qed (simp add: queue_from_def)

lemma queue_from_apart:
  "(\<And>p. p \<in> set ps \<Longrightarrow> covers 0 (n p) (fp_chunks p)) \<Longrightarrow> sorted_wrt apart (map ck_id (queue_from i ps))"
proof (induction ps arbitrary: i)
  case (Cons p ps)
  then show ?case
    unfolding queue_from_Cons sorted_wrt_append using queue_from_mem [of _ "Suc i" ps]
    by (fastforce intro: covers_apart)
qed (simp add: queue_from_def)

lemma covers_slices:
  "covers a b cs \<Longrightarrow> (\<And>o1 n. (o1, n) \<in> set cs \<Longrightarrow> slice xs o1 n = slice ys o1 n) \<Longrightarrow> slice xs a (b - a) = slice ys a (b - a)"
proof (induction a b cs rule: covers.induct)
  case (2 a b o1 n cs)
  then have "b - a = n + (b - (a + n))" using covers_le [of "a + n" b cs] by simp
  moreover have "slice xs a n = slice ys a n" "slice xs (a + n) (b - (a + n)) = slice ys (a + n) (b - (a + n))" using 2 by simp_all
  ultimately show ?case using slice_add by metis
qed simp

text \<open>
  With a server that answers what it was asked, whatever fails on the way: a transfer that reports success has
  filled every buffer with its stream.
\<close>

definition parts_ok :: "(nat \<Rightarrow> bytes) \<Rightarrow> fetch_part list \<Rightarrow> bool" where
  "parts_ok src ps \<longleftrightarrow>
     (\<forall>i < length ps. covers 0 (length (fp_dst (ps ! i))) (fp_chunks (ps ! i)) \<and> length (src i) = length (fp_dst (ps ! i))
        \<and> length (src i) < U64)"

lemma queue_of_from: "queue_of ps = queue_from 0 ps"
  by (simp add: queue_of_def queue_from_def)

lemma chunk_ids_mem: "(p, a, n) \<in># ids_of (queue_of ps) \<longleftrightarrow> p < length ps \<and> (a, n) \<in> set (fp_chunks (ps ! p))"
proof -
  have "(p, a, n) \<in># ids_of (queue_of ps) \<longleftrightarrow> (p, a, n) \<in> set (map ck_id (queue_from 0 ps))"
    by (simp add: ids_of_def queue_of_from)
  then show ?thesis by (simp only: queue_from_mem) auto
qed

lemma parts_ok_sep: "parts_ok src ps \<Longrightarrow> sep (ids_of (queue_of ps))"
  using sep_sorted [OF queue_from_apart [of ps "\<lambda>p. length (fp_dst p)" 0]]
  by (auto simp: parts_ok_def ids_of_def queue_of_from in_set_conv_nth)

lemma buf_start: "p < length ps \<Longrightarrow> buf p (start_transfer ps used) = fp_dst (ps ! p)"
  by (simp add: buf_def start_transfer_def scatter_new_def)

lemma pool_start_good:
  assumes "parts_ok src ps" "list_all fresh_worker ws"
  shows "pool_good src (ids_of (queue_of ps)) (ws, start_transfer ps used)"
proof -
  have parts: "length (sh_parts (start_transfer ps used)) = length ps" by (simp add: start_transfer_def)
  have "ids_fit src (ids_of (queue_of ps)) (start_transfer ps used)"
    unfolding ids_fit_def parts
  proof (intro conjI allI impI)
    show "length (buf p (start_transfer ps used)) = length (src p)" if "p < length ps" for p
      using assms(1) that by (simp add: buf_start parts_ok_def)
    fix p a n
    assume "(p, a, n) \<in># ids_of (queue_of ps)"
    then have mem: "p < length ps" "(a, n) \<in> set (fp_chunks (ps ! p))" by (simp_all add: chunk_ids_mem)
    then show "p < length ps" "a + n \<le> length (src p)" "n < U64"
      using assms(1) covers_mem [of 0 "length (fp_dst (ps ! p))" "fp_chunks (ps ! p)" a n] by (auto simp: parts_ok_def)
  qed
  moreover have "sh_done (start_transfer ps used) = []" by (simp add: start_transfer_def)
  moreover have "list_all (worker_good src (start_transfer ps used)) ws"
    using assms(2) by (auto simp: list_all_iff fresh_worker_def worker_good_def)
  ultimately show ?thesis by (simp add: pool_good_def)
qed

lemma work_step_parts:
  "work_step spec b lib good w sh w' sh' \<Longrightarrow> length (sh_parts sh') = length (sh_parts sh)"
  by (induction rule: work_step.induct)
    (auto dest!: take_turn_Go take_turn_other retry_keeps dest: claim_chunk_buf)

lemma pool_reach_parts: "pool_reach spec b lib good ps x \<Longrightarrow> length (sh_parts (snd x)) = length ps"
proof (induction rule: pool_reach.induct)
  case (moved x y)
  from moved(2) have "length (sh_parts (snd y)) = length (sh_parts (snd x))"
    by cases (auto dest: work_step_parts)
  then show ?case using moved by simp
qed (simp add: start_transfer_def)

lemma pool_reach_good:
  assumes "pool_reach spec b lib (honest src) ps x" "parts_ok src ps"
  shows "pool_good src (ids_of (queue_of ps)) x"
  using assms(1)
proof (induction rule: pool_reach.induct)
  case (begun ws)
  then show ?case using pool_start_good assms(2) by blast
next
  case (moved x y)
  then show ?case using pool_step_good pool_reach_ok parts_ok_sep [OF assms(2)] by blast
qed

lemma transfer_fills_buffers:
  assumes reach: "pool_reach spec b lib (honest src) ps (ws, sh)" and parts: "parts_ok src ps"
    and ok: "outcome used sh = Ok r" and p: "p < length ps"
  shows "buf p sh = src p"
proof -
  have inv: "pool_ok (ids_of (queue_of ps)) (ws, sh)" using reach by (rule pool_reach_ok)
  have "sh_remaining sh = 0" using ok by (auto simp: outcome_def split: option.splits if_splits)
  then have none: "sh_queue sh = []" "sh_lost sh = []" "concat (map holds ws) = []" using pool_ok_remaining [OF inv] by simp_all
  have "ids_of (concat (map holds ws)) + kept sh = ids_of (queue_of ps)" using inv by (simp add: pool_ok_def)
  then have done_all: "ids_of (sh_done sh) = ids_of (queue_of ps)" unfolding none(3) by (simp add: kept_def none)
  have good: "list_all (good_done src sh) (sh_done sh)" "ids_fit src (ids_of (queue_of ps)) sh"
    using pool_reach_good [OF reach parts] by (simp_all add: pool_good_def)
  have same: "slice (buf p sh) a n = slice (src p) a n" if "(a, n) \<in> set (fp_chunks (ps ! p))" for a n
  proof -
    have "(p, a, n) \<in># ids_of (sh_done sh)" using that p by (simp add: done_all chunk_ids_mem)
    then show ?thesis using good(1) by (auto simp: ids_of_def list_all_iff good_done_def ck_id_def)
  qed
  have cov: "covers 0 (length (src p)) (fp_chunks (ps ! p))" using parts p by (simp add: parts_ok_def)
  have "length (sh_parts sh) = length ps" using pool_reach_parts [OF reach] by simp
  then have "length (buf p sh) = length (src p)" using good(2) p by (simp add: ids_fit_def)
  then show ?thesis using covers_slices [OF cov same] slice_all [of "buf p sh"] by simp
qed

text \<open>The server of \<open>Data_Plane\<close> is honest: what its next piece makes of the chunk is what \<open>honest\<close> allows.\<close>

lemma server_is_honest:
  assumes piece: "piece_frame env i lay at (slice (src (ck_part c)) at n) = Ok (Sent_Frame h payload)"
    and f: "fl_chunk f = c" "at = ck_offset c + fl_received f" "fl_received f + n \<le> ck_len c"
    and inside: "ck_offset c + ck_len c \<le> length (src (ck_part c))" "length (src (ck_part c)) < U64" "length dst = ck_len c"
    and kind: "lossless (dp_build env) lay" "inflates (dp_codecs env) lib"
  shows "\<exists>dst'. receive_data b lib h i (ck_offset c) dst (payload @ rest) = Ok (dst', rest) \<and> honest src f h dst dst'"
proof -
  let ?bs = "slice (src (ck_part c)) at n"
  have n: "length ?bs = n" using f inside by simp
  have "receive_data b lib h i (ck_offset c) dst (payload @ rest) = Ok (write_at dst (at - ck_offset c) ?bs, rest)
      \<and> fh_frame_type h = FT_Data \<and> unat (fh_logical_len h) = length ?bs"
    by (rule piece_received [OF piece kind]) (use f inside n in simp_all)
  then show ?thesis using f n by (auto simp: honest_def Let_def)
qed

text \<open>Ranges that are being written at the same time never overlap, whatever the server does.\<close>

lemma flights_apart:
  assumes ok: "pool_ok chunk_ids (as @ w # bs, sh)" and "sep chunk_ids"
    and "f \<in> set (wk_flight w)" "u \<in> set (as @ bs)" "g \<in> set (wk_flight u)" "ck_part (fl_chunk f) = ck_part (fl_chunk g)"
  shows "disjoint_slices (fl_slice f) (fl_slice g)"
proof -
  have "ids_of (holds w) + (ids_of (concat (map holds (as @ bs))) + kept sh) = chunk_ids"
    using ok by (auto simp: pool_ok_def ac_simps)
  moreover have "ck_id (fl_chunk f) \<in># ids_of (holds w)" using assms(3) by (intro ids_of_mem) (simp add: holds_def)
  moreover have "ck_id (fl_chunk g) \<in># ids_of (concat (map holds (as @ bs))) + kept sh"
    unfolding union_iff by (intro disjI1 ids_of_mem) (use assms(4,5) in \<open>auto simp: holds_def\<close>)
  ultimately have "apart (ck_id (fl_chunk f)) (ck_id (fl_chunk g))" using sep_two assms(2) by blast
  moreover have "flight_ok f" "flight_ok g" using ok assms(3-5) by (auto simp: pool_ok_def list_all_iff worker_ok_def)
  ultimately show ?thesis using assms(6) by (auto simp: ck_id_def flight_ok_def disjoint_slices_def)
qed

section \<open>A transfer to run\<close>

text \<open>One byte over one connection.\<close>

definition sample_part :: fetch_part where
  "sample_part = \<lparr>fp_request_id = 1, fp_ticket = replicate 16 9, fp_chunks = [(0, 1)], fp_dst = [0]\<rparr>"

definition sample_spec :: fetch_spec where
  "sample_spec = \<lparr>fs_credit = 2, fs_max_retries = 1\<rparr>"

lemma one_thread:
  assumes "pool_reach spec b lib good ps ([w], sh)" "work_step spec b lib good w sh w' sh'"
  shows "pool_reach spec b lib good ps ([w'], sh')"
proof (rule moved [OF assms(1)])
  show "pool_step spec b lib good ([w], sh) ([w'], sh')"
    using move [OF assms(2), of "[]" "[]"] by simp
qed

definition sample_shared :: "chunk list \<Rightarrow> (nat \<times> nat) list \<Rightarrow> bytes \<Rightarrow> shared" where
  "sample_shared queue claimed bs =
     (start_transfer [sample_part] 1)\<lparr>sh_queue := queue,
       sh_parts := [\<lparr>pt_request_id = 1, pt_ticket = replicate 16 9, pt_scatter = \<lparr>sb_len = 1, sb_claimed = claimed, sb_bytes = bs\<rparr>\<rparr>]\<rparr>"

lemma queue_of_one:
  "queue_of [p] = map (\<lambda>(offset, len). \<lparr>ck_part = 0, ck_offset = offset, ck_len = len, ck_attempts = 0\<rparr>) (fp_chunks p)"
  by (subst queue_of_def) simp

lemma sample_queue: "queue_of [sample_part] = [\<lparr>ck_part = 0, ck_offset = 0, ck_len = 1, ck_attempts = 0\<rparr>]"
  by (simp only: queue_of_one) (simp add: sample_part_def)

lemma sample_run:
  "\<exists>sh. pool_reach sample_spec (dp_build sample_env) (dp_codecs sample_env) (honest (\<lambda>_. [7])) [sample_part]
      ([\<lparr>wk_conn = True, wk_flight = [], wk_phase = Gone\<rparr>], sh)
    \<and> (\<exists>r. outcome 1 sh = Ok r)"
proof -
  let ?c = "\<lparr>ck_part = 0, ck_offset = 0, ck_len = 1, ck_attempts = 0\<rparr>"
  let ?f = "\<lparr>fl_chunk = ?c, fl_slice = \<lparr>sl_offset = 0, sl_len = 1\<rparr>, fl_received = 0\<rparr>"
  let ?at = "\<lambda>fl ph. \<lparr>wk_conn = True, wk_flight = fl, wk_phase = ph\<rparr>"
  let ?fin = "complete ?c (release ?f ((overwrite ?f [7] (sample_shared [] [(0, 1)] [0]))\<lparr>sh_wire_bytes := 1\<rparr>))"
  let ?reach = "\<lambda>w sh. pool_reach sample_spec (dp_build sample_env) (dp_codecs sample_env) (honest (\<lambda>_. [7])) [sample_part] ([w], sh)"
  have start: "start_transfer [sample_part] (Suc 0) = sample_shared [?c] [] [0]"
    by (simp add: sample_shared_def start_transfer_def sample_queue scatter_new_def) (simp add: sample_part_def)
  have "?reach (?at [] Ready) (start_transfer [sample_part] (length [?at [] Ready]))"
    by (rule begun) (simp_all add: fresh_worker_def sample_queue)
  then have "?reach (?at [] Ready) (sample_shared [?c] [] [0])" by (simp add: start)
  then have "?reach (?at [] (Topping [?c])) (sample_shared [] [] [0])"
    by (rule one_thread) (rule go, simp add: take_turn_def sample_spec_def sample_shared_def start_transfer_def Let_def)
  then have "?reach (?at [?f] (Topping [])) (sample_shared [] [(0, 1)] [0])"
    by (rule one_thread) (rule ask [where fl = "[]", simplified],
        simp add: claim_chunk_def claim_def cadd_def U64_def on_part_def sample_shared_def)
  then have "?reach (?at [?f] Reading) (sample_shared [] [(0, 1)] [0])"
    by (rule one_thread) (rule asked)
  then have "?reach (?at [] Ready) ?fin"
  proof (rule one_thread)
    have w: "wadd (sh_wire_bytes (sample_shared [] [(0, 1)] [0])) (unat (fh_wire_len (data_header 1 0 1))) = 1"
      by (simp add: sample_shared_def start_transfer_def data_header_def wadd_def U64_def)
    show "work_step sample_spec (dp_build sample_env) (dp_codecs sample_env) (honest (\<lambda>_. [7])) (?at [?f] Reading)
        (sample_shared [] [(0, 1)] [0]) (?at [] Ready) ?fin"
      using data_last [of "data_header 1 0 1" "dp_build sample_env" "dp_codecs sample_env" ?f "sample_shared [] [(0, 1)] [0]" "[7]" "[7]" "[]"
          "honest (\<lambda>_. [7])" sample_spec True "[]"]
      unfolding w
      by (simp add: receive_data_def data_header_def sane_lengths_def place_in_chunk_def csub_def cadd_def U64_def read_exact_def
          chunk_bytes_def slice_load_def request_of_def sample_shared_def honest_def write_at_def slice_def wadd_def)
  qed
  then have "?reach (?at [] (Leaving None)) ?fin"
    by (rule one_thread) (rule finished, simp add: take_turn_def sample_spec_def complete_def notify_all_def release_def on_part_def
        overwrite_def sample_shared_def start_transfer_def sample_queue Let_def)
  then have "?reach (?at [] Gone) (leave None ?fin)"
    by (rule one_thread) (rule left)
  moreover have "\<exists>r. outcome 1 (leave None ?fin) = Ok r"
    by (simp add: outcome_def leave_def complete_def notify_all_def release_def on_part_def overwrite_def sample_shared_def start_transfer_def sample_queue Let_def)
  ultimately show ?thesis by blast
qed

text \<open>Two connections that have each asked for one byte of the same buffer.\<close>

definition pair_part :: fetch_part where
  "pair_part = \<lparr>fp_request_id = 1, fp_ticket = replicate 16 9, fp_chunks = [(0, 1), (1, 1)], fp_dst = [0, 0]\<rparr>"

definition pair_spec :: fetch_spec where
  "pair_spec = \<lparr>fs_credit = 1, fs_max_retries = 1\<rparr>"

definition pair_shared :: "chunk list \<Rightarrow> (nat \<times> nat) list \<Rightarrow> shared" where
  "pair_shared queue claimed =
     (start_transfer [pair_part] 2)\<lparr>sh_queue := queue,
       sh_parts := [\<lparr>pt_request_id = 1, pt_ticket = replicate 16 9, pt_scatter = \<lparr>sb_len = 2, sb_claimed = claimed, sb_bytes = [0, 0]\<rparr>\<rparr>]\<rparr>"

definition byte_chunk :: "nat \<Rightarrow> chunk" where
  "byte_chunk i = \<lparr>ck_part = 0, ck_offset = i, ck_len = 1, ck_attempts = 0\<rparr>"

definition byte_flight :: "nat \<Rightarrow> in_flight" where
  "byte_flight i = \<lparr>fl_chunk = byte_chunk i, fl_slice = \<lparr>sl_offset = i, sl_len = 1\<rparr>, fl_received = 0\<rparr>"

lemma pair_queue: "queue_of [pair_part] = [byte_chunk 0, byte_chunk 1]"
  by (simp only: queue_of_one) (simp add: pair_part_def byte_chunk_def)

lemma pair_start: "start_transfer [pair_part] (Suc (Suc 0)) = pair_shared [byte_chunk 0, byte_chunk 1] []"
  by (simp add: pair_shared_def start_transfer_def pair_queue scatter_new_def numeral_2_eq_2) (simp add: pair_part_def numeral_2_eq_2)

lemma pair_turn: "take_turn pair_spec [] (pair_shared (c # q) cl) = (Go [c], pair_shared q cl)"
  by (cases q) (simp_all add: take_turn_def pair_spec_def pair_shared_def start_transfer_def Let_def)

lemma pair_claim:
  "i < 2 \<Longrightarrow> \<forall>held \<in> set cl. \<not> overlaps i (i + 1) held
    \<Longrightarrow> claim_chunk (byte_chunk i) (pair_shared q cl) = Ok (byte_flight i, pair_shared q (cl @ [(i, i + 1)]))"
  by (auto simp: claim_chunk_def claim_def cadd_def U64_def on_part_def pair_shared_def byte_chunk_def byte_flight_def)

lemma pair_run:
  "pool_reach pair_spec b lib good [pair_part]
     ([\<lparr>wk_conn = True, wk_flight = [byte_flight 0], wk_phase = Topping []\<rparr>,
       \<lparr>wk_conn = True, wk_flight = [byte_flight 1], wk_phase = Topping []\<rparr>], pair_shared [] [(0, 1), (1, 2)])"
proof -
  let ?at = "\<lambda>fl ph. \<lparr>wk_conn = True, wk_flight = fl, wk_phase = ph\<rparr>"
  let ?reach = "\<lambda>w u sh. pool_reach pair_spec b lib good [pair_part] ([w, u], sh)"
  have one: "?reach w' u sh'" if "?reach w u sh" "work_step pair_spec b lib good w sh w' sh'" "sh_wakes sh' = sh_wakes sh" for w u sh w' sh'
    by (rule moved [OF that(1)]) (use move [OF that(2), of "[]" "[u]"] that(3) in \<open>simp add: rouse_def\<close>)
  have two: "?reach w u' sh'" if "?reach w u sh" "work_step pair_spec b lib good u sh u' sh'" "sh_wakes sh' = sh_wakes sh" for w u sh u' sh'
    by (rule moved [OF that(1)]) (use move [OF that(2), of "[w]" "[]"] that(3) in \<open>simp add: rouse_def\<close>)
  have wakes: "sh_wakes (pair_shared q cl) = 0" for q cl by (simp add: pair_shared_def start_transfer_def)
  have "?reach (?at [] Ready) (?at [] Ready) (start_transfer [pair_part] (length [?at [] Ready, ?at [] Ready]))"
    by (rule begun) (simp_all add: fresh_worker_def pair_queue)
  then have "?reach (?at [] Ready) (?at [] Ready) (pair_shared [byte_chunk 0, byte_chunk 1] [])" by (simp add: pair_start)
  then have "?reach (?at [] (Topping [byte_chunk 0])) (?at [] Ready) (pair_shared [byte_chunk 1] [])"
    by (rule one) (rule go, rule pair_turn, simp add: wakes)
  then have "?reach (?at [byte_flight 0] (Topping [])) (?at [] Ready) (pair_shared [byte_chunk 1] [(0, 1)])"
    by (rule one) (rule ask [where fl = "[]", simplified], simp_all add: pair_claim wakes)
  then have "?reach (?at [byte_flight 0] (Topping [])) (?at [] (Topping [byte_chunk 1])) (pair_shared [] [(0, 1)])"
    by (rule two) (rule go, rule pair_turn, simp add: wakes)
  then show ?thesis
    by (rule two) (rule ask [where fl = "[]", simplified], simp_all add: pair_claim wakes overlaps_def numeral_2_eq_2)
qed

end
