(* ===== verification/Reduce_Walk.thy ===== *)
theory Reduce_Walk
  imports Backend
begin

text \<open>
  How a reduction goes over a selection (\<open>aex-core/src/reduce.rs\<close>): which axes it reduces, how an element maps
  to the cell of the result that it belongs to, and the walk, which reads the selection block by block and
  carries the index of an element, its cell and its number along. An accumulator is what the walk pushes into;
  \<open>None\<close> is a panic.
\<close>

section \<open>Functions and arguments\<close>

datatype reduction =
  F_Sum | F_Prod | F_Mean | F_Max | F_Min | F_Std | F_Var | F_All | F_Any | F_Argmax | F_Argmin
| F_NanSum | F_NanMean | F_NanMax | F_NanMin

definition reduction_names :: "(string \<times> reduction) list" where
  "reduction_names =
     [(''sum'', F_Sum), (''prod'', F_Prod), (''mean'', F_Mean), (''max'', F_Max), (''amax'', F_Max), (''min'', F_Min),
      (''amin'', F_Min), (''std'', F_Std), (''var'', F_Var), (''all'', F_All), (''any'', F_Any), (''argmax'', F_Argmax),
      (''argmin'', F_Argmin), (''nansum'', F_NanSum), (''nanmean'', F_NanMean), (''nanmax'', F_NanMax), (''nanmin'', F_NanMin)]"

definition reduction_from_name :: "string \<Rightarrow> reduction option" where
  "reduction_from_name name = map_of reduction_names name"

definition integral :: "dtype \<Rightarrow> bool" where
  "integral d \<longleftrightarrow> d \<in> {Bool, Int8, Int16, Int32, Int64, Uint8, Uint16, Uint32, Uint64}"

definition result_dtype :: "reduction \<Rightarrow> dtype \<Rightarrow> dtype" where
  "result_dtype fn input =
     (if fn \<in> {F_Sum, F_Prod, F_NanSum} then
        (if input \<in> {Bool, Int8, Int16, Int32, Int64} then Int64
         else if input \<in> {Uint8, Uint16, Uint32, Uint64} then Uint64
         else input)
      else if fn \<in> {F_Mean, F_NanMean} then (if integral input then Float64 else input)
      else if fn \<in> {F_Std, F_Var} then
        (if input \<in> {Float16, Float32, Float64} then input
         else if input = Complex64 then Float32
         else Float64)
      else if fn \<in> {F_Max, F_Min, F_NanMax, F_NanMin} then input
      else if fn \<in> {F_All, F_Any} then Bool
      else Int64)"

definition needs_an_element :: "reduction \<Rightarrow> bool" where
  "needs_an_element fn \<longleftrightarrow> fn \<in> {F_Max, F_Min, F_NanMax, F_NanMin, F_Argmax, F_Argmin}"

datatype axis = Axis_All | Axis_One int | Axis_Many "int list"

record reduce_args =
  ra_axis :: axis
  ra_keepdims :: bool
  ra_ddof :: int

definition reduce_args_default :: reduce_args where
  "reduce_args_default = \<lparr>ra_axis = Axis_All, ra_keepdims = False, ra_ddof = 0\<rparr>"

text \<open>The loop of \<open>reduced_axes\<close>, over the axes that were named.\<close>

fun mark_axes :: "nat \<Rightarrow> int list \<Rightarrow> bool list \<Rightarrow> aex_error + bool list" where
  "mark_axes nd [] reduced = Ok reduced"
| "mark_axes nd (a # axes) reduced =
     (let d = (if a < 0 then a + int nd else a) in
      if d < 0 \<or> d \<ge> int nd then Err BadFunction
      else if reduced ! nat d then Err BadFunction
      else mark_axes nd axes (reduced[nat d := True]))"

definition reduced_axes :: "nat \<Rightarrow> axis \<Rightarrow> reduction \<Rightarrow> aex_error + bool list" where
  "reduced_axes nd axis fn =
     (case axis of
        Axis_All \<Rightarrow> Ok (replicate nd True)
      | Axis_One a \<Rightarrow> mark_axes nd [a] (replicate nd False)
      | Axis_Many axes \<Rightarrow>
          if fn \<in> {F_Argmax, F_Argmin} then Err BadFunction else mark_axes nd axes (replicate nd False))"

section \<open>Cells\<close>

text \<open>The loop over the axes from the last: the stride of each in cells, and the number of cells.\<close>

fun cell_strides :: "nat list \<Rightarrow> bool list \<Rightarrow> nat list \<times> nat" where
  "cell_strides (len # lens) (reduced # rs) =
     (let (strides, cells) = cell_strides lens rs in
      if reduced then (0 # strides, cells) else (cells # strides, wmul cells len))"
| "cell_strides _ _ = ([], 1)"

fun kept_shape :: "bool \<Rightarrow> nat list \<Rightarrow> bool list \<Rightarrow> nat list" where
  "kept_shape keepdims (len # lens) (reduced # rs) =
     (if \<not> reduced then len # kept_shape keepdims lens rs
      else if keepdims then 1 # kept_shape keepdims lens rs
      else kept_shape keepdims lens rs)"
| "kept_shape keepdims _ _ = []"

definition per_cell :: "nat list \<Rightarrow> bool list \<Rightarrow> nat" where
  "per_cell shape reduced = foldl wmul 1 (map fst (filter snd (zip shape reduced)))"

record reduce_walk =
  wa_shape :: "nat list"
  wa_stride :: "nat list"
  wa_pos_axis :: "nat option"
  wa_cells :: nat
  wa_ddof :: int
  wa_out :: dtype

section \<open>The walk\<close>

text \<open>
  \<open>for d in (0..nd).rev()\<close>: axes from the last, until one does not carry. The second result is the cell, the
  third whether every axis so far carried.
\<close>

fun advance :: "nat list \<Rightarrow> nat list \<Rightarrow> nat list \<Rightarrow> nat \<Rightarrow> nat list \<times> nat \<times> bool" where
  "advance (len # lens) (stride # strides) (i # idx) cell =
     (case advance lens strides idx cell of
        (idx, cell, False) \<Rightarrow> (i # idx, cell, False)
      | (idx, cell, True) \<Rightarrow>
          let i = wadd i 1; cell = wadd cell stride in
          if i < len then (i # idx, cell, False)
          else (0 # idx, wsub cell (wmul stride len), True))"
| "advance _ _ _ cell = ([], cell, True)"

record 'acc fold_state =
  ws_idx :: "nat list"
  ws_cell :: nat
  ws_flat :: nat
  ws_acc :: 'acc

text \<open>The elements of one block. \<open>push cell pos x acc\<close> is the accumulator's.\<close>

fun push_block ::
    "reduce_walk \<Rightarrow> (nat \<Rightarrow> nat \<Rightarrow> 't \<Rightarrow> 'acc \<Rightarrow> 'acc option) \<Rightarrow> 't list \<Rightarrow> 'acc fold_state \<Rightarrow> 'acc fold_state option" where
  "push_block w push [] st = Some st"
| "push_block w push (x # xs) st =
     (let pos = (case wa_pos_axis w of None \<Rightarrow> ws_flat st | Some a \<Rightarrow> ws_idx st ! a) in
      case push (ws_cell st) pos x (ws_acc st) of
        None \<Rightarrow> None
      | Some acc \<Rightarrow>
          let (idx, cell, _) = advance (wa_shape w) (wa_stride w) (ws_idx st) (ws_cell st)
          in push_block w push xs \<lparr>ws_idx = idx, ws_cell = cell, ws_flat = wadd (ws_flat st) 1, ws_acc = acc\<rparr>)"

definition BLOCK_BYTES :: nat where "BLOCK_BYTES = 4 * 2 ^ 20"

text \<open>
  \<open>fold\<close>. The sum of the offset and the length of a block is at most \<open>total_bytes\<close>. A block of no bytes would
  make the loop go round for ever; that is \<open>None\<close> as well.
\<close>

function fold_blocks ::
    "(nat \<Rightarrow> bytes \<Rightarrow> (aex_error + bytes) option) \<Rightarrow> nat \<Rightarrow> nat \<Rightarrow> nat \<Rightarrow> (bytes \<Rightarrow> 't) \<Rightarrow> reduce_walk
     \<Rightarrow> (nat \<Rightarrow> nat \<Rightarrow> 't \<Rightarrow> 'acc \<Rightarrow> 'acc option) \<Rightarrow> nat \<Rightarrow> bytes \<Rightarrow> 'acc fold_state \<Rightarrow> (aex_error + 'acc) option" where
  "fold_blocks read total_bytes block sz elem w push offset buf st =
     (if \<not> offset < total_bytes then Some (Ok (ws_acc st))
      else
        let len = min (total_bytes - offset) block in
        if len = 0 then None
        else
          case read offset (take len buf) of
            None \<Rightarrow> None
          | Some (Err e) \<Rightarrow> Some (Err e)
          | Some (Ok got) \<Rightarrow>
              (case push_block w push (map elem (chunks_exact sz got)) st of
                 None \<Rightarrow> None
               | Some st \<Rightarrow> fold_blocks read total_bytes block sz elem w push (offset + len) (write_at buf 0 got) st))"
  by pat_completeness auto
termination
  by (relation "measure (\<lambda>(read, total_bytes, block, sz, elem, w, push, offset, buf, st). total_bytes - offset)") auto

declare fold_blocks.simps [simp del]

definition fold_walk ::
    "(bytes \<Rightarrow> bytes) \<Rightarrow> dataset \<Rightarrow> layout \<Rightarrow> reduce_walk \<Rightarrow> nat \<Rightarrow> (bytes \<Rightarrow> 't)
     \<Rightarrow> (nat \<Rightarrow> nat \<Rightarrow> 't \<Rightarrow> 'acc \<Rightarrow> 'acc option) \<Rightarrow> 'acc \<Rightarrow> (aex_error + 'acc) option" where
  "fold_walk f16_from_f32 ds lay w sz elem push acc =
     (let block = BLOCK_BYTES div sz * sz in
      fold_blocks (read_range f16_from_f32 ds lay) (lay_total_bytes lay) block sz elem w push 0
        (replicate (min block (lay_total_bytes lay)) 0)
        \<lparr>ws_idx = replicate (length (wa_shape w)) 0, ws_cell = 0, ws_flat = 0, ws_acc = acc\<rparr>)"

section \<open>What the walk visits\<close>

text \<open>The cell of the \<open>n\<close>-th element and the position it reports, by division instead of by carrying.\<close>

definition cell_at :: "reduce_walk \<Rightarrow> nat \<Rightarrow> nat" where
  "cell_at w n = sum_list (map2 (*) (unravel (wa_shape w) n) (wa_stride w))"

definition pos_at :: "reduce_walk \<Rightarrow> nat \<Rightarrow> nat" where
  "pos_at w n = (case wa_pos_axis w of None \<Rightarrow> n | Some a \<Rightarrow> unravel (wa_shape w) n ! a)"

fun push_all :: "(nat \<Rightarrow> nat \<Rightarrow> 't \<Rightarrow> 'acc \<Rightarrow> 'acc option) \<Rightarrow> (nat \<times> nat \<times> 't) list \<Rightarrow> 'acc \<Rightarrow> 'acc option" where
  "push_all push [] acc = Some acc"
| "push_all push ((cell, pos, x) # vs) acc = Option.bind (push cell pos x acc) (push_all push vs)"

definition visits :: "reduce_walk \<Rightarrow> nat \<Rightarrow> 't list \<Rightarrow> (nat \<times> nat \<times> 't) list" where
  "visits w n xs = map2 (\<lambda>i x. (cell_at w i, pos_at w i, x)) [n..<n + length xs] xs"

section \<open>The odometer\<close>

text \<open>Cells stay machine integers while an index is carried.\<close>

fun cells_fit :: "nat \<Rightarrow> nat list \<Rightarrow> nat list \<Rightarrow> bool" where
  "cells_fit base (len # lens) (stride # strides) \<longleftrightarrow>
     base + len * stride < U64 \<and> cells_fit (base + (len - 1) * stride) lens strides"
| "cells_fit base _ _ \<longleftrightarrow> True"

lemma cells_fit_mono: "cells_fit base lens strides \<Longrightarrow> base' \<le> base \<Longrightarrow> cells_fit base' lens strides"
  by (induction base lens strides arbitrary: base' rule: cells_fit.induct) auto

lemma unravel_zero: "unravel ds 0 = map (\<lambda>_. 0) ds"
  by (induction ds) simp_all

lemma unravel_full: "unravel ds (prod_list ds) = unravel ds 0"
  using unravel_add_mult [of ds 0 1] by simp

lemma sum_zero_strides: "sum_list (map2 (*) (map (\<lambda>_. 0 :: nat) ds) ss) = 0"
proof (induction ds arbitrary: ss)
  case (Cons d ds)
  then show ?case by (cases ss) simp_all
qed simp

lemma advance_next:
  assumes "length strides = length lens" "n < prod_list lens" "prod_list lens < U64" "cells_fit base lens strides"
  shows "advance lens strides (unravel lens n) (base + sum_list (map2 (*) (unravel lens n) strides))
    = (unravel lens (Suc n), base + sum_list (map2 (*) (unravel lens (Suc n)) strides), Suc n = prod_list lens)"
  using assms
proof (induction lens arbitrary: strides n base)
  case (Cons len lens)
  then obtain stride ss where strides: "strides = stride # ss" "length ss = length lens" by (cases strides) auto
  let ?P = "prod_list lens"
  have pos: "0 < ?P" "0 < len" using Cons.prems(2) by (auto intro!: Nat.gr0I)
  define i where "i = n div ?P"
  define m where "m = n mod ?P"
  have i: "i < len" using Cons.prems(2) pos by (simp add: i_def less_mult_imp_div_less)
  have n: "n = m + i * ?P" by (simp add: i_def m_def)
  have m: "m < ?P" using pos by (simp add: m_def)
  have small: "?P < U64" "len < U64" using Cons.prems(3) pos
    by (metis Cons.prems(3) One_nat_def Suc_leI le_less_trans mult.left_neutral mult_le_mono1 prod_list.Cons,
        metis Cons.prems(3) One_nat_def Suc_leI le_less_trans mult.right_neutral mult_le_mono2 prod_list.Cons)
  let ?base = "base + i * stride"
  have "i * stride \<le> (len - 1) * stride" using i by (intro mult_le_mono1) simp
  then have fit: "cells_fit ?base lens ss" "base + len * stride < U64"
    using Cons.prems(4) cells_fit_mono [of "base + (len - 1) * stride" lens ss ?base] by (simp_all add: strides)
  have here: "unravel (len # lens) n = i # unravel lens m"
    using i m pos by (simp add: n unravel_add_mult)
  note IH = Cons.IH [OF strides(2) m small(1) fit(1)]
  show ?case
  proof (cases "Suc m = ?P")
    case False
    then have "Suc m < ?P" using m by simp
    then have next_n: "unravel (len # lens) (Suc n) = i # unravel lens (Suc m)"
    proof -
      have "Suc n = Suc m + i * ?P" by (simp add: n)
      moreover have "(k + i * ?P) div ?P = i" if "k < ?P" for k using that by simp
      then have "(Suc m + i * ?P) div ?P mod len = i" using \<open>Suc m < ?P\<close> i by (simp only: mod_less)
      ultimately show ?thesis by (simp only: unravel.simps unravel_add_mult)
    qed
    have "Suc n \<noteq> len * ?P"
    proof
      assume "Suc n = len * ?P"
      then have "Suc m = (len - i) * ?P" by (simp add: n diff_mult_distrib)
      then show False using \<open>Suc m < ?P\<close> i by (cases "len - i") auto
    qed
    then show ?thesis
      using IH False unfolding here next_n strides by (simp add: add.assoc)
  next
    case True
    have tail: "unravel lens (Suc m) = unravel lens 0" using True unravel_full [of lens] by simp
    have zero: "sum_list (map2 (*) (unravel lens 0) ss) = 0" by (simp add: unravel_zero sum_zero_strides)
    have sn: "Suc n = Suc i * ?P" using True by (simp add: n)
    then have next_n: "unravel (len # lens) (Suc n) = (Suc i mod len) # unravel lens 0"
      using pos unravel_add_mult [of lens 0 "Suc i"] by simp
    have eq: "Suc n = len * ?P \<longleftrightarrow> Suc i = len" using sn pos by (simp only: mult_cancel2) simp
    have grow: "(i + 1) * stride \<le> len * stride" using i by (intro mult_le_mono1) simp
    have add: "wadd i 1 = Suc i" "wadd ?base stride = base + Suc i * stride"
      using i small(2) grow fit(2) by (simp_all add: wadd_eq)
    have "wmul stride len = len * stride" using fit(2) by (simp add: wmul_eq mult.commute)
    then have sub: "wsub (base + len * stride) (wmul stride len) = base"
      using fit(2) by (simp add: wsub_eq)
    show ?thesis
      using IH True i unfolding here next_n strides tail
      by (cases "Suc i = len") (simp_all add: add [unfolded One_nat_def] sub zero eq Let_def add.assoc)
  qed
qed (simp add: U64_def)

section \<open>Cells are numbered in C order\<close>

definition kept_of :: "bool list \<Rightarrow> 'a list \<Rightarrow> 'a list" where
  "kept_of rs xs = map fst (filter (\<lambda>(_, reduced). \<not> reduced) (zip xs rs))"

lemma kept_simps [simp]:
  "kept_of (r # rs) (x # xs) = (if r then kept_of rs xs else x # kept_of rs xs)" "kept_of [] xs = []" "kept_of rs [] = []"
  by (simp_all add: kept_of_def)

lemma kept_shape_kept: "kept_shape False lens rs = kept_of rs lens"
  by (induction False lens rs rule: kept_shape.induct) (simp_all add: kept_of_def)

lemma prod_kept_le: "length rs = length (lens :: nat list) \<Longrightarrow> 0 \<notin> set lens \<Longrightarrow> prod_list (kept_of rs lens) \<le> prod_list lens"
proof (induction rs lens rule: list_induct2)
  case (Cons r rs len lens)
  then show ?case by (auto intro: le_trans [OF _ mult_le_mono1 [of 1 len]])
qed simp

lemma cell_strides_ok:
  assumes "length rs = length lens" "0 \<notin> set lens" "prod_list lens < U64"
  shows "cell_strides lens rs = (fst (cell_strides lens rs), prod_list (kept_of rs lens))
    \<and> length (fst (cell_strides lens rs)) = length lens
    \<and> (\<forall>cs. length cs = length lens \<longrightarrow> sum_list (map2 (*) cs (fst (cell_strides lens rs))) = ravel (kept_of rs lens) (kept_of rs cs))
    \<and> (\<forall>base. base + prod_list (kept_of rs lens) < U64 \<longrightarrow> cells_fit base lens (fst (cell_strides lens rs)))"
  using assms
proof (induction rs lens rule: list_induct2)
  case (Cons r rs len lens)
  have "prod_list lens \<le> len * prod_list lens" using Cons.prems(1) by (cases len) auto
  then have "prod_list lens < U64" using Cons.prems(2) unfolding prod_list.Cons by (rule le_less_trans)
  with Cons.prems have small: "prod_list lens < U64" "0 \<notin> set lens" "0 < len" by auto
  obtain strides where IH: "cell_strides lens rs = (strides, prod_list (kept_of rs lens))" "length strides = length lens"
    "\<And>cs. length cs = length lens \<Longrightarrow> sum_list (map2 (*) cs strides) = ravel (kept_of rs lens) (kept_of rs cs)"
    "\<And>base. base + prod_list (kept_of rs lens) < U64 \<Longrightarrow> cells_fit base lens strides"
    using Cons.IH [OF small(2,1)] by (metis fst_conv)
  have "len * prod_list (kept_of rs lens) \<le> len * prod_list lens"
    using prod_kept_le [OF Cons.hyps small(2)] by (rule mult_le_mono2)
  then have "len * prod_list (kept_of rs lens) < U64" using Cons.prems(2) unfolding prod_list.Cons by (rule le_less_trans)
  then have mul: "wmul (prod_list (kept_of rs lens)) len = len * prod_list (kept_of rs lens)" by (simp add: wmul_eq mult.commute)
  have split_len: "base + (len - 1) * n + n = base + len * n" for base n :: nat
    using small(3) by (cases len) simp_all
  show ?case
    using IH mul split_len [of _ "prod_list (kept_of rs lens)"] by (auto simp: length_Suc_conv)
qed simp

text \<open>The cell of an element is the C-order number of its kept coordinates, and it is one of the cells.\<close>

lemma in_dims_kept: "in_dims lens cs \<Longrightarrow> length rs = length lens \<Longrightarrow> in_dims (kept_of rs lens) (kept_of rs cs)"
proof (induction rs arbitrary: lens cs)
  case (Cons r rs)
  then obtain l ls c cs' where "lens = l # ls" "cs = c # cs'" by (cases lens; cases cs) auto
  then show ?case using Cons by simp
qed simp

definition walk_ok :: "reduce_walk \<Rightarrow> bool list \<Rightarrow> bool" where
  "walk_ok w reduced \<longleftrightarrow>
     length reduced = length (wa_shape w) \<and> prod_list (wa_shape w) < U64 \<and> 0 \<notin> set (wa_shape w)
     \<and> (wa_stride w, wa_cells w) = cell_strides (wa_shape w) reduced"

lemma walk_okD:
  assumes "walk_ok w reduced"
  shows "wa_cells w = prod_list (kept_of reduced (wa_shape w))" "length (wa_stride w) = length (wa_shape w)"
    "length cs = length (wa_shape w) \<Longrightarrow> sum_list (map2 (*) cs (wa_stride w)) = ravel (kept_of reduced (wa_shape w)) (kept_of reduced cs)"
    "wa_cells w < U64" "cells_fit 0 (wa_shape w) (wa_stride w)"
proof -
  have ok: "length reduced = length (wa_shape w)" "0 \<notin> set (wa_shape w)" "prod_list (wa_shape w) < U64"
    "wa_stride w = fst (cell_strides (wa_shape w) reduced)" "wa_cells w = snd (cell_strides (wa_shape w) reduced)"
    using assms by (auto simp: walk_ok_def dest: arg_cong [where f = fst] arg_cong [where f = snd])
  note cs = cell_strides_ok [OF ok(1-3)]
  show cells: "wa_cells w = prod_list (kept_of reduced (wa_shape w))" using cs ok(5) by (metis snd_conv)
  then show small: "wa_cells w < U64" using prod_kept_le [OF ok(1,2)] ok(3) by simp
  show "length (wa_stride w) = length (wa_shape w)" using cs ok(4) by simp
  show "cells_fit 0 (wa_shape w) (wa_stride w)" using cs ok(4) cells small by simp
  show "length cs = length (wa_shape w) \<Longrightarrow> sum_list (map2 (*) cs (wa_stride w)) = ravel (kept_of reduced (wa_shape w)) (kept_of reduced cs)"
    using cs ok(4) by simp
qed

lemma cell_at_ravel:
  assumes "walk_ok w reduced" "n < prod_list (wa_shape w)"
  shows "cell_at w n = ravel (kept_of reduced (wa_shape w)) (kept_of reduced (unravel (wa_shape w) n)) \<and> cell_at w n < wa_cells w"
proof -
  have "length reduced = length (wa_shape w)" using assms(1) by (simp add: walk_ok_def)
  then show ?thesis
    using walk_okD(1,3) [OF assms(1)] ravel_less [OF in_dims_kept [OF in_dims_unravel [OF assms(2)]]] by (simp add: cell_at_def)
qed

section \<open>Every element is pushed once, in order, into its cell\<close>

definition state_at :: "reduce_walk \<Rightarrow> nat \<Rightarrow> 'acc \<Rightarrow> 'acc fold_state" where
  "state_at w n acc = \<lparr>ws_idx = unravel (wa_shape w) n, ws_cell = cell_at w n, ws_flat = n, ws_acc = acc\<rparr>"

lemma state_at_simps [simp]:
  "ws_idx (state_at w n acc) = unravel (wa_shape w) n" "ws_cell (state_at w n acc) = cell_at w n"
  "ws_flat (state_at w n acc) = n" "ws_acc (state_at w n acc) = acc"
  "(case wa_pos_axis w of None \<Rightarrow> ws_flat (state_at w n acc) | Some a \<Rightarrow> ws_idx (state_at w n acc) ! a) = pos_at w n"
  by (simp_all add: state_at_def pos_at_def split: option.split)

lemma walk_advance:
  assumes "walk_ok w reduced" "n < prod_list (wa_shape w)"
  shows "advance (wa_shape w) (wa_stride w) (unravel (wa_shape w) n) (cell_at w n)
    = (unravel (wa_shape w) (Suc n), cell_at w (Suc n), Suc n = prod_list (wa_shape w))"
  using advance_next [of "wa_stride w" "wa_shape w" n 0] walk_okD(2,5) [OF assms(1)] assms
  by (simp add: cell_at_def walk_ok_def)

lemma visits_Cons: "visits w n (x # xs) = (cell_at w n, pos_at w n, x) # visits w (Suc n) xs"
  by (simp add: visits_def upt_conv_Cons del: upt_Suc)

lemma visits_append: "visits w n (xs @ ys) = visits w n xs @ visits w (n + length xs) ys"
  by (induction xs arbitrary: n) (simp_all add: visits_Cons visits_def [of _ _ "[]"])

lemma push_all_append: "push_all push (us @ vs) acc = Option.bind (push_all push us acc) (push_all push vs)"
  by (induction us arbitrary: acc) (auto split: Option.bind_split)

lemma push_block_visits:
  assumes "walk_ok w reduced" "n + length xs \<le> prod_list (wa_shape w)"
  shows "push_block w push xs (state_at w n acc)
    = map_option (state_at w (n + length xs)) (push_all push (visits w n xs) acc)"
  using assms(2)
proof (induction xs arbitrary: n acc)
  case (Cons x xs)
  have n: "n < prod_list (wa_shape w)" "wadd n 1 = Suc n"
    using Cons.prems assms(1) by (simp_all add: walk_ok_def wadd_eq)
  show ?case
    using Cons.IH [of "Suc n"] Cons.prems walk_advance [OF assms(1) n(1)] n(2)
    by (cases "push (cell_at w n) (pos_at w n) x acc") (simp_all add: visits_Cons Let_def n(2) [unfolded One_nat_def] flip: state_at_def)
qed (simp add: visits_def)

lemma chunks_exact_slice:
  assumes "0 < sz" "length (bs :: bytes) = n * sz" "a + m \<le> n"
  shows "chunks_exact sz (slice bs (a * sz) (m * sz)) = slice (chunks_exact sz bs) a m"
proof -
  have "(a + m) * sz \<le> n * sz" using assms(3) by (rule mult_le_mono1)
  then have len: "length (slice bs (a * sz) (m * sz)) = m * sz" using assms(2) by (simp add: add_mult_distrib)
  have "slice (slice bs (a * sz) (m * sz)) (i * sz) sz = slice bs ((a + i) * sz) sz" if "i < m" for i
  proof -
    have "Suc i * sz \<le> m * sz" using that by (intro mult_le_mono1) simp
    then show ?thesis by (simp add: slice_slice add_mult_distrib)
  qed
  moreover have "slice (map f [0..<n]) a m = map (\<lambda>i. f (a + i)) [0..<m]" for f :: "nat \<Rightarrow> bytes"
    using assms(3) by (simp add: slice_eq_map_nth)
  ultimately show ?thesis using assms(1,2) len by (simp add: chunks_exact_def)
qed

text \<open>The elements of a stream.\<close>

definition elements :: "nat \<Rightarrow> (bytes \<Rightarrow> 't) \<Rightarrow> bytes \<Rightarrow> 't list" where
  "elements sz elem stream = map elem (chunks_exact sz stream)"

lemma length_elements [simp]: "length (elements sz elem stream) = length stream div sz"
  by (simp add: elements_def chunks_exact_def)

lemma fold_blocks_visits:
  assumes w: "walk_ok w reduced" and n: "prod_list (wa_shape w) = n" "total_bytes = n * sz" and sz: "0 < sz"
    and block: "block = k * sz" "0 < k"
    and stream: "length stream = total_bytes"
      "\<And>offset dst. offset + length dst \<le> total_bytes \<Longrightarrow> read offset dst = Some (Ok (slice stream offset (length dst)))"
    and i: "i \<le> n" and buf: "length buf = min block total_bytes"
  shows "fold_blocks read total_bytes block sz elem w push (i * sz) buf (state_at w i acc)
    = map_option Ok (push_all push (visits w i (drop i (elements sz elem stream))) acc)"
  using i buf
proof (induction "n - i" arbitrary: i buf acc rule: less_induct)
  case less
  let ?es = "elements sz elem stream"
  show ?case
  proof (cases "i < n")
    case False
    then show ?thesis using less.prems n sz stream(1) by (subst fold_blocks.simps) (simp add: state_at_def visits_def)
  next
    case True
    define m where "m = min (n - i) k"
    have m: "0 < m" "i + m \<le> n" using True block(2) by (auto simp: m_def)
    have "min (total_bytes - i * sz) block = m * sz"
      by (simp add: m_def n(2) block(1) diff_mult_distrib nat_mult_min_left)
    moreover have "i * sz < total_bytes" using True sz n(2) by simp
    moreover have le: "m * sz \<le> length buf" "(i + m) * sz \<le> total_bytes"
      using less.prems(2) m(2) n(2) block(1) mult_le_mono1 [of m n sz] mult_le_mono1 [of m k sz] mult_le_mono1 [of "i + m" n sz]
      by (auto simp: m_def)
    ultimately have unfold: "fold_blocks read total_bytes block sz elem w push (i * sz) buf (state_at w i acc) =
        (case push_block w push (map elem (chunks_exact sz (slice stream (i * sz) (m * sz)))) (state_at w i acc) of
           None \<Rightarrow> None
         | Some st \<Rightarrow> fold_blocks read total_bytes block sz elem w push ((i + m) * sz)
             (write_at buf 0 (slice stream (i * sz) (m * sz))) st)"
      using stream(2) [of "i * sz" "take (m * sz) buf"] m(1) sz
      by (subst fold_blocks.simps) (simp add: add_mult_distrib min_absorb2 Let_def split: option.split)
    have els: "map elem (chunks_exact sz (slice stream (i * sz) (m * sz))) = slice ?es i m"
      using chunks_exact_slice [OF sz, of stream n i m] m(2) stream(1) n(2) by (simp add: elements_def slice_map)
    have len: "length (slice ?es i m) = m" using m(2) stream(1) n(2) sz by simp
    have split: "drop i ?es = slice ?es i m @ drop (i + m) ?es"
      by (simp add: slice_def) (metis append_take_drop_id add.commute drop_drop)
    have buf': "length (write_at buf 0 (slice stream (i * sz) (m * sz))) = min block total_bytes"
      using less.prems(2) le stream(1) by (simp add: add_mult_distrib)
    show ?thesis
      using less.hyps [OF _ m(2) buf'] m True push_block_visits [OF w, of i "slice ?es i m" push acc] n(1)
      unfolding unfold els split visits_append push_all_append len
      by (cases "push_all push (visits w i (slice ?es i m)) acc") simp_all
  qed
qed

lemma fold_walk_visits:
  assumes w: "walk_ok w reduced" and n: "lay_total_bytes lay = prod_list (wa_shape w) * sz" and sz: "0 < sz" "sz \<le> BLOCK_BYTES"
    and stream: "reads_stream f16_from_f32 ds lay stream"
  shows "fold_walk f16_from_f32 ds lay w sz elem push acc
    = map_option Ok (push_all push (visits w 0 (elements sz elem stream)) acc)"
proof -
  have "0 < BLOCK_BYTES div sz" using sz by (simp add: div_greater_zero_iff)
  moreover have "\<lparr>ws_idx = replicate (length (wa_shape w)) 0, ws_cell = 0, ws_flat = 0, ws_acc = acc\<rparr> = state_at w 0 acc"
    using sum_zero_strides [of "wa_shape w" "wa_stride w"]
    by (simp add: state_at_def cell_at_def unravel_zero map_replicate_const)
  ultimately show ?thesis
    using fold_blocks_visits [OF w refl n sz(1) refl, of "BLOCK_BYTES div sz" stream "read_range f16_from_f32 ds lay" 0 _ elem push acc] stream
    by (simp add: fold_walk_def reads_stream_def Let_def)
qed

text \<open>A read that fails is what the walk returns.\<close>

lemma fold_walk_error:
  assumes "0 < lay_total_bytes lay" "0 < sz" "sz \<le> BLOCK_BYTES"
    and "\<And>dst. read_range f16_from_f32 ds lay 0 dst = Some (Err e)"
  shows "fold_walk f16_from_f32 ds lay w sz elem push acc = Some (Err e)"
  using assms by (simp add: fold_walk_def fold_blocks.simps Let_def div_greater_zero_iff min_def)

end
