(* ===== verification/Floats.thy ===== *)
theory Floats
  imports Layout
begin

text \<open>
  The arithmetic of Rust's \<open>f64\<close> on bit patterns, as the reductions use it: IEEE 754 binary64, to nearest with
  ties to even. A finite value is \<open>m * 2 ^ e\<close> with its sign, an operation computes its result exactly, or
  with a last bit that says whether something was left over, and rounds once. Which NaN an operation returns
  is not specified; here it is always the same one.
\<close>

section \<open>Reading and rounding\<close>

definition f64_magnitude :: "f64 \<Rightarrow> nat" where "f64_magnitude x = unat x mod 2 ^ 63"

definition f64_make :: "bool \<Rightarrow> nat \<Rightarrow> f64" where
  "f64_make neg magnitude = of_nat (nat_of_bool neg * 2 ^ 63 + magnitude)"

definition f64_infinity :: nat where "f64_infinity = 2047 * 2 ^ 52"

definition f64_nan :: f64 where "f64_nan = 0x7FF8000000000000"

definition f64_is_inf :: "f64 \<Rightarrow> bool" where "f64_is_inf x \<longleftrightarrow> f64_magnitude x = f64_infinity"

definition f64_mantissa :: "f64 \<Rightarrow> nat" where
  "f64_mantissa x = (if f64_exponent x = 0 then unat (f64_fraction x) else 2 ^ 52 + unat (f64_fraction x))"

definition f64_scale :: "f64 \<Rightarrow> int" where
  "f64_scale x = (if f64_exponent x = 0 then -1074 else int (unat (f64_exponent x)) - 1075)"

fun bit_length :: "nat \<Rightarrow> nat" where
  "bit_length n = (if n = 0 then 0 else Suc (bit_length (n div 2)))"

declare bit_length.simps [simp del]

text \<open>The magnitude bits of \<open>m * 2 ^ e\<close>: 53 bits at most, fewer below the normal range, infinity above it.\<close>

definition f64_round :: "nat \<Rightarrow> int \<Rightarrow> nat" where
  "f64_round m e =
     (if m = 0 then 0
      else
        let low = max (e + int (bit_length m) - 53) (-1074);
            q = (if low \<le> e then m * 2 ^ nat (e - low) else round_shift m (nat (low - e)))
        in min (nat (low + 1074) * 2 ^ 52 + q) f64_infinity)"

text \<open>An integer with a last bit that stands for what was cut off.\<close>

definition sticky :: "nat \<Rightarrow> bool \<Rightarrow> nat" where "sticky q inexact = 2 * q + nat_of_bool inexact"

section \<open>Arithmetic\<close>

definition f64_neg :: "f64 \<Rightarrow> f64" where "f64_neg x = f64_make (\<not> f64_sign x) (f64_magnitude x)"

definition f64_signed :: "f64 \<Rightarrow> int \<Rightarrow> int" where
  "f64_signed x e = (if f64_sign x then -1 else 1) * int (f64_mantissa x) * 2 ^ nat (f64_scale x - e)"

definition f64_add :: "f64 \<Rightarrow> f64 \<Rightarrow> f64" where
  "f64_add x y =
     (if f64_is_nan x \<or> f64_is_nan y then f64_nan
      else if f64_is_inf x then (if f64_is_inf y \<and> f64_sign x \<noteq> f64_sign y then f64_nan else x)
      else if f64_is_inf y then y
      else
        let e = min (f64_scale x) (f64_scale y); v = f64_signed x e + f64_signed y e
        in if v = 0 then f64_make (f64_sign x \<and> f64_sign y) 0
           else f64_make (v < 0) (f64_round (nat \<bar>v\<bar>) e))"

definition f64_sub :: "f64 \<Rightarrow> f64 \<Rightarrow> f64" where "f64_sub x y = f64_add x (f64_neg y)"

definition f64_mul :: "f64 \<Rightarrow> f64 \<Rightarrow> f64" where
  "f64_mul x y =
     (let neg = (f64_sign x \<noteq> f64_sign y) in
      if f64_is_nan x \<or> f64_is_nan y then f64_nan
      else if f64_is_inf x \<or> f64_is_inf y
        then (if f64_is_zero x \<or> f64_is_zero y then f64_nan else f64_make neg f64_infinity)
      else f64_make neg (f64_round (f64_mantissa x * f64_mantissa y) (f64_scale x + f64_scale y)))"

definition f64_div :: "f64 \<Rightarrow> f64 \<Rightarrow> f64" where
  "f64_div x y =
     (let neg = (f64_sign x \<noteq> f64_sign y) in
      if f64_is_nan x \<or> f64_is_nan y then f64_nan
      else if f64_is_inf x then (if f64_is_inf y then f64_nan else f64_make neg f64_infinity)
      else if f64_is_inf y then f64_make neg 0
      else if f64_is_zero y then (if f64_is_zero x then f64_nan else f64_make neg f64_infinity)
      else
        let a = f64_mantissa x * 2 ^ 110; b = f64_mantissa y
        in f64_make neg (f64_round (sticky (a div b) (a mod b \<noteq> 0)) (f64_scale x - f64_scale y - 111)))"

text \<open>The integer square root, two bits of the argument at a time.\<close>

fun isqrt :: "nat \<Rightarrow> nat" where
  "isqrt n = (if n = 0 then 0 else let r = 2 * isqrt (n div 4) in if (r + 1) * (r + 1) \<le> n then r + 1 else r)"

declare isqrt.simps [simp del]

definition f64_sqrt :: "f64 \<Rightarrow> f64" where
  "f64_sqrt x =
     (if f64_is_nan x then f64_nan
      else if f64_is_zero x then x
      else if f64_sign x then f64_nan
      else if f64_is_inf x then x
      else
        let e = f64_scale x; k = (if e mod 2 = 0 then 110 else 111);
            n = f64_mantissa x * 2 ^ k; r = isqrt n
        in f64_make False (f64_round (sticky r (r * r \<noteq> n)) ((e - int k) div 2 - 1)))"

section \<open>Comparison\<close>

definition f64_key :: "f64 \<Rightarrow> int" where
  "f64_key x = (if f64_sign x then - int (f64_magnitude x) else int (f64_magnitude x))"

definition f64_ordered :: "f64 \<Rightarrow> f64 \<Rightarrow> bool" where
  "f64_ordered x y \<longleftrightarrow> \<not> f64_is_nan x \<and> \<not> f64_is_nan y"

definition f64_le :: "f64 \<Rightarrow> f64 \<Rightarrow> bool" where "f64_le x y \<longleftrightarrow> f64_ordered x y \<and> f64_key x \<le> f64_key y"
definition f64_lt :: "f64 \<Rightarrow> f64 \<Rightarrow> bool" where "f64_lt x y \<longleftrightarrow> f64_ordered x y \<and> f64_key x < f64_key y"
definition f64_eq :: "f64 \<Rightarrow> f64 \<Rightarrow> bool" where "f64_eq x y \<longleftrightarrow> f64_ordered x y \<and> f64_key x = f64_key y"

section \<open>Conversion\<close>

text \<open>\<open>n as f64\<close> of an integer, and \<open>f64::from\<close> of an \<open>f32\<close>, which is exact.\<close>

definition f64_of_int :: "int \<Rightarrow> f64" where
  "f64_of_int i = f64_make (i < 0) (f64_round (nat \<bar>i\<bar>) 0)"

definition f32_to_f64 :: "u32 \<Rightarrow> f64" where
  "f32_to_f64 w =
     (let m = unat w mod 2 ^ 31; exponent = m div 2 ^ 23; fraction = m mod 2 ^ 23; neg = bit w 31 in
      if exponent = 255 then (if fraction = 0 then f64_make neg f64_infinity else f64_nan)
      else if exponent = 0 then f64_make neg (f64_round fraction (-149))
      else f64_make neg (f64_round (2 ^ 23 + fraction) (int exponent - 150)))"

end
