(* ===== verification/Reduce.thy ===== *)
theory Reduce
  imports Reduce_Walk Floats
begin

text \<open>
  The reductions themselves (\<open>aex-core/src/reduce.rs\<close>). The trait \<open>Elem\<close> is a record of its functions, with
  one value for each element type; a type with no integer bits has \<open>None\<close> there, where the code would panic.
  The trait \<open>Acc\<close> is the locale \<open>cell_accumulator\<close>. Half precision is the crate \<open>half\<close>: its two conversions
  are arguments, and it compares as the exact conversion to \<open>f64\<close> does.
\<close>

section \<open>Elements\<close>

record half_lib =
  half_widen :: "u16 \<Rightarrow> f64"
  half_narrow :: "f64 \<Rightarrow> u16"

record 't elem_ops =
  el_size :: nat
  el_float :: bool
  el_read :: "bytes \<Rightarrow> 't"
  el_write :: "'t \<Rightarrow> bytes"
  el_parts :: "'t \<Rightarrow> f64 \<times> f64"
  el_int_bits :: "'t \<Rightarrow> u64 option"
  el_is_nan :: "'t \<Rightarrow> bool"
  el_truthy :: "'t \<Rightarrow> bool"
  el_ge :: "'t \<Rightarrow> 't \<Rightarrow> bool"
  el_le :: "'t \<Rightarrow> 't \<Rightarrow> bool"
  el_arg_gt :: "'t \<Rightarrow> 't \<Rightarrow> bool"
  el_arg_lt :: "'t \<Rightarrow> 't \<Rightarrow> bool"

text \<open>The integer types, as integers.\<close>

definition int_read :: "bool \<Rightarrow> nat \<Rightarrow> bytes \<Rightarrow> int" where
  "int_read is_signed sz bs =
     (let n = nat_le bs in if is_signed \<and> n \<ge> 2 ^ (8 * sz - 1) then int n - 2 ^ (8 * sz) else int n)"

definition int_elem :: "bool \<Rightarrow> nat \<Rightarrow> int elem_ops" where
  "int_elem is_signed sz =
     \<lparr>el_size = sz, el_float = False, el_read = int_read is_signed sz,
      el_write = (\<lambda>i. le_nat sz (nat (i mod 2 ^ (8 * sz)))),
      el_parts = (\<lambda>i. (f64_of_int i, 0)), el_int_bits = (\<lambda>i. Some (of_int i)),
      el_is_nan = (\<lambda>_. False), el_truthy = (\<lambda>i. i \<noteq> 0),
      el_ge = (\<lambda>x y. x \<ge> y), el_le = (\<lambda>x y. x \<le> y), el_arg_gt = (\<lambda>x best. x > best), el_arg_lt = (\<lambda>x best. x < best)\<rparr>"

definition bool_elem :: "bool elem_ops" where
  "bool_elem =
     \<lparr>el_size = 1, el_float = False, el_read = (\<lambda>bs. bs ! 0 \<noteq> 0), el_write = (\<lambda>x. [of_bool x]),
      el_parts = (\<lambda>x. (f64_of_int (of_bool x), 0)), el_int_bits = (\<lambda>x. Some (of_bool x)),
      el_is_nan = (\<lambda>_. False), el_truthy = (\<lambda>x. x),
      el_ge = (\<lambda>x y. x \<or> \<not> y), el_le = (\<lambda>x y. \<not> x \<or> y), el_arg_gt = (\<lambda>x best. x \<and> \<not> best), el_arg_lt = (\<lambda>x best. \<not> x \<and> best)\<rparr>"

definition float_elem :: "nat \<Rightarrow> ('w::len word \<Rightarrow> f64) \<Rightarrow> 'w word elem_ops" where
  "float_elem sz widen =
     \<lparr>el_size = sz, el_float = True, el_read = of_le, el_write = to_le,
      el_parts = (\<lambda>x. (widen x, 0)), el_int_bits = (\<lambda>_. None),
      el_is_nan = (\<lambda>x. f64_is_nan (widen x)), el_truthy = (\<lambda>x. \<not> f64_eq (widen x) 0),
      el_ge = (\<lambda>x y. f64_le (widen y) (widen x)), el_le = (\<lambda>x y. f64_le (widen x) (widen y)),
      el_arg_gt = (\<lambda>x best. \<not> f64_le (widen x) (widen best)), el_arg_lt = (\<lambda>x best. \<not> f64_le (widen best) (widen x))\<rparr>"

definition complex_elem :: "nat \<Rightarrow> ('w::len word \<Rightarrow> f64) \<Rightarrow> ('w word \<times> 'w word) elem_ops" where
  "complex_elem sz widen =
     \<lparr>el_size = sz, el_float = True,
      el_read = (\<lambda>bs. let half = length bs div 2 in (of_le (take half bs), of_le (drop half bs))),
      el_write = (\<lambda>(re, im). to_le re @ to_le im),
      el_parts = (\<lambda>(re, im). (widen re, widen im)), el_int_bits = (\<lambda>_. None),
      el_is_nan = (\<lambda>(re, im). f64_is_nan (widen re) \<or> f64_is_nan (widen im)),
      el_truthy = (\<lambda>(re, im). \<not> f64_eq (widen re) 0 \<or> \<not> f64_eq (widen im) 0),
      el_ge = (\<lambda>(a, b) (c, d). f64_lt (widen c) (widen a) \<and> \<not> f64_is_nan (widen b) \<and> \<not> f64_is_nan (widen d)
                 \<or> f64_eq (widen a) (widen c) \<and> f64_le (widen d) (widen b)),
      el_le = (\<lambda>(a, b) (c, d). f64_lt (widen a) (widen c) \<and> \<not> f64_is_nan (widen b) \<and> \<not> f64_is_nan (widen d)
                 \<or> f64_eq (widen a) (widen c) \<and> f64_le (widen b) (widen d)),
      el_arg_gt = (\<lambda>(a, b) (c, d). f64_lt (widen c) (widen a) \<or> f64_eq (widen a) (widen c) \<and> f64_lt (widen d) (widen b)
                     \<or> f64_is_nan (widen a) \<or> f64_is_nan (widen b)),
      el_arg_lt = (\<lambda>(a, b) (c, d). f64_lt (widen a) (widen c) \<or> f64_eq (widen a) (widen c) \<and> f64_lt (widen b) (widen d)
                     \<or> f64_is_nan (widen a) \<or> f64_is_nan (widen b))\<rparr>"

section \<open>Accumulators\<close>

text \<open>\<open>xs[i] = f(xs[i])\<close>, which panics out of range.\<close>

definition modify_at :: "nat \<Rightarrow> ('a \<Rightarrow> 'a) \<Rightarrow> 'a list \<Rightarrow> 'a list option" where
  "modify_at i f xs = (if i < length xs then Some (xs[i := f (xs ! i)]) else None)"

definition write_float :: "half_lib \<Rightarrow> dtype \<Rightarrow> f64 \<Rightarrow> f64 \<Rightarrow> bytes option" where
  "write_float half d re im =
     (if d = Float16 then Some (to_le (half_narrow half re))
      else if d = Float32 then Some (to_le (f64_to_f32 re))
      else if d = Float64 then Some (to_le re)
      else if d = Complex64 then Some (to_le (f64_to_f32 re) @ to_le (f64_to_f32 im))
      else if d = Complex128 then Some (to_le re @ to_le im)
      else None)"

text \<open>\<open>Sum\<close>: sums, products and means.\<close>

record sum_acc =
  su_ints :: "u64 list"
  su_floats :: "(f64 \<times> f64) list"
  su_counts :: "nat list"
  su_float :: bool
  su_prod :: bool
  su_skip_nan :: bool

definition sum_new :: "'t elem_ops \<Rightarrow> nat \<Rightarrow> reduction \<Rightarrow> sum_acc" where
  "sum_new E cells fn =
     (let multiply = (fn = F_Prod); float = (el_float E \<or> fn \<in> {F_Mean, F_NanMean}); one = of_bool multiply in
      \<lparr>su_ints = replicate (if float then 0 else cells) one,
       su_floats = replicate (if float then cells else 0) (f64_of_int (of_bool multiply), 0),
       su_counts = replicate cells 0, su_float = float, su_prod = multiply, su_skip_nan = (fn \<in> {F_NanSum, F_NanMean})\<rparr>)"

definition sum_step :: "bool \<Rightarrow> f64 \<times> f64 \<Rightarrow> f64 \<times> f64 \<Rightarrow> f64 \<times> f64" where
  "sum_step multiply part acc =
     (case (part, acc) of ((re, im), (a, b)) \<Rightarrow>
        if multiply then (f64_sub (f64_mul a re) (f64_mul b im), f64_add (f64_mul a im) (f64_mul b re))
        else (f64_add a re, f64_add b im))"

definition sum_push :: "'t elem_ops \<Rightarrow> nat \<Rightarrow> nat \<Rightarrow> 't \<Rightarrow> sum_acc \<Rightarrow> sum_acc option" where
  "sum_push E cell pos x acc =
     (let count = (\<lambda>acc. map_option (\<lambda>cs. acc\<lparr>su_counts := cs\<rparr>) (modify_at cell (\<lambda>n. wadd n 1) (su_counts acc))) in
      if su_float acc then
        if su_skip_nan acc \<and> el_is_nan E x then Some acc
        else Option.bind (modify_at cell (sum_step (su_prod acc) (el_parts E x)) (su_floats acc))
               (\<lambda>fs. count (acc\<lparr>su_floats := fs\<rparr>))
      else Option.bind (el_int_bits E x) (\<lambda>v.
             Option.bind (modify_at cell (\<lambda>a. if su_prod acc then a * v else a + v) (su_ints acc))
               (\<lambda>is. count (acc\<lparr>su_ints := is\<rparr>))))"

definition sum_finish :: "half_lib \<Rightarrow> dtype \<Rightarrow> sum_acc \<Rightarrow> bytes option" where
  "sum_finish half out acc =
     map_option (\<lambda>fs. concat fs @ concat (map to_le (su_ints acc)))
       (traverse_opt (\<lambda>(re, im). write_float half out re im) (su_floats acc))"

definition mean_finish :: "half_lib \<Rightarrow> dtype \<Rightarrow> sum_acc \<Rightarrow> bytes option" where
  "mean_finish half out acc =
     map_option concat
       (traverse_opt (\<lambda>((re, im), n). write_float half out (f64_div re (f64_of_int (int n))) (f64_div im (f64_of_int (int n))))
          (zip (su_floats acc) (su_counts acc)))"

text \<open>\<open>Var\<close>: count, mean and sum of squared deviations, by Welford's update.\<close>

type_synonym var_acc = "(nat \<times> f64 \<times> f64 \<times> f64) list"

definition var_new :: "nat \<Rightarrow> var_acc" where "var_new cells = replicate cells (0, 0, 0, 0)"

definition var_step :: "f64 \<times> f64 \<Rightarrow> nat \<times> f64 \<times> f64 \<times> f64 \<Rightarrow> nat \<times> f64 \<times> f64 \<times> f64" where
  "var_step part acc =
     (case (part, acc) of ((re, im), (n, mr, mi, m2)) \<Rightarrow>
        let n = wadd n 1;
            dr = f64_sub re mr; di = f64_sub im mi;
            mr = f64_add mr (f64_div dr (f64_of_int (int n)));
            mi = f64_add mi (f64_div di (f64_of_int (int n)));
            m2 = f64_add m2 (f64_add (f64_mul dr (f64_sub re mr)) (f64_mul di (f64_sub im mi)))
        in (n, mr, mi, m2))"

definition var_push :: "'t elem_ops \<Rightarrow> nat \<Rightarrow> nat \<Rightarrow> 't \<Rightarrow> var_acc \<Rightarrow> var_acc option" where
  "var_push E cell pos x acc = modify_at cell (var_step (el_parts E x)) acc"

text \<open>\<open>i64\<close> arithmetic of a release build.\<close>

definition i64_wrap :: "int \<Rightarrow> int" where "i64_wrap i = (i + 2 ^ 63) mod 2 ^ 64 - 2 ^ 63"

definition var_finish :: "half_lib \<Rightarrow> reduce_walk \<Rightarrow> bool \<Rightarrow> var_acc \<Rightarrow> bytes option" where
  "var_finish half w take_root acc =
     map_option concat (traverse_opt (\<lambda>(n, _, _, m2).
       let dof = f64_of_int (max 0 (i64_wrap (i64_wrap (int n) - wa_ddof w)));
           var = f64_div m2 dof;
           v = (if take_root then f64_sqrt var else var)
       in write_float half (wa_out w) v 0) acc)"

text \<open>\<open>Extreme\<close>: max and min, with numpy's rules for NaN.\<close>

record 't extreme =
  ex_best :: "'t option list"
  ex_max :: bool
  ex_skip_nan :: bool

definition extreme_new :: "nat \<Rightarrow> reduction \<Rightarrow> 't extreme" where
  "extreme_new cells fn =
     \<lparr>ex_best = replicate cells None, ex_max = (fn \<in> {F_Max, F_NanMax}), ex_skip_nan = (fn \<in> {F_NanMax, F_NanMin})\<rparr>"

definition extreme_step :: "'t elem_ops \<Rightarrow> bool \<Rightarrow> bool \<Rightarrow> 't \<Rightarrow> 't option \<Rightarrow> 't option" where
  "extreme_step E is_max skip_nan x slot =
     (case slot of
        None \<Rightarrow> Some x
      | Some acc \<Rightarrow>
          let keep = (if is_max then el_ge E acc x else el_le E acc x);
              keep = (if skip_nan then el_is_nan E x \<or> keep else el_is_nan E acc \<or> keep)
          in if keep then slot else Some x)"

definition extreme_push :: "'t elem_ops \<Rightarrow> nat \<Rightarrow> nat \<Rightarrow> 't \<Rightarrow> 't extreme \<Rightarrow> 't extreme option" where
  "extreme_push E cell pos x acc =
     map_option (\<lambda>bs. acc\<lparr>ex_best := bs\<rparr>) (modify_at cell (extreme_step E (ex_max acc) (ex_skip_nan acc) x) (ex_best acc))"

definition extreme_finish :: "'t elem_ops \<Rightarrow> 't extreme \<Rightarrow> bytes option" where
  "extreme_finish E acc = map_option (\<lambda>xs. concat (map (el_write E) xs)) (traverse_opt (\<lambda>b. b) (ex_best acc))"

text \<open>\<open>Arg\<close>: the first extreme, or the first NaN.\<close>

record 't arg_acc =
  ar_best :: "('t \<times> nat \<times> bool) option list"
  ar_max :: bool

definition arg_new :: "nat \<Rightarrow> bool \<Rightarrow> 't arg_acc" where
  "arg_new cells is_max = \<lparr>ar_best = replicate cells None, ar_max = is_max\<rparr>"

definition arg_step :: "'t elem_ops \<Rightarrow> bool \<Rightarrow> nat \<Rightarrow> 't \<Rightarrow> ('t \<times> nat \<times> bool) option \<Rightarrow> ('t \<times> nat \<times> bool) option" where
  "arg_step E is_max pos x slot =
     (case slot of
        None \<Rightarrow> Some (x, pos, el_is_nan E x)
      | Some (best, found, settled) \<Rightarrow>
          if settled then slot
          else if (if is_max then el_arg_gt E x best else el_arg_lt E x best) then Some (x, pos, el_is_nan E x)
          else slot)"

definition arg_push :: "'t elem_ops \<Rightarrow> nat \<Rightarrow> nat \<Rightarrow> 't \<Rightarrow> 't arg_acc \<Rightarrow> 't arg_acc option" where
  "arg_push E cell pos x acc = map_option (\<lambda>bs. acc\<lparr>ar_best := bs\<rparr>) (modify_at cell (arg_step E (ar_max acc) pos x) (ar_best acc))"

definition arg_finish :: "'t arg_acc \<Rightarrow> bytes option" where
  "arg_finish acc = map_option (\<lambda>bs. concat (map (\<lambda>(_, pos, _). to_le (of_nat pos :: u64)) bs)) (traverse_opt (\<lambda>b. b) (ar_best acc))"

text \<open>\<open>Logic\<close>: all and any.\<close>

type_synonym logic_acc = "bool list \<times> bool"

definition logic_new :: "nat \<Rightarrow> bool \<Rightarrow> logic_acc" where "logic_new cells all = (replicate cells all, all)"

definition logic_push :: "'t elem_ops \<Rightarrow> nat \<Rightarrow> nat \<Rightarrow> 't \<Rightarrow> logic_acc \<Rightarrow> logic_acc option" where
  "logic_push E cell pos x acc =
     (case acc of (done, all) \<Rightarrow>
        map_option (\<lambda>bs. (bs, all)) (modify_at cell (\<lambda>b. if all then b \<and> el_truthy E x else b \<or> el_truthy E x) done))"

section \<open>Reducing\<close>

definition then_finish :: "(aex_error + 'acc) option \<Rightarrow> ('acc \<Rightarrow> bytes option) \<Rightarrow> (aex_error + bytes) option" where
  "then_finish r finish =
     (case r of None \<Rightarrow> None | Some (Err e) \<Rightarrow> Some (Err e) | Some (Ok acc) \<Rightarrow> map_option Ok (finish acc))"

definition run_reduction ::
    "half_lib \<Rightarrow> (bytes \<Rightarrow> bytes) \<Rightarrow> 't elem_ops \<Rightarrow> dataset \<Rightarrow> layout \<Rightarrow> reduction \<Rightarrow> reduce_walk \<Rightarrow> (aex_error + bytes) option" where
  "run_reduction half f16_from_f32 E ds lay fn w =
     (if fn \<in> {F_Sum, F_Prod, F_NanSum} then
        then_finish (fold_walk f16_from_f32 ds lay w (el_size E) (el_read E) (sum_push E) (sum_new E (wa_cells w) fn))
          (sum_finish half (wa_out w))
      else if fn \<in> {F_Mean, F_NanMean} then
        then_finish (fold_walk f16_from_f32 ds lay w (el_size E) (el_read E) (sum_push E) (sum_new E (wa_cells w) fn))
          (mean_finish half (wa_out w))
      else if fn \<in> {F_Var, F_Std} then
        then_finish (fold_walk f16_from_f32 ds lay w (el_size E) (el_read E) (var_push E) (var_new (wa_cells w)))
          (var_finish half w (fn = F_Std))
      else if fn \<in> {F_Max, F_Min, F_NanMax, F_NanMin} then
        then_finish (fold_walk f16_from_f32 ds lay w (el_size E) (el_read E) (extreme_push E) (extreme_new (wa_cells w) fn))
          (extreme_finish E)
      else if fn \<in> {F_Argmax, F_Argmin} then
        then_finish (fold_walk f16_from_f32 ds lay w (el_size E) (el_read E) (arg_push E) (arg_new (wa_cells w) (fn = F_Argmax)))
          arg_finish
      else
        then_finish (fold_walk f16_from_f32 ds lay w (el_size E) (el_read E) (logic_push E) (logic_new (wa_cells w) (fn = F_All)))
          (\<lambda>(bs, _). Some (map of_bool bs)))"

text \<open>The integer types and their widths.\<close>

definition int_format :: "dtype \<Rightarrow> (bool \<times> nat) option" where
  "int_format d =
     (if d \<in> {Int8, Int16, Int32, Int64} then Some (True, itemsize d)
      else if d \<in> {Uint8, Uint16, Uint32, Uint64} then Some (False, itemsize d)
      else None)"

definition run_by_dtype ::
    "half_lib \<Rightarrow> (bytes \<Rightarrow> bytes) \<Rightarrow> dataset \<Rightarrow> layout \<Rightarrow> reduction \<Rightarrow> reduce_walk \<Rightarrow> (aex_error + bytes) option" where
  "run_by_dtype half f16_from_f32 ds lay fn w =
     (let d = lay_dtype lay in
      case int_format d of
        Some (is_signed, sz) \<Rightarrow> run_reduction half f16_from_f32 (int_elem is_signed sz) ds lay fn w
      | None \<Rightarrow>
          if d = Bool then run_reduction half f16_from_f32 bool_elem ds lay fn w
          else if d = Float16 then run_reduction half f16_from_f32 (float_elem 2 (half_widen half)) ds lay fn w
          else if d = Float32 then run_reduction half f16_from_f32 (float_elem 4 f32_to_f64) ds lay fn w
          else if d = Float64 then run_reduction half f16_from_f32 (float_elem 8 (\<lambda>x :: u64. x)) ds lay fn w
          else if d = Complex64 then run_reduction half f16_from_f32 (complex_elem 8 f32_to_f64) ds lay fn w
          else run_reduction half f16_from_f32 (complex_elem 16 (\<lambda>x :: u64. x)) ds lay fn w)"

record reduced =
  rd_dtype :: dtype
  rd_shape :: "nat list"
  rd_data :: bytes

text \<open>The walk of a reduction, once the axes are known.\<close>

definition walk_of :: "layout \<Rightarrow> reduction \<Rightarrow> reduce_args \<Rightarrow> bool list \<Rightarrow> reduce_walk" where
  "walk_of lay fn args reduced =
     (let (stride, cells) = cell_strides (lay_out_shape lay) reduced in
      \<lparr>wa_shape = lay_out_shape lay, wa_stride = stride,
       wa_pos_axis = (case ra_axis args of Axis_One _ \<Rightarrow> find ((!) reduced) [0..<length reduced] | _ \<Rightarrow> None),
       wa_cells = cells, wa_ddof = ra_ddof args, wa_out = result_dtype fn (lay_dtype lay)\<rparr>)"

definition reduce ::
    "half_lib \<Rightarrow> (bytes \<Rightarrow> bytes) \<Rightarrow> dataset \<Rightarrow> layout \<Rightarrow> reduction \<Rightarrow> reduce_args \<Rightarrow> nat \<Rightarrow> (aex_error + reduced) option" where
  "reduce half f16_from_f32 ds lay fn args max_bytes =
     (let shape = lay_out_shape lay in
      case reduced_axes (length shape) (ra_axis args) fn of
        Err e \<Rightarrow> Some (Err e)
      | Ok reduced \<Rightarrow>
          let w = walk_of lay fn args reduced;
              dtype = result_dtype fn (lay_dtype lay);
              bytes = sat_mul (wa_cells w) (itemsize dtype)
          in if bytes > max_bytes then Some (Err BadFunction)
             else if per_cell shape reduced = 0 \<and> wa_cells w > 0 \<and> needs_an_element fn then Some (Err BadFunction)
             else map_option
                    (res_map (\<lambda>data. \<lparr>rd_dtype = dtype, rd_shape = kept_shape (ra_keepdims args) shape reduced, rd_data = data\<rparr>))
                    (run_by_dtype half f16_from_f32 ds lay fn w))"

end
