(* ===== verification/Control.thy ===== *)
theory Control
  imports Server_Config Session Transfers Client_Plan Null_Backend Reduce Effects
begin

text \<open>
  The gRPC control plane (\<open>aex-server/src/control.rs\<close>): every call of the service, over the sessions, the
  transfers and the open files. A call is an action on the server's state; its registry operations are those of
  \<open>Session\<close> and \<open>Transfers\<close>, which are atomic there. Opening a file is the backend's: \<open>ce_open_npy\<close>,
  \<open>ce_open_zarr\<close> and \<open>ce_open_hdf5\<close> (\<open>None\<close> in a build without it) give an open file, a record of the functions
  of the trait \<open>ArrayFile\<close>. The clock and the random source are functions of how often they were asked. Messages
  for people and logging are left out.
\<close>

section \<open>The service\<close>

record array_file =
  fl_get_item :: "string \<Rightarrow> aex_error + item"
  fl_list_children :: "string \<Rightarrow> aex_error + (string \<times> item) list"
  fl_attrs :: "string \<Rightarrow> aex_error + (string \<times> attr_value) list"

definition null_file :: "null_dataset \<Rightarrow> array_file" where
  "null_file ds = \<lparr>fl_get_item = null_get_item ds, fl_list_children = null_list_children ds, fl_attrs = (\<lambda>_. Ok [])\<rparr>"

record ctl_env =
  ce_config :: server_config
  ce_build :: build
  ce_roots :: "path list"
  ce_data_host :: string
  ce_data_port :: nat
  ce_clock :: "nat \<Rightarrow> nat"
  ce_random :: "nat \<Rightarrow> server_error + bytes"
  ce_canonicalize :: canonicalize
  ce_is_file :: "path \<Rightarrow> bool"
  ce_is_dir :: "path \<Rightarrow> bool"
  ce_open_npy :: "path \<Rightarrow> aex_error + array_file"
  ce_open_zarr :: "path \<Rightarrow> aex_error + array_file"
  ce_open_hdf5 :: "(path \<Rightarrow> aex_error + array_file) option"
  ce_f16_from_f32 :: "bytes \<Rightarrow> bytes"
  ce_half :: half_lib

record ctl_state =
  ct_sessions :: "array_file sessions"
  ct_transfers :: transfers
  ct_warned_small_cache :: bool
  ct_ticks :: nat
  ct_draws :: nat

type_synonym 'a ctl = "(ctl_state, server_error, 'a) act"

text \<open>A call fails with a status code.\<close>

type_synonym 'a rpc = "(ctl_state, grpc_code, 'a) act"

definition rpc_of :: "'a ctl \<Rightarrow> 'a rpc" where
  "rpc_of m s = (case m s of (r, s) \<Rightarrow> (map_option (map_err status_code) r, s))"

definition core :: "aex_error + 'a \<Rightarrow> 'a ctl" where "core r = act_of (map_err SrvCore r)"

definition ctl_start :: ctl_state where
  "ctl_start = \<lparr>ct_sessions = [], ct_transfers = transfers_new, ct_warned_small_cache = False, ct_ticks = 0, ct_draws = 0\<rparr>"

section \<open>Registries\<close>

definition ctl_now :: "ctl_env \<Rightarrow> nat ctl" where
  "ctl_now env s = (Some (Ok (ce_clock env (ct_ticks s))), s\<lparr>ct_ticks := ct_ticks s + 1\<rparr>)"

definition ctl_session :: "ctl_env \<Rightarrow> bytes \<Rightarrow> array_file session ctl" where
  "ctl_session env sid =
     act_bind (ctl_now env) (\<lambda>now_ms s.
       let (r, reg) = get_at (ce_config env) sid now_ms (ct_sessions s) in
       (Some r, s\<lparr>ct_sessions := reg\<rparr>))"

text \<open>A change of the files of a session that was found.\<close>

definition ctl_files ::
    "array_file session \<Rightarrow> (array_file file_registry \<Rightarrow> 'a \<times> array_file file_registry) \<Rightarrow> ctl_state \<Rightarrow> 'a \<times> ctl_state" where
  "ctl_files session change s =
     (let (x, files) = change (ss_files session) in
      (x, s\<lparr>ct_sessions := AList.update (ss_id session) (session\<lparr>ss_files := files\<rparr>) (ct_sessions s)\<rparr>))"

definition ctl_insert_file :: "array_file session \<Rightarrow> array_file \<Rightarrow> nat ctl" where
  "ctl_insert_file session file s = (case ctl_files session (files_insert file) s of (handle, s) \<Rightarrow> (Some (Ok handle), s))"

definition ctl_insert_transfer :: "ctl_env \<Rightarrow> session_id \<Rightarrow> dataset \<Rightarrow> layout \<Rightarrow> transfer_entry ctl" where
  "ctl_insert_transfer env sid ds lay =
     act_bind (ctl_now env) (\<lambda>now_ms s.
       let (r, tr) = insert_at_time (ce_config env) sid ds lay now_ms (ce_random env (ct_draws s)) (ct_transfers s) in
       (Some r, s\<lparr>ct_transfers := tr, ct_draws := ct_draws s + 1\<rparr>))"

section \<open>Connecting\<close>

record connect_request =
  cr_protocol_version :: u32
  cr_desired_streams :: nat
  cr_client_name :: string

record connect_reply =
  cn_session_id :: bytes
  cn_session_token :: bytes
  cn_endpoints :: "(string \<times> nat) list"
  cn_granted_streams :: nat
  cn_protocol_version :: u32
  cn_default_chunk_bytes :: nat
  cn_supported_codecs :: u32
  cn_supported_encodings :: u32
  cn_max_fetch_bytes :: nat

definition CTL_PROTOCOL_VERSION :: u32 where "CTL_PROTOCOL_VERSION = 2"

definition ctl_create :: "ctl_env \<Rightarrow> string \<Rightarrow> nat \<Rightarrow> array_file session ctl" where
  "ctl_create env client_name desired =
     act_bind (ctl_now env) (\<lambda>now_ms s.
       let (r, reg) = create_at (ce_config env) client_name desired now_ms
             (ce_random env (ct_draws s)) (ce_random env (ct_draws s + 1)) (ct_sessions s) in
       (Some r, s\<lparr>ct_sessions := reg, ct_draws := ct_draws s + 2\<rparr>))"

definition connect :: "ctl_env \<Rightarrow> connect_request \<Rightarrow> connect_reply rpc" where
  "connect env req = rpc_of
     (if cr_protocol_version req \<noteq> CTL_PROTOCOL_VERSION then act_throw SrvBadRequest
      else act_bind (ctl_create env (cr_client_name req) (cr_desired_streams req)) (\<lambda>session.
        act_return
          \<lparr>cn_session_id = ss_id session, cn_session_token = ss_token session,
           cn_endpoints = [(ce_data_host env, ce_data_port env)],
           cn_granted_streams = ss_granted_streams session, cn_protocol_version = CTL_PROTOCOL_VERSION,
           cn_default_chunk_bytes = default_chunk_bytes (cfg_transfer (ce_config env)),
           cn_supported_codecs = supported_codecs (ce_build env),
           cn_supported_encodings = supported_encodings (ce_build env),
           cn_max_fetch_bytes = max_fetch_bytes (cfg_transfer (ce_config env))\<rparr>))"

definition disconnect :: "ctl_env \<Rightarrow> bytes \<Rightarrow> unit rpc" where
  "disconnect env sid = rpc_of
     (act_bind (ctl_now env) (\<lambda>now_ms s.
        case remove_at (ce_config env) sid now_ms (ct_sessions s) of
          (Err e, reg) \<Rightarrow> (Some (Err e), s\<lparr>ct_sessions := reg\<rparr>)
        | (Ok session_id, reg) \<Rightarrow>
            (Some (Ok ()), s\<lparr>ct_sessions := reg, ct_transfers := snd (remove_session session_id (ct_transfers s))\<rparr>)))"

section \<open>Opening files\<close>

definition NPY_FORMAT :: string where "NPY_FORMAT = ''npy''"
definition HDF5_FORMATS :: "string list" where "HDF5_FORMATS = [''hdf5'', ''h5'', ''he5'', ''nc'', ''netcdf4'']"
definition ZARR_FORMAT :: string where "ZARR_FORMAT = ''zarr''"
definition NULL_FORMAT :: string where "NULL_FORMAT = ''null''"

definition ascii_lower :: "char \<Rightarrow> char" where
  "ascii_lower c = (let n = of_char c :: nat in if 65 \<le> n \<and> n \<le> 90 then char_of (n + 32) else c)"

definition to_ascii_lowercase :: "string \<Rightarrow> string" where "to_ascii_lowercase s = map ascii_lower s"

definition eq_ignore_ascii_case :: "string \<Rightarrow> string \<Rightarrow> bool" where
  "eq_ignore_ascii_case a b \<longleftrightarrow> to_ascii_lowercase a = to_ascii_lowercase b"

text \<open>\<open>Path::extension\<close>: of the last component, after its last dot, unless the name has no other.\<close>

definition path_extension :: "path \<Rightarrow> string option" where
  "path_extension p =
     (if snd p = [] \<or> last (snd p) = ''..'' then None
      else Option.bind (rsplit_once (CHR ''.'') (last (snd p)))
             (\<lambda>(stem, ext). if stem = [] then None else Some ext))"

definition format_from_extension :: "path \<Rightarrow> server_error + string" where
  "format_from_extension p =
     (case path_extension p of Some ext \<Rightarrow> Ok (to_ascii_lowercase ext) | None \<Rightarrow> Err SrvBadRequest)"

record open_request =
  oq_session_id :: bytes
  oq_path :: string
  oq_format :: string

definition open_hdf5 :: "ctl_env \<Rightarrow> path \<Rightarrow> array_file ctl" where
  "open_hdf5 env p =
     (case ce_open_hdf5 env of Some open_file \<Rightarrow> core (open_file p) | None \<Rightarrow> act_throw SrvBadRequest)"

definition open_file_for :: "ctl_env \<Rightarrow> open_request \<Rightarrow> array_file ctl" where
  "open_file_for env req =
     (let asked = (if oq_format req = [] then
                     (case format_from_extension (path_of (oq_path req)) of Ok f \<Rightarrow> Some f | Err _ \<Rightarrow> None)
                   else Some (to_ascii_lowercase (oq_format req))) in
      if asked = Some ZARR_FORMAT then
        act_bind (act_of (resolve_store (ce_canonicalize env) (ce_is_dir env) (ce_roots env) (oq_path req))) (\<lambda>root.
          core (ce_open_zarr env root))
      else
        act_bind (act_of (path_resolve (ce_canonicalize env) (ce_is_file env) (ce_roots env) (oq_path req))) (\<lambda>p.
        act_bind (case asked of Some f \<Rightarrow> act_return f | None \<Rightarrow> act_of (format_from_extension p)) (\<lambda>format.
          if format = NPY_FORMAT then core (ce_open_npy env p)
          else if format \<in> set HDF5_FORMATS then open_hdf5 env p
          else act_throw SrvBadRequest)))"

definition open_in_session :: "ctl_env \<Rightarrow> open_request \<Rightarrow> nat ctl" where
  "open_in_session env req =
     act_bind (ctl_session env (oq_session_id req)) (\<lambda>session.
       if eq_ignore_ascii_case (oq_format req) NULL_FORMAT then
         (if \<not> cfg_enable_null_backend (ce_config env) then act_throw SrvBadRequest
          else act_bind (core (from_spec (oq_path req))) (\<lambda>ds. ctl_insert_file session (null_file ds)))
       else act_bind (open_file_for env req) (ctl_insert_file session))"

definition open_file :: "ctl_env \<Rightarrow> open_request \<Rightarrow> nat rpc" where
  "open_file env req = rpc_of (open_in_session env req)"

definition close_file :: "ctl_env \<Rightarrow> bytes \<Rightarrow> nat \<Rightarrow> unit rpc" where
  "close_file env sid handle = rpc_of
     (act_bind (ctl_session env sid) (\<lambda>session s.
        case ctl_files session (files_remove handle) s of (r, s) \<Rightarrow> (Some r, s)))"

definition file_of :: "ctl_env \<Rightarrow> bytes \<Rightarrow> nat \<Rightarrow> array_file ctl" where
  "file_of env sid handle =
     act_bind (ctl_session env sid) (\<lambda>session. act_of (files_get handle (ss_files session)))"

section \<open>Items\<close>

datatype proto_attr_value = Attr_Text string | Attr_Array int "int list" bytes

datatype proto_data = Proto_Dataset int "int list" | Proto_Group

record proto_item =
  pi_name :: string
  pi_data :: proto_data
  pi_attrs :: "(string \<times> proto_attr_value) list"

definition shape_to_proto :: "nat list \<Rightarrow> server_error + int list" where
  "shape_to_proto shape = res_traverse (\<lambda>n. if int n \<le> I64_MAX then Ok (int n) else Err (SrvCore MalformedNpy)) shape"

definition dataset_to_proto :: "dataset \<Rightarrow> server_error + proto_data" where
  "dataset_to_proto ds = res_map (Proto_Dataset (as_i32 (ds_dtype ds))) (shape_to_proto (ds_shape ds))"

fun attr_to_proto :: "string \<times> attr_value \<Rightarrow> server_error + string \<times> proto_attr_value" where
  "attr_to_proto (name, Text text) = Ok (name, Attr_Text text)"
| "attr_to_proto (name, Array d shape data) =
     res_map (\<lambda>dims. (name, Attr_Array (as_i32 d) dims data)) (shape_to_proto shape)"

definition item_to_proto :: "string \<Rightarrow> item \<Rightarrow> (string \<times> attr_value) list \<Rightarrow> server_error + proto_item" where
  "item_to_proto name item attrs =
     res_bind (case item of Dataset ds \<Rightarrow> dataset_to_proto ds | Group \<Rightarrow> Ok Proto_Group) (\<lambda>data.
     res_map (\<lambda>attrs. \<lparr>pi_name = name, pi_data = data, pi_attrs = attrs\<rparr>) (res_traverse attr_to_proto attrs))"

definition get_item :: "ctl_env \<Rightarrow> bytes \<Rightarrow> nat \<Rightarrow> string \<Rightarrow> proto_item rpc" where
  "get_item env sid handle name = rpc_of
     (act_bind (file_of env sid handle) (\<lambda>file.
      act_bind (core (fl_get_item file name)) (\<lambda>item.
      act_bind (core (fl_attrs file name)) (\<lambda>attrs.
      act_of (item_to_proto name item attrs)))))"

definition trim_end_matches :: "char \<Rightarrow> string \<Rightarrow> string" where
  "trim_end_matches c s = rev (dropWhile ((=) c) (rev s))"

definition list_children :: "ctl_env \<Rightarrow> bytes \<Rightarrow> nat \<Rightarrow> string \<Rightarrow> proto_item list rpc" where
  "list_children env sid handle name = rpc_of
     (act_bind (file_of env sid handle) (\<lambda>file.
      act_bind (core (fl_list_children file name)) (\<lambda>children.
      let parent = trim_end_matches (CHR ''/'') name in
      act_of (res_traverse (\<lambda>(name, item).
          res_bind (map_err SrvCore (fl_attrs file (parent @ ''/'' @ name))) (item_to_proto name item)) children))))"

section \<open>Preparing a transfer\<close>

record prepare_request =
  pr_handle :: nat
  pr_name :: string
  pr_indices :: "proto_index list"
  pr_requested_quality :: "proto_quality option"
  pr_requested_codec :: u32

definition plan_reply ::
    "layout \<Rightarrow> codec \<Rightarrow> quality_spec \<Rightarrow> nat \<Rightarrow> bytes \<Rightarrow> bytes \<Rightarrow> server_error + proto_plan" where
  "plan_reply lay codec quality request_id ticket inline_data =
     res_map (\<lambda>dims.
        \<lparr>pp_request_id = request_id, pp_ticket = ticket, pp_dtype = as_i32 (lay_dtype lay), pp_shape = dims,
         pp_total_bytes = lay_total_bytes lay, pp_codec = codec_as_u32 codec,
         pp_applied_quality = Some (quality_to_proto quality), pp_inline_data = inline_data\<rparr>)
       (shape_to_proto (lay_out_shape lay))"

text \<open>\<open>check_decode_cache\<close> only remembers that it has warned.\<close>

definition check_decode_cache :: "ctl_env \<Rightarrow> dataset \<Rightarrow> nat \<Rightarrow> unit ctl" where
  "check_decode_cache env ds streams s =
     (Some (Ok ()),
      case ds_decoded_chunk_bytes ds of
        None \<Rightarrow> s
      | Some chunk_bytes \<Rightarrow>
          if sat_mul chunk_bytes streams > decode_cache_bytes (cfg_transfer (ce_config env))
          then s\<lparr>ct_warned_small_cache := True\<rparr> else s)"

definition dataset_named :: "array_file \<Rightarrow> string \<Rightarrow> dataset ctl" where
  "dataset_named file name =
     act_bind (core (fl_get_item file name)) (\<lambda>item.
       case item of Dataset ds \<Rightarrow> act_return ds | Group \<Rightarrow> act_throw SrvBadRequest)"

text \<open>What a request asks for: the dataset, the quality that applies to it and the layout.\<close>

definition requested_quality :: "prepare_request \<Rightarrow> quality_spec" where
  "requested_quality req =
     (quality_from_proto (pr_requested_quality req))\<lparr>q_codec := codec_from_u32 (pr_requested_codec req)\<rparr>"

definition prepare_layout ::
    "ctl_env \<Rightarrow> bytes \<Rightarrow> prepare_request \<Rightarrow> (array_file session \<times> dataset \<times> quality_spec \<times> layout) ctl" where
  "prepare_layout env sid req =
     act_bind (ctl_session env sid) (\<lambda>session.
     act_bind (act_of (files_get (pr_handle req) (ss_files session))) (\<lambda>file.
     act_bind (dataset_named file (pr_name req)) (\<lambda>ds.
     act_bind (core (indices_from_proto (max_fancy_indices (cfg_limits (ce_config env))) (pr_indices req))) (\<lambda>indices.
     let quality = applied (ce_build env) (requested_quality req) (ds_dtype ds) in
     act_bind (core (dataset_layout (ce_build env) ds indices quality)) (\<lambda>lay.
     act_bind (check_decode_cache env ds (ss_granted_streams session)) (\<lambda>_.
     act_return (session, ds, quality, lay)))))))"

text \<open>\<open>&mut inline_budget\<close> is the second part of the state.\<close>

type_synonym 'a budgeted = "(ctl_state \<times> nat, server_error, 'a) act"

definition unbudgeted :: "'a ctl \<Rightarrow> 'a budgeted" where
  "unbudgeted m sb = (case m (fst sb) of (r, s) \<Rightarrow> (r, (s, snd sb)))"

definition core_read :: "(aex_error + 'a) option \<Rightarrow> 'a budgeted" where
  "core_read r s = (map_option (map_err SrvCore) r, s)"

definition spend :: "nat \<Rightarrow> unit budgeted" where
  "spend n sb = (Some (Ok ()), (fst sb, snd sb - n))"

definition prepare :: "ctl_env \<Rightarrow> bytes \<Rightarrow> prepare_request \<Rightarrow> proto_plan budgeted" where
  "prepare env sid req =
     act_bind (unbudgeted (prepare_layout env sid req)) (\<lambda>(session, ds, quality, lay) sb.
       let codec = codec_of (ce_build env) quality; n = lay_total_bytes lay in
       if n \<le> inline_limit_bytes (cfg_transfer (ce_config env)) \<and> n \<le> snd sb then
         act_bind (spend n) (\<lambda>_.
         act_bind (core_read (read_range (ce_f16_from_f32 env) ds lay 0 (replicate n 0))) (\<lambda>inline_data.
         act_of (plan_reply lay codec quality 0 [] inline_data))) sb
       else
         act_bind (unbudgeted (ctl_insert_transfer env (ss_id session) ds lay)) (\<lambda>entry.
         act_of (plan_reply (te_layout entry) codec quality (te_request_id entry) (te_ticket entry) [])) sb)"

definition prepare_selection :: "ctl_env \<Rightarrow> bytes \<Rightarrow> prepare_request \<Rightarrow> proto_plan rpc" where
  "prepare_selection env sid req = rpc_of
     (\<lambda>s. case prepare env sid req (s, U64 - 1) of (r, sb) \<Rightarrow> (r, fst sb))"

text \<open>The map over the elements of a batch; an element that fails does not fail the others.\<close>

fun prepare_each :: "ctl_env \<Rightarrow> bytes \<Rightarrow> prepare_request list \<Rightarrow> (error_class + proto_plan) list budgeted" where
  "prepare_each env sid [] = act_return []"
| "prepare_each env sid (req # reqs) = (\<lambda>sb.
     case prepare env sid req sb of
       (None, sb) \<Rightarrow> (None, sb)
     | (Some r, sb) \<Rightarrow>
         act_bind (prepare_each env sid reqs) (\<lambda>rs. act_return (map_err server_class r # rs)) sb)"

definition prepare_selections :: "ctl_env \<Rightarrow> bytes \<Rightarrow> prepare_request list \<Rightarrow> (error_class + proto_plan) list rpc" where
  "prepare_selections env sid reqs = rpc_of
     (act_bind (ctl_session env sid) (\<lambda>_ s.
        case prepare_each env sid reqs (s, grpc_max_message_bytes (cfg_limits (ce_config env)) div 2) of
          (r, sb) \<Rightarrow> (r, fst sb)))"

section \<open>Reducing\<close>

datatype argument_value = Int_Value int | Float_Value f64 | Bool_Value bool | None_Value bool | Tuple_Int "int list"

text \<open>\<open>d.fract() == 0.0\<close>, and \<open>d as i64\<close>, which saturates, of a finite \<open>d\<close>.\<close>

definition f64_whole :: "f64 \<Rightarrow> bool" where
  "f64_whole d \<longleftrightarrow> f64_magnitude d < f64_infinity
     \<and> (f64_scale d \<ge> 0 \<or> f64_mantissa d mod 2 ^ nat (- f64_scale d) = 0)"

definition f64_to_i64 :: "f64 \<Rightarrow> int" where
  "f64_to_i64 d =
     (let m = (if f64_scale d \<ge> 0 then f64_mantissa d * 2 ^ nat (f64_scale d)
               else f64_mantissa d div 2 ^ nat (- f64_scale d));
          i = (if f64_sign d then - int m else int m)
      in max I64_MIN (min I64_MAX i))"

definition reduce_arg :: "reduce_args \<Rightarrow> string \<times> argument_value option \<Rightarrow> server_error + reduce_args" where
  "reduce_arg args kwarg =
     (case kwarg of
        (name, None) \<Rightarrow> Err SrvBadRequest
      | (name, Some value) \<Rightarrow>
          if name = ''axis'' then
            (case value of
               None_Value _ \<Rightarrow> Ok (args\<lparr>ra_axis := Axis_All\<rparr>)
             | Int_Value a \<Rightarrow> Ok (args\<lparr>ra_axis := Axis_One a\<rparr>)
             | Tuple_Int t \<Rightarrow> Ok (args\<lparr>ra_axis := Axis_Many t\<rparr>)
             | _ \<Rightarrow> Err SrvBadRequest)
          else if name = ''keepdims'' then
            (case value of Bool_Value k \<Rightarrow> Ok (args\<lparr>ra_keepdims := k\<rparr>) | _ \<Rightarrow> Err SrvBadRequest)
          else if name = ''ddof'' then
            (case value of
               Int_Value d \<Rightarrow> Ok (args\<lparr>ra_ddof := d\<rparr>)
             | Float_Value d \<Rightarrow> if f64_whole d then Ok (args\<lparr>ra_ddof := f64_to_i64 d\<rparr>) else Err SrvBadRequest
             | _ \<Rightarrow> Err SrvBadRequest)
          else Err SrvBadRequest)"

text \<open>The keyword arguments in the order the map is iterated.\<close>

fun reduce_args_from :: "reduce_args \<Rightarrow> (string \<times> argument_value option) list \<Rightarrow> server_error + reduce_args" where
  "reduce_args_from args [] = Ok args"
| "reduce_args_from args (kwarg # kwargs) = res_bind (reduce_arg args kwarg) (\<lambda>args. reduce_args_from args kwargs)"

definition reduce_args_of :: "(string \<times> argument_value option) list \<Rightarrow> server_error + reduce_args" where
  "reduce_args_of kwargs = reduce_args_from reduce_args_default kwargs"

record apply_request =
  aq_session_id :: bytes
  aq_handle :: nat
  aq_name :: string
  aq_function_name :: string
  aq_kwargs :: "(string \<times> argument_value option) list"
  aq_indices :: "proto_index list"

record apply_reply =
  ay_dtype :: int
  ay_shape :: "int list"
  ay_data :: bytes

text \<open>A reduction that does not finish is answered as an internal error, whatever kept it.\<close>

definition run_reduce ::
    "ctl_env \<Rightarrow> dataset \<Rightarrow> layout \<Rightarrow> reduction \<Rightarrow> reduce_args \<Rightarrow> reduced rpc" where
  "run_reduce env ds lay fn args s =
     (case reduce (ce_half env) (ce_f16_from_f32 env) ds lay fn args (inline_limit_bytes (cfg_transfer (ce_config env))) of
        None \<Rightarrow> (Some (Err Code_Internal), s)
      | Some r \<Rightarrow> (Some (map_err (\<lambda>e. status_code (SrvCore e)) r), s))"

text \<open>What a request asks to be reduced, and how.\<close>

definition apply_asked :: "ctl_env \<Rightarrow> apply_request \<Rightarrow> (dataset \<times> layout \<times> reduction \<times> reduce_args) ctl" where
  "apply_asked env req =
     act_bind (ctl_session env (aq_session_id req)) (\<lambda>session.
     act_bind (act_of (files_get (aq_handle req) (ss_files session))) (\<lambda>file.
     act_bind (dataset_named file (aq_name req)) (\<lambda>ds.
     act_bind (act_of (ok_or (reduction_from_name (aq_function_name req)) SrvBadRequest)) (\<lambda>fn.
     act_bind (act_of (reduce_args_of (aq_kwargs req))) (\<lambda>args.
     act_bind (core (indices_from_proto (max_fancy_indices (cfg_limits (ce_config env))) (aq_indices req))) (\<lambda>indices.
     act_bind (core (dataset_layout (ce_build env) ds indices exact)) (\<lambda>lay.
     act_return (ds, lay, fn, args))))))))"

definition apply_function :: "ctl_env \<Rightarrow> apply_request \<Rightarrow> apply_reply rpc" where
  "apply_function env req =
     act_bind (rpc_of (apply_asked env req)) (\<lambda>(ds, lay, fn, args).
     act_bind (run_reduce env ds lay fn args) (\<lambda>reduced.
     rpc_of (act_of (res_map
       (\<lambda>dims. \<lparr>ay_dtype = as_i32 (rd_dtype reduced), ay_shape = dims, ay_data = rd_data reduced\<rparr>)
       (shape_to_proto (rd_shape reduced))))))"

section \<open>Sweeping\<close>

text \<open>One round of the sweeper (\<open>aex-server/src/lib.rs\<close>): the sessions first, so that their plans go in the same round.\<close>

definition sweep :: "ctl_env \<Rightarrow> unit ctl" where
  "sweep env =
     act_bind (ctl_now env) (\<lambda>now_ms.
     act_bind (\<lambda>s. (Some (Ok ()), s\<lparr>ct_sessions := snd (sweep_expired_at (ce_config env) now_ms (ct_sessions s))\<rparr>)) (\<lambda>_.
     act_bind (ctl_now env) (\<lambda>now_ms s.
       (Some (Ok ()), s\<lparr>ct_transfers :=
          snd (sweep_at (ce_config env) now_ms (\<lambda>session. sessions_contains session (ct_sessions s)) (ct_transfers s))\<rparr>))))"

end
