(* ===== verification/Control_Correct.thy ===== *)
theory Control_Correct
  imports Control
begin

text \<open>
  What the control plane guarantees: an invariant of the server's state that every call, every round of the sweeper
  and every use of a plan by the data plane keeps, and what a call gets out of it.
\<close>

section \<open>The invariant\<close>

definition file_bound :: "nat \<Rightarrow> array_file session \<Rightarrow> bool" where
  "file_bound n s \<longleftrightarrow> files_ok (ss_files s) \<and> fr_next_handle (ss_files s) \<le> n + 1"

definition files_bound :: "nat \<Rightarrow> array_file sessions \<Rightarrow> bool" where
  "files_bound n reg \<longleftrightarrow> (\<forall>sid s. map_of reg sid = Some s \<longrightarrow> file_bound n s)"

lemma file_bound_touch [simp]: "file_bound n (session_touch now_ms s) = file_bound n s"
  by (simp add: file_bound_def session_touch_def)

lemma file_bound_mono: "file_bound n s \<Longrightarrow> n \<le> m \<Longrightarrow> file_bound m s"
  by (simp add: file_bound_def)

lemma files_bound_update: "files_bound n reg \<Longrightarrow> file_bound n s \<Longrightarrow> files_bound n (AList.update sid s reg)"
  by (simp add: files_bound_def)

lemma files_bound_delete: "files_bound n reg \<Longrightarrow> files_bound n (AList.delete sid reg)"
  by (simp add: files_bound_def)

lemma files_boundD: "files_bound n reg \<Longrightarrow> map_of reg sid = Some s \<Longrightarrow> file_bound n s"
  by (auto simp: files_bound_def)

definition tickets_whole :: "transfers \<Rightarrow> bool" where
  "tickets_whole tr \<longleftrightarrow> (\<forall>i e. map_of (tr_entries tr) i = Some e \<longrightarrow> length (te_ticket e) = 16)"

text \<open>\<open>n\<close> bounds the number of calls so far; the transfers' identifiers are good until their counter wraps.\<close>

definition server_ok :: "ctl_env \<Rightarrow> nat \<Rightarrow> ctl_state \<Rightarrow> bool" where
  "server_ok env n s \<longleftrightarrow>
     sessions_ok (ce_config env) (ct_sessions s) \<and> files_bound n (ct_sessions s)
     \<and> (ct_draws s + 1 < U32 \<longrightarrow> transfers_ok (ct_transfers s) \<and> tr_next_id (ct_transfers s) \<le> ct_draws s + 1
          \<and> tickets_whole (ct_transfers s))"

definition env_ok :: "ctl_env \<Rightarrow> bool" where
  "env_ok env \<longleftrightarrow> config_ok (ce_config env) \<and> (\<forall>n t. ce_random env n = Ok t \<longrightarrow> length t = 16)"

lemma new_registries [simp]:
  "tr_entries transfers_new = []" "tr_next_id transfers_new = 1" "fr_next_handle files_new = 1"
  by (simp_all add: transfers_new_def files_new_def)

lemma server_start_ok: "server_ok env 0 ctl_start"
  by (simp add: server_ok_def ctl_start_def sessions_ok_def files_bound_def transfers_new_ok tickets_whole_def)

lemma server_ok_mono: "server_ok env n s \<Longrightarrow> n \<le> m \<Longrightarrow> server_ok env m s"
  using file_bound_mono [of n _ m] by (auto simp: server_ok_def files_bound_def)

lemma server_ok_ticks [simp]:
  "server_ok env n (s\<lparr>ct_ticks := t\<rparr>) = server_ok env n s" "server_ok env n (s\<lparr>ct_warned_small_cache := w\<rparr>) = server_ok env n s"
  by (simp_all add: server_ok_def)

lemma act_keeps_now [simp]: "act_keeps (server_ok env n) (ctl_now env)"
  by (simp add: act_keeps_def ctl_now_def)

lemma act_keeps_core [simp]: "act_keeps I (core r)"
  by (simp add: core_def)

text \<open>A change of the sessions only.\<close>

lemma server_ok_sessions:
  "server_ok env n s \<Longrightarrow> sessions_ok (ce_config env) reg \<Longrightarrow> files_bound n reg \<Longrightarrow> server_ok env n (s\<lparr>ct_sessions := reg\<rparr>)"
  by (simp add: server_ok_def)

lemma get_at_cases:
  assumes "get_at c sid now_ms reg = (r, reg')"
  obtains (Unknown) e where "r = Err e" "reg' = reg"
  | (Expired) e where "r = Err e" "reg' = AList.delete sid reg"
  | (Live) s where "map_of reg sid = Some s" "r = Ok (session_touch now_ms s)" "reg' = AList.update sid (session_touch now_ms s) reg"
proof (cases "length sid = 16 \<and> map_of reg sid \<noteq> None")
  case False
  then show thesis using assms Unknown by (auto simp: get_at_def split: if_splits)
next
  case True
  then obtain s where s: "map_of reg sid = Some s" "length sid = 16" by auto
  show thesis
  proof (cases "session_expired now_ms (idle_timeout_ms c) s")
    case True
    then show thesis using assms Expired s by (auto simp: get_at_def)
  next
    case False
    then show thesis using assms Live s by (simp add: get_at_def Let_def)
  qed
qed

lemma files_bound_get_at: "files_bound n reg \<Longrightarrow> get_at c sid now_ms reg = (r, reg') \<Longrightarrow> files_bound n reg'"
  by (erule get_at_cases) (simp_all add: files_bound_update files_bound_delete files_boundD)

lemma act_keeps_session [simp]: "act_keeps (server_ok env n) (ctl_session env sid)"
proof -
  have "server_ok env n (s\<lparr>ct_sessions := reg\<rparr>)"
    if "server_ok env n s" "get_at (ce_config env) sid now_ms (ct_sessions s) = (r, reg)" for s now_ms r reg
    using that(1) by (intro server_ok_sessions files_bound_get_at [OF _ that(2)] get_at_ok [OF _ that(2)]) (simp_all add: server_ok_def)
  then show ?thesis
    unfolding ctl_session_def by (intro act_keeps_bind act_keeps_now) (auto simp: act_keeps_def split: prod.split)
qed

text \<open>The session that is handed out is in the registry, under its own identifier.\<close>

lemma ctl_session_Ok:
  assumes "server_ok env n s" "ctl_session env sid s = (Some (Ok session), s')"
  shows "map_of (ct_sessions s') sid = Some session" "ss_id session = sid" "length sid = 16" "server_ok env n s'"
    "ct_transfers s' = ct_transfers s" "ct_draws s' = ct_draws s"
proof -
  obtain reg where g: "get_at (ce_config env) sid (ce_clock env (ct_ticks s)) (ct_sessions s) = (Ok session, reg)"
    "s' = s\<lparr>ct_ticks := ct_ticks s + 1, ct_sessions := reg\<rparr>"
    using assms(2) by (auto simp: ctl_session_def act_bind_def ctl_now_def split: prod.splits)
  show "map_of (ct_sessions s') sid = Some session" using get_at_live [OF g(1)] g(2) by auto
  show "length sid = 16" using g(1) by (simp add: get_at_def split: if_splits)
  show "server_ok env n s'" using act_keepsD [OF act_keeps_session assms(1) assms(2)] .
  then show "ss_id session = sid"
    using \<open>map_of (ct_sessions s') sid = Some session\<close>
    by (auto simp: server_ok_def sessions_ok_def session_ok_def dest: map_of_SomeD)
  show "ct_transfers s' = ct_transfers s" "ct_draws s' = ct_draws s" using g(2) by simp_all
qed

text \<open>Files of a session.\<close>

lemma ctl_files_ok:
  assumes "server_ok env n s" "map_of (ct_sessions s) (ss_id session) = Some session"
    and "change (ss_files session) = (x, files)" "files_ok files" "fr_next_handle files \<le> m + 1" "n \<le> m"
    and "ctl_files session change s = (y, s')"
  shows "server_ok env m s'" "y = x"
proof -
  let ?session = "session\<lparr>ss_files := files\<rparr>"
  have s': "s' = s\<lparr>ct_sessions := AList.update (ss_id session) ?session (ct_sessions s)\<rparr>" and y: "y = x"
    using assms(3,7) by (simp_all add: ctl_files_def)
  have reg: "sessions_ok (ce_config env) (ct_sessions s)" using assms(1) by (simp add: server_ok_def)
  then have "session_ok (ce_config env) (ss_id session) session"
    using map_of_SomeD [OF assms(2)] unfolding sessions_ok_def by blast
  then have "session_ok (ce_config env) (ss_id session) ?session" by (simp add: session_ok_def)
  then have "sessions_ok (ce_config env) (AList.update (ss_id session) ?session (ct_sessions s))"
    unfolding sessions_ok_def
    using reg [unfolded sessions_ok_def] length_update_present [OF assms(2), of ?session] by (auto simp: update_mem)
  moreover have "files_bound m (ct_sessions s)" using server_ok_mono [OF assms(1,6)] by (simp add: server_ok_def)
  then have "files_bound m (AList.update (ss_id session) ?session (ct_sessions s))"
    using assms(4,5) by (intro files_bound_update) (simp_all add: file_bound_def)
  ultimately show "server_ok env m s'"
    unfolding s' using server_ok_sessions server_ok_mono [OF assms(1,6)] by blast
  show "y = x" by (rule y)
qed

lemma ctl_insert_file_ok:
  assumes "server_ok env n s" "map_of (ct_sessions s) (ss_id session) = Some session" "n + 2 < U64"
  shows "server_ok env (n + 1) (snd (ctl_insert_file session file s))"
proof -
  obtain handle files where ins: "files_insert file (ss_files session) = (handle, files)" by fastforce
  have bound: "files_ok (ss_files session)" "fr_next_handle (ss_files session) \<le> n + 1"
    using assms(1,2) files_boundD [of n "ct_sessions s"] by (auto simp: server_ok_def file_bound_def)
  have "files_ok files" "fr_next_handle files \<le> (n + 1) + 1"
    using files_insert_ok [OF bound(1) _ ins] bound(2) assms(3) ins by (auto simp: files_insert_def wadd_def Let_def)
  moreover obtain y s' where "ctl_files session (files_insert file) s = (y, s')" by fastforce
  ultimately show ?thesis
    using ctl_files_ok(1) [where change = "files_insert file", OF assms(1,2) ins] by (simp add: ctl_insert_file_def)
qed

section \<open>Every call keeps it\<close>

lemma snd_rpc_of [simp]: "snd (rpc_of m s) = snd (m s)"
  by (simp add: rpc_of_def split: prod.split)

lemma rpc_of_keeps [simp]: "act_keeps I m \<Longrightarrow> act_keeps I (rpc_of m)"
  by (auto simp: act_keeps_def rpc_of_def split: prod.split)

lemma ctl_create_keeps:
  assumes "env_ok env"
  shows "act_keeps (server_ok env n) (ctl_create env client_name desired)"
proof -
  have step: "server_ok env n (s\<lparr>ct_sessions := reg, ct_draws := ct_draws s + 2\<rparr>)"
    if "server_ok env n s" "create_at (ce_config env) client_name desired now_ms r1 r2 (ct_sessions s) = (r, reg)" for s r reg now_ms r1 r2
  proof -
    have "sessions_ok (ce_config env) reg"
      using create_at_ok [OF _ _ that(2)] that(1) assms by (simp add: server_ok_def env_ok_def)
    moreover have "files_bound n reg"
      using that
      by (auto simp: create_at_def Let_def server_ok_def new_session_def file_bound_def files_new_ok
          intro!: files_bound_update split: if_splits sum.splits prod.splits)
    ultimately show ?thesis using that(1) by (auto simp: server_ok_def)
  qed
  show ?thesis
    unfolding ctl_create_def
    by (rule act_keeps_bind, simp) (auto simp: act_keeps_def step [unfolded add_2_eq_Suc'] split: prod.split)
qed

lemma insert_entries:
  assumes "transfers_ok tr" "insert_at_time c session ds lay now_ms (Ok ticket) tr = (res, tr')"
    and "map_of (tr_entries tr') i = Some e"
  shows "te_ticket e = ticket \<or> map_of (tr_entries tr) i = Some e"
proof -
  let ?ids = "filter (\<lambda>i. map_of (tr_entries tr) i \<noteq> None) (unwrap_or (map_of (tr_by_session tr) session) [])"
  obtain entries ids where room: "make_room (max_transfers_per_session (cfg_limits c)) (tr_entries tr) ?ids = (entries, ids)" by fastforce
  have "distinct ?ids"
    using transfers_ok_ids(1) [OF assms(1)] by (cases "map_of (tr_by_session tr) session") auto
  then have "map_of entries i = Some e \<Longrightarrow> map_of (tr_entries tr) i = Some e" for e
    using make_room_spec [OF room] by (auto split: if_splits)
  then show ?thesis using assms(2,3) room by (auto simp: insert_at_time_def Let_def split: prod.splits if_splits)
qed

lemma transfers_ok_next: "transfers_ok tr \<Longrightarrow> tr_next_id tr \<le> n \<Longrightarrow> transfers_ok (tr\<lparr>tr_next_id := n\<rparr>)"
  unfolding transfers_ok_def by (fastforce intro: less_le_trans)

lemma insert_next_id:
  "0 < tr_next_id tr \<Longrightarrow> tr_next_id tr + 1 < U32 \<Longrightarrow> insert_at_time c session ds lay now_ms random tr = (res, tr') \<Longrightarrow>
     tr_next_id tr' = tr_next_id tr + 1"
  by (auto simp: insert_at_time_def next_request_id_eq Let_def split: prod.splits sum.splits)

lemma insert_transfer_ok:
  assumes "env_ok env" "transfers_ok tr" "tickets_whole tr" "tr_next_id tr \<le> d + 1" "d + 2 < U32"
    and ins: "insert_at_time (ce_config env) sid ds lay now_ms (ce_random env k) tr = (r, tr')"
  shows "transfers_ok tr' \<and> tr_next_id tr' \<le> d + 2 \<and> tickets_whole tr'"
proof (cases "ce_random env k")
  case (Inl e)
  have "0 < tr_next_id tr" "tr_next_id tr + 1 < U32" using assms(2,4,5) by (auto simp: transfers_ok_def)
  then have "tr' = tr\<lparr>tr_next_id := tr_next_id tr + 1\<rparr>"
    using ins Inl by (simp add: insert_at_time_def next_request_id_eq Let_def)
  then show ?thesis using assms(2-4) transfers_ok_next by (simp add: tickets_whole_def)
next
  case (Inr ticket)
  have room: "tr_next_id tr + 1 < U32" "0 < tr_next_id tr" "0 < max_transfers_per_session (cfg_limits (ce_config env))"
    using assms(1,2,4,5) by (auto simp: transfers_ok_def env_ok_def config_ok_def)
  note ok = insert_at_time_ok [OF assms(2) room(1,3) ins [unfolded Inr]]
  have "length ticket = 16" using assms(1) Inr by (auto simp: env_ok_def)
  then have "tickets_whole tr'"
    using insert_entries [OF assms(2) ins [unfolded Inr]] assms(3) by (auto simp: tickets_whole_def)
  then show ?thesis using ok(1) insert_next_id [OF room(2,1) ins] assms(4) by simp
qed

lemma insert_transfer_keeps:
  assumes "env_ok env"
  shows "act_keeps (server_ok env n) (ctl_insert_transfer env sid ds lay)"
proof -
  have "server_ok env n (s\<lparr>ct_transfers := tr, ct_draws := Suc (ct_draws s)\<rparr>)"
    if "server_ok env n s" "insert_at_time (ce_config env) sid ds lay now_ms (ce_random env (ct_draws s)) (ct_transfers s) = (r, tr)"
    for s now_ms r tr
    using that(1) insert_transfer_ok [OF assms _ _ _ _ that(2)] by (auto simp: server_ok_def)
  then show ?thesis
    unfolding ctl_insert_transfer_def
    by (intro act_keeps_bind act_keeps_now) (auto simp: act_keeps_def split: prod.split)
qed

text \<open>A change of the transfers only.\<close>

lemma server_ok_transfers:
  "server_ok env n s \<Longrightarrow>
     (transfers_ok (ct_transfers s) \<Longrightarrow> tickets_whole (ct_transfers s) \<Longrightarrow>
        transfers_ok tr \<and> tickets_whole tr \<and> tr_next_id tr = tr_next_id (ct_transfers s)) \<Longrightarrow>
     server_ok env n (s\<lparr>ct_transfers := tr\<rparr>)"
  by (simp add: server_ok_def)

lemma removed_session_ok:
  assumes "transfers_ok tr" "tickets_whole tr"
  shows "transfers_ok (snd (remove_session session tr)) \<and> tickets_whole (snd (remove_session session tr))
    \<and> tr_next_id (snd (remove_session session tr)) = tr_next_id tr"
proof -
  obtain n tr' where r: "remove_session session tr = (n, tr')" by fastforce
  have "tr_next_id tr' = tr_next_id tr" using r by (auto simp: remove_session_def split: option.splits)
  then show ?thesis using remove_session_ok [OF assms(1) r] assms(2) r by (auto simp: tickets_whole_def)
qed

lemma swept_ok:
  assumes "transfers_ok tr" "tickets_whole tr"
  shows "transfers_ok (snd (sweep_at c now_ms live tr)) \<and> tickets_whole (snd (sweep_at c now_ms live tr))
    \<and> tr_next_id (snd (sweep_at c now_ms live tr)) = tr_next_id tr"
proof -
  obtain n tr' where r: "sweep_at c now_ms live tr = (n, tr')" by fastforce
  have "tr_next_id tr' = tr_next_id tr" using r by (auto simp: sweep_at_def Let_def)
  then show ?thesis using sweep_at_ok [OF assms(1) r] assms(2) r by (auto simp: tickets_whole_def)
qed

lemma fetched_ok:
  assumes "transfers_ok tr" "tickets_whole tr"
  shows "transfers_ok (snd (fetch c request_id ticket session now_ms tr)) \<and> tickets_whole (snd (fetch c request_id ticket session now_ms tr))
    \<and> tr_next_id (snd (fetch c request_id ticket session now_ms tr)) = tr_next_id tr"
proof -
  obtain r tr' where f: "fetch c request_id ticket session now_ms tr = (r, tr')" by fastforce
  have "tr_next_id (transfer_remove request_id tr) = tr_next_id tr" by (simp add: transfer_remove_def Let_def split: option.split)
  then have "tr_next_id tr' = tr_next_id tr" using f by (auto simp: fetch_def Let_def split: option.splits if_splits)
  moreover have "length (te_ticket e) = 16" if "map_of (tr_entries tr') i = Some e" for i e
    using f that assms(2) transfer_remove_ok(2) [OF assms(1)]
    by (auto simp: fetch_def Let_def tickets_whole_def split: option.splits if_splits)
  ultimately show ?thesis using fetch_ok [OF assms(1) f] f by (simp add: tickets_whole_def)
qed

section \<open>Calls\<close>

lemma sessions_ok_delete: "sessions_ok c reg \<Longrightarrow> sessions_ok c (AList.delete sid reg)"
  using length_delete [of sid reg] by (auto simp: sessions_ok_def delete_mem intro: le_trans)

lemma connect_keeps: "env_ok env \<Longrightarrow> act_keeps (server_ok env n) (connect env req)"
  unfolding connect_def using ctl_create_keeps by (auto intro!: rpc_of_keeps act_keeps_bind)

lemma disconnect_keeps: "act_keeps (server_ok env n) (disconnect env sid)"
proof -
  have "server_ok env n (snd (case remove_at (ce_config env) sid now_ms (ct_sessions s) of
          (Err e, reg) \<Rightarrow> (Some (Err e), s\<lparr>ct_sessions := reg\<rparr>)
        | (Ok session_id, reg) \<Rightarrow>
            (Some (Ok ()), s\<lparr>ct_sessions := reg, ct_transfers := snd (remove_session session_id (ct_transfers s))\<rparr>)))"
    if ok: "server_ok env n s" for s now_ms
  proof -
    obtain r reg where rm: "remove_at (ce_config env) sid now_ms (ct_sessions s) = (r, reg)" by fastforce
    have "sessions_ok (ce_config env) reg" "files_bound n reg"
    proof -
      show "sessions_ok (ce_config env) reg" using remove_at_ok(1) [OF _ rm] ok by (simp add: server_ok_def)
      obtain r' reg' where g: "get_at (ce_config env) sid now_ms (ct_sessions s) = (r', reg')" by fastforce
      then have "files_bound n reg'" using files_bound_get_at [OF _ g] ok by (simp add: server_ok_def)
      then show "files_bound n reg"
        using rm g by (cases r') (auto simp: remove_at_def files_bound_delete)
    qed
    then have "server_ok env n (s\<lparr>ct_sessions := reg\<rparr>)" using ok by (intro server_ok_sessions)
    then show ?thesis
      using rm removed_session_ok server_ok_transfers [of env n "s\<lparr>ct_sessions := reg\<rparr>"] by (auto split: sum.split)
  qed
  then show ?thesis
    unfolding disconnect_def
    by (intro rpc_of_keeps act_keeps_bind act_keeps_now) (auto simp: act_keeps_def)
qed

lemma close_file_keeps: "act_keeps (server_ok env n) (close_file env sid handle)"
  unfolding close_file_def
proof (rule rpc_of_keeps, unfold act_keeps_def, intro allI impI)
  fix s
  assume ok: "server_ok env n s"
  let ?m = "act_bind (ctl_session env sid) (\<lambda>session s. case ctl_files session (files_remove handle) s of (r, s) \<Rightarrow> (Some r, s))"
  obtain r s1 where ses: "ctl_session env sid s = (r, s1)" by fastforce
  have s1: "server_ok env n s1" using act_keepsD [OF act_keeps_session ok ses] .
  show "server_ok env n (snd (?m s))"
  proof (cases "\<exists>session. r = Some (Ok session)")
    case True
    then obtain session where session: "r = Some (Ok session)" by blast
    note found = ctl_session_Ok [OF ok ses [unfolded session]]
    obtain x files where rm: "files_remove handle (ss_files session) = (x, files)" by fastforce
    obtain y s2 where fs: "ctl_files session (files_remove handle) s1 = (y, s2)" by fastforce
    have bound: "files_ok (ss_files session)" "fr_next_handle (ss_files session) \<le> n + 1"
      using files_boundD [of n "ct_sessions s1" sid session] s1 found(1) by (auto simp: server_ok_def file_bound_def)
    have "files_ok files" "fr_next_handle files \<le> n + 1"
      using files_remove_ok(1) [OF bound(1) rm] bound(2) rm by (auto simp: files_remove_def split: option.splits)
    then have "server_ok env n s2"
      using ctl_files_ok(1) [OF s1 _ rm _ _ _ fs] found(1,2) by simp
    then show ?thesis using ses session fs by (simp add: act_bind_def)
  qed (use ses s1 in \<open>auto simp: act_bind_def split: option.split sum.split\<close>)
qed

lemma core_pure [simp]: "act_pure (core r)"
  by (simp add: core_def)

lemma act_pure_if: "act_pure a \<Longrightarrow> act_pure b \<Longrightarrow> act_pure (if P then a else b)"
  by simp

lemma open_file_for_pure: "act_pure (open_file_for env req)"
proof -
  have "act_pure (open_hdf5 env p)" for p by (simp add: open_hdf5_def split: option.split)
  moreover have "act_pure (case asked of Some f \<Rightarrow> act_return f | None \<Rightarrow> act_of r)" for asked :: "'a option" and r
    by (simp split: option.split)
  ultimately show ?thesis
    unfolding open_file_for_def Let_def by (intro act_pure_if act_pure_bind act_pure_basic core_pure)
qed

lemma open_in_session_ok:
  assumes "server_ok env n s" "n + 2 < U64"
  shows "server_ok env (n + 1) (snd (open_in_session env req s))"
proof -
  obtain r s1 where ses: "ctl_session env (oq_session_id req) s = (r, s1)" by fastforce
  have s1: "server_ok env n s1" using act_keepsD [OF act_keeps_session assms(1) ses] .
  then have keep: "server_ok env (n + 1) s1" by (rule server_ok_mono) simp
  show ?thesis
  proof (cases "\<exists>session. r = Some (Ok session)")
    case True
    then obtain session where session: "r = Some (Ok session)" by blast
    note found = ctl_session_Ok [OF assms(1) ses [unfolded session]]
    have "map_of (ct_sessions s1) (ss_id session) = Some session" using found(1,2) by simp
    then have insert: "server_ok env (n + 1) (snd (ctl_insert_file session f s1))" for f
      using ctl_insert_file_ok [OF s1 _ assms(2)] by blast
    have "server_ok env (n + 1) (snd (act_bind (open_file_for env req) (ctl_insert_file session) s1))"
      using act_pure_then [OF open_file_for_pure, of env req "ctl_insert_file session" s1] insert keep by metis
    moreover have "server_ok env (n + 1) (snd (act_bind (core r) (\<lambda>ds. ctl_insert_file session (null_file ds)) s1))" for r
      using act_pure_then [OF core_pure, of r "\<lambda>ds. ctl_insert_file session (null_file ds)" s1] insert keep by metis
    ultimately show ?thesis
      using ses session keep by (simp add: open_in_session_def act_bind_def [of "ctl_session _ _"] act_throw_def)
  qed (use ses keep in \<open>auto simp: open_in_session_def act_bind_def split: option.split sum.split\<close>)
qed

lemma open_file_ok: "server_ok env n s \<Longrightarrow> n + 2 < U64 \<Longrightarrow> server_ok env (n + 1) (snd (open_file env req s))"
  using open_in_session_ok [of env n s req] by (simp add: open_file_def)

lemma file_of_keeps: "act_keeps (server_ok env n) (file_of env sid handle)"
  unfolding file_of_def by (intro act_keeps_bind) auto

lemma item_calls_keep:
  "act_keeps (server_ok env n) (get_item env sid handle name)" "act_keeps (server_ok env n) (list_children env sid handle name)"
  unfolding get_item_def list_children_def Let_def by (intro rpc_of_keeps act_keeps_bind file_of_keeps act_keeps_core act_keeps_of)+

lemma dataset_named_keeps [simp]: "act_keeps I (dataset_named file name)"
  unfolding dataset_named_def by (intro act_keeps_bind) (auto split: item.split)

lemma check_decode_cache_keeps [simp]: "act_keeps (server_ok env n) (check_decode_cache env ds streams)"
  by (simp add: act_keeps_def check_decode_cache_def split: option.split)

lemma prepare_layout_keeps: "act_keeps (server_ok env n) (prepare_layout env sid req)"
  unfolding prepare_layout_def Let_def by (intro act_keeps_bind) auto

lemma unbudgeted_keeps: "act_keeps I m \<Longrightarrow> act_keeps (\<lambda>sb. I (fst sb)) (unbudgeted m)"
  by (auto simp: act_keeps_def unbudgeted_def split: prod.split)

lemma prepare_keeps:
  assumes "env_ok env"
  shows "act_keeps (\<lambda>sb. server_ok env n (fst sb)) (prepare env sid req)"
proof -
  have "act_keeps (\<lambda>sb. server_ok env n (fst sb)) (spend k)" "act_keeps (\<lambda>sb. server_ok env n (fst sb)) (core_read r)" for k r
    by (simp_all add: act_keeps_def spend_def core_read_def)
  moreover note unbudgeted_keeps [OF insert_transfer_keeps [OF assms]]
  ultimately have "act_keeps (\<lambda>sb. server_ok env n (fst sb)) (act_bind (spend k) (\<lambda>_. act_bind (core_read r) (\<lambda>x. act_of (f x))))"
    "act_keeps (\<lambda>sb. server_ok env n (fst sb)) (act_bind (unbudgeted (ctl_insert_transfer env sid ds lay)) (\<lambda>x. act_of (g x)))"
    for k r and f :: "bytes \<Rightarrow> server_error + proto_plan" and g :: "transfer_entry \<Rightarrow> server_error + proto_plan" and sid ds lay
    by (auto intro!: act_keeps_bind)
  then show ?thesis
    unfolding prepare_def Let_def
    by (intro act_keeps_bind unbudgeted_keeps prepare_layout_keeps) (auto simp: act_keeps_def)
qed

lemma prepare_each_keeps:
  assumes "env_ok env"
  shows "act_keeps (\<lambda>sb. server_ok env n (fst sb)) (prepare_each env sid reqs)"
proof (induction reqs)
  case (Cons req reqs)
  have "server_ok env n (fst (snd (prepare_each env sid (req # reqs) sb)))" if "server_ok env n (fst sb)" for sb
  proof -
    obtain r sb1 where p: "prepare env sid req sb = (r, sb1)" by (cases "prepare env sid req sb")
    have "server_ok env n (fst sb1)" using act_keepsD [OF prepare_keeps [OF assms] that p] .
    moreover from this have "server_ok env n (fst (snd (prepare_each env sid reqs sb1)))" using Cons.IH unfolding act_keeps_def by blast
    ultimately show ?thesis using p by (cases r) (simp_all add: snd_act_bind_return)
  qed
  then show ?case by (simp add: act_keeps_def)
qed simp

lemma prepare_calls_keep:
  assumes "env_ok env"
  shows "act_keeps (server_ok env n) (prepare_selection env sid req)" "act_keeps (server_ok env n) (prepare_selections env sid reqs)"
proof -
  show "act_keeps (server_ok env n) (prepare_selection env sid req)"
    unfolding prepare_selection_def
    by (intro rpc_of_keeps) (auto simp: act_keeps_def split: prod.split dest!: act_keepsD [OF prepare_keeps [OF assms, of n], rotated])
  show "act_keeps (server_ok env n) (prepare_selections env sid reqs)"
    unfolding prepare_selections_def
    by (intro rpc_of_keeps act_keeps_bind act_keeps_session)
      (auto simp: act_keeps_def split: prod.split dest!: act_keepsD [OF prepare_each_keeps [OF assms, of n], rotated])
qed

lemma apply_function_keeps: "act_keeps (server_ok env n) (apply_function env req)"
proof -
  have "act_keeps (server_ok env n) (apply_asked env req)" unfolding apply_asked_def by (intro act_keeps_bind) auto
  moreover have "act_keeps I (run_reduce env ds lay fn args)" for I ds lay fn args
    by (auto simp: act_keeps_def run_reduce_def split: option.split)
  ultimately show ?thesis unfolding apply_function_def by (auto intro!: act_keeps_bind rpc_of_keeps)
qed

lemma sweep_keeps: "act_keeps (server_ok env n) (sweep env)"
proof -
  have sessions: "server_ok env n (s\<lparr>ct_sessions := snd (sweep_expired_at (ce_config env) now_ms (ct_sessions s))\<rparr>)"
    if ok: "server_ok env n s" for s now_ms
  proof -
    obtain m reg where sw: "sweep_expired_at (ce_config env) now_ms (ct_sessions s) = (m, reg)" by fastforce
    have reg: "sessions_ok (ce_config env) (ct_sessions s)" "files_bound n (ct_sessions s)" using ok by (simp_all add: server_ok_def)
    have "files_bound n reg" using reg(2) sweep_expired_ok(3) [OF reg(1) sw] by (auto simp: files_bound_def)
    then show ?thesis using server_ok_sessions [OF ok sweep_expired_ok(1) [OF reg(1) sw]] sw by simp
  qed
  have "server_ok env n (s\<lparr>ct_transfers := snd (sweep_at c now_ms live (ct_transfers s))\<rparr>)" if "server_ok env n s" for s c now_ms live
    using that by (rule server_ok_transfers) (rule swept_ok)
  then show ?thesis
    unfolding sweep_def by (intro act_keeps_bind act_keeps_now) (auto simp: act_keeps_def intro: sessions)
qed

section \<open>The states a server reaches\<close>

text \<open>One call, one round of the sweeper, or what the data plane does with a plan and a session.\<close>

inductive server_step :: "ctl_env \<Rightarrow> ctl_state \<Rightarrow> ctl_state \<Rightarrow> bool" for env where
  Connect: "server_step env s (snd (connect env conn s))"
| Disconnect: "server_step env s (snd (disconnect env sid s))"
| Open: "server_step env s (snd (open_file env file_req s))"
| Close: "server_step env s (snd (close_file env sid handle s))"
| Get_Item: "server_step env s (snd (get_item env sid handle name s))"
| List_Children: "server_step env s (snd (list_children env sid handle name s))"
| Prepare: "server_step env s (snd (prepare_selection env sid req s))"
| Prepare_Many: "server_step env s (snd (prepare_selections env sid reqs s))"
| Apply: "server_step env s (snd (apply_function env apply_req s))"
| Sweep: "server_step env s (snd (sweep env s))"
| Fetch: "server_step env s (s\<lparr>ct_transfers := snd (fetch (ce_config env) request_id ticket sid now_ms (ct_transfers s))\<rparr>)"
| Session: "server_step env s (s\<lparr>ct_sessions := snd (get_at (ce_config env) sid now_ms (ct_sessions s))\<rparr>)"
| Touch: "server_step env s (s\<lparr>ct_sessions := touch_at sid now_ms (ct_sessions s)\<rparr>)"

inductive server_reach :: "ctl_env \<Rightarrow> nat \<Rightarrow> ctl_state \<Rightarrow> bool" for env where
  Start: "server_reach env 0 ctl_start"
| Step: "server_reach env n s \<Longrightarrow> server_step env s s' \<Longrightarrow> server_reach env (n + 1) s'"

lemma keeps_next: "act_keeps (server_ok env n) m \<Longrightarrow> server_ok env n s \<Longrightarrow> server_ok env (n + 1) (snd (m s))"
  by (simp add: act_keeps_def) (rule server_ok_mono, auto)

lemma server_step_ok:
  assumes "env_ok env" "n + 2 < U64"
  shows "server_step env s s' \<Longrightarrow> server_ok env n s \<Longrightarrow> server_ok env (n + 1) s'"
proof (induction rule: server_step.induct)
  case (Fetch s request_id ticket sid now_ms)
  then show ?case using server_ok_transfers [OF Fetch fetched_ok] by (blast intro: server_ok_mono le_add1)
next
  case (Session s sid now_ms)
  obtain r reg where g: "get_at (ce_config env) sid now_ms (ct_sessions s) = (r, reg)" by fastforce
  have "server_ok env n (s\<lparr>ct_sessions := reg\<rparr>)"
    using Session get_at_ok [OF _ g] files_bound_get_at [OF _ g] by (intro server_ok_sessions) (simp_all add: server_ok_def)
  then show ?case using g by (auto intro: server_ok_mono)
next
  case (Touch s sid now_ms)
  have "files_bound n (touch_at sid now_ms (ct_sessions s))"
    using Touch files_boundD [of n "ct_sessions s" sid]
    by (auto simp: server_ok_def touch_at_def intro: files_bound_update split: option.split)
  then have "server_ok env n (s\<lparr>ct_sessions := touch_at sid now_ms (ct_sessions s)\<rparr>)"
    using Touch by (intro server_ok_sessions touch_at_ok) (simp_all add: server_ok_def)
  then show ?case by (auto intro: server_ok_mono)
next
  case (Open s file_req)
  then show ?case using open_file_ok assms(2) by blast
qed (erule keeps_next [rotated], rule connect_keeps [OF assms(1)] disconnect_keeps close_file_keeps item_calls_keep
    prepare_calls_keep [OF assms(1)] apply_function_keeps sweep_keeps)+

lemma server_reach_ok:
  assumes "env_ok env"
  shows "server_reach env n s \<Longrightarrow> n + 1 < U64 \<Longrightarrow> server_ok env n s"
  by (induction rule: server_reach.induct) (auto intro: server_start_ok server_step_ok [OF assms, simplified])

end
