(* ===== verification/Reduce_Correct.thy ===== *)
theory Reduce_Correct
  imports Reduce
begin

text \<open>
  What the reductions compute. An accumulator keeps one value per cell and a push changes the value of its own
  cell only: that is the locale \<open>cell_accumulator\<close>, which every accumulator of \<open>Reduce\<close> interprets. So the
  value of a cell is the fold of the accumulator's step over the cell's own elements, in their order.
\<close>

section \<open>Selections of any shape\<close>

text \<open>
  The shape of a selection whose axes that are not empty multiply to a machine integer, as every layout the server
  makes has; with an empty axis there is nothing to read.
\<close>

definition walk_over :: "reduce_walk \<Rightarrow> layout \<Rightarrow> bool list \<Rightarrow> bool" where
  "walk_over w lay reduced \<longleftrightarrow>
     wa_shape w = lay_out_shape lay \<and> length reduced = length (lay_out_shape lay)
     \<and> (wa_stride w, wa_cells w) = cell_strides (lay_out_shape lay) reduced
     \<and> lay_total_bytes lay = prod_list (lay_out_shape lay) * itemsize (lay_dtype lay)
     \<and> prod_list (filter ((\<noteq>) 0) (lay_out_shape lay)) < U64"

lemma walk_over_ok: "walk_over w lay reduced \<Longrightarrow> 0 \<notin> set (lay_out_shape lay) \<Longrightarrow> walk_ok w reduced"
proof -
  assume "walk_over w lay reduced" "0 \<notin> set (lay_out_shape lay)"
  moreover from this have "filter ((\<noteq>) 0) (lay_out_shape lay) = lay_out_shape lay" by (metis (mono_tags) filter_True)
  ultimately show ?thesis by (simp add: walk_over_def walk_ok_def)
qed

lemma walk_over_empty: "walk_over w lay reduced \<Longrightarrow> 0 \<in> set (lay_out_shape lay) \<Longrightarrow> lay_total_bytes lay = 0"
  by (simp add: walk_over_def prod_list_zero_iff)

lemma fold_walk_all:
  assumes "walk_over w lay reduced" "sz = itemsize (lay_dtype lay)" "reads_stream f16_from_f32 ds lay stream"
  shows "fold_walk f16_from_f32 ds lay w sz elem push acc
    = map_option Ok (push_all push (visits w 0 (elements sz elem stream)) acc)"
proof (cases "0 \<in> set (lay_out_shape lay)")
  case True
  then have "lay_total_bytes lay = 0" using walk_over_empty [OF assms(1)] by simp
  moreover from this have "stream = []" using assms(3) by (simp add: reads_stream_def)
  ultimately show ?thesis by (simp add: fold_walk_def fold_blocks.simps Let_def elements_def chunks_exact_def visits_def)
next
  case False
  have "0 < sz" "sz \<le> BLOCK_BYTES" using assms(2) itemsize_pos itemsize_le [of "lay_dtype lay"] by (auto simp: BLOCK_BYTES_def)
  then show ?thesis
    using fold_walk_visits [OF walk_over_ok [OF assms(1) False] _ _ _ assms(3), of sz elem push acc] assms(1,2) by (simp add: walk_over_def)
qed

lemma visits_nth: "visits w 0 xs = map (\<lambda>n. (cell_at w n, pos_at w n, xs ! n)) [0..<length xs]"
  by (rule nth_equalityI) (simp_all add: visits_def)

lemma length_stream_elements:
  assumes "walk_over w lay reduced" "reads_stream f16_from_f32 ds lay stream"
  shows "length (elements (itemsize (lay_dtype lay)) elem stream) = prod_list (lay_out_shape lay)"
  using assms itemsize_pos [of "lay_dtype lay"] by (simp add: walk_over_def reads_stream_def)

lemma visits_in_cells:
  assumes "walk_over w lay reduced" "reads_stream f16_from_f32 ds lay stream"
  shows "list_all (\<lambda>v. fst v < wa_cells w) (visits w 0 (elements (itemsize (lay_dtype lay)) elem stream))"
proof (cases "0 \<in> set (lay_out_shape lay)")
  case True
  then have "prod_list (lay_out_shape lay) = 0" by (simp add: prod_list_zero_iff)
  then have "elements (itemsize (lay_dtype lay)) elem stream = []"
    using length_stream_elements [OF assms, of elem] by (simp only: length_0_conv)
  then show ?thesis by (simp add: visits_def)
next
  case False
  have "cell_at w n < wa_cells w" if "n < prod_list (lay_out_shape lay)" for n
    using cell_at_ravel [OF walk_over_ok [OF assms(1) False], THEN conjunct2] that assms(1) by (simp add: walk_over_def)
  then show ?thesis
    using length_stream_elements [OF assms, of elem] by (auto simp: list_all_iff visits_nth simp del: length_elements)
qed

text \<open>There are as many cells as kept positions.\<close>

lemma prod_kept_nonzero:
  "length rs = length (lens :: nat list) \<Longrightarrow> 0 \<notin> set (kept_of rs lens) \<Longrightarrow> prod_list (kept_of rs lens) \<le> prod_list (filter ((\<noteq>) 0) lens)"
proof (induction rs lens rule: list_induct2)
  case (Cons r rs len lens)
  show ?case
  proof (cases "r \<and> len \<noteq> 0")
    case True
    then have "prod_list (kept_of rs lens) \<le> prod_list (filter ((\<noteq>) 0) lens)" using Cons by simp
    also have "\<dots> \<le> len * prod_list (filter ((\<noteq>) 0) lens)" using True by simp
    finally show ?thesis using True by simp
  next
    case False
    then show ?thesis using Cons by auto
  qed
qed simp

lemma cells_kept:
  "length rs = length lens \<Longrightarrow> prod_list (filter ((\<noteq>) 0) lens) < U64 \<Longrightarrow> snd (cell_strides lens rs) = prod_list (kept_of rs lens)"
proof (induction rs lens rule: list_induct2)
  case (Cons r rs len lens)
  have "prod_list (filter ((\<noteq>) 0) lens) < U64"
  proof (cases "len = 0")
    case False
    then have "prod_list (filter ((\<noteq>) 0) lens) \<le> len * prod_list (filter ((\<noteq>) 0) lens)" by simp
    also have "\<dots> < U64" using Cons.prems False by simp
    finally show ?thesis .
  qed (use Cons.prems in simp)
  with Cons.IH have IH: "snd (cell_strides lens rs) = prod_list (kept_of rs lens)" by simp
  have "len * prod_list (kept_of rs lens) < U64" if "\<not> r"
  proof (cases "0 \<in> set (kept_of (r # rs) (len # lens))")
    case True
    then have "prod_list (kept_of (r # rs) (len # lens)) = 0" by (simp only: prod_list_zero_iff)
    then have "len * prod_list (kept_of rs lens) = 0" using that by simp
    then show ?thesis by (simp only: U64_pos)
  next
    case False
    then have "prod_list (kept_of (r # rs) (len # lens)) < U64"
      using prod_kept_nonzero [of "r # rs" "len # lens"] Cons.hyps Cons.prems by simp
    then show ?thesis using that by simp
  qed
  then show ?case using IH by (auto simp: wmul_eq mult.commute split: prod.split)
qed simp

section \<open>Accumulators work cell by cell\<close>

lemma modify_at_Some: "i < length xs \<Longrightarrow> modify_at i f xs = Some (xs[i := f (xs ! i)])"
  by (simp add: modify_at_def)

definition in_cell :: "nat \<Rightarrow> (nat \<times> nat \<times> 't) list \<Rightarrow> (nat \<times> 't) list" where
  "in_cell c vs = map snd (filter (\<lambda>v. fst v = c) vs)"

lemma in_cell_simps [simp]:
  "in_cell c [] = []" "in_cell c ((k, v) # vs) = (if k = c then v # in_cell c vs else in_cell c vs)"
  by (simp_all add: in_cell_def)

locale cell_accumulator =
  fixes push :: "nat \<Rightarrow> nat \<Rightarrow> 't \<Rightarrow> 'acc \<Rightarrow> 'acc option"
    and slots :: "'acc \<Rightarrow> 'c list"
    and step :: "nat \<times> 't \<Rightarrow> 'c \<Rightarrow> 'c"
    and sound :: "'acc \<Rightarrow> bool"
  assumes push_slot: "sound acc \<Longrightarrow> cell < length (slots acc) \<Longrightarrow>
      \<exists>acc'. push cell pos x acc = Some acc' \<and> sound acc' \<and> slots acc' = (slots acc)[cell := step (pos, x) (slots acc ! cell)]"
begin

text \<open>A whole walk.\<close>

lemma push_all_slots:
  assumes "sound acc" "list_all (\<lambda>v. fst v < length (slots acc)) vs"
  shows "\<exists>acc'. push_all push vs acc = Some acc' \<and> sound acc'
    \<and> slots acc' = map (\<lambda>c. fold step (in_cell c vs) (slots acc ! c)) [0..<length (slots acc)]"
  using assms
proof (induction vs arbitrary: acc)
  case Nil
  then show ?case by (simp add: map_nth)
next
  case (Cons v vs)
  obtain cell pos x where v: "v = (cell, pos, x)" by (cases v)
  obtain acc1 where acc1: "push cell pos x acc = Some acc1" "sound acc1"
    "slots acc1 = (slots acc)[cell := step (pos, x) (slots acc ! cell)]"
    using push_slot [of acc cell pos x] Cons.prems v by auto
  have "list_all (\<lambda>v. fst v < length (slots acc1)) vs" using Cons.prems(2) acc1(3) by simp
  from Cons.IH [OF acc1(2) this] obtain acc' where "push_all push vs acc1 = Some acc'" "sound acc'"
    "slots acc' = map (\<lambda>c. fold step (in_cell c vs) (slots acc1 ! c)) [0..<length (slots acc1)]"
    by blast
  then show ?case using acc1 v by (auto simp: nth_list_update)
qed

lemma fold_walk_slots:
  assumes "sound acc" "length (slots acc) = wa_cells w" "walk_over w lay reduced" "sz = itemsize (lay_dtype lay)"
    and "reads_stream f16_from_f32 ds lay stream"
  shows "\<exists>acc'. fold_walk f16_from_f32 ds lay w sz elem push acc = Some (Ok acc') \<and> sound acc'
    \<and> slots acc' = map (\<lambda>c. fold step (in_cell c (visits w 0 (elements sz elem stream))) (slots acc ! c)) [0..<wa_cells w]"
proof -
  have sz: "0 < sz" "sz \<le> BLOCK_BYTES" using assms(4) itemsize_pos itemsize_le [of "lay_dtype lay"] by (auto simp: BLOCK_BYTES_def)
  have "list_all (\<lambda>v. fst v < wa_cells w) (visits w 0 (elements sz elem stream))"
    using visits_in_cells [OF assms(3,5)] assms(4) by simp
  with push_all_slots [OF assms(1), of "visits w 0 (elements sz elem stream)"] assms(2)
  show ?thesis using fold_walk_all [OF assms(3,4,5), of elem push acc] by auto
qed

end

section \<open>The accumulators of the code\<close>

definition int_step :: "bool \<Rightarrow> u64 \<Rightarrow> u64 \<Rightarrow> u64" where "int_step multiply v a = (if multiply then a * v else a + v)"

definition sums_ints :: "bool \<Rightarrow> sum_acc \<Rightarrow> bool" where
  "sums_ints multiply acc \<longleftrightarrow> \<not> su_float acc \<and> su_prod acc = multiply \<and> length (su_counts acc) = length (su_ints acc)
     \<and> su_floats acc = []"

text \<open>An element type with integer bits, whatever else it has.\<close>

interpretation int_sums: cell_accumulator "sum_push (E\<lparr>el_int_bits := (\<lambda>x. Some (bits x))\<rparr>)" su_ints
  "\<lambda>(_, x). int_step multiply (bits x)" "sums_ints multiply" for E bits multiply
  by unfold_locales (auto simp: sum_push_def sums_ints_def modify_at_Some int_step_def)

definition float_step :: "'t elem_ops \<Rightarrow> bool \<Rightarrow> bool \<Rightarrow> 't \<Rightarrow> (f64 \<times> f64) \<times> nat \<Rightarrow> (f64 \<times> f64) \<times> nat" where
  "float_step E multiply skip_nan x slot =
     (if skip_nan \<and> el_is_nan E x then slot else (sum_step multiply (el_parts E x) (fst slot), wadd (snd slot) 1))"

definition sums_floats :: "bool \<Rightarrow> bool \<Rightarrow> sum_acc \<Rightarrow> bool" where
  "sums_floats multiply skip_nan acc \<longleftrightarrow> su_float acc \<and> su_prod acc = multiply \<and> su_skip_nan acc = skip_nan
     \<and> length (su_counts acc) = length (su_floats acc) \<and> su_ints acc = []"

interpretation float_sums: cell_accumulator "sum_push E" "\<lambda>acc. zip (su_floats acc) (su_counts acc)"
  "\<lambda>(_, x). float_step E multiply skip_nan x" "sums_floats multiply skip_nan" for E multiply skip_nan
  by unfold_locales
    (auto simp: sum_push_def sums_floats_def modify_at_Some float_step_def update_zip list_update_same_conv)

interpretation variances: cell_accumulator "var_push E" "\<lambda>acc. acc" "\<lambda>(_, x). var_step (el_parts E x)" "\<lambda>_. True" for E
  by unfold_locales (simp add: var_push_def modify_at_Some)

interpretation extremes: cell_accumulator "extreme_push E" ex_best "\<lambda>(_, x). extreme_step E is_max skip_nan x"
  "\<lambda>acc. ex_max acc = is_max \<and> ex_skip_nan acc = skip_nan" for E is_max skip_nan
  by unfold_locales (auto simp: extreme_push_def modify_at_Some)

interpretation args: cell_accumulator "arg_push E" ar_best "\<lambda>(pos, x). arg_step E is_max pos x"
  "\<lambda>acc. ar_max acc = is_max" for E is_max
  by unfold_locales (auto simp: arg_push_def modify_at_Some)

interpretation logic: cell_accumulator "logic_push E" fst "\<lambda>(_, x) b. if all then b \<and> el_truthy E x else b \<or> el_truthy E x"
  "\<lambda>acc. snd acc = all" for E all
  by unfold_locales (auto simp: logic_push_def modify_at_Some)

section \<open>Every cell has an element\<close>

fun merge_coords :: "bool list \<Rightarrow> nat list \<Rightarrow> nat list" where
  "merge_coords [] ks = []"
| "merge_coords (True # rs) ks = 0 # merge_coords rs ks"
| "merge_coords (False # rs) ks = hd ks # merge_coords rs (tl ks)"

lemma merge_coords_ok:
  assumes "length rs = length lens" "0 \<notin> set lens" "in_dims (kept_of rs lens) ks"
  shows "in_dims lens (merge_coords rs ks) \<and> kept_of rs (merge_coords rs ks) = ks"
  using assms
proof (induction rs lens arbitrary: ks rule: list_induct2)
  case (Cons r rs len lens)
  show ?case
  proof (cases r)
    case True
    then show ?thesis using Cons by simp
  next
    case False
    then obtain k ks' where "ks = k # ks'" using Cons.prems(2) by (cases ks) auto
    then show ?thesis using Cons False by simp
  qed
qed simp

lemma cell_hit:
  assumes "walk_ok w reduced" "c < wa_cells w"
  shows "\<exists>n < prod_list (wa_shape w). cell_at w n = c"
proof -
  let ?ks = "kept_of reduced (wa_shape w)"
  have len: "length reduced = length (wa_shape w)" "0 \<notin> set (wa_shape w)" using assms(1) by (simp_all add: walk_ok_def)
  have c: "c < prod_list ?ks" using assms walk_okD(1) by simp
  let ?cs = "merge_coords reduced (unravel ?ks c)"
  have cs: "in_dims (wa_shape w) ?cs" "kept_of reduced ?cs = unravel ?ks c"
    using merge_coords_ok [OF len in_dims_unravel [OF c]] by simp_all
  have n: "ravel (wa_shape w) ?cs < prod_list (wa_shape w)" using cs(1) by (rule ravel_less)
  moreover have "cell_at w (ravel (wa_shape w) ?cs) = c"
    using cell_at_ravel [OF assms(1) n] cs unravel_ravel [OF cs(1)] c by (simp add: ravel_unravel)
  ultimately show ?thesis by blast
qed

text \<open>The elements of a cell, in their order.\<close>

definition group_of :: "reduce_walk \<Rightarrow> nat \<Rightarrow> 't list \<Rightarrow> (nat \<times> 't) list" where
  "group_of w c xs = map (\<lambda>n. (pos_at w n, xs ! n)) (filter (\<lambda>n. cell_at w n = c) [0..<length xs])"

lemma in_cell_visits: "in_cell c (visits w 0 xs) = group_of w c xs"
  by (simp add: in_cell_def visits_nth group_of_def filter_map comp_def)

lemma group_nonempty:
  assumes "walk_over w lay reduced" "reads_stream f16_from_f32 ds lay stream" "0 \<notin> set (lay_out_shape lay)" "c < wa_cells w"
  shows "group_of w c (elements (itemsize (lay_dtype lay)) elem stream) \<noteq> []"
proof -
  have "wa_shape w = lay_out_shape lay" using assms(1) by (simp add: walk_over_def)
  then obtain n where "n < prod_list (lay_out_shape lay)" "cell_at w n = c"
    using cell_hit [OF walk_over_ok [OF assms(1,3)] assms(4)] by auto
  then show ?thesis
    using length_stream_elements [OF assms(1,2), of elem] by (auto simp: group_of_def filter_empty_conv simp del: length_elements)
qed

section \<open>No reduction panics\<close>

text \<open>What an implementation of \<open>Elem\<close> for a type has to say of it.\<close>

definition elem_ok :: "'t elem_ops \<Rightarrow> dtype \<Rightarrow> bool" where
  "elem_ok E d \<longleftrightarrow>
     el_size E = itemsize d \<and> (\<forall>x. length (el_write E x) = itemsize d)
     \<and> (if el_float E then \<not> integral d else integral d \<and> (\<exists>bits. el_int_bits E = (\<lambda>x. Some (bits x))))"

lemma int_elem_ok: "int_format d = Some (is_signed, sz) \<Longrightarrow> elem_ok (int_elem is_signed sz) d"
  by (auto simp: elem_ok_def int_elem_def int_format_def integral_def split: if_splits)

lemma other_elems_ok:
  "elem_ok bool_elem Bool" "elem_ok (float_elem 2 (half_widen half)) Float16" "elem_ok (float_elem 4 f32_to_f64) Float32"
  "elem_ok (float_elem 8 (\<lambda>x :: u64. x)) Float64" "elem_ok (complex_elem 8 f32_to_f64) Complex64"
  "elem_ok (complex_elem 16 (\<lambda>x :: u64. x)) Complex128"
  by (auto simp: elem_ok_def bool_elem_def float_elem_def complex_elem_def integral_def)

lemma traverse_opt_all:
  "(\<And>x. x \<in> set xs \<Longrightarrow> \<exists>y. f x = Some y \<and> length y = n) \<Longrightarrow> \<exists>ys. traverse_opt f xs = Some ys \<and> length (concat ys) = length xs * n"
  by (induction xs) (fastforce)+

lemma traverse_opt_present: "\<forall>b \<in> set bs. b \<noteq> None \<Longrightarrow> \<exists>ys. traverse_opt (\<lambda>b. b) bs = Some ys"
  by (induction bs) auto

lemma write_float_ok: "\<not> integral d \<Longrightarrow> \<exists>bs. write_float half d re im = Some bs \<and> length bs = itemsize d"
  by (cases d) (simp_all add: write_float_def integral_def)

lemma length_map_to_le: "length (concat (map (to_le :: u64 \<Rightarrow> bytes) vs)) = length vs * 8"
  by (induction vs) simp_all

lemma then_finish_Ok [simp]: "then_finish (Some (Ok acc)) finish = map_option Ok (finish acc)"
  by (simp add: then_finish_def)

lemma result_dtype_floating:
  "fn \<in> {F_Mean, F_NanMean, F_Var, F_Std} \<Longrightarrow> \<not> integral (result_dtype fn d)"
  "fn \<in> {F_Sum, F_Prod, F_NanSum} \<Longrightarrow> \<not> integral d \<Longrightarrow> \<not> integral (result_dtype fn d)"
  by (cases d; auto simp: result_dtype_def integral_def)+

lemma result_dtype_integral: "fn \<in> {F_Sum, F_Prod, F_NanSum} \<Longrightarrow> integral d \<Longrightarrow> itemsize (result_dtype fn d) = 8"
  by (cases d) (auto simp: result_dtype_def integral_def)

lemma sum_new_floats:
  "el_float E \<or> fn \<in> {F_Mean, F_NanMean} \<Longrightarrow>
     sums_floats (fn = F_Prod) (fn \<in> {F_NanSum, F_NanMean}) (sum_new E cells fn)
     \<and> length (zip (su_floats (sum_new E cells fn)) (su_counts (sum_new E cells fn))) = cells"
  by (auto simp: sum_new_def sums_floats_def Let_def)

lemma sum_new_ints:
  "\<not> el_float E \<Longrightarrow> fn \<in> {F_Sum, F_Prod, F_NanSum} \<Longrightarrow>
     sums_ints (fn = F_Prod) (sum_new E cells fn) \<and> su_ints (sum_new E cells fn) = replicate cells (of_bool (fn = F_Prod))"
  by (auto simp: sum_new_def sums_ints_def Let_def)

lemma sums_of_floats:
  assumes "sums_floats multiply skip_nan acc" "length (zip (su_floats acc) (su_counts acc)) = cells" "\<not> integral out"
  shows "\<exists>data. sum_finish half out acc = Some data \<and> length data = cells * itemsize out"
    "\<exists>data. mean_finish half out acc = Some data \<and> length data = cells * itemsize out"
proof -
  have len: "length (su_floats acc) = cells" "su_ints acc = []" using assms(1,2) by (auto simp: sums_floats_def)
  obtain ys where "traverse_opt (\<lambda>(re, im). write_float half out re im) (su_floats acc) = Some ys" "length (concat ys) = cells * itemsize out"
    using traverse_opt_all [of "su_floats acc" "\<lambda>(re, im). write_float half out re im" "itemsize out"] write_float_ok [OF assms(3)] len
    by auto
  then show "\<exists>data. sum_finish half out acc = Some data \<and> length data = cells * itemsize out"
    using len by (simp add: sum_finish_def)
  let ?f = "\<lambda>((re, im), n). write_float half out (f64_div re (f64_of_int (int n))) (f64_div im (f64_of_int (int n)))"
  obtain zs where "traverse_opt ?f (zip (su_floats acc) (su_counts acc)) = Some zs" "length (concat zs) = cells * itemsize out"
    using traverse_opt_all [of "zip (su_floats acc) (su_counts acc)" ?f "itemsize out"] write_float_ok [OF assms(3)] assms(2)
    by auto
  then show "\<exists>data. mean_finish half out acc = Some data \<and> length data = cells * itemsize out"
    by (simp add: mean_finish_def)
qed

definition runs_to :: "reduce_walk \<Rightarrow> (aex_error + bytes) option \<Rightarrow> bool" where
  "runs_to w r \<longleftrightarrow> (\<exists>data. r = Some (Ok data) \<and> length data = wa_cells w * itemsize (wa_out w))"

lemma run_float_sums:
  assumes "walk_over w lay reduced" "reads_stream f16_from_f32 ds lay stream" "el_size E = itemsize (lay_dtype lay)"
    and "el_float E \<or> fn \<in> {F_Mean, F_NanMean}" "\<not> integral (wa_out w)" "fn \<in> {F_Sum, F_Prod, F_NanSum, F_Mean, F_NanMean}"
  shows "runs_to w (run_reduction half f16_from_f32 E ds lay fn w)"
proof -
  note new = sum_new_floats [OF assms(4), of "wa_cells w"]
  obtain acc where acc: "fold_walk f16_from_f32 ds lay w (el_size E) (el_read E) (sum_push E) (sum_new E (wa_cells w) fn) = Some (Ok acc)"
    "sums_floats (fn = F_Prod) (fn \<in> {F_NanSum, F_NanMean}) acc"
    and slots: "zip (su_floats acc) (su_counts acc) = map (\<lambda>c. fold (\<lambda>(_, x). float_step E (fn = F_Prod) (fn \<in> {F_NanSum, F_NanMean}) x)
      (in_cell c (visits w 0 (elements (el_size E) (el_read E) stream)))
      (zip (su_floats (sum_new E (wa_cells w) fn)) (su_counts (sum_new E (wa_cells w) fn)) ! c)) [0..<wa_cells w]"
    using float_sums.fold_walk_slots [OF new [THEN conjunct1] new [THEN conjunct2] assms(1,3,2), of "el_read E"] by blast
  have len: "length (zip (su_floats acc) (su_counts acc)) = wa_cells w" unfolding slots by simp
  show ?thesis
    using sums_of_floats [OF acc(2) len assms(5), of half] acc(1) assms(6)
    by (auto simp: runs_to_def run_reduction_def)
qed

lemma run_int_sums:
  assumes "walk_over w lay reduced" "reads_stream f16_from_f32 ds lay stream" "el_size E = itemsize (lay_dtype lay)"
    and "\<not> el_float E" "el_int_bits E = (\<lambda>x. Some (bits x))" "fn \<in> {F_Sum, F_Prod, F_NanSum}"
  shows "run_reduction half f16_from_f32 E ds lay fn w = Some (Ok (concat (map to_le (map (\<lambda>c.
      fold (\<lambda>(_, x). int_step (fn = F_Prod) (bits x)) (group_of w c (elements (el_size E) (el_read E) stream)) (of_bool (fn = F_Prod)))
      [0..<wa_cells w]))))"
proof -
  have E: "E\<lparr>el_int_bits := (\<lambda>x. Some (bits x))\<rparr> = E" using assms(5) by (cases E) simp
  note new = sum_new_ints [OF assms(4,6), of "wa_cells w"]
  obtain acc where acc: "fold_walk f16_from_f32 ds lay w (el_size E) (el_read E) (sum_push E) (sum_new E (wa_cells w) fn) = Some (Ok acc)"
    "sums_ints (fn = F_Prod) acc" "su_ints acc = map (\<lambda>c. fold (\<lambda>(_, x). int_step (fn = F_Prod) (bits x))
           (in_cell c (visits w 0 (elements (el_size E) (el_read E) stream))) (su_ints (sum_new E (wa_cells w) fn) ! c)) [0..<wa_cells w]"
    using int_sums.fold_walk_slots [OF new [THEN conjunct1] _ assms(1,3,2), where elem = "el_read E" and E = E and bits = bits] new
    unfolding E by auto
  have ints: "su_ints acc = map (\<lambda>c. fold (\<lambda>(_, x). int_step (fn = F_Prod) (bits x))
      (group_of w c (elements (el_size E) (el_read E) stream)) (of_bool (fn = F_Prod))) [0..<wa_cells w]"
    unfolding acc(3) by (rule map_cong) (simp_all add: in_cell_visits new)
  have "sum_finish half (wa_out w) acc = Some (concat (map to_le (su_ints acc)))"
    using acc(2) by (simp add: sum_finish_def sums_ints_def)
  then show ?thesis using acc(1) assms(6) unfolding ints by (auto simp: run_reduction_def)
qed

lemma run_variances:
  assumes "walk_over w lay reduced" "reads_stream f16_from_f32 ds lay stream" "el_size E = itemsize (lay_dtype lay)"
    and "\<not> integral (wa_out w)" "fn \<in> {F_Var, F_Std}"
  shows "runs_to w (run_reduction half f16_from_f32 E ds lay fn w)"
proof -
  have len: "length (var_new (wa_cells w)) = wa_cells w" by (simp add: var_new_def)
  obtain acc where acc: "fold_walk f16_from_f32 ds lay w (el_size E) (el_read E) (var_push E) (var_new (wa_cells w)) = Some (Ok acc)"
    "length acc = wa_cells w"
    using variances.fold_walk_slots [OF TrueI len assms(1,3,2), where elem = "el_read E" and E = E] by auto
  have "\<exists>data. var_finish half w take_root acc = Some data \<and> length data = wa_cells w * itemsize (wa_out w)" for take_root
  proof -
    let ?f = "\<lambda>(n, _, _, m2). let dof = f64_of_int (max 0 (i64_wrap (i64_wrap (int n) - wa_ddof w))); var = f64_div m2 dof;
      v = (if take_root then f64_sqrt var else var) in write_float half (wa_out w) v 0"
    have "\<exists>y. ?f x = Some y \<and> length y = itemsize (wa_out w)" for x
      by (cases x) (simp add: Let_def write_float_ok [OF assms(4)])
    then obtain ys where "traverse_opt ?f acc = Some ys" "length (concat ys) = length acc * itemsize (wa_out w)"
      using traverse_opt_all [of acc ?f "itemsize (wa_out w)"] by blast
    then show ?thesis using acc(2) by (simp add: var_finish_def)
  qed
  then show ?thesis using acc(1) assms(5) by (auto simp: runs_to_def run_reduction_def)
qed

text \<open>Once there, a best element stays.\<close>

lemma fold_extreme_Some: "vs \<noteq> [] \<or> slot \<noteq> None \<Longrightarrow> fold (\<lambda>(_, x). extreme_step E is_max skip_nan x) vs slot \<noteq> None"
proof (induction vs arbitrary: slot)
  case (Cons v vs)
  have "extreme_step E is_max skip_nan (snd v) slot \<noteq> None" by (auto simp: extreme_step_def Let_def split: option.split)
  then show ?case using Cons.IH by (simp add: case_prod_beta)
qed simp

lemma fold_arg_Some: "vs \<noteq> [] \<or> slot \<noteq> None \<Longrightarrow> fold (\<lambda>(pos, x). arg_step E is_max pos x) vs slot \<noteq> None"
proof (induction vs arbitrary: slot)
  case (Cons v vs)
  have "arg_step E is_max (fst v) (snd v) slot \<noteq> None" by (auto simp: arg_step_def split: option.split)
  then show ?case using Cons.IH by (simp add: case_prod_beta)
qed simp

lemma run_extremes:
  assumes "walk_over w lay reduced" "reads_stream f16_from_f32 ds lay stream" "el_size E = itemsize (lay_dtype lay)"
    and "fn \<in> {F_Max, F_Min, F_NanMax, F_NanMin}" "0 \<notin> set (lay_out_shape lay) \<or> wa_cells w = 0"
  shows "\<exists>bests. traverse_opt (\<lambda>b. b) (map (\<lambda>c. fold (\<lambda>(_, x). extreme_step E (fn \<in> {F_Max, F_NanMax}) (fn \<in> {F_NanMax, F_NanMin}) x)
      (group_of w c (elements (el_size E) (el_read E) stream)) None) [0..<wa_cells w]) = Some bests
    \<and> run_reduction half f16_from_f32 E ds lay fn w = Some (Ok (concat (map (el_write E) bests)))"
proof -
  let ?step = "\<lambda>(_, x). extreme_step E (fn \<in> {F_Max, F_NanMax}) (fn \<in> {F_NanMax, F_NanMin}) x"
  let ?slots = "map (\<lambda>c. fold ?step (group_of w c (elements (el_size E) (el_read E) stream)) None) [0..<wa_cells w]"
  have new: "ex_max (extreme_new (wa_cells w) fn) = (fn \<in> {F_Max, F_NanMax}) \<and> ex_skip_nan (extreme_new (wa_cells w) fn) = (fn \<in> {F_NanMax, F_NanMin})"
    "length (ex_best (extreme_new (wa_cells w) fn)) = wa_cells w"
    by (simp_all add: extreme_new_def)
  obtain acc where acc: "fold_walk f16_from_f32 ds lay w (el_size E) (el_read E) (extreme_push E) (extreme_new (wa_cells w) fn) = Some (Ok acc)"
    "ex_best acc = ?slots"
    using extremes.fold_walk_slots [OF new assms(1,3,2), where elem = "el_read E" and E = E] by (auto simp: in_cell_visits extreme_new_def)
  have "fold ?step (group_of w c (elements (el_size E) (el_read E) stream)) None \<noteq> None" if "c < wa_cells w" for c
  proof (rule fold_extreme_Some)
    have "0 \<notin> set (lay_out_shape lay)" using assms(5) that by auto
    then show "group_of w c (elements (el_size E) (el_read E) stream) \<noteq> [] \<or> None \<noteq> None"
      using group_nonempty [OF assms(1,2) _ that, of "el_read E"] assms(3) by simp
  qed
  then have "\<forall>b \<in> set ?slots. b \<noteq> None" by auto
  then obtain bests where "traverse_opt (\<lambda>b. b) ?slots = Some bests"
    using traverse_opt_present by blast
  then show ?thesis using acc assms(4) by (auto simp: run_reduction_def extreme_finish_def)
qed

lemma run_args:
  assumes "walk_over w lay reduced" "reads_stream f16_from_f32 ds lay stream" "el_size E = itemsize (lay_dtype lay)"
    and "fn \<in> {F_Argmax, F_Argmin}" "0 \<notin> set (lay_out_shape lay) \<or> wa_cells w = 0"
  shows "\<exists>bests. traverse_opt (\<lambda>b. b) (map (\<lambda>c. fold (\<lambda>(pos, x). arg_step E (fn = F_Argmax) pos x)
      (group_of w c (elements (el_size E) (el_read E) stream)) None) [0..<wa_cells w]) = Some bests
    \<and> run_reduction half f16_from_f32 E ds lay fn w = Some (Ok (concat (map (\<lambda>(_, pos, _). to_le (of_nat pos :: u64)) bests)))"
proof -
  let ?step = "\<lambda>(pos, x). arg_step E (fn = F_Argmax) pos x"
  let ?slots = "map (\<lambda>c. fold ?step
      (group_of w c (elements (el_size E) (el_read E) stream)) None) [0..<wa_cells w]"
  have new: "ar_max (arg_new (wa_cells w) (fn = F_Argmax)) = (fn = F_Argmax)" "length (ar_best (arg_new (wa_cells w) (fn = F_Argmax))) = wa_cells w"
    by (simp_all add: arg_new_def)
  obtain acc where acc: "fold_walk f16_from_f32 ds lay w (el_size E) (el_read E) (arg_push E) (arg_new (wa_cells w) (fn = F_Argmax)) = Some (Ok acc)"
    "ar_best acc = ?slots"
    using args.fold_walk_slots [OF new assms(1,3,2), where elem = "el_read E" and E = E] by (auto simp: in_cell_visits arg_new_def)
  have "fold ?step (group_of w c (elements (el_size E) (el_read E) stream)) None \<noteq> None" if "c < wa_cells w" for c
  proof (rule fold_arg_Some)
    have "0 \<notin> set (lay_out_shape lay)" using assms(5) that by auto
    then show "group_of w c (elements (el_size E) (el_read E) stream) \<noteq> [] \<or> None \<noteq> None"
      using group_nonempty [OF assms(1,2) _ that, of "el_read E"] assms(3) by simp
  qed
  then have "\<forall>b \<in> set ?slots. b \<noteq> None" by auto
  then obtain bests where "traverse_opt (\<lambda>b. b) ?slots = Some bests"
    using traverse_opt_present by blast
  then show ?thesis using acc assms(4) by (auto simp: run_reduction_def arg_finish_def)
qed

lemma run_logic:
  assumes "walk_over w lay reduced" "reads_stream f16_from_f32 ds lay stream" "el_size E = itemsize (lay_dtype lay)"
    and "fn \<in> {F_All, F_Any}"
  shows "run_reduction half f16_from_f32 E ds lay fn w = Some (Ok (map (\<lambda>c. of_bool
      (if fn = F_All then \<forall>(_, x) \<in> set (group_of w c (elements (el_size E) (el_read E) stream)). el_truthy E x
       else \<exists>(_, x) \<in> set (group_of w c (elements (el_size E) (el_read E) stream)). el_truthy E x)) [0..<wa_cells w]))"
proof -
  have new: "snd (logic_new (wa_cells w) (fn = F_All)) = (fn = F_All)" "length (fst (logic_new (wa_cells w) (fn = F_All))) = wa_cells w"
    by (simp_all add: logic_new_def)
  have all: "fold (\<lambda>(_, x) b. b \<and> el_truthy E x) vs b \<longleftrightarrow> b \<and> (\<forall>(_, x) \<in> set vs. el_truthy E x)" for vs :: "(nat \<times> 'a) list" and b
    by (induction vs arbitrary: b) auto
  have any: "fold (\<lambda>(_, x) b. b \<or> el_truthy E x) vs b \<longleftrightarrow> b \<or> (\<exists>(_, x) \<in> set vs. el_truthy E x)" for vs :: "(nat \<times> 'a) list" and b
    by (induction vs arbitrary: b) auto
  obtain acc where "fold_walk f16_from_f32 ds lay w (el_size E) (el_read E) (logic_push E) (logic_new (wa_cells w) (fn = F_All)) = Some (Ok acc)"
    "fst acc = map (\<lambda>c. fold (\<lambda>(_, x) b. if fn = F_All then b \<and> el_truthy E x else b \<or> el_truthy E x)
        (group_of w c (elements (el_size E) (el_read E) stream)) (fn = F_All)) [0..<wa_cells w]"
    using logic.fold_walk_slots [OF new assms(1,3,2), where elem = "el_read E" and E = E] by (auto simp: in_cell_visits logic_new_def)
  then show ?thesis using assms(4) all any by (cases acc) (auto simp: run_reduction_def comp_def)
qed

section \<open>Whole reductions\<close>

lemma mark_axes_ok:
  "mark_axes nd axes reduced = Ok rs \<Longrightarrow> length reduced = nd \<Longrightarrow>
     length rs = nd \<and> (\<forall>a \<in> set axes. - int nd \<le> a \<and> a < int nd)
     \<and> (\<forall>d < nd. rs ! d \<longleftrightarrow> reduced ! d \<or> int d \<in> (\<lambda>a. a mod int nd) ` set axes)
     \<and> distinct (map (\<lambda>a. a mod int nd) axes) \<and> (\<forall>a \<in> set axes. \<not> reduced ! nat (a mod int nd))"
proof (induction axes arbitrary: reduced)
  case (Cons a axes)
  define d where "d = (if a < 0 then a + int nd else a)"
  have step: "0 \<le> d" "d < int nd" "\<not> reduced ! nat d" "mark_axes nd axes (reduced[nat d := True]) = Ok rs"
    using Cons.prems(1) by (auto simp: Let_def d_def split: if_splits)
  have a: "a mod int nd = d" "- int nd \<le> a" "a < int nd"
  proof -
    show "- int nd \<le> a" "a < int nd" using step(1,2) by (auto simp: d_def split: if_splits)
    have "a mod int nd = d mod int nd" by (simp add: d_def)
    then show "a mod int nd = d" using step(1,2) by simp
  qed
  note IH = Cons.IH [OF step(4)] Cons.prems(2)
  have lt: "nat d < nd" using step(1,2) by simp
  have "\<forall>b \<in> set axes. \<not> reduced[nat d := True] ! nat (b mod int nd)" using IH by simp
  then have other: "\<forall>b \<in> set axes. nat (b mod int nd) \<noteq> nat d \<and> \<not> reduced ! nat (b mod int nd)"
    using lt Cons.prems(2) by (auto simp: nth_list_update split: if_splits)
  show ?case
    using IH a step(1-3) lt other by (auto simp: nth_list_update)
qed simp

text \<open>The axes an argument names, counted from the end when negative, and when numpy accepts them.\<close>

definition named_axes :: "nat \<Rightarrow> axis \<Rightarrow> int list" where
  "named_axes nd ax = (case ax of Axis_All \<Rightarrow> map int [0..<nd] | Axis_One a \<Rightarrow> [a mod int nd] | Axis_Many axes \<Rightarrow> map (\<lambda>a. a mod int nd) axes)"

definition axes_in_range :: "nat \<Rightarrow> axis \<Rightarrow> bool" where
  "axes_in_range nd ax \<longleftrightarrow>
     (\<forall>a \<in> set (case ax of Axis_All \<Rightarrow> [] | Axis_One a \<Rightarrow> [a] | Axis_Many axes \<Rightarrow> axes). - int nd \<le> a \<and> a < int nd)"

lemma mark_axes_complete:
  "length reduced = nd \<Longrightarrow> \<forall>a \<in> set axes. - int nd \<le> a \<and> a < int nd \<Longrightarrow> distinct (map (\<lambda>a. a mod int nd) axes) \<Longrightarrow>
     \<forall>a \<in> set axes. \<not> reduced ! nat (a mod int nd) \<Longrightarrow> \<exists>rs. mark_axes nd axes reduced = Ok rs"
proof (induction axes arbitrary: reduced)
  case (Cons a axes)
  define d where "d = (if a < 0 then a + int nd else a)"
  have bounds: "- int nd \<le> a" "a < int nd" using Cons.prems(2) by simp_all
  have d: "0 \<le> d" "d < int nd" using bounds by (auto simp: d_def)
  have "a mod int nd = d mod int nd" by (simp add: d_def)
  then have a: "a mod int nd = d" using d by simp
  have "\<not> reduced[nat d := True] ! nat (b mod int nd)" if b: "b \<in> set axes" for b
  proof -
    have "b mod int nd \<noteq> a mod int nd" using Cons.prems(3) b unfolding list.map distinct.simps set_map by (metis image_eqI)
    moreover have "0 \<le> b mod int nd" using d by (intro pos_mod_sign) simp
    ultimately have "nat (b mod int nd) \<noteq> nat d" using d(1) unfolding a by (simp only: eq_nat_nat_iff) simp
    then show ?thesis using Cons.prems(4) b by simp
  qed
  then obtain rs where "mark_axes nd axes (reduced[nat d := True]) = Ok rs"
    using Cons.IH [of "reduced[nat d := True]"] Cons.prems(1-3) by auto
  moreover have "\<not> reduced ! nat d" using Cons.prems(4) a by simp
  ultimately show ?case using d by (simp add: Let_def flip: d_def)
qed simp

lemma mark_axes_error: "mark_axes nd axes reduced = Err e \<Longrightarrow> e = BadFunction"
  by (induction nd axes reduced rule: mark_axes.induct) (auto simp: Let_def split: if_splits)

lemma mark_axes_exact:
  "mark_axes nd axes (replicate nd False) =
     (if (\<forall>a \<in> set axes. - int nd \<le> a \<and> a < int nd) \<and> distinct (map (\<lambda>a. a mod int nd) axes)
      then Ok (map (\<lambda>d. int d \<in> (\<lambda>a. a mod int nd) ` set axes) [0..<nd])
      else Err BadFunction)"
proof (cases "mark_axes nd axes (replicate nd False)")
  case (Inl e)
  have "nat (a mod int nd) < nd" if "- int nd \<le> a \<and> a < int nd" for a using that by (cases "nd = 0") (auto simp: nat_less_iff)
  then have "\<not> ((\<forall>a \<in> set axes. - int nd \<le> a \<and> a < int nd) \<and> distinct (map (\<lambda>a. a mod int nd) axes))"
    using mark_axes_complete [of "replicate nd False" nd axes] Inl by auto
  then show ?thesis using Inl mark_axes_error [OF Inl] by (simp del: mark_axes.simps)
next
  case (Inr rs)
  note ok = mark_axes_ok [OF Inr, simplified]
  have "rs = map (\<lambda>d. int d \<in> (\<lambda>a. a mod int nd) ` set axes) [0..<nd]" by (rule nth_equalityI) (use ok in auto)
  then show ?thesis using Inr ok by (simp del: mark_axes.simps)
qed

definition reducible :: "(bytes \<Rightarrow> bytes) \<Rightarrow> dataset \<Rightarrow> layout \<Rightarrow> bytes \<Rightarrow> bool" where
  "reducible f16_from_f32 ds lay stream \<longleftrightarrow>
     reads_stream f16_from_f32 ds lay stream
     \<and> lay_total_bytes lay = prod_list (lay_out_shape lay) * itemsize (lay_dtype lay)
     \<and> prod_list (filter ((\<noteq>) 0) (lay_out_shape lay)) < U64"

lemma reduced_axes_length: "reduced_axes nd ax fn = Ok reduced \<Longrightarrow> length reduced = nd"
  using mark_axes_ok [of nd _ "replicate nd False" reduced] by (auto simp: reduced_axes_def simp del: mark_axes.simps split: axis.splits if_splits)

lemma walk_of_simps [simp]:
  "wa_shape (walk_of lay fn args reduced) = lay_out_shape lay" "wa_out (walk_of lay fn args reduced) = result_dtype fn (lay_dtype lay)"
  "(wa_stride (walk_of lay fn args reduced), wa_cells (walk_of lay fn args reduced)) = cell_strides (lay_out_shape lay) reduced"
  by (simp_all add: walk_of_def split: prod.split)

lemma walk_of_over:
  assumes "reducible f16_from_f32 ds lay stream" "reduced_axes (length (lay_out_shape lay)) ax fn = Ok reduced"
  shows "walk_over (walk_of lay fn args reduced) lay reduced"
    "wa_cells (walk_of lay fn args reduced) = prod_list (kept_of reduced (lay_out_shape lay))"
proof -
  show "walk_over (walk_of lay fn args reduced) lay reduced"
    using assms reduced_axes_length by (simp add: walk_over_def reducible_def)
  have "wa_cells (walk_of lay fn args reduced) = snd (cell_strides (lay_out_shape lay) reduced)"
    by (metis snd_conv walk_of_simps(3))
  then show "wa_cells (walk_of lay fn args reduced) = prod_list (kept_of reduced (lay_out_shape lay))"
    using cells_kept reduced_axes_length [OF assms(2)] assms(1) by (simp add: reducible_def)
qed

text \<open>A reduction over an empty axis that has cells to fill has no elements per cell.\<close>

lemma foldl_wmul_zero: "0 \<in> set ns \<Longrightarrow> foldl wmul k ns = 0"
proof (induction ns arbitrary: k)
  case (Cons n ns)
  have mul: "wmul k 0 = 0" "wmul 0 k = 0" for k by (simp_all add: wmul_def)
  have "foldl wmul 0 ms = 0" for ms by (induction ms) (simp_all add: mul)
  then show ?case using Cons by (auto simp: mul)
qed simp

lemma foldl_wmul_exact: "k * prod_list ns < U64 \<Longrightarrow> 0 \<notin> set ns \<Longrightarrow> foldl wmul k ns = k * prod_list ns"
proof (induction ns arbitrary: k)
  case (Cons n ns)
  have "0 < prod_list ns" using Cons.prems(2) by (intro prod_list_pos) simp
  then have "k * n \<le> k * n * prod_list ns" by simp
  also have "\<dots> < U64" using Cons.prems(1) by (simp add: mult.assoc)
  finally have "wmul k n = k * n" by (simp add: wmul_eq)
  then show ?case using Cons by (simp add: mult.assoc)
qed simp

lemma per_cell_pos:
  assumes "length reduced = length shape" "0 \<notin> set shape" "prod_list shape < U64"
  shows "0 < per_cell shape reduced"
proof -
  have eq: "map fst (filter snd (zip shape reduced)) = kept_of (map Not reduced) shape"
    using assms(1) by (induction rule: list_induct2) simp_all
  have pos: "0 \<notin> set (kept_of (map Not reduced) shape)" using assms(2) by (auto simp: kept_of_def dest: set_zip_leftD)
  have "1 * prod_list (kept_of (map Not reduced) shape) < U64"
    using prod_kept_le [of "map Not reduced" shape] assms by simp
  then show ?thesis using foldl_wmul_exact [of 1] pos prod_list_pos [OF pos] by (simp add: per_cell_def eq)
qed

lemma empty_cells:
  assumes "0 \<in> set shape" "length reduced = length shape" "per_cell shape reduced \<noteq> 0"
  shows "prod_list (kept_of reduced shape) = 0"
proof -
  obtain d where d: "d < length shape" "shape ! d = 0" using assms(1) by (auto simp: in_set_conv_nth)
  have mem: "(0, reduced ! d) \<in> set (zip shape reduced)" using d assms(2) by (auto simp: set_zip intro!: exI [of _ d])
  have "\<not> reduced ! d"
  proof
    assume "reduced ! d"
    then have "0 \<in> set (map fst (filter snd (zip shape reduced)))" using mem by force
    then show False using assms(3) by (simp only: per_cell_def foldl_wmul_zero)
  qed
  then have "0 \<in> set (kept_of reduced shape)" using mem by (force simp: kept_of_def)
  then show ?thesis by (simp only: prod_list_zero_iff)
qed

lemma run_reduction_total:
  assumes over: "walk_over w lay reduced" and stream: "reads_stream f16_from_f32 ds lay stream"
    and E: "elem_ok E (lay_dtype lay)" and out: "wa_out w = result_dtype fn (lay_dtype lay)"
    and full: "needs_an_element fn \<Longrightarrow> 0 \<notin> set (lay_out_shape lay) \<or> wa_cells w = 0"
  shows "runs_to w (run_reduction half f16_from_f32 E ds lay fn w)"
proof -
  have sz: "el_size E = itemsize (lay_dtype lay)" using E by (simp add: elem_ok_def)
  consider "fn \<in> {F_Sum, F_Prod, F_NanSum}" "el_float E" | "fn \<in> {F_Sum, F_Prod, F_NanSum}" "\<not> el_float E"
    | "fn \<in> {F_Mean, F_NanMean}" | "fn \<in> {F_Var, F_Std}" | "fn \<in> {F_Max, F_Min, F_NanMax, F_NanMin}"
    | "fn \<in> {F_Argmax, F_Argmin}" | "fn \<in> {F_All, F_Any}"
    by (cases fn) auto
  then show ?thesis
  proof cases
    case 1
    then show ?thesis
      using run_float_sums [OF over stream sz, of fn half] result_dtype_floating(2) [OF 1(1)] E out by (auto simp: elem_ok_def)
  next
    case 2
    then obtain bits where bits: "el_int_bits E = (\<lambda>x. Some (bits x))" "integral (lay_dtype lay)" using E by (auto simp: elem_ok_def)
    show ?thesis
      using run_int_sums [OF over stream sz 2(2) bits(1) 2(1), of half] result_dtype_integral [OF 2(1) bits(2)] out
      by (simp only: runs_to_def length_map_to_le) (simp add: length_map_to_le del: length_concat map_map)
  next
    case 3
    then show ?thesis using run_float_sums [OF over stream sz, of fn half] result_dtype_floating(1) [of fn] out by auto
  next
    case 4
    then show ?thesis using run_variances [OF over stream sz _ 4, of half] result_dtype_floating(1) [of fn] out by auto
  next
    case 5
    then have "0 \<notin> set (lay_out_shape lay) \<or> wa_cells w = 0" using full by (auto simp: needs_an_element_def)
    from run_extremes [OF over stream sz 5 this, of half] obtain bests where
      b: "traverse_opt (\<lambda>b. b) (map (\<lambda>c. fold (\<lambda>(_, x). extreme_step E (fn \<in> {F_Max, F_NanMax}) (fn \<in> {F_NanMax, F_NanMin}) x)
        (group_of w c (elements (el_size E) (el_read E) stream)) None) [0..<wa_cells w]) = Some bests"
      "run_reduction half f16_from_f32 E ds lay fn w = Some (Ok (concat (map (el_write E) bests)))" by blast
    have "length bests = wa_cells w" using list_all2_lengthD [OF b(1) [unfolded traverse_opt_Some]] by simp
    moreover have "length (concat (map (el_write E) bests)) = length bests * itemsize (lay_dtype lay)"
      using E by (intro length_concat_const) (simp add: elem_ok_def)
    ultimately show ?thesis using b(2) out 5 by (auto simp: runs_to_def result_dtype_def)
  next
    case 6
    then have "0 \<notin> set (lay_out_shape lay) \<or> wa_cells w = 0" using full by (auto simp: needs_an_element_def)
    from run_args [OF over stream sz 6 this, of half] obtain bests where
      b: "traverse_opt (\<lambda>b. b) (map (\<lambda>c. fold (\<lambda>(pos, x). arg_step E (fn = F_Argmax) pos x)
        (group_of w c (elements (el_size E) (el_read E) stream)) None) [0..<wa_cells w]) = Some bests"
      "run_reduction half f16_from_f32 E ds lay fn w = Some (Ok (concat (map (\<lambda>(_, pos, _). to_le (of_nat pos :: u64)) bests)))" by blast
    have "length bests = wa_cells w" using list_all2_lengthD [OF b(1) [unfolded traverse_opt_Some]] by simp
    moreover have "length (concat (map (\<lambda>(_, pos, _). to_le (of_nat pos :: u64)) bests)) = length bests * 8"
      by (intro length_concat_const) auto
    ultimately show ?thesis using b(2) out 6 by (auto simp: runs_to_def result_dtype_def)
  next
    case 7
    then show ?thesis using run_logic [OF over stream sz 7, of half] out by (auto simp: runs_to_def result_dtype_def)
  qed
qed

lemma run_by_dtype_total:
  assumes "walk_over w lay reduced" "reads_stream f16_from_f32 ds lay stream" "wa_out w = result_dtype fn (lay_dtype lay)"
    and "needs_an_element fn \<Longrightarrow> 0 \<notin> set (lay_out_shape lay) \<or> wa_cells w = 0"
  shows "runs_to w (run_by_dtype half f16_from_f32 ds lay fn w)"
proof -
  note total = run_reduction_total [OF assms(1,2) _ assms(3,4)]
  show ?thesis
  proof (cases "int_format (lay_dtype lay)")
    case (Some f)
    then show ?thesis using total [OF int_elem_ok] by (cases f) (simp add: run_by_dtype_def)
  next
    case None
    then show ?thesis
      by (cases "lay_dtype lay") (simp_all add: run_by_dtype_def int_format_def total other_elems_ok)
  qed
qed

lemma prod_kept_shape: "prod_list (kept_shape keepdims shape reduced) = prod_list (kept_of reduced shape)"
  by (induction keepdims shape reduced rule: kept_shape.induct) (simp_all add: kept_of_def)

text \<open>
  A reduction of a selection that can be read returns: with an error when its arguments, the size of its
  result or an empty selection call for one, otherwise with a result of the size its shape says.
\<close>

lemma reduce_returns:
  assumes red: "reducible f16_from_f32 ds lay stream" and limit: "max_bytes < U64 - 1"
  shows "case reduce half f16_from_f32 ds lay fn args max_bytes of
      None \<Rightarrow> False
    | Some (Err e) \<Rightarrow> e = BadFunction
        \<and> (case reduced_axes (length (lay_out_shape lay)) (ra_axis args) fn of
             Err e \<Rightarrow> True
           | Ok reduced \<Rightarrow> prod_list (kept_of reduced (lay_out_shape lay)) * itemsize (result_dtype fn (lay_dtype lay)) > max_bytes
               \<or> needs_an_element fn \<and> 0 \<in> set (lay_out_shape lay))
    | Some (Ok r) \<Rightarrow> rd_dtype r = result_dtype fn (lay_dtype lay)
        \<and> length (rd_data r) = prod_list (rd_shape r) * itemsize (rd_dtype r) \<and> length (rd_data r) \<le> max_bytes"
proof (cases "reduced_axes (length (lay_out_shape lay)) (ra_axis args) fn")
  case (Inl e)
  have "e = BadFunction" using Inl mark_axes_error by (auto simp: reduced_axes_def simp del: mark_axes.simps split: axis.splits if_splits)
  then show ?thesis using Inl by (simp add: reduce_def)
next
  case (Inr reduced)
  let ?w = "walk_of lay fn args reduced" and ?size = "itemsize (result_dtype fn (lay_dtype lay))"
  note over = walk_of_over [OF red Inr, of args]
  have stream: "reads_stream f16_from_f32 ds lay stream" using red by (simp add: reducible_def)
  have big: "sat_mul (wa_cells ?w) ?size > max_bytes \<longleftrightarrow> wa_cells ?w * ?size > max_bytes"
    using limit by (auto simp: sat_mul_def)
  have empty: "per_cell (lay_out_shape lay) reduced = 0 \<Longrightarrow> wa_cells ?w > 0 \<Longrightarrow> 0 \<in> set (lay_out_shape lay)"
  proof (rule ccontr)
    assume none: "0 \<notin> set (lay_out_shape lay)" and "per_cell (lay_out_shape lay) reduced = 0"
    then have "prod_list (lay_out_shape lay) < U64" using over(1) walk_over_ok by (fastforce simp: walk_ok_def)
    then show False using per_cell_pos [OF reduced_axes_length [OF Inr] none] \<open>per_cell (lay_out_shape lay) reduced = 0\<close> by simp
  qed
  show ?thesis
  proof (cases "sat_mul (wa_cells ?w) ?size > max_bytes
      \<or> per_cell (lay_out_shape lay) reduced = 0 \<and> wa_cells ?w > 0 \<and> needs_an_element fn")
    case True
    then show ?thesis using Inr big empty over(2) by (auto simp: reduce_def Let_def)
  next
    case False
    have "0 \<notin> set (lay_out_shape lay) \<or> wa_cells ?w = 0" if "needs_an_element fn"
      using False that empty_cells reduced_axes_length [OF Inr] over(2) by auto
    then have "runs_to ?w (run_by_dtype half f16_from_f32 ds lay fn ?w)"
      by (intro run_by_dtype_total [OF over(1) stream]) simp_all
    then obtain data where "run_by_dtype half f16_from_f32 ds lay fn ?w = Some (Ok data)" "length data = wa_cells ?w * ?size"
      by (auto simp: runs_to_def)
    then show ?thesis using Inr big False over(2) by (auto simp: reduce_def Let_def prod_kept_shape)
  qed
qed

section \<open>What integers reduce to\<close>

lemma int_read_write:
  assumes "length bs = sz"
  shows "int_read is_signed sz (le_nat sz (nat (int_read is_signed sz bs mod 2 ^ (8 * sz)))) = int_read is_signed sz bs"
proof -
  have less: "nat_le bs < 2 ^ (8 * sz)" using nat_le_less [of bs] assms by (simp add: byte_power)
  then have "int (nat_le bs) < 2 ^ (8 * sz)" by (metis of_nat_less_iff of_nat_numeral of_nat_power)
  then have "int_read is_signed sz bs mod 2 ^ (8 * sz) = int (nat_le bs)" by (simp add: int_read_def Let_def)
  moreover have "le_nat sz (nat_le bs) = bs" using assms by (metis le_nat_nat_le)
  ultimately show ?thesis by simp
qed

lemma fold_int_step:
  "fold (\<lambda>(_, x). int_step False (of_int x)) vs a = a + of_int (sum_list (map snd vs))"
  "fold (\<lambda>(_, x). int_step True (of_int x)) vs a = a * of_int (prod_list (map snd vs))"
  by (induction vs arbitrary: a) (auto simp: int_step_def ac_simps)

lemma fold_int_max:
  "fold (\<lambda>(_, x). extreme_step (int_elem sg sz) True skip x) vs (Some a) = Some (foldl max a (map snd vs))"
  by (induction vs arbitrary: a) (auto simp: extreme_step_def int_elem_def max_def Let_def)

lemma fold_int_min:
  "fold (\<lambda>(_, x). extreme_step (int_elem sg sz) False skip x) vs (Some a) = Some (foldl min a (map snd vs))"
  by (induction vs arbitrary: a) (auto simp: extreme_step_def int_elem_def min_def Let_def)

text \<open>\<open>argmax\<close>: the first position of the largest element.\<close>

lemma fold_int_argmax:
  "fold (\<lambda>(pos, x). arg_step (int_elem sg sz) True pos x) vs (Some (a, p, False)) =
     (let m = foldl max a (map snd vs) in Some (m, fst (the (find (\<lambda>v. snd v = m) ((p, a) # vs))), False))"
proof (induction vs arbitrary: a p)
  case (Cons v vs)
  have ge: "b \<le> foldl max b xs" for b :: int and xs by (induction xs arbitrary: b) (auto intro: order_trans [OF max.cobounded1])
  obtain q x where v: "v = (q, x)" by fastforce
  have step: "arg_step (int_elem sg sz) True q x (Some (a, p, False)) = (if x > a then Some (x, q, False) else Some (a, p, False))"
    by (simp add: arg_step_def int_elem_def)
  show ?case
  proof (cases "x > a")
    case True
    then have "a \<noteq> foldl max x (map snd vs)" "max a x = x" using ge [of x "map snd vs"] by linarith+
    then show ?thesis using True Cons.IH [of x q] by (simp add: v step Let_def)
  next
    case False
    then have "x = foldl max a (map snd vs) \<Longrightarrow> a = foldl max a (map snd vs)" "max a x = a"
      using ge [of a "map snd vs"] by linarith+
    then show ?thesis using False Cons.IH [of a p] by (auto simp add: v step Let_def)
  qed
qed simp

lemma foldl_max_Max: "foldl max a xs = Max (set (a # xs))" for a :: int
proof -
  have "(\<lambda>x s. max s x) = (max :: int \<Rightarrow> int \<Rightarrow> int)" by (intro ext max.commute)
  then show ?thesis by (simp only: Max.set_eq_fold foldl_conv_fold)
qed

lemma foldl_min_Min: "foldl min a xs = Min (set (a # xs))" for a :: int
proof -
  have "(\<lambda>x s. min s x) = (min :: int \<Rightarrow> int \<Rightarrow> int)" by (intro ext min.commute)
  then show ?thesis by (simp only: Min.set_eq_fold foldl_conv_fold)
qed

text \<open>The values of one cell: the elements whose kept coordinates have its number, in C order.\<close>

definition cell_of :: "nat list \<Rightarrow> bool list \<Rightarrow> nat \<Rightarrow> nat" where
  "cell_of shape reduced n = ravel (kept_of reduced shape) (kept_of reduced (unravel shape n))"

definition cell_values :: "nat list \<Rightarrow> bool list \<Rightarrow> nat \<Rightarrow> 't list \<Rightarrow> 't list" where
  "cell_values shape reduced c xs = map ((!) xs) (filter (\<lambda>n. cell_of shape reduced n = c) [0..<length xs])"

lemma group_values:
  assumes "walk_over w lay reduced" "length xs = prod_list (lay_out_shape lay)"
  shows "map snd (group_of w c xs) = cell_values (lay_out_shape lay) reduced c xs"
proof (cases "0 \<in> set (lay_out_shape lay)")
  case True
  then have "xs = []" using assms(2) by (metis length_0_conv prod_list_zero_iff)
  then show ?thesis by (simp add: group_of_def cell_values_def)
next
  case False
  have "cell_at w n = cell_of (lay_out_shape lay) reduced n" if "n < length xs" for n
    using cell_at_ravel [OF walk_over_ok [OF assms(1) False], of n] that assms by (simp add: cell_of_def walk_over_def)
  then have "filter (\<lambda>n. cell_at w n = c) [0..<length xs] = filter (\<lambda>n. cell_of (lay_out_shape lay) reduced n = c) [0..<length xs]"
    by (intro filter_cong) auto
  then show ?thesis by (simp add: group_of_def cell_values_def comp_def)
qed

text \<open>One item of a result.\<close>

definition nth_item :: "reduced \<Rightarrow> nat \<Rightarrow> bytes" where
  "nth_item r c = slice (rd_data r) (c * itemsize (rd_dtype r)) (itemsize (rd_dtype r))"

lemma slice_item: "(\<And>x. x \<in> set xs \<Longrightarrow> length (f x) = n) \<Longrightarrow> c < length xs \<Longrightarrow> slice (concat (map f xs)) (c * n) n = f (xs ! c)"
  using slice_concat_const [of xs f n c 1] by (simp add: slice_eq_map_nth)

lemma reduce_Ok:
  assumes "reduce half f16_from_f32 ds lay fn args max_bytes = Some (Ok r)"
    and "reduced_axes (length (lay_out_shape lay)) (ra_axis args) fn = Ok reduced"
  shows "rd_dtype r = result_dtype fn (lay_dtype lay)"
    "run_by_dtype half f16_from_f32 ds lay fn (walk_of lay fn args reduced) = Some (Ok (rd_data r))"
    "needs_an_element fn \<Longrightarrow> per_cell (lay_out_shape lay) reduced \<noteq> 0 \<or> wa_cells (walk_of lay fn args reduced) = 0"
  using assms by (auto simp: reduce_def Let_def res_map_Ok split: if_splits)

lemma int_reduction_runs:
  assumes red: "reducible f16_from_f32 ds lay stream" and fmt: "int_format (lay_dtype lay) = Some (sg, sz)"
    and ok: "reduce half f16_from_f32 ds lay fn args max_bytes = Some (Ok r)"
    and ax: "reduced_axes (length (lay_out_shape lay)) (ra_axis args) fn = Ok reduced"
  shows "walk_over (walk_of lay fn args reduced) lay reduced" "reads_stream f16_from_f32 ds lay stream"
    "el_size (int_elem sg sz) = itemsize (lay_dtype lay)"
    "length (elements sz (int_read sg sz) stream) = prod_list (lay_out_shape lay)"
    "run_reduction half f16_from_f32 (int_elem sg sz) ds lay fn (walk_of lay fn args reduced) = Some (Ok (rd_data r))"
    "needs_an_element fn \<Longrightarrow> 0 \<notin> set (lay_out_shape lay) \<or> wa_cells (walk_of lay fn args reduced) = 0"
proof -
  show over: "walk_over (walk_of lay fn args reduced) lay reduced" by (rule walk_of_over [OF red ax])
  show stream: "reads_stream f16_from_f32 ds lay stream" using red by (simp add: reducible_def)
  show sz: "el_size (int_elem sg sz) = itemsize (lay_dtype lay)" using int_elem_ok [OF fmt] by (simp add: elem_ok_def)
  then show "length (elements sz (int_read sg sz) stream) = prod_list (lay_out_shape lay)"
    using length_stream_elements [OF over stream] by (simp add: int_elem_def)
  show "run_reduction half f16_from_f32 (int_elem sg sz) ds lay fn (walk_of lay fn args reduced) = Some (Ok (rd_data r))"
    using reduce_Ok(2) [OF ok ax] fmt by (simp add: run_by_dtype_def)
  show "needs_an_element fn \<Longrightarrow> 0 \<notin> set (lay_out_shape lay) \<or> wa_cells (walk_of lay fn args reduced) = 0"
    using reduce_Ok(3) [OF ok ax] empty_cells reduced_axes_length [OF ax] walk_of_over(2) [OF red ax, of args] by auto
qed

lemma int_elem_simps [simp]:
  "el_size (int_elem sg sz) = sz" "el_read (int_elem sg sz) = int_read sg sz" "\<not> el_float (int_elem sg sz)"
  "el_int_bits (int_elem sg sz) = (\<lambda>i. Some (of_int i))" "el_truthy (int_elem sg sz) = (\<lambda>i. i \<noteq> 0)"
  "el_write (int_elem sg sz) = (\<lambda>i. le_nat sz (nat (i mod 2 ^ (8 * sz))))"
  by (simp_all add: int_elem_def)

text \<open>Sums and products are those of the integers, modulo \<open>2 ^ 64\<close>.\<close>

lemma int_sums_values:
  assumes red: "reducible f16_from_f32 ds lay stream" and fmt: "int_format (lay_dtype lay) = Some (sg, sz)"
    and ok: "reduce half f16_from_f32 ds lay fn args max_bytes = Some (Ok r)"
    and ax: "reduced_axes (length (lay_out_shape lay)) (ra_axis args) fn = Ok reduced"
    and c: "c < prod_list (kept_of reduced (lay_out_shape lay))" and fn: "fn \<in> {F_Sum, F_Prod}"
    and vs: "vs = cell_values (lay_out_shape lay) reduced c (elements sz (int_read sg sz) stream)"
  shows "nth_item r c = to_le (of_int (if fn = F_Sum then sum_list vs else prod_list vs) :: u64)"
proof -
  let ?w = "walk_of lay fn args reduced" and ?xs = "elements sz (int_read sg sz) stream"
  note runs = int_reduction_runs [OF red fmt ok ax]
  have cells: "c < wa_cells ?w" using c walk_of_over(2) [OF red ax, of args] by simp
  let ?f = "\<lambda>c. fold (\<lambda>(_, x). int_step (fn = F_Prod) (of_int x)) (group_of ?w c ?xs) (of_bool (fn = F_Prod)) :: u64"
  have "rd_data r = concat (map to_le (map ?f [0..<wa_cells ?w]))"
    using run_int_sums [OF runs(1-3) int_elem_simps(3,4), of fn half] runs(5) fn by auto
  moreover have "itemsize (rd_dtype r) = 8"
    using reduce_Ok(1) [OF ok ax] result_dtype_integral [of fn "lay_dtype lay"] int_elem_ok [OF fmt] fn
    by (auto simp: elem_ok_def)
  ultimately have "nth_item r c = to_le (?f c)"
    using slice_item [of "map ?f [0..<wa_cells ?w]" "to_le :: u64 \<Rightarrow> bytes" 8 c] cells by (simp add: nth_item_def)
  moreover have "map snd (group_of ?w c ?xs) = vs" using group_values [OF runs(1,4)] vs by simp
  ultimately show ?thesis using fn fold_int_step [of "group_of ?w c ?xs"] by auto
qed

lemma traverse_present_nth: "traverse_opt (\<lambda>b. b) bs = Some ys \<Longrightarrow> length ys = length bs \<and> (\<forall>c < length bs. bs ! c = Some (ys ! c))"
  by (auto simp: traverse_opt_Some list_all2_conv_all_nth)

lemma int_extremes_values:
  assumes red: "reducible f16_from_f32 ds lay stream" and fmt: "int_format (lay_dtype lay) = Some (sg, sz)"
    and ok: "reduce half f16_from_f32 ds lay fn args max_bytes = Some (Ok r)"
    and ax: "reduced_axes (length (lay_out_shape lay)) (ra_axis args) fn = Ok reduced"
    and c: "c < prod_list (kept_of reduced (lay_out_shape lay))" and fn: "fn \<in> {F_Max, F_Min}"
    and vs: "vs = cell_values (lay_out_shape lay) reduced c (elements sz (int_read sg sz) stream)"
  shows "vs \<noteq> [] \<and> int_read sg sz (nth_item r c) = (if fn = F_Max then Max (set vs) else Min (set vs))"
proof -
  let ?w = "walk_of lay fn args reduced" and ?xs = "elements sz (int_read sg sz) stream"
  note runs = int_reduction_runs [OF red fmt ok ax]
  have cells: "c < wa_cells ?w" using c walk_of_over(2) [OF red ax, of args] by simp
  have full: "0 \<notin> set (lay_out_shape lay) \<or> wa_cells ?w = 0" using runs(6) fn by (auto simp: needs_an_element_def)
  have fns: "fn \<in> {F_Max, F_Min, F_NanMax, F_NanMin}" using fn by auto
  obtain bests where
    b: "traverse_opt (\<lambda>b. b) (map (\<lambda>c. fold (\<lambda>(_, x). extreme_step (int_elem sg sz) (fn \<in> {F_Max, F_NanMax}) (fn \<in> {F_NanMax, F_NanMin}) x)
        (group_of ?w c ?xs) None) [0..<wa_cells ?w]) = Some bests"
      "rd_data r = concat (map (\<lambda>i. le_nat sz (nat (i mod 2 ^ (8 * sz)))) bests)"
    using run_extremes [OF runs(1-3) fns full, of half] runs(5) by auto
  have "group_of ?w c ?xs \<noteq> []"
    using group_nonempty [OF runs(1,2) _ cells, of "int_read sg sz"] full cells runs(3) by auto
  then obtain p a rest where g: "group_of ?w c ?xs = (p, a) # rest" by (cases "group_of ?w c ?xs") auto
  have map_vs: "vs = a # map snd rest" using group_values [OF runs(1,4), of c] vs g by simp
  have first: "extreme_step (int_elem sg sz) m k a None = Some a" for m k by (simp add: extreme_step_def)
  have best: "bests ! c = (if fn = F_Max then Max (set vs) else Min (set vs))"
    using traverse_present_nth [OF b(1)] cells g fn fold_int_max [of sg sz False rest a] fold_int_min [of sg sz False rest a]
    by (auto simp: first map_vs foldl_max_Max foldl_min_Min)
  have "itemsize (rd_dtype r) = sz"
    using reduce_Ok(1) [OF ok ax] runs(3) fn by (auto simp: result_dtype_def)
  moreover have "length bests = wa_cells ?w" using traverse_present_nth [OF b(1)] by simp
  ultimately have item: "nth_item r c = le_nat sz (nat (bests ! c mod 2 ^ (8 * sz)))"
    using slice_item [of bests "\<lambda>i. le_nat sz (nat (i mod 2 ^ (8 * sz)))" sz c] cells b(2) by (simp add: nth_item_def)
  have "bests ! c \<in> set vs" using best Max_in [of "set vs"] Min_in [of "set vs"] map_vs by auto
  then obtain n where n: "n < length ?xs" "bests ! c = ?xs ! n" using vs by (auto simp: cell_values_def)
  have "Suc n * sz \<le> length stream"
    using n(1) by (metis Suc_leI div_times_less_eq_dividend le_trans length_elements mult_le_mono1)
  then have "length (slice stream (n * sz) sz) = sz" by simp
  moreover have "?xs ! n = int_read sg sz (slice stream (n * sz) sz)" using n(1) by (simp add: elements_def chunks_exact_def)
  ultimately show ?thesis using item n(2) best map_vs int_read_write by simp
qed

lemma slice_one: "c < m \<Longrightarrow> slice (map g [0..<m]) c 1 = [g c]"
  by (simp add: slice_eq_map_nth)

lemma int_logic_values:
  assumes red: "reducible f16_from_f32 ds lay stream" and fmt: "int_format (lay_dtype lay) = Some (sg, sz)"
    and ok: "reduce half f16_from_f32 ds lay fn args max_bytes = Some (Ok r)"
    and ax: "reduced_axes (length (lay_out_shape lay)) (ra_axis args) fn = Ok reduced"
    and c: "c < prod_list (kept_of reduced (lay_out_shape lay))" and fn: "fn \<in> {F_All, F_Any}"
    and vs: "vs = cell_values (lay_out_shape lay) reduced c (elements sz (int_read sg sz) stream)"
  shows "nth_item r c = [of_bool (if fn = F_All then \<forall>x \<in> set vs. x \<noteq> 0 else \<exists>x \<in> set vs. x \<noteq> 0)]"
proof -
  let ?w = "walk_of lay fn args reduced" and ?xs = "elements sz (int_read sg sz) stream"
  note runs = int_reduction_runs [OF red fmt ok ax]
  have cells: "c < wa_cells ?w" using c walk_of_over(2) [OF red ax, of args] by simp
  have set_vs: "set vs = snd ` set (group_of ?w c ?xs)" using group_values [OF runs(1,4), of c] vs by (metis set_map)
  let ?g = "\<lambda>c. of_bool (if fn = F_All then \<forall>(_, x) \<in> set (group_of ?w c ?xs). x \<noteq> 0 else \<exists>(_, x) \<in> set (group_of ?w c ?xs). x \<noteq> 0) :: u8"
  have "rd_data r = map ?g [0..<wa_cells ?w]"
    using run_logic [OF runs(1-3) fn, of half] runs(5) by (auto simp del: int_elem_def)
  moreover have "itemsize (rd_dtype r) = 1" using reduce_Ok(1) [OF ok ax] fn by (auto simp: result_dtype_def)
  ultimately have "nth_item r c = [?g c]" using slice_one [OF cells, of ?g] by (simp only: nth_item_def mult_1_right)
  then show ?thesis unfolding set_vs by (auto simp: case_prod_beta)
qed

lemma find_map_filter: "find Q (map f (filter P xs)) = map_option f (find (\<lambda>n. P n \<and> Q (f n)) xs)"
  by (induction xs) auto

lemma find_upt: "find P [0..<k] = Some n \<longleftrightarrow> n < k \<and> P n \<and> (\<forall>j < n. \<not> P j)"
  by (auto simp: find_Some_iff)

text \<open>What \<open>argmax\<close> reports of an element: its place along the axis, or in the whole selection.\<close>

definition arg_position :: "reduce_args \<Rightarrow> nat list \<Rightarrow> nat \<Rightarrow> nat" where
  "arg_position args shape n =
     (case ra_axis args of Axis_One a \<Rightarrow> unravel shape n ! nat (a mod int (length shape)) | _ \<Rightarrow> n)"

lemma pos_at_arg:
  assumes "reduced_axes (length (lay_out_shape lay)) (ra_axis args) fn = Ok reduced"
  shows "pos_at (walk_of lay fn args reduced) n = arg_position args (lay_out_shape lay) n"
proof (cases "ra_axis args")
  case (Axis_One a)
  let ?nd = "length (lay_out_shape lay)"
  have m: "mark_axes ?nd [a] (replicate ?nd False) = Ok reduced"
    using assms Axis_One by (simp add: reduced_axes_def del: mark_axes.simps)
  note ok = mark_axes_ok [OF m, simplified]
  have nd: "0 < ?nd" using ok by (cases "lay_out_shape lay") auto
  have d: "nat (a mod int ?nd) < ?nd" "\<And>d. d < ?nd \<Longrightarrow> reduced ! d \<longleftrightarrow> d = nat (a mod int ?nd)"
    using ok nd by (auto simp: nat_less_iff)
  have "find ((!) reduced) [0..<length reduced] = Some (nat (a mod int ?nd))"
    unfolding find_upt using d ok by auto
  then show ?thesis using Axis_One by (simp add: pos_at_def walk_of_def arg_position_def split: prod.split)
qed (simp_all add: pos_at_def walk_of_def arg_position_def split: prod.split)

lemma int_argmax_values:
  assumes red: "reducible f16_from_f32 ds lay stream" and fmt: "int_format (lay_dtype lay) = Some (sg, sz)"
    and ok: "reduce half f16_from_f32 ds lay F_Argmax args max_bytes = Some (Ok r)"
    and ax: "reduced_axes (length (lay_out_shape lay)) (ra_axis args) F_Argmax = Ok reduced"
    and c: "c < prod_list (kept_of reduced (lay_out_shape lay))"
    and xs: "xs = elements sz (int_read sg sz) stream" and vs: "vs = cell_values (lay_out_shape lay) reduced c xs"
  shows "\<exists>n < length xs. nth_item r c = to_le (of_nat (arg_position args (lay_out_shape lay) n) :: u64)
    \<and> cell_of (lay_out_shape lay) reduced n = c \<and> xs ! n = Max (set vs)
    \<and> (\<forall>j < n. cell_of (lay_out_shape lay) reduced j = c \<longrightarrow> xs ! j \<noteq> Max (set vs))"
proof -
  let ?w = "walk_of lay F_Argmax args reduced"
  note runs = int_reduction_runs [OF red fmt ok ax, folded xs]
  have cells: "c < wa_cells ?w" using c walk_of_over(2) [OF red ax, of args] by simp
  have full: "0 \<notin> set (lay_out_shape lay) \<or> wa_cells ?w = 0" using runs(6) by (auto simp: needs_an_element_def)
  have fn: "F_Argmax \<in> {F_Argmax, F_Argmin}" by simp
  obtain bests where
    b: "traverse_opt (\<lambda>b. b) (map (\<lambda>c. fold (\<lambda>(pos, x). arg_step (int_elem sg sz) True pos x) (group_of ?w c xs) None) [0..<wa_cells ?w]) = Some bests"
      "rd_data r = concat (map (\<lambda>(_, pos, _). to_le (of_nat pos :: u64)) bests)"
    using run_args [OF runs(1-3) fn full, of half] runs(5) xs by auto
  have "group_of ?w c xs \<noteq> []"
    using group_nonempty [OF runs(1,2) _ cells, of "int_read sg sz"] full cells runs(3) xs by auto
  then obtain p a rest where g: "group_of ?w c xs = (p, a) # rest" by (cases "group_of ?w c xs") auto
  let ?m = "Max (set vs)"
  have map_vs: "vs = a # map snd rest" using group_values [OF runs(1,4), of c] vs g by simp
  have first: "arg_step (int_elem sg sz) True p a None = Some (a, p, False)" by (simp add: arg_step_def int_elem_def)
  have "Some (bests ! c) = fold (\<lambda>(pos, x). arg_step (int_elem sg sz) True pos x) (group_of ?w c xs) None"
    using traverse_present_nth [OF b(1)] cells by simp
  also have "\<dots> = fold (\<lambda>(pos, x). arg_step (int_elem sg sz) True pos x) rest (Some (a, p, False))"
    by (simp only: g fold_Cons comp_apply prod.case first)
  also have "\<dots> = Some (?m, fst (the (find (\<lambda>v. snd v = ?m) (group_of ?w c xs))), False)"
    unfolding fold_int_argmax Let_def foldl_max_Max g map_vs by (rule refl)
  finally have best: "bests ! c = (?m, fst (the (find (\<lambda>v. snd v = ?m) (group_of ?w c xs))), False)"
    by (rule option.inject [THEN iffD1])
  have item: "nth_item r c = to_le (of_nat (fst (the (find (\<lambda>v. snd v = ?m) (group_of ?w c xs)))) :: u64)"
    using slice_item [of bests "\<lambda>(_, pos, _). to_le (of_nat pos :: u64)" 8 c] traverse_present_nth [OF b(1)] cells b(2) best
      reduce_Ok(1) [OF ok ax] by (auto simp: nth_item_def result_dtype_def)
  have cell: "cell_at ?w n = cell_of (lay_out_shape lay) reduced n" if "n < length xs" for n
    using cell_at_ravel [OF walk_over_ok [OF runs(1)], of n] that full cells runs(4) by (simp add: cell_of_def)
  have "?m \<in> set vs" using Max_in [of "set vs"] map_vs by simp
  then have "?m \<in> snd ` set (group_of ?w c xs)" using group_values [OF runs(1,4), of c] vs by (metis set_map)
  then have "find (\<lambda>v. snd v = ?m) (group_of ?w c xs) \<noteq> None" unfolding find_None_iff by (metis imageE)
  then obtain n where n: "find (\<lambda>n. cell_at ?w n = c \<and> xs ! n = ?m) [0..<length xs] = Some n"
    "find (\<lambda>v. snd v = ?m) (group_of ?w c xs) = Some (pos_at ?w n, xs ! n)"
    by (auto simp: group_of_def find_map_filter)
  then have first_best: "n < length xs" "cell_at ?w n = c" "xs ! n = ?m" "\<And>j. j < n \<Longrightarrow> \<not> (cell_at ?w j = c \<and> xs ! j = ?m)"
    by (simp_all only: find_upt) blast
  have "nth_item r c = to_le (of_nat (arg_position args (lay_out_shape lay) n) :: u64)"
    using item pos_at_arg [OF ax] by (simp add: n(2))
  moreover have "cell_of (lay_out_shape lay) reduced n = c" using cell [OF first_best(1)] first_best(2) by simp
  moreover have "xs ! j \<noteq> ?m" if "j < n" "cell_of (lay_out_shape lay) reduced j = c" for j
    using first_best(4) [OF that(1)] cell [of j] that first_best(1) by simp
  ultimately show ?thesis using first_best(1,3) by blast
qed

text \<open>The walk, with an index by division instead of one that is carried along.\<close>

lemma fold_walk_by_division:
  assumes red: "reducible f16_from_f32 ds lay stream" and ax: "reduced_axes (length (lay_out_shape lay)) (ra_axis args) fn = Ok reduced"
  shows "fold_walk f16_from_f32 ds lay (walk_of lay fn args reduced) (itemsize (lay_dtype lay)) elem push acc
    = map_option Ok (push_all push
        (map (\<lambda>n. (cell_of (lay_out_shape lay) reduced n, arg_position args (lay_out_shape lay) n,
                    elem (slice stream (n * itemsize (lay_dtype lay)) (itemsize (lay_dtype lay)))))
           [0..<prod_list (lay_out_shape lay)]) acc)"
proof -
  let ?w = "walk_of lay fn args reduced" and ?sz = "itemsize (lay_dtype lay)"
  note over = walk_of_over(1) [OF red ax, of args]
  have stream: "reads_stream f16_from_f32 ds lay stream" using red by (simp add: reducible_def)
  have len: "length (elements ?sz elem stream) = prod_list (lay_out_shape lay)" by (rule length_stream_elements [OF over stream])
  have "(cell_at ?w n, pos_at ?w n, elements ?sz elem stream ! n)
      = (cell_of (lay_out_shape lay) reduced n, arg_position args (lay_out_shape lay) n, elem (slice stream (n * ?sz) ?sz))"
    if n: "n < prod_list (lay_out_shape lay)" for n
  proof -
    have "0 \<notin> set (lay_out_shape lay)" using n prod_list_zero_iff [of "lay_out_shape lay"] by (metis not_less_zero)
    then have "cell_at ?w n = cell_of (lay_out_shape lay) reduced n"
      using cell_at_ravel [OF walk_over_ok [OF over], of n] n by (simp add: cell_of_def)
    then show ?thesis using pos_at_arg [OF ax] n len by (simp add: elements_def chunks_exact_def)
  qed
  then have "visits ?w 0 (elements ?sz elem stream) = map (\<lambda>n. (cell_of (lay_out_shape lay) reduced n,
      arg_position args (lay_out_shape lay) n, elem (slice stream (n * ?sz) ?sz))) [0..<prod_list (lay_out_shape lay)]"
    unfolding visits_nth len by (intro map_cong refl) simp
  then show ?thesis using fold_walk_all [OF over refl stream, of elem push acc] by simp
qed

lemma reduce_shape:
  "reduce half f16_from_f32 ds lay fn args max_bytes = Some (Ok r) \<Longrightarrow>
     \<exists>reduced. reduced_axes (length (lay_out_shape lay)) (ra_axis args) fn = Ok reduced
       \<and> rd_shape r = kept_shape (ra_keepdims args) (lay_out_shape lay) reduced"
  by (auto simp: reduce_def Let_def res_map_Ok split: sum.splits if_splits)

section \<open>A small selection\<close>

text \<open>Two rows of three bytes, read whole.\<close>

definition sample_bytes :: dataset where
  "sample_bytes = \<lparr>ds_dtype = Uint8, ds_shape = [2, 3], ds_read = (\<lambda>at n. Ok (slice [1, 2, 3, 4, 5, 250] at n)),
     ds_decoded_chunk_bytes = None, ds_prepare = Ok ()\<rparr>"

definition sample_grid :: layout where
  "sample_grid = \<lparr>lay_out_shape = [2, 3], lay_dtype = Uint8, lay_src_dtype = Uint8, lay_total_bytes = 6, lay_quality = exact,
     lay_kind = Contiguous 0 6\<rparr>"

definition sample_half :: half_lib where "sample_half = \<lparr>half_widen = (\<lambda>_. 0), half_narrow = (\<lambda>_. 0)\<rparr>"

lemma sample_reducible: "reducible (\<lambda>b. b) sample_bytes sample_grid [1, 2, 3, 4, 5, 250]"
  by (auto simp: reducible_def reads_stream_def read_range_def read_with_def check_range_def cadd_def read_source_def wadd_def
      U64_def sample_bytes_def sample_grid_def)

lemma sample_axes: "reduced_axes 2 (Axis_One 0) fn = Ok [True, False]" "reduced_axes (Suc (Suc 0)) (Axis_One 0) fn = Ok [True, False]"
  by (simp_all add: reduced_axes_def numeral_2_eq_2)

lemma sample_reduces:
  assumes "itemsize (result_dtype fn Uint8) \<le> 16"
  shows "\<exists>r. reduce half (\<lambda>b. b) sample_bytes sample_grid fn (reduce_args_default\<lparr>ra_axis := Axis_One 0\<rparr>) 100 = Some (Ok r)"
  using reduce_returns [OF sample_reducible, where max_bytes = 100 and half = half and fn = fn
      and args = "reduce_args_default\<lparr>ra_axis := Axis_One 0\<rparr>"] sample_axes [of fn] assms
  by (auto simp: U64_def sample_grid_def reduce_args_default_def kept_of_def split: option.splits sum.splits)

end
