(* ===== verification/Control_Plans.thy ===== *)
theory Control_Plans
  imports Control_Correct Layout_Read Reduce_Correct "HOL-Library.Multiset"
begin

text \<open>
  What a client gets out of a call: a plan that its own checks accept and that leads to the bytes of the selection,
  replies that stay within their limits, nothing without a live session, and no file outside the roots.
\<close>

section \<open>A plan in the client's hands\<close>

lemma nbytes_min: "nbytes dims d = min (itemsize d * prod_list dims) (U64 - 1)"
proof -
  have "foldl sat_mul (min a (U64 - 1)) ns = min (a * prod_list ns) (U64 - 1)" for a ns
  proof (induction ns arbitrary: a)
    case (Cons n ns)
    have "sat_mul (min a (U64 - 1)) n = min (a * n) (U64 - 1)"
    proof (cases n)
      case (Suc m)
      have "min a M * Suc m \<ge> min a M" "a * Suc m \<ge> a" for M by simp_all
      then show ?thesis unfolding sat_mul_def Suc by (cases "a \<le> U64 - 1") (simp_all add: min_def)
    qed (simp add: sat_mul_def)
    then show ?case using Cons [of "a * n"] by (simp add: mult.assoc)
  qed simp
  moreover have "itemsize d = min (itemsize d) (U64 - 1)" using itemsize_le [of d] by (simp add: U64_def)
  ultimately show ?thesis unfolding nbytes_def by metis
qed

lemma shape_to_proto_Ok: "shape_to_proto shape = Ok dims \<Longrightarrow> dims = map int shape \<and> (\<forall>n \<in> set shape. int n \<le> I64_MAX)"
  by (induction shape arbitrary: dims) (auto simp: shape_to_proto_def split: if_splits sum.splits)

lemma shape_to_proto_fits: "\<forall>n \<in> set shape. int n \<le> I64_MAX \<Longrightarrow> shape_to_proto shape = Ok (map int shape)"
  by (induction shape) (simp_all add: shape_to_proto_def)

lemma shape_from_to_proto: "shape_from_proto (map int shape) = Ok shape"
  by (induction shape) (simp_all add: shape_from_proto_def)

text \<open>The plan a reply is for the client.\<close>

definition client_plan :: "layout \<Rightarrow> codec \<Rightarrow> quality_spec \<Rightarrow> quality_spec \<Rightarrow> nat \<Rightarrow> bytes \<Rightarrow> bytes \<Rightarrow> plan" where
  "client_plan lay codec quality requested request_id ticket data =
     \<lparr>pl_request_id = request_id, pl_ticket = ticket, pl_dtype = lay_dtype lay, pl_shape = lay_out_shape lay,
      pl_total_bytes = lay_total_bytes lay, pl_applied_quality = quality\<lparr>q_codec := Some codec\<rparr>,
      pl_requested_quality = requested, pl_inline_data = data\<rparr>"

definition layout_sized :: "layout \<Rightarrow> bool" where
  "layout_sized lay \<longleftrightarrow> lay_total_bytes lay = prod_list (lay_out_shape lay) * itemsize (lay_dtype lay)
     \<and> lay_total_bytes lay < U64 \<and> (\<forall>n \<in> set (lay_out_shape lay). int n \<le> I64_MAX)"

lemma plan_reply_accepted:
  assumes "layout_sized lay" "request_id = 0 \<Longrightarrow> length data = lay_total_bytes lay" "request_id \<noteq> 0 \<Longrightarrow> length ticket = 16"
  shows "\<exists>pp. plan_reply lay codec quality request_id ticket data = Ok pp \<and> pp_inline_data pp = data \<and> pp_total_bytes pp = lay_total_bytes lay
    \<and> plan_from_proto requested pp
      = Ok (client_plan lay codec quality requested request_id (if request_id = 0 then replicate 16 0 else ticket) data)"
proof -
  have total: "nbytes (lay_out_shape lay) (lay_dtype lay) = lay_total_bytes lay"
    using assms(1) by (auto simp: layout_sized_def nbytes_min mult.commute min_def)
  have quality: "quality_from_proto (Some (quality_to_proto q)) = q\<lparr>q_codec := None\<rparr>" for q
    by (cases "q_cast_dtype q")
      (auto simp: quality_to_proto_def quality_from_proto_def simp del: encoding_as_i32.simps split: encoding.splits)
  have dims: "shape_to_proto (lay_out_shape lay) = Ok (map int (lay_out_shape lay))"
    using assms(1) by (intro shape_to_proto_fits) (simp add: layout_sized_def)
  show ?thesis
    using assms(2,3) total
    by (auto simp: plan_reply_def dims plan_from_proto_def shape_from_to_proto quality client_plan_def plan_check_def is_inline_def
        Let_def simp del: as_i32.simps codec_as_u32.simps)
qed

section \<open>What a prepared selection leads to\<close>

lemma core_Ok: "core r s = (Some (Ok x), s') \<longleftrightarrow> r = Ok x \<and> s' = s"
  by (cases r) (auto simp: core_def act_of_def)

lemma act_of_Ok: "act_of r s = (Some (Ok x), s') \<longleftrightarrow> r = Ok x \<and> s' = s"
  by (auto simp: act_of_def)

lemma dataset_named_Ok: "dataset_named file name s = (Some (Ok ds), s') \<longleftrightarrow> fl_get_item file name = Ok (Dataset ds) \<and> s' = s"
  by (cases "fl_get_item file name")
    (auto simp: dataset_named_def core_def act_of_simps act_throw_def act_return_def split: item.split)

lemma ctl_session_ticks: "ctl_session env sid s = (r, s') \<Longrightarrow> ct_ticks s' = ct_ticks s + 1"
  by (auto simp: ctl_session_def act_bind_def ctl_now_def split: prod.splits)

lemma prepare_layout_Ok:
  assumes "server_ok env n s" "prepare_layout env sid req s = (Some (Ok (session, ds, quality, lay)), s1)"
  shows "ss_id session = sid" "server_ok env n s1" "ct_transfers s1 = ct_transfers s" "ct_draws s1 = ct_draws s"
    "ct_ticks s1 = ct_ticks s + 1"
proof -
  obtain s2 where ses: "ctl_session env sid s = (Some (Ok session), s2)"
    and s1: "s1 = snd (check_decode_cache env ds (ss_granted_streams session) s2)"
    using assms(2)
    by (auto simp: prepare_layout_def act_bind_Ok core_Ok act_of_Ok dataset_named_Ok act_return_def check_decode_cache_def
        Let_def)
  note found = ctl_session_Ok [OF assms(1) ses]
  show "ss_id session = sid" by (rule found(2))
  show "server_ok env n s1" using act_keepsD [OF prepare_layout_keeps assms] .
  show "ct_transfers s1 = ct_transfers s" "ct_draws s1 = ct_draws s" "ct_ticks s1 = ct_ticks s + 1"
    using s1 found(5,6) ctl_session_ticks [OF ses] by (auto simp: check_decode_cache_def split: option.splits if_splits)
qed

lemma constant_time_refl: "constant_time_eq t t"
  by (simp add: constant_time_eq_iff)

lemma fetch_found:
  assumes "map_of (tr_entries tr) i = Some e" "now_ms - te_last_used_ms e \<le> ttl_ms c"
  shows "\<exists>tr'. fetch c i (te_ticket e) (te_session e) now_ms tr = (Ok (entry_touch now_ms e), tr')"
  using assms by (simp add: fetch_def entry_expired_def constant_time_refl Let_def)

lemma prepare_delivers:
  assumes ok: "server_ok env n s" "env_ok env" "ct_draws s + 2 < U32"
    and lay: "prepare_layout env sid req s = (Some (Ok (session, ds, quality, lay)), s1)" "layout_sized lay"
    and stream: "reads_stream (ce_f16_from_f32 env) ds lay stream" and ticket: "ce_random env (ct_draws s) = Ok ticket"
  shows "\<exists>pp p s2 b2. prepare env sid req (s, b) = (Some (Ok pp), (s2, b2)) \<and> plan_from_proto requested pp = Ok p
    \<and> pl_shape p = lay_out_shape lay \<and> pl_dtype p = lay_dtype lay \<and> pl_total_bytes p = length stream
    \<and> (if is_inline p then pl_inline_data p = stream \<and> length stream \<le> inline_limit_bytes (cfg_transfer (ce_config env)) \<and> b2 + length stream = b
       else b2 = b \<and> (\<forall>now_ms. now_ms - ce_clock env (ct_ticks s + 1) \<le> ttl_ms (ce_config env) \<longrightarrow>
          (\<exists>e tr. fetch (ce_config env) (pl_request_id p) (pl_ticket p) sid now_ms (ct_transfers s2) = (Ok e, tr)
             \<and> te_dataset e = ds \<and> te_layout e = lay)))"
proof -
  note s1 = prepare_layout_Ok [OF ok(1) lay(1)]
  let ?codec = "codec_of (ce_build env) quality"
  have len: "length stream = lay_total_bytes lay" using stream by (simp add: reads_stream_def)
  show ?thesis
  proof (cases "lay_total_bytes lay \<le> inline_limit_bytes (cfg_transfer (ce_config env)) \<and> lay_total_bytes lay \<le> b")
    case True
    obtain pp where pp: "plan_reply lay ?codec quality 0 [] stream = Ok pp"
      "plan_from_proto requested pp = Ok (client_plan lay ?codec quality requested 0 (replicate 16 0) stream)"
      using plan_reply_accepted [OF lay(2), of 0 stream "[]" ?codec quality requested] len by auto
    have "read_range (ce_f16_from_f32 env) ds lay 0 (replicate (lay_total_bytes lay) 0) = Some (Ok stream)"
      using stream len by (simp add: reads_stream_def slice_def)
    then have "prepare env sid req (s, b) = (Some (Ok pp), (s1, b - lay_total_bytes lay))"
      using True lay(1) pp(1) by (simp add: prepare_def act_bind_def unbudgeted_def spend_def core_read_def act_of_def Let_def)
    then show ?thesis using pp(2) True len by (simp add: client_plan_def is_inline_def)
  next
    case False
    let ?now = "ce_clock env (ct_ticks s + 1)" and ?tr = "ct_transfers s"
    obtain res tr where ins: "insert_at_time (ce_config env) sid ds lay ?now (Ok ticket) ?tr = (res, tr)" by fastforce
    have tr: "transfers_ok ?tr" "tr_next_id ?tr \<le> ct_draws s + 1" using ok(1,3) by (simp_all add: server_ok_def)
    have room: "tr_next_id ?tr + 1 < U32" "0 < max_transfers_per_session (cfg_limits (ce_config env))" "0 < tr_next_id ?tr"
      using tr ok(2,3) by (auto simp: transfers_ok_def env_ok_def config_ok_def)
    obtain e where e: "res = Ok e" "te_request_id e = tr_next_id ?tr" "te_session e = sid" "te_ticket e = ticket"
      "te_dataset e = ds" "te_layout e = lay" "map_of (tr_entries tr) (tr_next_id ?tr) = Some e"
      using insert_at_time_ok(2) [OF tr(1) room(1,2) ins] by blast
    have used: "te_last_used_ms e = ?now"
      using ins e(1) by (auto simp: insert_at_time_def Let_def split: prod.splits)
    have "length ticket = 16" using ok(2) ticket by (auto simp: env_ok_def)
    then obtain pp where pp: "plan_reply lay ?codec quality (te_request_id e) ticket [] = Ok pp"
      "plan_from_proto requested pp = Ok (client_plan lay ?codec quality requested (te_request_id e) ticket [])"
      using plan_reply_accepted [OF lay(2), of "te_request_id e" "[]" ticket ?codec quality requested] room(3) e(2) by auto
    define s2 where "s2 = s1\<lparr>ct_ticks := ct_ticks s1 + 1, ct_transfers := tr, ct_draws := ct_draws s1 + 1\<rparr>"
    have "ctl_insert_transfer env (ss_id session) ds lay s1 = (Some (Ok e), s2)"
      using ins e(1) s1 ticket by (simp add: ctl_insert_transfer_def act_bind_def ctl_now_def s2_def)
    then have "prepare env sid req (s, b) = (Some (Ok pp), (s2, b))"
      using False lay(1) pp(1) e(4,6) by (auto simp: prepare_def act_bind_def unbudgeted_def act_of_def Let_def)
    moreover have "\<exists>e' tr'. fetch (ce_config env) (te_request_id e) ticket sid now_ms (ct_transfers s2) = (Ok e', tr')
        \<and> te_dataset e' = ds \<and> te_layout e' = lay" if "now_ms - ?now \<le> ttl_ms (ce_config env)" for now_ms
      using fetch_found [of tr "te_request_id e" e now_ms "ce_config env"] e used that by (auto simp: s2_def)
    ultimately show ?thesis using pp(2) len room(3) e(2) by (simp add: client_plan_def is_inline_def)
  qed
qed

section \<open>The inline budget\<close>

definition inline_bytes :: "error_class + proto_plan \<Rightarrow> nat" where
  "inline_bytes r = (case r of Ok pp \<Rightarrow> if pp_inline_data pp \<noteq> [] then pp_total_bytes pp else 0 | Err _ \<Rightarrow> 0)"

lemma plan_reply_fields:
  "plan_reply lay codec quality request_id ticket data = Ok pp \<Longrightarrow> pp_inline_data pp = data \<and> pp_total_bytes pp = lay_total_bytes lay"
  by (auto simp: plan_reply_def res_map_Ok)

lemma prepare_spends:
  assumes "prepare env sid req (s, b) = (Some r, (s2, b2))"
  shows "inline_bytes (map_err server_class r) + b2 \<le> b
    \<and> inline_bytes (map_err server_class r) \<le> inline_limit_bytes (cfg_transfer (ce_config env))"
  using assms
  by (auto simp: prepare_def act_bind_def unbudgeted_def spend_def core_read_def act_of_def inline_bytes_def Let_def
      dest!: plan_reply_fields split: prod.splits option.splits sum.splits if_splits)

lemma prepare_each_spends:
  "prepare_each env sid reqs (s, b) = (Some (Ok rs), (s2, b2)) \<Longrightarrow>
     length rs = length reqs \<and> sum_list (map inline_bytes rs) + b2 \<le> b
     \<and> (\<forall>r \<in> set rs. inline_bytes r \<le> inline_limit_bytes (cfg_transfer (ce_config env)))"
proof (induction reqs arbitrary: rs s b)
  case (Cons req reqs)
  obtain x s1 b1 where p: "prepare env sid req (s, b) = (x, (s1, b1))" by (metis prod.collapse)
  then obtain r where r: "x = Some r" using Cons.prems by (cases x) auto
  obtain rs' where rs': "prepare_each env sid reqs (s1, b1) = (Some (Ok rs'), (s2, b2))" "rs = map_err server_class r # rs'"
    using Cons.prems p r by (auto simp: act_bind_Ok act_return_def)
  show ?case using Cons.IH [OF rs'(1)] prepare_spends [OF p [unfolded r]] rs'(2) by auto
qed (simp add: act_return_def)

section \<open>No session, no service\<close>

definition no_session :: "ctl_env \<Rightarrow> bytes \<Rightarrow> ctl_state \<Rightarrow> bool" where
  "no_session env sid s \<longleftrightarrow>
     length sid \<noteq> 16
     \<or> (case map_of (ct_sessions s) sid of
          None \<Rightarrow> True
        | Some old \<Rightarrow> session_expired (ce_clock env (ct_ticks s)) (idle_timeout_ms (ce_config env)) old)"

definition refused :: "bytes \<Rightarrow> 'a rpc \<Rightarrow> ctl_state \<Rightarrow> bool" where
  "refused sid call s \<longleftrightarrow>
     (case call s of (r, s') \<Rightarrow>
        r = Some (Err Code_Unauthenticated) \<and> ct_transfers s' = ct_transfers s
        \<and> (\<forall>other. other \<noteq> sid \<longrightarrow> map_of (ct_sessions s') other = map_of (ct_sessions s) other))"

lemma no_session_get:
  assumes "no_session env sid s"
  shows "\<exists>reg. get_at (ce_config env) sid (ce_clock env (ct_ticks s)) (ct_sessions s) = (Err SrvAuth, reg)
    \<and> (\<forall>other. other \<noteq> sid \<longrightarrow> map_of reg other = map_of (ct_sessions s) other)"
  using assms by (auto simp: no_session_def get_at_def split: option.splits)

lemma ctl_session_refused:
  assumes "no_session env sid s"
  shows "\<exists>s'. ctl_session env sid s = (Some (Err SrvAuth), s') \<and> ct_transfers s' = ct_transfers s
    \<and> (\<forall>other. other \<noteq> sid \<longrightarrow> map_of (ct_sessions s') other = map_of (ct_sessions s) other)"
  using no_session_get [OF assms] by (auto simp: ctl_session_def act_bind_def ctl_now_def)

text \<open>Every call that starts with the session.\<close>

lemma refused_first:
  assumes "no_session env sid s" "call = rpc_of (act_bind (ctl_session env sid) f)"
  shows "refused sid call s"
  using ctl_session_refused [OF assms(1)] by (auto simp: refused_def assms(2) rpc_of_def act_bind_def [of "ctl_session _ _"])

lemma refused_calls:
  assumes "no_session env sid s"
  shows "refused sid (close_file env sid handle) s" "refused sid (get_item env sid handle name) s"
    "refused sid (list_children env sid handle name) s" "refused sid (prepare_selection env sid req) s"
    "refused sid (prepare_selections env sid reqs) s" "refused sid (disconnect env sid) s"
    "oq_session_id file_req = sid \<Longrightarrow> refused sid (open_file env file_req) s"
    "aq_session_id apply_req = sid \<Longrightarrow> refused sid (apply_function env apply_req) s"
proof -
  obtain s' where ses: "ctl_session env sid s = (Some (Err SrvAuth), s')" "ct_transfers s' = ct_transfers s"
    "\<And>other. other \<noteq> sid \<Longrightarrow> map_of (ct_sessions s') other = map_of (ct_sessions s) other"
    using ctl_session_refused [OF assms] by auto
  note simps = refused_def rpc_of_def act_bind_def [of "ctl_session _ _"] ses(1)
  show "refused sid (close_file env sid handle) s" "refused sid (get_item env sid handle name) s"
    "refused sid (list_children env sid handle name) s" "refused sid (prepare_selections env sid reqs) s"
    using assms
    by (rule refused_first, simp add: close_file_def get_item_def list_children_def prepare_selections_def file_of_def act_bind_assoc)+
  show "refused sid (prepare_selection env sid req) s"
    using ses by (auto simp: simps prepare_selection_def prepare_def prepare_layout_def unbudgeted_def act_bind_def [of "unbudgeted _"])
  show "oq_session_id file_req = sid \<Longrightarrow> refused sid (open_file env file_req) s"
    using assms by (intro refused_first) (simp_all add: open_file_def open_in_session_def)
  show "aq_session_id apply_req = sid \<Longrightarrow> refused sid (apply_function env apply_req) s"
    using ses by (auto simp: simps apply_function_def apply_asked_def act_bind_def [of "rpc_of _"])
  show "refused sid (disconnect env sid) s"
    using no_session_get [OF assms] by (auto simp: refused_def rpc_of_def disconnect_def act_bind_def ctl_now_def remove_at_def)
qed

section \<open>Files inside the roots only\<close>

definition agree_inside :: "ctl_env \<Rightarrow> ctl_env \<Rightarrow> bool" where
  "agree_inside env env' \<longleftrightarrow>
     (\<exists>npy zarr hdf5. env' = env\<lparr>ce_open_npy := npy, ce_open_zarr := zarr, ce_open_hdf5 := hdf5\<rparr>
        \<and> (\<forall>p root. root \<in> set (ce_roots env) \<longrightarrow> path_starts_with p root \<longrightarrow>
             npy p = ce_open_npy env p \<and> zarr p = ce_open_zarr env p
             \<and> map_option (\<lambda>f. f p) hdf5 = map_option (\<lambda>f. f p) (ce_open_hdf5 env)))"

lemma open_file_for_agrees:
  assumes "agree_inside env env'" "ce_roots env \<noteq> []"
  shows "open_file_for env' req = open_file_for env req"
proof -
  obtain npy zarr hdf5 where env': "env' = env\<lparr>ce_open_npy := npy, ce_open_zarr := zarr, ce_open_hdf5 := hdf5\<rparr>"
    and same: "\<And>p root. root \<in> set (ce_roots env) \<Longrightarrow> path_starts_with p root \<Longrightarrow>
             npy p = ce_open_npy env p \<and> zarr p = ce_open_zarr env p
             \<and> map_option (\<lambda>f. f p) hdf5 = map_option (\<lambda>f. f p) (ce_open_hdf5 env)"
    using assms(1) by (auto simp: agree_inside_def)
  let ?store = "resolve_store (ce_canonicalize env) (ce_is_dir env) (ce_roots env) (oq_path req)"
    and ?file = "path_resolve (ce_canonicalize env) (ce_is_file env) (ce_roots env) (oq_path req)"
  have inside: "\<exists>root \<in> set (ce_roots env). path_starts_with p root" if "?store = Ok p \<or> ?file = Ok p" for p
    using that locate_inside assms(2) by (auto simp: resolve_store_def path_resolve_def res_bind_Ok split: if_splits)
  have hdf5: "open_hdf5 env' p = open_hdf5 env p" if "?file = Ok p" for p
  proof -
    have "map_option (\<lambda>f. f p) hdf5 = map_option (\<lambda>f. f p) (ce_open_hdf5 env)" using inside [of p] that same by blast
    then show ?thesis by (cases hdf5; cases "ce_open_hdf5 env") (simp_all add: open_hdf5_def env')
  qed
  have eqs: "npy p = ce_open_npy env p" "zarr p = ce_open_zarr env p" if "?store = Ok p \<or> ?file = Ok p" for p
    using inside [OF that] same by blast+
  have "act_bind (act_of ?store) (\<lambda>root. core (zarr root)) = act_bind (act_of ?store) (\<lambda>root. core (ce_open_zarr env root))"
    using eqs(2) by (cases ?store) (simp_all add: act_of_simps)
  moreover have "act_bind (act_of ?file) (\<lambda>p. act_bind (asked p) (\<lambda>format.
          if format = NPY_FORMAT then core (npy p) else if format \<in> set HDF5_FORMATS then open_hdf5 env' p else act_throw SrvBadRequest))
      = act_bind (act_of ?file) (\<lambda>p. act_bind (asked p) (\<lambda>format.
          if format = NPY_FORMAT then core (ce_open_npy env p) else if format \<in> set HDF5_FORMATS then open_hdf5 env p
          else act_throw SrvBadRequest))" for asked :: "path \<Rightarrow> string ctl"
    using eqs(1) hdf5 by (cases ?file) (simp_all add: act_of_simps cong: if_cong)
  moreover have "ce_canonicalize env' = ce_canonicalize env" "ce_is_dir env' = ce_is_dir env" "ce_is_file env' = ce_is_file env"
    "ce_roots env' = ce_roots env" "ce_open_zarr env' = zarr" "ce_open_npy env' = npy"
    by (simp_all add: env')
  ultimately show ?thesis by (simp only: open_file_for_def Let_def)
qed

lemma open_file_agrees:
  assumes "agree_inside env env'" "ce_roots env \<noteq> []"
  shows "open_file env' req = open_file env req"
proof -
  have "ctl_session env' = ctl_session env" "ce_config env' = ce_config env"
    using assms(1) by (auto simp: agree_inside_def fun_eq_iff ctl_session_def ctl_now_def act_bind_def)
  then show ?thesis by (simp add: open_file_def open_in_session_def open_file_for_agrees [OF assms] cong: if_cong)
qed

section \<open>Keyword arguments\<close>

definition take_arg :: "string \<times> argument_value option \<Rightarrow> server_error + reduce_args \<Rightarrow> server_error + reduce_args" where
  "take_arg kwarg r = res_bind r (\<lambda>args. reduce_arg args kwarg)"

lemma take_arg_simps: "take_arg kwarg (Ok args) = reduce_arg args kwarg" "take_arg kwarg (Err e) = Err e"
  by (simp_all add: take_arg_def)

lemma reduce_args_fold: "reduce_args_from args kwargs = fold take_arg kwargs (Ok args)"
proof (induction kwargs arbitrary: args)
  case (Cons kwarg kwargs)
  have "fold take_arg kwargs (Err e) = Err e" for e by (induction kwargs) (simp_all add: take_arg_simps)
  then show ?case using Cons by (cases "reduce_arg args kwarg") (simp_all add: take_arg_simps)
qed simp

lemma reduce_arg_Err: "reduce_arg args kwarg = Err e \<Longrightarrow> e = SrvBadRequest"
  by (auto simp: reduce_arg_def split: prod.splits option.splits argument_value.splits if_splits)

lemma take_arg_commute: "fst x \<noteq> fst y \<Longrightarrow> take_arg x (take_arg y r) = take_arg y (take_arg x r)"
  by (cases x; cases y; cases r)
    (auto simp: take_arg_def reduce_arg_def split: option.split argument_value.split)

lemma reduce_args_order:
  assumes "distinct (map fst kwargs)" "mset kwargs' = mset kwargs"
  shows "reduce_args_of kwargs' = reduce_args_of kwargs"
proof -
  have "take_arg x \<circ> take_arg y = take_arg y \<circ> take_arg x" if "x \<in> set kwargs'" "y \<in> set kwargs'" for x y
  proof (cases "x = y")
    case False
    moreover have "set kwargs' = set kwargs" using assms(2) by (rule mset_eq_setD)
    ultimately have "fst x \<noteq> fst y" using assms(1) that by (auto simp: distinct_map dest: inj_onD)
    then show ?thesis by (simp add: fun_eq_iff take_arg_commute)
  qed simp
  then have "fold take_arg kwargs' = fold take_arg kwargs" using assms(2) by (rule fold_multiset_equiv)
  then show ?thesis by (simp add: reduce_args_of_def reduce_args_fold)
qed

section \<open>Calls as the client sees them\<close>

lemma prepare_selections_spend:
  assumes "prepare_selections env sid reqs s = (Some (Ok rs), s')"
  shows "length rs = length reqs \<and> sum_list (map inline_bytes rs) \<le> grpc_max_message_bytes (cfg_limits (ce_config env)) div 2
    \<and> (\<forall>r \<in> set rs. inline_bytes r \<le> inline_limit_bytes (cfg_transfer (ce_config env)))"
proof -
  have rpc: "rpc_of m s = (Some (Ok x), s') \<longleftrightarrow> m s = (Some (Ok x), s')" for m :: "'a ctl" and x s'
    by (cases "m s") (auto simp: rpc_of_def map_err_Ok)
  obtain s1 where "(case prepare_each env sid reqs (s1, grpc_max_message_bytes (cfg_limits (ce_config env)) div 2) of
      (r, sb) \<Rightarrow> (r, fst sb)) = (Some (Ok rs), s')"
    using assms by (auto simp: prepare_selections_def rpc act_bind_Ok)
  then obtain sb where "prepare_each env sid reqs (s1, grpc_max_message_bytes (cfg_limits (ce_config env)) div 2) = (Some (Ok rs), sb)"
    by (cases "prepare_each env sid reqs (s1, grpc_max_message_bytes (cfg_limits (ce_config env)) div 2)") auto
  then show ?thesis using prepare_each_spends [of env sid reqs s1 _ rs "fst sb" "snd sb"] by fastforce
qed

section \<open>A small server\<close>

text \<open>One session with one open file, which has two rows of three bytes.\<close>

definition sample_file :: array_file where
  "sample_file = \<lparr>fl_get_item = (\<lambda>_. Ok (Dataset sample_bytes)), fl_list_children = (\<lambda>_. Ok []), fl_attrs = (\<lambda>_. Ok [])\<rparr>"

definition sample_server :: ctl_env where
  "sample_server =
     \<lparr>ce_config = default_config, ce_build = \<lparr>feat_sz = True, feat_zfp = False\<rparr>, ce_roots = [(True, [''data''])],
      ce_data_host = [], ce_data_port = 7000, ce_clock = (\<lambda>n. n), ce_random = (\<lambda>n. Ok (replicate 16 (of_nat n))),
      ce_canonicalize = Ok, ce_is_file = (\<lambda>_. True), ce_is_dir = (\<lambda>_. True),
      ce_open_npy = (\<lambda>p. if path_starts_with p (True, [''data'']) then Ok sample_file else Err (AexIo Io_PermissionDenied)),
      ce_open_zarr = (\<lambda>_. Err NotFound), ce_open_hdf5 = None, ce_f16_from_f32 = (\<lambda>b. b), ce_half = sample_half\<rparr>"

definition sample_session :: "array_file session" where
  "sample_session =
     \<lparr>ss_id = replicate 16 1, ss_token = replicate 16 2, ss_granted_streams = 8, ss_client_name = [],
      ss_files = \<lparr>fr_files = [(1, sample_file)], fr_next_handle = 2\<rparr>, ss_last_seen_ms = 0\<rparr>"

definition sample_ctl :: ctl_state where
  "sample_ctl = ctl_start\<lparr>ct_sessions := [(replicate 16 1, sample_session)]\<rparr>"

definition sample_request :: prepare_request where
  "sample_request = \<lparr>pr_handle = 1, pr_name = ''data'', pr_indices = [], pr_requested_quality = None, pr_requested_codec = 0\<rparr>"

lemma sample_env_ok: "env_ok sample_server"
  by (simp add: env_ok_def sample_server_def config_ok_def default_config_def default_limits_def default_transfer_def)

lemma sample_ctl_ok: "server_ok sample_server 1 sample_ctl"
  by (simp add: server_ok_def sample_ctl_def ctl_start_def sample_session_def sample_server_def sessions_ok_def session_ok_def
      files_bound_def file_bound_def files_ok_def transfers_new_ok tickets_whole_def keys_distinct_def default_config_def default_limits_def)

lemma sample_layout:
  "layout_resolve \<lparr>feat_sz = True, feat_zfp = False\<rparr> [2, 3] Uint8 [] (exact\<lparr>q_codec := Some Raw\<rparr>)
     = Ok (sample_grid\<lparr>lay_quality := exact\<lparr>q_codec := Some Raw\<rparr>\<rparr>)"
  by (simp add: layout_resolve_def resolve_def expand_def resolve_axis_def whole_def wholes_def first_of_def out_shape_def understood_def
      exact_def wire_dtype_def num_elements_def wprod_def contiguous_run_def walks_independently_def cmul_def wmul_def wadd_def U64_def
      sample_grid_def run_offset_def run_len_def u64_of_u128_def U128_def row_stride_def Let_def)

lemma sample_prepares:
  "\<exists>session quality s1. prepare_layout sample_server (replicate 16 1) sample_request sample_ctl
     = (Some (Ok (session, sample_bytes, quality, sample_grid\<lparr>lay_quality := exact\<lparr>q_codec := Some Raw\<rparr>\<rparr>)), s1)"
proof -
  obtain session s1 where ses: "ctl_session sample_server (replicate 16 1) sample_ctl = (Some (Ok session), s1)"
    "ss_files session = ss_files sample_session"
    by (simp add: ctl_session_def act_bind_def ctl_now_def get_at_def sample_ctl_def ctl_start_def session_expired_def sample_session_def
        sample_server_def session_touch_def Let_def)
  have opened: "files_get 1 (ss_files session) = Ok sample_file"
    using ses(2) by (simp add: files_get_def sample_session_def ok_or_def)
  have quality: "applied (ce_build sample_server) (requested_quality sample_request) Uint8 = exact\<lparr>q_codec := Some Raw\<rparr>"
    by (simp add: applied_def can_apply_def requested_quality_def sample_request_def quality_from_proto_def codec_from_u32_def
        codec_from_u8_def exact_def sample_server_def)
  have lay: "dataset_layout (ce_build sample_server) sample_bytes [] (exact\<lparr>q_codec := Some Raw\<rparr>)
      = Ok (sample_grid\<lparr>lay_quality := exact\<lparr>q_codec := Some Raw\<rparr>\<rparr>)"
    using sample_layout by (simp add: dataset_layout_def sample_bytes_def sample_server_def)
  show ?thesis
    using ses(1) opened quality lay
    by (simp add: prepare_layout_def act_bind_def [of "ctl_session _ _"] sample_request_def act_of_simps dataset_named_def core_def
        sample_file_def indices_from_proto_def check_decode_cache_def act_bind_def act_return_def sample_bytes_def Let_def)
qed

end
