(* ===== verification/Npy.thy ===== *)
theory Npy
  imports Backend
begin

text \<open>
  The backend for \<open>.npy\<close> files (\<open>aex-core/src/backends/npy.rs\<close>). The file is what the operating system and
  the header parser of \<open>npyz\<close> say of it: a parsed header and the position after it, the length, and \<open>pread\<close>,
  which may return fewer bytes than asked for. Reads go through \<open>pread_loop\<close>; \<open>npy_source\<close> shows that they
  give a source of the array's bytes, and \<open>npy_read_exactly\<close> what they do on a file that has shrunk since.
\<close>

section \<open>Opening\<close>

datatype npy_descr = Plain type_str | Structured

record npy_header =
  nh_fortran_order :: bool
  nh_pickled :: bool
  nh_descr :: npy_descr
  nh_shape :: "nat list"

type_synonym pread = "nat \<Rightarrow> nat \<Rightarrow> io_kind + bytes"

record npy_source_file =
  ns_open :: "io_kind + unit"
  ns_header :: "io_kind + npy_header"
  ns_position :: "io_kind + nat"
  ns_len :: "io_kind + nat"
  ns_read_at :: pread

record npy_dataset =
  np_read_at :: pread
  np_data_offset :: nat
  np_file_len :: nat
  np_num_elements :: nat
  np_data_len :: nat
  np_dtype :: dtype
  np_shape :: "nat list"

fun checked_elements_from :: "nat \<Rightarrow> nat list \<Rightarrow> aex_error + nat" where
  "checked_elements_from acc [] = Ok acc"
| "checked_elements_from acc (n # ns) =
     res_bind (ok_or (cmul acc n) MalformedNpy) (\<lambda>acc. checked_elements_from acc ns)"

definition checked_num_elements :: "nat list \<Rightarrow> aex_error + nat" where
  "checked_num_elements shape = checked_elements_from 1 shape"

definition npy_descr_dtype :: "npy_descr \<Rightarrow> aex_error + dtype" where
  "npy_descr_dtype d = (case d of Plain ts \<Rightarrow> dtype_from_type_str ts | Structured \<Rightarrow> Err UnsupportedDType)"

definition npy_open :: "npy_source_file \<Rightarrow> aex_error + npy_dataset" where
  "npy_open f =
     res_bind (io (ns_open f)) (\<lambda>_.
     res_bind (io (ns_header f)) (\<lambda>header.
     res_bind (io (ns_position f)) (\<lambda>data_offset.
       if nh_fortran_order header then Err UnsupportedNpy
       else if nh_pickled header then Err UnsupportedDType
       else
         res_bind (npy_descr_dtype (nh_descr header)) (\<lambda>d.
         res_bind (checked_num_elements (nh_shape header)) (\<lambda>num_elements.
         res_bind (ok_or (cmul num_elements (itemsize d)) MalformedNpy) (\<lambda>data_len.
         res_bind (io (ns_len f)) (\<lambda>file_len.
         res_bind (ok_or (cadd data_offset data_len) MalformedNpy) (\<lambda>declared_end.
           if file_len < declared_end then Err MalformedNpy
           else Ok \<lparr>np_read_at = ns_read_at f, np_data_offset = data_offset, np_file_len = file_len,
                    np_num_elements = num_elements, np_data_len = data_len, np_dtype = d,
                    np_shape = nh_shape header\<rparr>))))))))"

section \<open>Reading\<close>

text \<open>The bytes of \<open>dst\<close> not filled yet number \<open>left\<close>. A \<open>pread\<close> gives at most what was asked for.\<close>

function pread_loop :: "pread \<Rightarrow> nat \<Rightarrow> nat \<Rightarrow> aex_error + bytes" where
  "pread_loop pread at left =
     (if left = 0 then Ok []
      else res_bind (io (pread at left)) (\<lambda>got.
        if got = [] then Err MalformedNpy
        else res_map ((@) (take left got)) (pread_loop pread (wadd at (length got)) (left - length got))))"
  by pat_completeness auto
termination by (relation "measure (\<lambda>(pread, at, left). left)") (auto simp: length_greater_0_conv [symmetric] simp del: length_greater_0_conv)

declare pread_loop.simps [simp del]

definition npy_read_bytes_at :: "npy_dataset \<Rightarrow> nat \<Rightarrow> nat \<Rightarrow> aex_error + bytes" where
  "npy_read_bytes_at ds offset n =
     (case cadd offset n of
        None \<Rightarrow> Err (OutOfRange offset n (np_data_len ds))
      | Some stop \<Rightarrow>
          if stop > np_data_len ds then Err (OutOfRange offset n (np_data_len ds))
          else pread_loop (np_read_at ds) (wadd (np_data_offset ds) offset) n)"

definition npy_ndim :: "npy_dataset \<Rightarrow> nat" where "npy_ndim ds = length (np_shape ds)"

definition npy_as_dataset :: "npy_dataset \<Rightarrow> dataset" where
  "npy_as_dataset ds =
     \<lparr>ds_dtype = np_dtype ds, ds_shape = np_shape ds, ds_read = npy_read_bytes_at ds, ds_decoded_chunk_bytes = None, ds_prepare = Ok ()\<rparr>"

text \<open>What the kernel is told will be read: a range of the file.\<close>

definition npy_will_need :: "npy_dataset \<Rightarrow> layout \<Rightarrow> nat \<Rightarrow> nat \<Rightarrow> (nat \<times> nat) option" where
  "npy_will_need ds lay offset len = map_option (\<lambda>(at, len). (wadd (np_data_offset ds) at, len)) (source_run lay offset len)"

section \<open>The file around it\<close>

definition NPY_DATASET_NAME :: string where "NPY_DATASET_NAME = ''array''"

definition npy_get_item :: "npy_dataset \<Rightarrow> string \<Rightarrow> aex_error + item" where
  "npy_get_item ds path =
     (let p = normalize_path path in
      if p = [] then Ok Group
      else if p = NPY_DATASET_NAME then Ok (Dataset (npy_as_dataset ds))
      else Err NotFound)"

definition npy_list_children :: "npy_dataset \<Rightarrow> string \<Rightarrow> aex_error + (string \<times> item) list" where
  "npy_list_children ds path =
     (let p = normalize_path path in
      if p = [] then Ok [(NPY_DATASET_NAME, Dataset (npy_as_dataset ds))]
      else if p = NPY_DATASET_NAME then Err NotAGroup
      else Err NotFound)"

section \<open>What an open file guarantees\<close>

definition npy_ok :: "npy_dataset \<Rightarrow> bool" where
  "npy_ok ds \<longleftrightarrow>
     np_num_elements ds = prod_list (np_shape ds) \<and> np_data_len ds = np_num_elements ds * itemsize (np_dtype ds)
     \<and> np_data_offset ds + np_data_len ds < U64 \<and> np_data_offset ds + np_data_len ds \<le> np_file_len ds"

lemma checked_elements_from_Ok: "checked_elements_from acc ns = Ok n \<Longrightarrow> n = acc * prod_list ns"
  by (induction ns arbitrary: acc) (fastforce simp: res_bind_Ok cmul_Some mult.assoc)+

lemma npy_open_ok:
  assumes "npy_open f = Ok ds"
  shows "npy_ok ds" "np_read_at ds = ns_read_at f" "ns_len f = Ok (np_file_len ds)"
proof -
  obtain shape offset d els len flen where
      parts: "checked_num_elements (shape) = Ok els" "cmul els (itemsize d) = Some len"
        "ns_len f = Ok flen" "cadd offset len = Some (offset + len)" "offset + len \<le> flen"
    and ds: "ds = \<lparr>np_read_at = ns_read_at f, np_data_offset = offset, np_file_len = flen, np_num_elements = els,
      np_data_len = len, np_dtype = d, np_shape = shape\<rparr>"
    using assms that by (auto simp: npy_open_def io_def res_bind_Ok cadd_Some not_less split: if_splits)
  then show "npy_ok ds" "np_read_at ds = ns_read_at f" "ns_len f = Ok (np_file_len ds)"
    using checked_elements_from_Ok [of 1 "shape" els]
    by (auto simp: npy_ok_def checked_num_elements_def cmul_Some cadd_Some)
qed

section \<open>Reads\<close>

text \<open>
  What \<open>pread\<close> promises of a file that holds \<open>content\<close>: a piece of it from the offset asked for, no longer than
  asked for, and empty only at the end of the file. How long the piece is, is the system's choice.
\<close>

definition pread_law :: "bytes \<Rightarrow> pread \<Rightarrow> bool" where
  "pread_law content pread \<longleftrightarrow>
     (\<forall>at n. 0 < n \<longrightarrow>
        (\<exists>m \<le> n. pread at n = Ok (slice content at m) \<and> (m = 0 \<longrightarrow> length content \<le> at) \<and> at + m \<le> max at (length content)))"

lemma pread_lawE:
  assumes "pread_law content pread" "0 < n"
  obtains m where "m \<le> n" "pread at n = Ok (slice content at m)" "m = 0 \<longrightarrow> length content \<le> at"
    "at + m \<le> max at (length content)"
  using assms unfolding pread_law_def by blast

lemma pread_loop_reads:
  assumes law: "pread_law content pread" and small: "at + left < U64"
  shows "pread_loop pread at left =
    (if at + left \<le> length content \<or> left = 0 then Ok (slice content at left) else Err MalformedNpy)"
  using small
proof (induction left arbitrary: at rule: less_induct)
  case (less left)
  show ?case
  proof (cases "left = 0")
    case False
    then obtain m where m: "m \<le> left" "pread at left = Ok (slice content at m)" "m = 0 \<longrightarrow> length content \<le> at"
        "at + m \<le> max at (length content)"
      using pread_lawE [OF law] by blast
    show ?thesis
    proof (cases "length content \<le> at")
      case True
      then have "slice content at m = []" by (simp add: slice_def)
      then show ?thesis using False True m(2) by (subst pread_loop.simps) (auto simp: io_def)
    next
      case inside: False
      then have bound: "at + m \<le> length content" using m(4) by simp
      then have len: "length (slice content at m) = m" "0 < m" using m(3) inside by auto
      then have some: "slice content at m \<noteq> []" by auto
      then have "wadd at m = at + m" using less.prems m(1) by (simp add: wadd_eq)
      moreover have "pread_loop pread (at + m) (left - m) =
          (if at + m + (left - m) \<le> length content \<or> left - m = 0 then Ok (slice content (at + m) (left - m)) else Err MalformedNpy)"
        using less.IH [of "left - m" "at + m"] less.prems len(2) m(1) by simp
      ultimately show ?thesis
        using False m(1,2) len(1) some bound slice_add [of content at m "left - m"]
        by (subst pread_loop.simps) (simp add: io_def)
    qed
  qed (subst pread_loop.simps, simp)
qed

text \<open>The array's bytes are what follows the header.\<close>

definition npy_bytes :: "bytes \<Rightarrow> npy_dataset \<Rightarrow> bytes" where
  "npy_bytes content ds = slice content (np_data_offset ds) (np_data_len ds)"

lemma npy_read_exactly:
  assumes ok: "npy_ok ds" and law: "pread_law content (np_read_at ds)"
  shows "npy_read_bytes_at ds offset n =
    (if np_data_len ds < offset + n then Err (OutOfRange offset n (np_data_len ds))
     else if n = 0 \<or> np_data_offset ds + offset + n \<le> length content then Ok (slice (npy_bytes content ds) offset n)
     else Err MalformedNpy)"
proof (cases "np_data_len ds < offset + n")
  case True
  then show ?thesis by (auto simp: npy_read_bytes_at_def split: option.split) (auto simp: cadd_Some)
next
  case False
  then have room: "offset + n \<le> np_data_len ds" "np_data_offset ds + offset + n < U64" using ok by (auto simp: npy_ok_def)
  then have "cadd offset n = Some (offset + n)" by (simp add: cadd_Some)
  moreover have "wadd (np_data_offset ds) offset = np_data_offset ds + offset" using room by (simp add: wadd_eq)
  moreover have "slice (npy_bytes content ds) offset n = slice content (np_data_offset ds + offset) n"
    unfolding npy_bytes_def by (rule slice_slice) (rule room(1))
  ultimately show ?thesis
    using False pread_loop_reads [OF law room(2)] by (auto simp: npy_read_bytes_at_def)
qed

text \<open>While the file is as long as it was when it was opened, the dataset is a source of its bytes.\<close>

definition npy_sound :: "bytes \<Rightarrow> npy_dataset \<Rightarrow> bool" where
  "npy_sound content ds \<longleftrightarrow> npy_ok ds \<and> pread_law content (np_read_at ds) \<and> np_file_len ds \<le> length content"

lemma npy_source:
  assumes "npy_sound content ds"
  shows "byte_source (npy_read_bytes_at ds) (npy_bytes content ds)"
proof
  have ok: "npy_ok ds" "pread_law content (np_read_at ds)" "np_file_len ds \<le> length content"
    using assms by (simp_all add: npy_sound_def)
  have room: "np_data_offset ds + np_data_len ds \<le> length content" using ok(1,3) unfolding npy_ok_def by linarith
  have "np_data_len ds < U64" using ok(1) unfolding npy_ok_def by linarith
  then show "length (npy_bytes content ds) < U64" using room by (simp add: npy_bytes_def)
  fix a n assume "a + n \<le> length (npy_bytes content ds)"
  then have "a + n \<le> np_data_len ds" using room by (simp add: npy_bytes_def)
  then show "npy_read_bytes_at ds a n = Ok (slice (npy_bytes content ds) a n)"
    using npy_read_exactly [OF ok(1,2)] room by auto
qed

text \<open>The contract, on every sound dataset and file.\<close>

typedef sound_npy = "{(content, ds). npy_sound content ds}"
proof
  let ?ds = "\<lparr>np_read_at = (\<lambda>at n. Ok (slice [7] at n)), np_data_offset = 0, np_file_len = 1, np_num_elements = 1,
      np_data_len = 1, np_dtype = Uint8, np_shape = []\<rparr>"
  have "pread_law [7] (\<lambda>at n. Ok (slice [7] at n))"
    unfolding pread_law_def
  proof (intro allI impI)
    fix at n :: nat assume n: "0 < n"
    show "\<exists>m \<le> n. (Ok (slice [7] at n) :: io_kind + bytes) = Ok (slice [7] at m) \<and> (m = 0 \<longrightarrow> length [7 :: u8] \<le> at) \<and> at + m \<le> max at (length [7 :: u8])"
      using n by (cases at) (auto simp: slice_def intro: exI [of _ 1] exI [of _ 0])
  qed
  then show "([7], ?ds) \<in> {(content, ds). npy_sound content ds}"
    by (simp add: npy_sound_def npy_ok_def U64_def)
qed

interpretation npy: byte_source "npy_read_bytes_at (snd (Rep_sound_npy s))" "npy_bytes (fst (Rep_sound_npy s)) (snd (Rep_sound_npy s))" for s
  using Rep_sound_npy [of s] by (intro npy_source) (simp add: case_prod_beta)

end
