(* ===== verification/Json.thy ===== *)
theory Json
  imports Floats
begin

text \<open>
  JSON values, as \<open>serde_json::Value\<close> has them: a number is a 64-bit unsigned integer, a negative 64-bit integer
  or a double, and an object is its members. Strings are their UTF-8 bytes. The parser is not here: it is the
  library's, and an argument of what reads a document.
\<close>

datatype json_number = PosInt nat | NegInt int | Float f64

datatype json =
  JNull
| JBool bool
| JNumber json_number
| JString string
| JArray "json list"
| JObject "(string \<times> json) list"

fun json_u64 :: "json \<Rightarrow> nat option" where
  "json_u64 (JNumber (PosInt n)) = Some n"
| "json_u64 _ = None"

fun json_i64 :: "json \<Rightarrow> int option" where
  "json_i64 (JNumber (PosInt n)) = i64_of_u64 n"
| "json_i64 (JNumber (NegInt i)) = Some i"
| "json_i64 _ = None"

fun json_f64 :: "json \<Rightarrow> f64 option" where
  "json_f64 (JNumber (PosInt n)) = Some (f64_of_int (int n))"
| "json_f64 (JNumber (NegInt i)) = Some (f64_of_int i)"
| "json_f64 (JNumber (Float d)) = Some d"
| "json_f64 _ = None"

fun json_bool :: "json \<Rightarrow> bool option" where
  "json_bool (JBool b) = Some b"
| "json_bool _ = None"

fun json_str :: "json \<Rightarrow> string option" where
  "json_str (JString s) = Some s"
| "json_str _ = None"

fun json_array :: "json \<Rightarrow> json list option" where
  "json_array (JArray items) = Some items"
| "json_array _ = None"

definition is_boolean :: "json \<Rightarrow> bool" where "is_boolean v \<longleftrightarrow> json_bool v \<noteq> None"

fun is_number :: "json \<Rightarrow> bool" where
  "is_number (JNumber _) = True"
| "is_number _ = False"

text \<open>\<open>config.get(name)\<close>, or null where the code takes null for a member that is not there.\<close>

definition json_get :: "(string \<times> json) list \<Rightarrow> string \<Rightarrow> json option" where
  "json_get members name = map_of members name"

definition json_get_or_null :: "(string \<times> json) list \<Rightarrow> string \<Rightarrow> json" where
  "json_get_or_null members name = (case json_get members name of Some v \<Rightarrow> v | None \<Rightarrow> JNull)"

lemma json_f64_number: "json_f64 v \<noteq> None \<longleftrightarrow> is_number v"
  by (cases v rule: json_f64.cases) simp_all

lemma json_bool_Some: "json_bool v = Some b \<longleftrightarrow> v = JBool b"
  by (cases v) simp_all

end
