(* ===== verification/Zarr_Meta.thy ===== *)
theory Zarr_Meta
  imports Json Chunks Reduce
begin

text \<open>
  The metadata of a Zarr v3 store (\<open>aex-core/src/backends/zarr.rs\<close>): the documents of groups and arrays, chunk
  keys, codec chains, fill values and attributes. Deserialising a document, a list of integers or a list of named
  configurations is serde's: \<open>zarr_serde\<close>.
\<close>

section \<open>Documents\<close>

record named =
  nm_name :: string
  nm_configuration :: "(string \<times> json) list"

record group_meta =
  gm_zarr_format :: nat
  gm_attributes :: "(string \<times> json) list"

record array_meta =
  am_zarr_format :: nat
  am_shape :: "nat list"
  am_data_type :: json
  am_chunk_grid :: named
  am_chunk_key_encoding :: "named option"
  am_fill_value :: json
  am_codecs :: "named list"
  am_storage_transformers :: "json list"
  am_attributes :: "(string \<times> json) list"

datatype zarr_node = Zarr_Group group_meta | Zarr_Array array_meta

record zarr_serde =
  zs_node :: "string \<Rightarrow> zarr_node option"
  zs_u64s :: "json \<Rightarrow> nat list option"
  zs_named :: "json \<Rightarrow> named list option"

fun node_attributes :: "zarr_node \<Rightarrow> (string \<times> json) list" where
  "node_attributes (Zarr_Group meta) = gm_attributes meta"
| "node_attributes (Zarr_Array meta) = am_attributes meta"

definition node_check :: "zarr_node \<Rightarrow> aex_error + unit" where
  "node_check n =
     (let format = (case n of Zarr_Group meta \<Rightarrow> gm_zarr_format meta | Zarr_Array meta \<Rightarrow> am_zarr_format meta) in
      if format \<noteq> 3 then Err UnsupportedZarr else Ok ())"

section \<open>Attributes\<close>

record flat =
  ft_shape :: "nat list"
  ft_leaves :: "json list"
  ft_leaf_depth :: "nat option"

text \<open>\<open>flatten\<close> with what it writes to as a state; \<open>None\<close> where it returns false, since the state is dropped then.\<close>

definition flatten_leaf :: "json \<Rightarrow> nat \<Rightarrow> flat \<Rightarrow> flat option" where
  "flatten_leaf v depth ft =
     (let at = (case ft_leaf_depth ft of Some d \<Rightarrow> d | None \<Rightarrow> depth) in
      if at \<noteq> depth then None
      else Some (ft\<lparr>ft_leaves := ft_leaves ft @ [v], ft_leaf_depth := Some at\<rparr>))"

fun flatten :: "json \<Rightarrow> nat \<Rightarrow> flat \<Rightarrow> flat option"
  and flatten_all :: "json list \<Rightarrow> nat \<Rightarrow> flat \<Rightarrow> flat option" where
  "flatten (JArray items) depth ft =
     (if depth = length (ft_shape ft) then flatten_all items (depth + 1) (ft\<lparr>ft_shape := ft_shape ft @ [length items]\<rparr>)
      else if ft_shape ft ! depth \<noteq> length items then None
      else flatten_all items (depth + 1) ft)"
| "flatten (JBool b) depth ft = flatten_leaf (JBool b) depth ft"
| "flatten (JNumber n) depth ft = flatten_leaf (JNumber n) depth ft"
| "flatten JNull depth ft = None"
| "flatten (JString s) depth ft = None"
| "flatten (JObject ms) depth ft = None"
| "flatten_all [] depth ft = Some ft"
| "flatten_all (v # vs) depth ft = Option.bind (flatten v depth ft) (\<lambda>ft. flatten_all vs depth ft)"

definition flat_empty :: flat where "flat_empty = \<lparr>ft_shape = [], ft_leaves = [], ft_leaf_depth = None\<rparr>"

definition leaves_dtype :: "json list \<Rightarrow> dtype option" where
  "leaves_dtype leaves =
     (if list_all is_boolean leaves \<and> leaves \<noteq> [] then Some Bool
      else if list_all (\<lambda>v. json_i64 v \<noteq> None) leaves \<and> leaves \<noteq> [] then Some Int64
      else if list_all is_number leaves then Some Float64
      else None)"

definition leaf_bytes :: "dtype \<Rightarrow> json \<Rightarrow> bytes option" where
  "leaf_bytes d leaf =
     (if d = Bool then map_option (\<lambda>b. [of_bool b]) (json_bool leaf)
      else if d = Int64 then map_option (\<lambda>i. to_le (word_of_int i :: u64)) (json_i64 leaf)
      else map_option to_le (json_f64 leaf))"

definition attr_array :: "flat \<Rightarrow> attr_value option" where
  "attr_array ft =
     (if (case ft_leaf_depth ft of Some depth \<Rightarrow> depth \<noteq> length (ft_shape ft) | None \<Rightarrow> False) then None
      else Option.bind (leaves_dtype (ft_leaves ft)) (\<lambda>d.
        if wmul (length (ft_leaves ft)) (itemsize d) > MAX_ATTR_BYTES then None
        else map_option (\<lambda>parts. Array d (ft_shape ft) (concat parts)) (traverse_opt (leaf_bytes d) (ft_leaves ft))))"

definition zarr_attr_value :: "json \<Rightarrow> attr_value option" where
  "zarr_attr_value v =
     (case v of
        JString s \<Rightarrow> if length s \<le> MAX_ATTR_BYTES then Some (Text s) else None
      | _ \<Rightarrow> Option.bind (flatten v 0 flat_empty) attr_array)"

section \<open>Chunk keys\<close>

record key_encoding =
  ke_prefix :: bool
  ke_separator :: char

definition key_encoding_of :: "named option \<Rightarrow> aex_error + key_encoding" where
  "key_encoding_of named =
     (case named of
        None \<Rightarrow> Ok \<lparr>ke_prefix = True, ke_separator = CHR ''/''\<rparr>
      | Some named \<Rightarrow>
          res_bind
            (if nm_name named = ''default'' then Ok (True, CHR ''/'')
             else if nm_name named = ''v2'' then Ok (False, CHR ''.'')
             else Err UnsupportedZarr)
            (\<lambda>(with_prefix, default).
               res_map (\<lambda>separator. \<lparr>ke_prefix = with_prefix, ke_separator = separator\<rparr>)
                 (case json_get (nm_configuration named) ''separator'' of
                    None \<Rightarrow> Ok default
                  | Some v \<Rightarrow>
                      if v = JString ''/'' then Ok (CHR ''/'')
                      else if v = JString ''.'' then Ok (CHR ''.'')
                      else Err MalformedZarr)))"

text \<open>\<open>write!\<close> of an integer.\<close>

fun decimal :: "nat \<Rightarrow> string" where
  "decimal n = (if n < 10 then [char_of (48 + n)] else decimal (n div 10) @ [char_of (48 + n mod 10)])"

declare decimal.simps [simp del]

fun joined :: "char \<Rightarrow> string list \<Rightarrow> string" where
  "joined sep [] = []"
| "joined sep [w] = w"
| "joined sep (w # ws) = w @ sep # joined sep ws"

definition chunk_key_of :: "key_encoding \<Rightarrow> nat list \<Rightarrow> string" where
  "chunk_key_of ke coords =
     (if ke_prefix ke then CHR ''c'' # concat (map (\<lambda>c. ke_separator ke # decimal c) coords)
      else if coords = [] then ''0''
      else joined (ke_separator ke) (map decimal coords))"

definition key_of :: "string \<Rightarrow> key_encoding \<Rightarrow> chunk_grid \<Rightarrow> nat \<Rightarrow> string" where
  "key_of prefix ke g n = (if prefix = [] then [] else prefix @ ''/'') @ chunk_key_of ke (coords_of g n)"

section \<open>Codec chains\<close>

datatype chunk_codec = Zarr_Gzip | Zarr_Zstd | Zarr_Crc32c

fun sharding_of :: "named list \<Rightarrow> named option" where
  "sharding_of [only] = (if nm_name only = ''sharding_indexed'' then Some only else None)"
| "sharding_of _ = None"

definition parse_codec :: "zarr_serde \<Rightarrow> named \<Rightarrow> aex_error + chunk_codec list" where
  "parse_codec serde codec =
     (if nm_name codec = ''bytes'' then
        (case json_get (nm_configuration codec) ''endian'' of
           None \<Rightarrow> Ok []
         | Some v \<Rightarrow> if v = JString ''little'' then Ok [] else Err UnsupportedZarr)
      else if nm_name codec = ''transpose'' then
        res_bind (ok_or (zs_u64s serde (json_get_or_null (nm_configuration codec) ''order'')) MalformedZarr)
          (\<lambda>order. if order \<noteq> [0..<length order] then Err UnsupportedZarr else Ok [])
      else if nm_name codec = ''gzip'' then Ok [Zarr_Gzip]
      else if nm_name codec = ''zstd'' then Ok [Zarr_Zstd]
      else if nm_name codec = ''crc32c'' then Ok [Zarr_Crc32c]
      else Err UnsupportedZarr)"

definition parse_codecs :: "zarr_serde \<Rightarrow> named list \<Rightarrow> aex_error + chunk_codec list" where
  "parse_codecs serde codecs = res_map concat (res_traverse (parse_codec serde) codecs)"

text \<open>
  Undoing a chain. \<open>zc_gunzip\<close> is what a stream expands to and whether it ends well, which is not asked of one
  that is longer than the limit; \<open>zc_unzstd\<close> expands into a buffer of that size and fails when it does not fit.
\<close>

record zarr_codecs =
  zc_gunzip :: "bytes \<Rightarrow> bytes \<times> bool"
  zc_unzstd :: "bytes \<Rightarrow> nat \<Rightarrow> bytes option"
  zc_crc32c :: "bytes \<Rightarrow> u32"

definition ungzip :: "zarr_codecs \<Rightarrow> bytes \<Rightarrow> nat \<Rightarrow> bytes option" where
  "ungzip zc bs limit =
     (case zc_gunzip zc bs of (out, ok) \<Rightarrow>
        if limit + 1 \<le> length out then Some (take (limit + 1) out) else if ok then Some out else None)"

definition unzstd :: "zarr_codecs \<Rightarrow> bytes \<Rightarrow> nat \<Rightarrow> bytes option" where
  "unzstd zc bs chunk_bytes = zc_unzstd zc bs chunk_bytes"

definition strip_crc32c :: "zarr_codecs \<Rightarrow> bytes \<Rightarrow> bytes option" where
  "strip_crc32c zc bs =
     (if length bs < 4 then None
      else
        let at = length bs - 4; stored = of_le (drop at bs); bs = take at bs
        in if zc_crc32c zc bs = stored then Some bs else None)"

fun undo_one :: "zarr_codecs \<Rightarrow> nat \<Rightarrow> chunk_codec \<Rightarrow> bytes \<Rightarrow> aex_error + bytes" where
  "undo_one zc chunk_bytes Zarr_Gzip bs = ok_or (ungzip zc bs chunk_bytes) MalformedZarr"
| "undo_one zc chunk_bytes Zarr_Zstd bs = ok_or (unzstd zc bs chunk_bytes) MalformedZarr"
| "undo_one zc chunk_bytes Zarr_Crc32c bs = ok_or (strip_crc32c zc bs) MalformedZarr"

fun undo_all :: "zarr_codecs \<Rightarrow> nat \<Rightarrow> chunk_codec list \<Rightarrow> bytes \<Rightarrow> aex_error + bytes" where
  "undo_all zc chunk_bytes [] bs = Ok bs"
| "undo_all zc chunk_bytes (codec # codecs) bs =
     res_bind (undo_one zc chunk_bytes codec bs) (\<lambda>bs. undo_all zc chunk_bytes codecs bs)"

definition undo :: "zarr_codecs \<Rightarrow> chunk_codec list \<Rightarrow> bytes \<Rightarrow> nat \<Rightarrow> aex_error + bytes" where
  "undo zc codecs bs chunk_bytes =
     res_bind (undo_all zc chunk_bytes (rev codecs) bs) (\<lambda>bs.
       if length bs \<noteq> chunk_bytes then Err MalformedZarr else Ok bs)"

section \<open>Fill values\<close>

definition int_range :: "dtype \<Rightarrow> (int \<times> int) option" where
  "int_range d =
     (if d \<in> {Int8, Int16, Int32, Int64} then Some (- (2 ^ (8 * itemsize d - 1)), 2 ^ (8 * itemsize d - 1) - 1)
      else if d \<in> {Uint8, Uint16, Uint32, Uint64} then Some (0, 2 ^ (8 * itemsize d) - 1)
      else None)"

definition int_bytes :: "dtype \<Rightarrow> int \<Rightarrow> bytes option" where
  "int_bytes d i =
     (case int_range d of
        None \<Rightarrow> None
      | Some (least, greatest) \<Rightarrow>
          if least \<le> i \<and> i \<le> greatest then Some (le_nat (itemsize d) (nat (i mod 2 ^ (8 * itemsize d)))) else None)"

definition json_float :: "json \<Rightarrow> f64 option" where
  "json_float v =
     (case v of
        JNumber n \<Rightarrow> json_f64 v
      | JString s \<Rightarrow>
          if s = ''NaN'' then Some f64_nan
          else if s = ''Infinity'' then Some (f64_make False f64_infinity)
          else if s = ''-Infinity'' then Some (f64_make True f64_infinity)
          else None
      | _ \<Rightarrow> None)"

text \<open>\<open>u128::from_str_radix(_, 16)\<close>, for at most sixteen digits: a leading plus sign is allowed.\<close>

definition hex_digit :: "char \<Rightarrow> nat option" where
  "hex_digit c =
     (let n = of_char c :: nat in
      if 48 \<le> n \<and> n \<le> 57 then Some (n - 48)
      else if 97 \<le> n \<and> n \<le> 102 then Some (n - 87)
      else if 65 \<le> n \<and> n \<le> 70 then Some (n - 55)
      else None)"

fun hex_value :: "nat \<Rightarrow> string \<Rightarrow> nat option" where
  "hex_value acc [] = Some acc"
| "hex_value acc (c # s) = Option.bind (hex_digit c) (\<lambda>d. hex_value (acc * 16 + d) s)"

definition from_str_radix_16 :: "string \<Rightarrow> nat option" where
  "from_str_radix_16 s =
     (let digits = (case s of [] \<Rightarrow> [] | c # rest \<Rightarrow> if c = CHR ''+'' then rest else s) in
      if digits = [] then None else hex_value 0 digits)"

definition strip_0x :: "string \<Rightarrow> string option" where
  "strip_0x s = (if take 2 s = ''0x'' then Some (drop 2 s) else None)"

definition float_fill :: "half_lib \<Rightarrow> dtype \<Rightarrow> json \<Rightarrow> aex_error + bytes" where
  "float_fill half d v =
     (case Option.bind (json_str v) strip_0x of
        Some hex \<Rightarrow>
          if length hex \<noteq> itemsize d * 2 then Err MalformedZarr
          else res_map (le_nat (itemsize d)) (ok_or (from_str_radix_16 hex) MalformedZarr)
      | None \<Rightarrow>
          res_map (\<lambda>number.
              if d = Float16 then to_le (half_narrow half number)
              else if d = Float32 then to_le (f64_to_f32 number)
              else to_le number)
            (ok_or (json_float v) MalformedZarr))"

text \<open>A complex number is filled in two parts, each a float's.\<close>

definition real_fill :: "half_lib \<Rightarrow> dtype \<Rightarrow> json \<Rightarrow> aex_error + bytes" where
  "real_fill half d v =
     (if v = JNull then Ok (replicate (itemsize d) 0)
      else if d = Bool then ok_or (map_option (\<lambda>b. [of_bool b]) (json_bool v)) MalformedZarr
      else if d \<in> {Float16, Float32, Float64} then float_fill half d v
      else
        res_bind (ok_or (case json_u64 v of Some n \<Rightarrow> Some (int n) | None \<Rightarrow> json_i64 v) MalformedZarr)
          (\<lambda>number. ok_or (int_bytes d number) MalformedZarr))"

definition fill_bytes :: "half_lib \<Rightarrow> dtype \<Rightarrow> json \<Rightarrow> aex_error + bytes" where
  "fill_bytes half d v =
     (if v \<noteq> JNull \<and> d \<in> {Complex64, Complex128} then
        (case json_array v of
           Some [re, im] \<Rightarrow>
             let part = (if d = Complex64 then Float32 else Float64) in
             res_bind (real_fill half part re) (\<lambda>re. res_map (\<lambda>im. re @ im) (real_fill half part im))
         | _ \<Rightarrow> Err MalformedZarr)
      else real_fill half d v)"

end
