(* ===== verification/Chunk_Reads.thy ===== *)
theory Chunk_Reads
  imports Decode_Cache Effects
begin

text \<open>
  The walk of \<open>chunks.rs\<close> with a callback that has a state, which is how the Zarr and HDF5 backends call it: the
  callback reads through the decode cache they share. \<open>reads_as\<close> says that an action gives certain bytes or fails
  with a certain error and keeps an invariant of the state; \<open>walk_act_reads\<close> lifts it from the chunks to the array.
\<close>

section \<open>Actions\<close>

definition act_panic :: "('s, 'e, 'a) act" where "act_panic s = (None, s)"

definition result_of :: "('s, 'e, 'a) act \<Rightarrow> 's \<Rightarrow> 'e + 'a" where
  "result_of m s = (case fst (m s) of Some r \<Rightarrow> r | None \<Rightarrow> undefined)"

definition act_attempt :: "('s, 'e, 'a) act \<Rightarrow> ('s, 'e, 'a option) act" where
  "act_attempt m s =
     (case m s of
        (None, s) \<Rightarrow> (None, s)
      | (Some (Err _), s) \<Rightarrow> (Some (Ok None), s)
      | (Some (Ok x), s) \<Rightarrow> (Some (Ok (Some x)), s))"

text \<open>The path of a child of a group, as the files list it.\<close>

definition child_path :: "string \<Rightarrow> string \<Rightarrow> string" where
  "child_path path name = (if path = [] then name else path @ ''/'' @ name)"

type_synonym 's chunk_action = "nat \<Rightarrow> nat \<Rightarrow> bytes \<Rightarrow> ('s, aex_error, bytes) act"

text \<open>\<open>DecodeCache::read_into\<close> as an action on the cache.\<close>

definition read_cached ::
    "(chunk_key \<times> bytes \<Rightarrow> bool) \<Rightarrow> chunk_key \<Rightarrow> nat \<Rightarrow> bytes \<Rightarrow> (bytes \<Rightarrow> aex_error + bytes) \<Rightarrow> (cache, aex_error, bytes) act" where
  "read_cached sole key start out decode c =
     (case read_into sole key start out decode c of None \<Rightarrow> act_panic c | Some (r, c) \<Rightarrow> (Some r, c))"

primrec walk_act_loop :: "nat \<Rightarrow> chunk_grid \<Rightarrow> nat \<Rightarrow> bytes \<Rightarrow> 's chunk_action \<Rightarrow> ('s, aex_error, bytes) act" where
  "walk_act_loop 0 g at dst read = (if dst = [] then act_return [] else act_panic)"
| "walk_act_loop (Suc fuel) g at dst read =
     (if dst = [] then act_return []
      else case walk_step g at (length dst) of
        None \<Rightarrow> act_panic
      | Some (chunk, start, len) \<Rightarrow>
          act_bind (read chunk start (take len dst)) (\<lambda>out.
          act_bind (walk_act_loop fuel g (wadd at len) (drop len dst) read) (\<lambda>rest. act_return (out @ rest))))"

definition walk_act :: "chunk_grid \<Rightarrow> nat \<Rightarrow> bytes \<Rightarrow> 's chunk_action \<Rightarrow> ('s, aex_error, bytes) act" where
  "walk_act g at dst read = (if cg_shape g = [] then read 0 at dst else walk_act_loop (length dst) g at dst read)"

section \<open>What an action reads\<close>

definition reads_as :: "('s \<Rightarrow> bool) \<Rightarrow> (aex_error \<Rightarrow> bool) \<Rightarrow> ('s, aex_error, bytes) act \<Rightarrow> bytes \<Rightarrow> bool" where
  "reads_as I P m bs \<longleftrightarrow>
     (\<forall>s. I s \<longrightarrow> (\<exists>r s'. m s = (Some r, s') \<and> I s' \<and> (r = Ok bs \<or> (\<exists>e. r = Err e \<and> P e))))"

named_theorems reading

lemma reads_asI [reading]:
  "(\<And>s. I s \<Longrightarrow> \<exists>r s'. m s = (Some r, s') \<and> I s' \<and> (r = Ok bs \<or> (\<exists>e. r = Err e \<and> P e))) \<Longrightarrow> reads_as I P m bs"
  by (simp add: reads_as_def)

lemma reads_as_return [reading]: "reads_as I P (act_return bs) bs"
  by (simp add: reads_as_def act_return_def)

lemma reads_as_throw [reading]: "P e \<Longrightarrow> reads_as I P (act_throw e) bs"
  by (simp add: reads_as_def act_throw_def)

lemma reads_as_bind:
  assumes "reads_as I P m bs" "reads_as I P (f bs) cs"
  shows "reads_as I P (act_bind m f) cs"
proof (rule reads_asI)
  fix s assume "I s"
  then obtain r s' where m: "m s = (Some r, s')" "I s'" "r = Ok bs \<or> (\<exists>e. r = Err e \<and> P e)"
    using assms(1) unfolding reads_as_def by blast
  show "\<exists>r s'. act_bind m f s = (Some r, s') \<and> I s' \<and> (r = Ok cs \<or> (\<exists>e. r = Err e \<and> P e))"
  proof (cases r)
    case (Inl e)
    then show ?thesis using m by (auto simp: act_bind_def)
  next
    case (Inr x)
    then have "x = bs" using m(3) by simp
    moreover obtain r' s'' where "f bs s' = (Some r', s'')" "I s''" "r' = Ok cs \<or> (\<exists>e. r' = Err e \<and> P e)"
      using assms(2) m(2) unfolding reads_as_def by blast
    ultimately show ?thesis using m Inr by (auto simp: act_bind_def)
  qed
qed

lemma reads_as_mono: "reads_as I P m bs \<Longrightarrow> (\<And>e. P e \<Longrightarrow> Q e) \<Longrightarrow> reads_as I Q m bs"
  unfolding reads_as_def by meson

text \<open>An action that cannot fail returns the bytes.\<close>

lemma reads_asD: "reads_as I (\<lambda>_. False) m bs \<Longrightarrow> I s \<Longrightarrow> \<exists>s'. m s = (Some (Ok bs), s') \<and> I s'"
  unfolding reads_as_def by blast

lemma reads_as_Ok: "reads_as I P m bs \<Longrightarrow> I s \<Longrightarrow> m s = (Some (Ok x), s') \<Longrightarrow> x = bs \<and> I s'"
  unfolding reads_as_def by fastforce

lemma reads_as_Err: "reads_as I P m bs \<Longrightarrow> I s \<Longrightarrow> m s = (Some (Err e), s') \<Longrightarrow> P e \<and> I s'"
  unfolding reads_as_def by fastforce

lemma reads_as_returns: "reads_as I P m bs \<Longrightarrow> I s \<Longrightarrow> fst (m s) \<noteq> None"
  unfolding reads_as_def by fastforce

section \<open>Through the cache\<close>

definition shared_cache :: "(chunk_key \<Rightarrow> bytes) \<Rightarrow> nat \<Rightarrow> cache \<Rightarrow> bool" where
  "shared_cache content capacity c \<longleftrightarrow> cache_ok content c \<and> dc_capacity c = capacity \<and> 2 * capacity < U64"

lemma read_cached_reads:
  assumes decode: "\<And>buffer. decode buffer = Ok (content key) \<or> (\<exists>e. decode buffer = Err e \<and> P e)"
    and room: "start + length out \<le> length (content key)"
  shows "reads_as (shared_cache content capacity) P (read_cached sole key start out decode)
    (slice (content key) start (length out))"
proof (rule reads_asI)
  fix c assume "shared_cache content capacity c"
  then have c: "cache_ok content c" "dc_capacity c = capacity" "2 * dc_capacity c < U64" by (auto simp: shared_cache_def)
  have dec: "\<And>buffer chunk. decode buffer = Ok chunk \<Longrightarrow> chunk = content key" using decode by (metis sum.inject(2) sum.distinct(1))
  obtain r c' where r: "get_or_decode sole key decode c = Some (r, c')" "cache_ok content c'" "dc_capacity c' = dc_capacity c"
      "\<forall>chunk. r = Ok chunk \<longrightarrow> chunk = content key" "\<forall>e. r = Err e \<longrightarrow> (\<exists>buffer. decode buffer = Err e)"
    using get_or_decode_ok [of content c decode key sole] c(1,3) dec by blast
  have "\<exists>e. r = Err e \<and> P e" if "r \<noteq> Ok (content key)"
    using that r(4,5) decode by (cases r) (auto, metis sum.inject(1) sum.distinct(1))
  then show "\<exists>r c'. read_cached sole key start out decode c = (Some r, c') \<and> shared_cache content capacity c'
      \<and> (r = Ok (slice (content key) start (length out)) \<or> (\<exists>e. r = Err e \<and> P e))"
    using r c room by (cases r) (auto simp: read_cached_def read_into_def shared_cache_def)
qed

text \<open>
  The state of an array that is being read: the cache, and an index that is built once and then kept
  (\<open>OnceLock\<close>).
\<close>

record 'i array_state =
  as_cache :: cache
  as_index :: "'i list option"

definition on_cache :: "(cache, aex_error, 'a) act \<Rightarrow> ('i array_state, aex_error, 'a) act" where
  "on_cache m s = (case m (as_cache s) of (r, c) \<Rightarrow> (r, s\<lparr>as_cache := c\<rparr>))"

definition once_built :: "aex_error + 'i list \<Rightarrow> ('i array_state, aex_error, 'i list) act" where
  "once_built built s =
     (case as_index s of
        Some index \<Rightarrow> act_return index s
      | None \<Rightarrow>
          (case built of
             Err e \<Rightarrow> act_throw e s
           | Ok index \<Rightarrow> act_return index (s\<lparr>as_index := Some index\<rparr>)))"

text \<open>What a file answers: its length, and exactly the bytes asked for or an error.\<close>

record raw_file =
  rf_len :: "io_kind + nat"
  rf_read_exact_at :: "nat \<Rightarrow> nat \<Rightarrow> io_kind + bytes"

definition array_state_ok :: "(chunk_key \<Rightarrow> bytes) \<Rightarrow> nat \<Rightarrow> aex_error + 'i list \<Rightarrow> 'i array_state \<Rightarrow> bool" where
  "array_state_ok content capacity built s \<longleftrightarrow>
     shared_cache content capacity (as_cache s) \<and> (\<forall>index. as_index s = Some index \<longrightarrow> built = Ok index)"

lemma on_cache_reads:
  assumes "reads_as (shared_cache content capacity) P m bs"
  shows "reads_as (array_state_ok content capacity built) P (on_cache m) bs"
proof (rule reads_asI)
  fix s assume s: "array_state_ok content capacity built s"
  then obtain r c where "m (as_cache s) = (Some r, c)" "shared_cache content capacity c" "r = Ok bs \<or> (\<exists>e. r = Err e \<and> P e)"
    using assms unfolding reads_as_def array_state_ok_def by blast
  then show "\<exists>r s'. on_cache m s = (Some r, s') \<and> array_state_ok content capacity built s' \<and> (r = Ok bs \<or> (\<exists>e. r = Err e \<and> P e))"
    using s by (auto simp: on_cache_def array_state_ok_def)
qed

text \<open>A read that starts with the index reads with the one index there is, or fails with what keeps it from being built.\<close>

lemma once_built_reads:
  assumes "\<And>index. built = Ok index \<Longrightarrow> reads_as (array_state_ok content capacity built) P (f index) bs"
    and "\<And>e. built = Err e \<Longrightarrow> P e"
  shows "reads_as (array_state_ok content capacity built) P (act_bind (once_built built) f) bs"
proof (rule reads_asI)
  fix s assume s: "array_state_ok content capacity built s"
  show "\<exists>r s'. act_bind (once_built built) f s = (Some r, s') \<and> array_state_ok content capacity built s' \<and> (r = Ok bs \<or> (\<exists>e. r = Err e \<and> P e))"
  proof (cases built)
    case (Inl e)
    then show ?thesis using s assms(2)
      by (auto simp: once_built_def array_state_ok_def act_bind_def act_throw_def split: option.split)
  next
    case (Inr index)
    then obtain s' where "once_built built s = (Some (Ok index), s')" "array_state_ok content capacity built s'"
      using s by (cases "as_index s") (auto simp: once_built_def act_return_def array_state_ok_def)
    then show ?thesis using assms(1) [OF Inr] unfolding reads_as_def act_bind_def by simp
  qed
qed

section \<open>Through the walk\<close>

context chunk_store
begin

lemma walk_act_loop_reads:
  assumes ne: "cg_shape g \<noteq> []"
    and rd: "\<And>c s buf. c < prod_list (cg_grid g) \<Longrightarrow> s + length buf \<le> cg_chunk_bytes g \<Longrightarrow>
      reads_as I P (rd c s buf) (slice (store c) s (length buf))"
  shows "at + length dst \<le> prod_list (cg_shape g) * cg_itemsize g \<Longrightarrow> length dst \<le> fuel \<Longrightarrow>
    reads_as I P (walk_act_loop fuel g at dst rd) (slice array_bytes at (length dst))"
proof (induction fuel arbitrary: at dst)
  case (Suc fuel)
  show ?case
  proof (cases "dst = []")
    case False
    then obtain c s m where step: "walk_step g at (length dst) = Some (c, s, m)" "0 < m" "m \<le> length dst"
        "c < prod_list (cg_grid g)" "s + m \<le> cg_chunk_bytes g" "slice (store c) s m = slice array_bytes at m"
      using walk_step_correct [OF Suc.prems(1) _ ne] by auto
    have first: "reads_as I P (rd c s (take m dst)) (slice array_bytes at m)"
      using rd [of c s "take m dst"] step by simp
    have "wadd at m = at + m" using Suc.prems(1) step(3) total by (simp add: wadd_eq)
    then have rest: "reads_as I P (walk_act_loop fuel g (wadd at m) (drop m dst) rd) (slice array_bytes (at + m) (length dst - m))"
      using Suc.IH [of "at + m" "drop m dst"] Suc.prems step(2,3) by simp
    have "slice array_bytes at m @ slice array_bytes (at + m) (length dst - m) = slice array_bytes at (length dst)"
      using slice_add [of array_bytes at m "length dst - m"] step(3) by simp
    then have "reads_as I P (act_bind (walk_act_loop fuel g (wadd at m) (drop m dst) rd)
        (\<lambda>rest. act_return (slice array_bytes at m @ rest))) (slice array_bytes at (length dst))"
      by (metis reads_as_bind [OF rest] reads_as_return)
    with first have "reads_as I P (act_bind (rd c s (take m dst)) (\<lambda>out. act_bind (walk_act_loop fuel g (wadd at m) (drop m dst) rd)
        (\<lambda>rest. act_return (out @ rest)))) (slice array_bytes at (length dst))"
      by (rule reads_as_bind)
    then show ?thesis using False step(1) by simp
  qed (simp add: reads_as_return)
qed (simp add: reads_as_return)

lemma walk_act_reads:
  assumes rd: "\<And>c s buf. c < prod_list (cg_grid g) \<Longrightarrow> s + length buf \<le> cg_chunk_bytes g \<Longrightarrow>
      reads_as I P (rd c s buf) (slice (store c) s (length buf))"
    and room: "at + length dst \<le> prod_list (cg_shape g) * cg_itemsize g"
  shows "reads_as I P (walk_act g at dst rd) (slice array_bytes at (length dst))"
proof (cases "cg_shape g = []")
  case True
  then have g: "cg_chunk_shape g = []" "cg_grid g = []" "cg_chunk_bytes g = cg_itemsize g"
    using grid by (simp_all add: grid_ok_def)
  then have "array_bytes = store 0"
    using True chunk_len [of 0] by (simp add: array_bytes_def elem_def chunk_no_def within_def chunk_coords_def
        within_coords_def slice_all) (metis slice_all)
  then show ?thesis using True room g rd [of 0 at dst] by (simp add: walk_act_def)
qed (use rd room in \<open>simp add: walk_act_def walk_act_loop_reads\<close>)

end

text \<open>A grid's chunks as they are stored, read without a cache.\<close>

lemma ideal_store:
  assumes "grid_ok g" "0 < cg_itemsize g" "prod_list (cg_shape g) * cg_itemsize g < U64"
    and "\<And>c. c < prod_list (cg_grid g) \<Longrightarrow> length (store c) = cg_chunk_bytes g"
  shows "chunk_store g store (\<lambda>c s buf. Ok (slice (store c) s (length buf)))"
  using assms by unfold_locales auto

lemma itemsize_U64: "itemsize d < U64" using itemsize_le [of d] by (simp add: U64_def)

lemma chunks_prod: "grid_ok g \<Longrightarrow> chunks g = prod_list (cg_grid g)"
proof -
  assume "grid_ok g"
  then have "prod_list (cg_grid g) < U64" unfolding grid_ok_def by blast
  then show ?thesis by (simp add: chunks_def wprod_mod)
qed

end
