(* ===== verification/Zarr.thy ===== *)
theory Zarr
  imports Zarr_Meta Chunk_Reads Paths "HOL-Library.Char_ord" "HOL-Library.List_Lexorder"
begin

text \<open>
  A Zarr v3 store (\<open>aex-core/src/backends/zarr.rs\<close>): what may be opened in it, its groups and arrays, and reading
  an array's chunks, each from a file of its own or out of a shard. The file system, the deserialiser and the
  decompressors are the arguments in \<open>zarr_env\<close>; nobody writes to the store while it is served, so they do not
  change. Reading is an action on the decode cache and the array's shard index.
\<close>

section \<open>Nothing outside the store\<close>

record zarr_env =
  ze_canonicalize :: canonicalize
  ze_text :: "path \<Rightarrow> io_kind + string"
  ze_read :: "path \<Rightarrow> io_kind + bytes"
  ze_open :: "path \<Rightarrow> io_kind + raw_file"
  ze_dir :: "path \<Rightarrow> io_kind + (io_kind + string option) list"
  ze_serde :: zarr_serde
  ze_codecs :: zarr_codecs
  ze_half :: half_lib
  ze_sole :: "chunk_key \<times> bytes \<Rightarrow> bool"

text \<open>Every component of the name is a normal one; a dot is dropped by \<open>components\<close> except at the start.\<close>

definition store_name :: "string \<Rightarrow> bool" where
  "store_name s \<longleftrightarrow> \<not> fst (path_of s) \<and> ''..'' \<notin> set (snd (path_of s)) \<and> hd (split_path s) \<noteq> ''.''"

definition store_under :: "zarr_env \<Rightarrow> path \<Rightarrow> string \<Rightarrow> aex_error + path option" where
  "store_under env root relative =
     (if \<not> store_name relative then Err MalformedZarr
      else case ze_canonicalize env (path_join root (path_of relative)) of
        Ok p \<Rightarrow> if path_starts_with p root then Ok (Some p) else Err MalformedZarr
      | Err k \<Rightarrow> if k = Io_NotFound then Ok None else Err (AexIo k))"

section \<open>Arrays\<close>

record shard_entry =
  se_offset :: nat
  se_nbytes :: nat

definition SHARD_MISSING :: shard_entry where "SHARD_MISSING = \<lparr>se_offset = U64 - 1, se_nbytes = U64 - 1\<rparr>"

definition is_missing :: "shard_entry \<Rightarrow> bool" where
  "is_missing e \<longleftrightarrow> se_offset e = U64 - 1 \<and> se_nbytes e = U64 - 1"

record sharded =
  sh_shards :: chunk_grid
  sh_inner :: chunk_grid
  sh_codecs :: "chunk_codec list"
  sh_index_bytes :: nat
  sh_index_at_start :: bool
  sh_index_crc32c :: bool

datatype zarr_store = Chunked chunk_grid "chunk_codec list" | Sharded sharded

record zarr_array =
  za_root :: path
  za_prefix :: string
  za_dtype :: dtype
  za_shape :: "nat list"
  za_key :: key_encoding
  za_store :: zarr_store
  za_fill :: bytes
  za_cache_key :: nat

text \<open>The codecs of a shard's index: whether there is a checksum.\<close>

fun index_checksum :: "named list \<Rightarrow> bool \<Rightarrow> aex_error + bool" where
  "index_checksum [] crc = Ok crc"
| "index_checksum (codec # codecs) crc =
     (if nm_name codec = ''bytes'' then index_checksum codecs crc
      else if nm_name codec = ''crc32c'' then index_checksum codecs True
      else Err UnsupportedZarr)"

definition index_location :: "(string \<times> json) list \<Rightarrow> aex_error + bool" where
  "index_location config =
     (case json_get config ''index_location'' of
        None \<Rightarrow> Ok False
      | Some v \<Rightarrow>
          if v = JString ''end'' then Ok False else if v = JString ''start'' then Ok True else Err MalformedZarr)"

definition sharded_new :: "zarr_serde \<Rightarrow> chunk_grid \<Rightarrow> dtype \<Rightarrow> named \<Rightarrow> aex_error + sharded" where
  "sharded_new serde shards d named =
     (let config = nm_configuration named in
      res_bind (ok_or (zs_u64s serde (json_get_or_null config ''chunk_shape'')) MalformedZarr) (\<lambda>chunk_shape.
      res_bind (ok_or (grid_new (cg_chunk_shape shards) chunk_shape (itemsize d)) MalformedZarr) (\<lambda>inner.
        if list_ex (\<lambda>(shard, chunk). shard mod chunk \<noteq> 0) (zip (cg_chunk_shape shards) chunk_shape) then Err MalformedZarr
        else
          res_bind (ok_or (zs_named serde (json_get_or_null config ''codecs'')) MalformedZarr) (\<lambda>codecs.
          res_bind (parse_codecs serde codecs) (\<lambda>codecs.
          res_bind (ok_or (zs_named serde (json_get_or_null config ''index_codecs'')) MalformedZarr) (\<lambda>index_codecs.
          res_bind (index_checksum index_codecs False) (\<lambda>crc.
          res_bind (index_location config) (\<lambda>at_start.
          res_bind (ok_or (cmul (chunks shards) (chunks inner)) MalformedZarr) (\<lambda>entries.
            if entries > MAX_CHUNKS then Err UnsupportedZarr
            else Ok \<lparr>sh_shards = shards, sh_inner = inner, sh_codecs = codecs,
                     sh_index_bytes = wadd (wmul (chunks inner) 16) (if crc then 4 else 0),
                     sh_index_at_start = at_start, sh_index_crc32c = crc\<rparr>)))))))))"

definition store_new :: "zarr_serde \<Rightarrow> chunk_grid \<Rightarrow> dtype \<Rightarrow> named list \<Rightarrow> aex_error + zarr_store" where
  "store_new serde grid d codecs =
     (case sharding_of codecs of
        Some named \<Rightarrow> res_map Sharded (sharded_new serde grid d named)
      | None \<Rightarrow> res_map (Chunked grid) (parse_codecs serde codecs))"

text \<open>The cache hands out its key only when everything else has been accepted.\<close>

definition zarr_array_new ::
    "zarr_env \<Rightarrow> path \<Rightarrow> string \<Rightarrow> array_meta \<Rightarrow> (cache, aex_error, zarr_array) act" where
  "zarr_array_new env root prefix meta c =
     (case
        res_bind (ok_or (json_str (am_data_type meta)) UnsupportedZarr) (\<lambda>name.
        res_bind (ok_or (dtype_from_name name) UnsupportedDType) (\<lambda>d.
          if am_storage_transformers meta \<noteq> [] then Err UnsupportedZarr
          else if nm_name (am_chunk_grid meta) \<noteq> ''regular'' then Err UnsupportedZarr
          else
            res_bind (ok_or (zs_u64s (ze_serde env) (json_get_or_null (nm_configuration (am_chunk_grid meta)) ''chunk_shape''))
              MalformedZarr) (\<lambda>chunk_shape.
            res_bind (ok_or (grid_new (am_shape meta) chunk_shape (itemsize d)) MalformedZarr) (\<lambda>grid.
            res_bind (store_new (ze_serde env) grid d (am_codecs meta)) (\<lambda>store.
            res_bind (key_encoding_of (am_chunk_key_encoding meta)) (\<lambda>key.
            res_bind (fill_bytes (ze_half env) d (am_fill_value meta)) (\<lambda>fill.
              Ok \<lparr>za_root = root, za_prefix = prefix, za_dtype = d, za_shape = am_shape meta, za_key = key,
                  za_store = store, za_fill = fill, za_cache_key = 0\<rparr>)))))))
      of Err e \<Rightarrow> act_throw e c
       | Ok z \<Rightarrow> (case new_key c of (key, c) \<Rightarrow> act_return (z\<lparr>za_cache_key := key\<rparr>) c))"

section \<open>Reading\<close>

definition fill_chunk :: "zarr_array \<Rightarrow> nat \<Rightarrow> bytes" where
  "fill_chunk z chunk_bytes = fill_from (za_fill z) 0 chunk_bytes"

text \<open>A chunk with a file of its own. The buffer the cache lends does not matter to the result.\<close>

definition whole_chunk :: "zarr_env \<Rightarrow> zarr_array \<Rightarrow> chunk_grid \<Rightarrow> chunk_codec list \<Rightarrow> nat \<Rightarrow> aex_error + bytes" where
  "whole_chunk env z grid codecs chunk =
     res_bind (store_under env (za_root z) (key_of (za_prefix z) (za_key z) grid chunk)) (\<lambda>found.
       case found of
         None \<Rightarrow> Ok (fill_chunk z (cg_chunk_bytes grid))
       | Some p \<Rightarrow> res_bind (io (ze_read env p)) (\<lambda>bs. undo (ze_codecs env) codecs bs (cg_chunk_bytes grid)))"

text \<open>
  The index of one shard. The slice of sixteen bytes is inside: an index of more than one shard has at most
  \<open>MAX_CHUNKS\<close> entries, so its length does not wrap.
\<close>

definition entry_at :: "bytes \<Rightarrow> nat \<Rightarrow> shard_entry" where
  "entry_at raw i =
     (let pair = slice raw (i * 16) 16 in \<lparr>se_offset = nat_le (take 8 pair), se_nbytes = nat_le (drop 8 pair)\<rparr>)"

definition check_entry :: "nat \<Rightarrow> shard_entry \<Rightarrow> aex_error + shard_entry" where
  "check_entry len e =
     (if is_missing e then Ok SHARD_MISSING
      else case cadd (se_offset e) (se_nbytes e) of
        None \<Rightarrow> Err MalformedZarr
      | Some stop \<Rightarrow> if stop > len then Err MalformedZarr else Ok e)"

definition shard_index :: "zarr_env \<Rightarrow> zarr_array \<Rightarrow> sharded \<Rightarrow> nat \<Rightarrow> aex_error + shard_entry list" where
  "shard_index env z sh shard =
     (let per_shard = chunks (sh_inner sh) in
      res_bind (store_under env (za_root z) (key_of (za_prefix z) (za_key z) (sh_shards sh) shard)) (\<lambda>found.
        case found of
          None \<Rightarrow> Ok (replicate per_shard SHARD_MISSING)
        | Some p \<Rightarrow>
            res_bind (io (ze_open env p)) (\<lambda>f.
            res_bind (io (rf_len f)) (\<lambda>len.
              if len < sh_index_bytes sh then Err MalformedZarr
              else
                let at = (if sh_index_at_start sh then 0 else len - sh_index_bytes sh) in
                res_bind (io (rf_read_exact_at f at (sh_index_bytes sh))) (\<lambda>raw.
                res_bind (if sh_index_crc32c sh then ok_or (strip_crc32c (ze_codecs env) raw) MalformedZarr else Ok raw) (\<lambda>raw.
                  res_traverse (\<lambda>i. check_entry len (entry_at raw i)) [0..<per_shard]))))))"

definition sharded_index :: "zarr_env \<Rightarrow> zarr_array \<Rightarrow> sharded \<Rightarrow> aex_error + shard_entry list" where
  "sharded_index env z sh = res_map concat (res_traverse (shard_index env z sh) [0..<chunks (sh_shards sh)])"

definition inner_chunk ::
    "zarr_env \<Rightarrow> zarr_array \<Rightarrow> sharded \<Rightarrow> nat \<Rightarrow> shard_entry \<Rightarrow> aex_error + bytes" where
  "inner_chunk env z sh shard e =
     (let chunk_bytes = cg_chunk_bytes (sh_inner sh) in
      if is_missing e then Ok (fill_chunk z chunk_bytes)
      else res_bind (store_under env (za_root z) (key_of (za_prefix z) (za_key z) (sh_shards sh) shard)) (\<lambda>found.
        case found of
          None \<Rightarrow> Ok (fill_chunk z chunk_bytes)
        | Some p \<Rightarrow>
            res_bind (io (ze_open env p)) (\<lambda>f.
            res_bind (io (rf_read_exact_at f (se_offset e) (se_nbytes e))) (\<lambda>bs.
              undo (ze_codecs env) (sh_codecs sh) bs chunk_bytes))))"

definition inner_number :: "sharded \<Rightarrow> nat \<Rightarrow> nat \<Rightarrow> nat" where
  "inner_number sh shard chunk = wadd (wmul shard (chunks (sh_inner sh))) chunk"

definition zarr_read_at :: "zarr_env \<Rightarrow> zarr_array \<Rightarrow> nat \<Rightarrow> bytes \<Rightarrow> (shard_entry array_state, aex_error, bytes) act" where
  "zarr_read_at env z at dst =
     (case za_store z of
        Chunked grid codecs \<Rightarrow>
          walk_act grid at dst (\<lambda>chunk start out.
            on_cache (read_cached (ze_sole env) (za_cache_key z, chunk) start out
              (\<lambda>spare. whole_chunk env z grid codecs chunk)))
      | Sharded sh \<Rightarrow>
          act_bind (once_built (sharded_index env z sh)) (\<lambda>index.
            walk_act (sh_shards sh) at dst (\<lambda>shard in_shard out.
              walk_act (sh_inner sh) in_shard out (\<lambda>chunk start out.
                let n = inner_number sh shard chunk in
                on_cache (read_cached (ze_sole env) (za_cache_key z, n) start out
                  (\<lambda>spare. inner_chunk env z sh shard (index ! n)))))))"

text \<open>The dataset, over the state it finds; \<open>layout\<close> builds the index before it resolves.\<close>

definition zarr_prepare :: "zarr_env \<Rightarrow> zarr_array \<Rightarrow> (shard_entry array_state, aex_error, unit) act" where
  "zarr_prepare env z =
     (case za_store z of
        Chunked _ _ \<Rightarrow> act_return ()
      | Sharded sh \<Rightarrow> act_bind (once_built (sharded_index env z sh)) (\<lambda>_. act_return ()))"

definition zarr_chunk_bytes :: "zarr_array \<Rightarrow> nat" where
  "zarr_chunk_bytes z = (case za_store z of Chunked grid _ \<Rightarrow> cg_chunk_bytes grid | Sharded sh \<Rightarrow> cg_chunk_bytes (sh_inner sh))"

definition zarr_as_dataset :: "zarr_env \<Rightarrow> zarr_array \<Rightarrow> shard_entry array_state \<Rightarrow> dataset" where
  "zarr_as_dataset env z s =
     \<lparr>ds_dtype = za_dtype z, ds_shape = za_shape z,
      ds_read = (\<lambda>at n. result_of (zarr_read_at env z at (replicate n 0)) s),
      ds_decoded_chunk_bytes = Some (zarr_chunk_bytes z), ds_prepare = result_of (zarr_prepare env z) s\<rparr>"

section \<open>The file\<close>

definition METADATA :: string where "METADATA = ''zarr.json''"

record zarr_file =
  zf_root :: path
  zf_cache :: cache
  zf_arrays :: "(string \<times> zarr_array) list"

definition zarr_node_at :: "zarr_env \<Rightarrow> path \<Rightarrow> string \<Rightarrow> aex_error + zarr_node option" where
  "zarr_node_at env root path =
     (let key = (if path = [] then METADATA else path @ ''/'' @ METADATA) in
      res_bind (store_under env root key) (\<lambda>found.
        case found of
          None \<Rightarrow> Ok None
        | Some f \<Rightarrow>
            res_bind (io (ze_text env f)) (\<lambda>text.
            res_bind (ok_or (zs_node (ze_serde env) text) MalformedZarr) (\<lambda>n.
              res_map (\<lambda>_. Some n) (node_check n)))))"

definition zarr_open :: "zarr_env \<Rightarrow> path \<Rightarrow> cache \<Rightarrow> aex_error + zarr_file" where
  "zarr_open env p c =
     res_bind (io (ze_canonicalize env p)) (\<lambda>root.
     res_bind (zarr_node_at env root []) (\<lambda>n.
       if n = None then Err UnsupportedZarr else Ok \<lparr>zf_root = root, zf_cache = c, zf_arrays = []\<rparr>))"

text \<open>An array is opened once per path.\<close>

definition zarr_array_at :: "zarr_env \<Rightarrow> string \<Rightarrow> array_meta \<Rightarrow> (zarr_file, aex_error, zarr_array) act" where
  "zarr_array_at env path meta f =
     (case map_of (zf_arrays f) path of
        Some z \<Rightarrow> act_return z f
      | None \<Rightarrow>
          (case zarr_array_new env (zf_root f) path meta (zf_cache f) of
             (Some (Ok z), c) \<Rightarrow> act_return z (f\<lparr>zf_cache := c, zf_arrays := (path, z) # zf_arrays f\<rparr>)
           | (Some (Err e), c) \<Rightarrow> act_throw e (f\<lparr>zf_cache := c\<rparr>)
           | (None, c) \<Rightarrow> act_panic f))"

definition zarr_item :: "zarr_env \<Rightarrow> string \<Rightarrow> zarr_node \<Rightarrow> (zarr_file, aex_error, item) act" where
  "zarr_item env path n =
     (case n of
        Zarr_Group _ \<Rightarrow> act_return Group
      | Zarr_Array meta \<Rightarrow>
          act_bind (zarr_array_at env path meta) (\<lambda>z f.
            act_return (Dataset (zarr_as_dataset env z \<lparr>as_cache = zf_cache f, as_index = None\<rparr>)) f))"

definition zarr_get_item :: "zarr_env \<Rightarrow> string \<Rightarrow> (zarr_file, aex_error, item) act" where
  "zarr_get_item env path f =
     (let path = normalize_path path in
      case zarr_node_at env (zf_root f) path of
        Err e \<Rightarrow> act_throw e f
      | Ok None \<Rightarrow> act_throw NotFound f
      | Ok (Some n) \<Rightarrow> zarr_item env path n f)"

text \<open>The children that can be served, in the order of the directory.\<close>

definition zarr_child :: "zarr_env \<Rightarrow> string \<Rightarrow> string \<Rightarrow> (zarr_file, aex_error, (string \<times> item) list) act" where
  "zarr_child env path name f =
     (let child = child_path path name in
      case zarr_node_at env (zf_root f) child of
        Ok (Some n) \<Rightarrow>
          act_bind (act_attempt (zarr_item env child n)) (\<lambda>found.
            act_return (case found of Some it \<Rightarrow> [(name, it)] | None \<Rightarrow> [])) f
      | _ \<Rightarrow> act_return [] f)"

fun zarr_children :: "zarr_env \<Rightarrow> string \<Rightarrow> (io_kind + string option) list \<Rightarrow> (zarr_file, aex_error, (string \<times> item) list) act" where
  "zarr_children env path [] = act_return []"
| "zarr_children env path (entry # entries) =
     (case entry of
        Err k \<Rightarrow> act_throw (AexIo k)
      | Ok None \<Rightarrow> zarr_children env path entries
      | Ok (Some name) \<Rightarrow>
          act_bind (zarr_child env path name) (\<lambda>here.
          act_bind (zarr_children env path entries) (\<lambda>rest. act_return (here @ rest))))"

definition zarr_list_children :: "zarr_env \<Rightarrow> string \<Rightarrow> (zarr_file, aex_error, (string \<times> item) list) act" where
  "zarr_list_children env path f =
     (let path = normalize_path path in
      case zarr_node_at env (zf_root f) path of
        Err e \<Rightarrow> act_throw e f
      | Ok None \<Rightarrow> act_throw NotFound f
      | Ok (Some (Zarr_Array _)) \<Rightarrow> act_throw NotAGroup f
      | Ok (Some (Zarr_Group _)) \<Rightarrow>
          (case store_under env (zf_root f) path of
             Err e \<Rightarrow> act_throw e f
           | Ok None \<Rightarrow> act_throw NotFound f
           | Ok (Some dir) \<Rightarrow>
               act_bind (act_of (io (ze_dir env dir))) (\<lambda>entries.
               act_bind (zarr_children env path entries) (\<lambda>children. act_return (sort_key fst children))) f))"

definition zarr_attrs :: "zarr_env \<Rightarrow> zarr_file \<Rightarrow> string \<Rightarrow> aex_error + (string \<times> attr_value) list" where
  "zarr_attrs env f path =
     (let path = normalize_path path in
      res_bind (zarr_node_at env (zf_root f) path) (\<lambda>found.
        case found of
          None \<Rightarrow> Err NotFound
        | Some n \<Rightarrow>
            Ok (sort_key fst
              (List.map_filter (\<lambda>(name, v). map_option (Pair name) (zarr_attr_value v)) (node_attributes n)))))"

end
