(* ===== verification/Zarr_Correct.thy ===== *)
theory Zarr_Correct
  imports Zarr
begin

text \<open>
  What a Zarr store is shown to do: attributes are rectangular, chunk keys tell chunks apart and stay inside,
  fill values have the size of an element, codec chains are undone, and reading an array gives the bytes its
  chunks decode to, whatever the cache holds.
\<close>

section \<open>Attributes are rectangular\<close>

text \<open>A nested list has the shape \<open>ns\<close> when every list at a depth has as many items as that axis is long.\<close>

fun rectangular :: "json \<Rightarrow> nat list \<Rightarrow> bool" where
  "rectangular (JArray items) [] = False"
| "rectangular (JArray items) (n # ns) = (length items = n \<and> (\<forall>v \<in> set items. rectangular v ns))"
| "rectangular v ns = (ns = [] \<and> (is_boolean v \<or> is_number v))"

fun leaves_of :: "json \<Rightarrow> json list" where
  "leaves_of (JArray items) = concat (map leaves_of items)"
| "leaves_of v = [v]"

lemma length_leaves_of: "rectangular v ns \<Longrightarrow> length (leaves_of v) = prod_list ns"
proof (induction v ns rule: rectangular.induct)
  case (2 items n ns)
  then have "map (\<lambda>v. length (leaves_of v)) items = map (\<lambda>_. prod_list ns) items" by (intro map_cong) auto
  then show ?case using 2(2) by (simp add: length_concat comp_def map_replicate_const sum_list_replicate)
qed (auto simp: is_boolean_def)

text \<open>What \<open>flatten\<close> has done: the shape has only grown, the depth of leaves is set once.\<close>

definition flat_grows :: "flat \<Rightarrow> flat \<Rightarrow> bool" where
  "flat_grows ft ft' \<longleftrightarrow>
     (\<exists>ns. ft_shape ft' = ft_shape ft @ ns) \<and> (\<forall>d. ft_leaf_depth ft = Some d \<longrightarrow> ft_leaf_depth ft' = Some d)"

lemma flat_grows_refl [simp]: "flat_grows ft ft" by (simp add: flat_grows_def)

lemma flat_grows_trans: "flat_grows a b \<Longrightarrow> flat_grows b c \<Longrightarrow> flat_grows a c"
  by (auto simp: flat_grows_def)

lemma flatten_leaf_Some:
  "flatten_leaf v depth ft = Some ft' \<Longrightarrow>
   flat_grows ft ft' \<and> ft_shape ft' = ft_shape ft \<and> ft_leaves ft' = ft_leaves ft @ [v] \<and> ft_leaf_depth ft' = Some depth"
  by (auto simp: flatten_leaf_def flat_grows_def split: option.splits if_splits)

lemma flatten_grows:
  "flatten v depth ft = Some ft' \<Longrightarrow> flat_grows ft ft'"
  "flatten_all vs depth ft = Some ft' \<Longrightarrow> flat_grows ft ft'"
proof (induction v depth ft and vs depth ft arbitrary: ft' and ft' rule: flatten_flatten_all.induct)
  case (1 items depth ft)
  show ?case
  proof (cases "depth = length (ft_shape ft)")
    case True
    then have "flat_grows (ft\<lparr>ft_shape := ft_shape ft @ [length items]\<rparr>) ft'" using 1 by simp
    then show ?thesis by (auto simp: flat_grows_def)
  qed (use 1 in \<open>auto split: if_splits\<close>)
qed (auto dest: flatten_leaf_Some intro: flat_grows_trans split: bind_splits)

lemma flatten_array_Some:
  assumes "flatten (JArray items) depth ft = Some ft'" "depth \<le> length (ft_shape ft)"
  defines "seen \<equiv> if depth = length (ft_shape ft) then ft\<lparr>ft_shape := ft_shape ft @ [length items]\<rparr> else ft"
  shows "flatten_all items (depth + 1) seen = Some ft'" "depth < length (ft_shape seen)" "ft_shape seen ! depth = length items"
  using assms by (simp_all split: if_splits)

text \<open>Against the final shape \<open>S\<close>, with all leaves at its depth, what was flattened is rectangular.\<close>

lemma flatten_rectangular:
  assumes depths: "\<And>d. D = Some d \<Longrightarrow> d = length S"
  shows "flatten v depth ft = Some ft' \<Longrightarrow> depth \<le> length (ft_shape ft) \<Longrightarrow> (\<exists>ns. S = ft_shape ft' @ ns) \<Longrightarrow>
      (\<forall>d. ft_leaf_depth ft' = Some d \<longrightarrow> D = Some d) \<Longrightarrow>
      rectangular v (drop depth S) \<and> ft_leaves ft' = ft_leaves ft @ leaves_of v"
    and "flatten_all vs depth ft = Some ft' \<Longrightarrow> depth \<le> length (ft_shape ft) \<Longrightarrow> (\<exists>ns. S = ft_shape ft' @ ns) \<Longrightarrow>
      (\<forall>d. ft_leaf_depth ft' = Some d \<longrightarrow> D = Some d) \<Longrightarrow>
      (\<forall>v \<in> set vs. rectangular v (drop depth S)) \<and> ft_leaves ft' = ft_leaves ft @ concat (map leaves_of vs)"
proof (induction v depth ft and vs depth ft arbitrary: ft' and ft' rule: flatten_flatten_all.induct)
  case (1 items depth ft)
  let ?ft = "if depth = length (ft_shape ft) then ft\<lparr>ft_shape := ft_shape ft @ [length items]\<rparr> else ft"
  have all: "flatten_all items (depth + 1) ?ft = Some ft'" and at: "depth < length (ft_shape ?ft)" "ft_shape ?ft ! depth = length items"
    using flatten_array_Some [OF "1.prems"(1,2)] by simp_all
  have rest: "(\<forall>v \<in> set items. rectangular v (drop (depth + 1) S)) \<and> ft_leaves ft' = ft_leaves ?ft @ concat (map leaves_of items)"
  proof (cases "depth = length (ft_shape ft)")
    case True
    from "1.IH"(1) [OF True _ _ "1.prems"(3,4)] show ?thesis using True all by simp
  next
    case False
    then have "\<not> ft_shape ft ! depth \<noteq> length items" using at(2) by simp
    from "1.IH"(2) [OF False this _ _ "1.prems"(3,4)] show ?thesis using all at(1) False by simp
  qed
  obtain ns ms where "S = ft_shape ft' @ ns" "ft_shape ft' = ft_shape ?ft @ ms"
    using "1.prems"(3) flatten_grows(2) [OF all] by (auto simp: flat_grows_def)
  then have "drop depth S = length items # drop (depth + 1) S"
    using at by (simp add: Cons_nth_drop_Suc [symmetric] nth_append)
  then have "rectangular (JArray items) (drop depth S)" using rest by (simp only: rectangular.simps simp_thms) blast
  moreover have "ft_leaves ?ft = ft_leaves ft" by simp
  then have "ft_leaves ft' = ft_leaves ft @ leaves_of (JArray items)" using rest by (simp only: leaves_of.simps)
  ultimately show ?case by (rule conjI)
next
  case (8 v vs depth ft)
  from "8.prems"(1) obtain mid where mid: "flatten v depth ft = Some mid" "flatten_all vs depth mid = Some ft'"
    by (cases "flatten v depth ft") simp_all
  from flatten_grows(2) [OF mid(2)] obtain ms where ms: "ft_shape ft' = ft_shape mid @ ms"
    "\<forall>d. ft_leaf_depth mid = Some d \<longrightarrow> ft_leaf_depth ft' = Some d" by (auto simp: flat_grows_def)
  from flatten_grows(1) [OF mid(1)] have "length (ft_shape ft) \<le> length (ft_shape mid)" by (auto simp: flat_grows_def)
  then have deep: "depth \<le> length (ft_shape mid)" using "8.prems"(2) by simp
  have "\<exists>ns. S = ft_shape mid @ ns" "\<forall>d. ft_leaf_depth mid = Some d \<longrightarrow> D = Some d"
    using "8.prems"(3,4) ms by auto
  from "8.IH"(1) [OF mid(1) "8.prems"(2) this] "8.IH"(2) [OF mid(1) mid(2) deep "8.prems"(3,4)]
  show ?case by simp
next
  case (2 b depth ft)
  then have "flatten_leaf (JBool b) depth ft = Some ft'" by simp
  note leaf = flatten_leaf_Some [OF this]
  then have "depth = length S" using "2.prems"(4) depths by simp
  then show ?case using leaf by (simp add: is_boolean_def)
next
  case (3 n depth ft)
  then have "flatten_leaf (JNumber n) depth ft = Some ft'" by simp
  note leaf = flatten_leaf_Some [OF this]
  then have "depth = length S" using "3.prems"(4) depths by simp
  then show ?case using leaf by simp
qed simp_all

lemma flatten_whole:
  assumes "flatten v 0 flat_empty = Some ft" "\<And>d. ft_leaf_depth ft = Some d \<Longrightarrow> d = length (ft_shape ft)"
  shows "rectangular v (ft_shape ft) \<and> ft_leaves ft = leaves_of v"
  using flatten_rectangular(1) [of "ft_leaf_depth ft" "ft_shape ft" v 0 flat_empty ft] assms by (simp add: flat_empty_def)

lemma length_leaf_bytes:
  "leaf_bytes d v = Some bs \<Longrightarrow> d \<in> {Bool, Int64, Float64} \<Longrightarrow> length bs = itemsize d"
  by (auto simp: leaf_bytes_def split: if_splits)

lemma leaves_dtype_cases: "leaves_dtype leaves = Some d \<Longrightarrow> d \<in> {Bool, Int64, Float64}"
  by (auto simp: leaves_dtype_def split: if_splits)

lemma attr_array_Some:
  assumes "attr_array ft = Some (Array d shape bs)"
  shows "shape = ft_shape ft" "leaves_dtype (ft_leaves ft) = Some d" "\<And>depth. ft_leaf_depth ft = Some depth \<Longrightarrow> depth = length shape"
    "\<exists>parts. traverse_opt (leaf_bytes d) (ft_leaves ft) = Some parts \<and> bs = concat parts"
    "wmul (length (ft_leaves ft)) (itemsize d) \<le> MAX_ATTR_BYTES"
  using assms by (auto simp: attr_array_def split: bind_splits if_splits option.splits)

lemma attr_value_flattened:
  "zarr_attr_value v = Some (Array d shape bs) \<Longrightarrow> \<exists>ft. flatten v 0 flat_empty = Some ft \<and> attr_array ft = Some (Array d shape bs)"
  by (auto simp: zarr_attr_value_def simp del: flatten.simps split: json.splits bind_splits if_splits)

lemma attr_array_sized:
  assumes "zarr_attr_value v = Some (Array d shape bs)"
  shows "rectangular v shape \<and> length bs = prod_list shape * itemsize d
    \<and> (\<exists>parts. list_all2 (\<lambda>leaf part. leaf_bytes d leaf = Some part) (leaves_of v) parts \<and> bs = concat parts)"
proof -
  obtain ft where ft: "flatten v 0 flat_empty = Some ft" "attr_array ft = Some (Array d shape bs)"
    using attr_value_flattened [OF assms] by blast
  note arr = attr_array_Some [OF ft(2)]
  obtain parts where parts: "traverse_opt (leaf_bytes d) (ft_leaves ft) = Some parts" "bs = concat parts" using arr(4) by blast
  have r: "rectangular v shape" "ft_leaves ft = leaves_of v" using flatten_whole [OF ft(1)] arr(1,3) by auto
  have all: "list_all2 (\<lambda>leaf part. leaf_bytes d leaf = Some part) (leaves_of v) parts"
    using parts(1) by (simp add: traverse_opt_Some r(2))
  then have "\<forall>part \<in> set parts. length part = itemsize d"
    using leaves_dtype_cases [OF arr(2)] length_leaf_bytes by (fastforce simp: list_all2_conv_all_nth in_set_conv_nth)
  then have "length bs = length parts * itemsize d"
    unfolding parts(2) by (induction parts) simp_all
  then show ?thesis using r(1) all parts(2) length_leaves_of [OF r(1)] by (auto dest: list_all2_lengthD)
qed

section \<open>Chunk keys\<close>

definition is_digit :: "char \<Rightarrow> bool" where "is_digit c \<longleftrightarrow> (\<exists>d < 10 :: nat. c = char_of (48 + d))"

lemma of_digit_char: "d < 10 \<Longrightarrow> of_char (char_of (48 + d :: nat) :: char) = 48 + d"
  by simp

lemma digit_char_inject: "a < 10 \<Longrightarrow> b < 10 \<Longrightarrow> (char_of (48 + a :: nat) :: char) = char_of (48 + b) \<Longrightarrow> a = b"
  using of_digit_char [of a] of_digit_char [of b] by simp

lemma decimal_digits: "\<forall>c \<in> set (decimal n). is_digit c"
proof (induction n rule: decimal.induct)
  case (1 n)
  have "is_digit (char_of (48 + n mod 10))" unfolding is_digit_def by (intro exI [of _ "n mod 10"]) simp
  moreover have "n < 10 \<Longrightarrow> is_digit (char_of (48 + n))" unfolding is_digit_def by blast
  ultimately show ?case using 1 by (subst decimal.simps) auto
qed

lemma decimal_cases:
  "n < 10 \<Longrightarrow> decimal n = [char_of (48 + n)]"
  "10 \<le> n \<Longrightarrow> decimal n = decimal (n div 10) @ [char_of (48 + n mod 10)]"
  by (subst decimal.simps, simp)+

lemma decimal_ne [simp]: "decimal n \<noteq> []"
  by (subst decimal.simps) simp

lemma decimal_inject: "decimal m = decimal n \<Longrightarrow> m = n"
proof (induction m arbitrary: n rule: decimal.induct)
  case (1 m)
  consider (small) "m < 10" "n < 10" | (left) "m < 10" "10 \<le> n" | (right) "10 \<le> m" "n < 10" | (big) "10 \<le> m" "10 \<le> n"
    by linarith
  then show ?case
  proof cases
    case small
    then show ?thesis using "1.prems" digit_char_inject [OF small] by (simp only: decimal_cases list.inject simp_thms)
  next
    case left
    then have "length (decimal (n div 10)) = 0" using arg_cong [OF "1.prems", of length] by (simp add: decimal_cases)
    then show ?thesis by simp
  next
    case right
    then have "length (decimal (m div 10)) = 0" using arg_cong [OF "1.prems", of length] by (simp add: decimal_cases)
    then show ?thesis by simp
  next
    case big
    then have "decimal (m div 10) = decimal (n div 10) \<and> (char_of (48 + m mod 10) :: char) = char_of (48 + n mod 10)"
      using "1.prems" by (simp only: decimal_cases append1_eq_conv)
    then have "m div 10 = n div 10" "m mod 10 = n mod 10"
      using "1.IH" [of "n div 10"] big digit_char_inject [of "m mod 10" "n mod 10"] by auto
    then show ?thesis by (metis div_mult_mod_eq)
  qed
qed

text \<open>Digits followed by nothing, or by a character that is no digit, can be told apart.\<close>

lemma digits_then:
  assumes "\<forall>c \<in> set ds. is_digit c" "\<forall>c \<in> set es. is_digit c" "ds @ xs = es @ ys"
    and "xs = [] \<or> \<not> is_digit (hd xs)" "ys = [] \<or> \<not> is_digit (hd ys)"
  shows "ds = es \<and> xs = ys"
proof -
  have "takeWhile is_digit (ds @ xs) = ds" "takeWhile is_digit (es @ ys) = es"
    using assms(1,2,4,5) by (cases xs; cases ys; simp add: takeWhile_append2)+
  then show ?thesis using assms(3) by simp
qed

lemma separated_inject:
  assumes "\<not> is_digit sep"
  shows "length as = length bs \<Longrightarrow> concat (map (\<lambda>c. sep # decimal c) as) = concat (map (\<lambda>c. sep # decimal c) bs) \<Longrightarrow> as = bs"
proof (induction as bs rule: list_induct2)
  case (Cons a as b bs)
  have edge: "concat (map (\<lambda>c. sep # decimal c) cs) = [] \<or> \<not> is_digit (hd (concat (map (\<lambda>c. sep # decimal c) cs)))" for cs
    using assms by (cases cs) simp_all
  have "decimal a = decimal b \<and> concat (map (\<lambda>c. sep # decimal c) as) = concat (map (\<lambda>c. sep # decimal c) bs)"
    using digits_then [OF decimal_digits decimal_digits _ edge edge] Cons.prems by simp
  then show ?case using Cons.IH decimal_inject by blast
qed simp

lemma joined_separated: "ws \<noteq> [] \<Longrightarrow> sep # joined sep ws = concat (map ((#) sep) ws)"
  by (induction sep ws rule: joined.induct) simp_all

lemma chunk_key_inject:
  assumes sep: "\<not> is_digit (ke_separator ke)" and len: "length as = length bs" and eq: "chunk_key_of ke as = chunk_key_of ke bs"
  shows "as = bs"
proof (cases "as = []")
  case True
  then show ?thesis using len by simp
next
  case False
  then have ne: "as \<noteq> []" "bs \<noteq> []" using len by auto
  have sepd: "concat (map (\<lambda>c. ke_separator ke # decimal c) cs) = ke_separator ke # joined (ke_separator ke) (map decimal cs)"
    if "cs \<noteq> []" for cs
    using that joined_separated [of "map decimal cs" "ke_separator ke"] by (simp add: comp_def)
  have "concat (map (\<lambda>c. ke_separator ke # decimal c) as) = concat (map (\<lambda>c. ke_separator ke # decimal c) bs)"
    using eq ne by (cases "ke_prefix ke") (simp_all add: chunk_key_of_def sepd)
  then show ?thesis by (rule separated_inject [OF sep len])
qed

lemma key_encoding_separator:
  assumes "key_encoding_of named = Ok ke"
  shows "ke_separator ke \<in> {CHR ''/'', CHR ''.''}"
proof (cases named)
  case (Some n)
  have "default \<in> {CHR ''/'', CHR ''.''}"
    if "(if nm_name n = ''default'' then Ok (True, CHR ''/'') else if nm_name n = ''v2'' then Ok (False, CHR ''.'') else Err UnsupportedZarr)
      = Ok (with_prefix, default)" for with_prefix default
    using that by (simp split: if_splits)
  then show ?thesis using assms unfolding key_encoding_of_def Some option.case res_bind_Ok
    by (force simp: res_map_Ok split: option.splits if_splits)
qed (use assms in \<open>auto simp: key_encoding_of_def\<close>)

lemma separator_no_digit: "c \<in> {CHR ''/'', CHR ''.''} \<Longrightarrow> \<not> is_digit c"
proof -
  assume "c \<in> {CHR ''/'', CHR ''.''}"
  then have c: "of_char c = (47 :: nat) \<or> of_char c = (46 :: nat)" by auto
  show ?thesis
  proof
    assume "is_digit c"
    then obtain d :: nat where "d < 10" "c = char_of (48 + d)" by (auto simp: is_digit_def)
    then have "of_char c = 48 + d" by simp
    then show False using c by simp
  qed
qed

lemma key_of_inject:
  assumes "grid_ok g" "\<not> is_digit (ke_separator ke)" "m < prod_list (cg_grid g)" "n < prod_list (cg_grid g)"
    and "key_of prefix ke g m = key_of prefix ke g n"
  shows "m = n"
proof -
  have co: "coords_of g k = unravel (cg_grid g) k" for k by (simp add: coords_of_def unravel_loop)
  have "chunk_key_of ke (coords_of g m) = chunk_key_of ke (coords_of g n)" using assms(5) by (simp add: key_of_def)
  then have "unravel (cg_grid g) m = unravel (cg_grid g) n" using chunk_key_inject [OF assms(2)] by (simp add: co)
  then show ?thesis using ravel_unravel [of "cg_grid g"] assms(3,4) by (metis mod_less)
qed

section \<open>Fill values\<close>

lemma int_bytes_length: "int_bytes d i = Some bs \<Longrightarrow> length bs = itemsize d"
  by (auto simp: int_bytes_def split: option.splits if_splits)

text \<open>The bytes of an integer are the ones it is read from.\<close>

lemma int_bytes_value:
  "int_bytes d i = Some bs \<Longrightarrow> int (nat_le bs) mod 2 ^ (8 * itemsize d) = i mod 2 ^ (8 * itemsize d)"
  by (auto simp: int_bytes_def nat_le_le_nat byte_power zmod_int split: option.splits if_splits)

lemma float_fill_length: "float_fill half d v = Ok bs \<Longrightarrow> d \<in> {Float16, Float32, Float64} \<Longrightarrow> length bs = itemsize d"
  by (cases d) (auto simp: float_fill_def res_map_Ok split: option.splits if_splits)

lemma real_fill_length:
  assumes "real_fill half d v = Ok bs" "v = JNull \<or> d \<notin> {Complex64, Complex128}"
  shows "length bs = itemsize d"
  using assms int_bytes_length float_fill_length
  by (auto simp: real_fill_def res_bind_Ok split: if_splits)

lemma fill_bytes_length:
  assumes "fill_bytes half d v = Ok bs"
  shows "length bs = itemsize d"
proof (cases "v \<noteq> JNull \<and> d \<in> {Complex64, Complex128}")
  case True
  define part where "part = (if d = Complex64 then Float32 else Float64)"
  obtain re im x y where "json_array v = Some [re, im]" "real_fill half part re = Ok x" "real_fill half part im = Ok y" "bs = x @ y"
    using assms True by (auto simp: fill_bytes_def part_def [symmetric] res_bind_Ok res_map_Ok Let_def split: option.splits list.splits)
  moreover from this have "length x = itemsize part" "length y = itemsize part"
    using real_fill_length by (auto simp: part_def split: if_splits)
  ultimately show ?thesis using True by (auto simp: part_def split: if_splits)
qed (use assms real_fill_length in \<open>auto simp: fill_bytes_def\<close>)

section \<open>Codec chains\<close>

text \<open>Writing: what a chain makes of a chunk, given the compressors.\<close>

fun encode_one :: "(bytes \<Rightarrow> bytes) \<Rightarrow> (bytes \<Rightarrow> bytes) \<Rightarrow> (bytes \<Rightarrow> u32) \<Rightarrow> chunk_codec \<Rightarrow> bytes \<Rightarrow> bytes" where
  "encode_one gzip zstd crc Zarr_Gzip bs = gzip bs"
| "encode_one gzip zstd crc Zarr_Zstd bs = zstd bs"
| "encode_one gzip zstd crc Zarr_Crc32c bs = bs @ to_le (crc bs)"

definition encode_chain :: "(bytes \<Rightarrow> bytes) \<Rightarrow> (bytes \<Rightarrow> bytes) \<Rightarrow> (bytes \<Rightarrow> u32) \<Rightarrow> chunk_codec list \<Rightarrow> bytes \<Rightarrow> bytes" where
  "encode_chain gzip zstd crc codecs bs = foldl (\<lambda>bs codec. encode_one gzip zstd crc codec bs) bs codecs"

definition codec_laws :: "zarr_codecs \<Rightarrow> (bytes \<Rightarrow> bytes) \<Rightarrow> (bytes \<Rightarrow> bytes) \<Rightarrow> bool" where
  "codec_laws zc gzip zstd \<longleftrightarrow>
     (\<forall>bs. zc_gunzip zc (gzip bs) = (bs, True))
     \<and> (\<forall>bs n. zc_unzstd zc (zstd bs) n = (if length bs \<le> n then Some bs else None))"

lemma strip_crc32c_appended [simp]: "strip_crc32c zc (bs @ to_le (zc_crc32c zc bs)) = Some bs"
  by (simp add: strip_crc32c_def)

lemma undo_one_encoded:
  assumes "codec_laws zc gzip zstd" "codec = Zarr_Crc32c \<or> length bs \<le> chunk_bytes"
  shows "undo_one zc chunk_bytes codec (encode_one gzip zstd (zc_crc32c zc) codec bs) = Ok bs"
  using assms by (cases codec) (auto simp: codec_laws_def ungzip_def unzstd_def)

text \<open>A chain with at most one compressor, which comes first, is undone.\<close>

lemma checksums_undone:
  assumes "codec_laws zc gzip zstd" "set codecs \<subseteq> {Zarr_Crc32c}"
  shows "undo_all zc chunk_bytes (rev codecs @ rest) (encode_chain gzip zstd (zc_crc32c zc) codecs bs) = undo_all zc chunk_bytes rest bs"
  using assms(2)
proof (induction codecs arbitrary: rest rule: rev_induct)
  case (snoc codec codecs)
  then have "codec = Zarr_Crc32c" by simp
  then have "undo_one zc chunk_bytes codec (encode_one gzip zstd (zc_crc32c zc) codec (encode_chain gzip zstd (zc_crc32c zc) codecs bs))
      = Ok (encode_chain gzip zstd (zc_crc32c zc) codecs bs)"
    using undo_one_encoded [OF assms(1)] by simp
  then show ?case using snoc by (simp add: encode_chain_def)
qed (simp add: encode_chain_def)

lemma undo_encoded:
  assumes laws: "codec_laws zc gzip zstd" and tail: "set (tl codecs) \<subseteq> {Zarr_Crc32c}"
  shows "undo zc codecs (encode_chain gzip zstd (zc_crc32c zc) codecs bs) (length bs) = Ok bs"
proof (cases codecs)
  case Nil
  then show ?thesis by (simp add: undo_def encode_chain_def)
next
  case (Cons codec rest)
  have "encode_chain gzip zstd (zc_crc32c zc) codecs bs
      = encode_chain gzip zstd (zc_crc32c zc) rest (encode_one gzip zstd (zc_crc32c zc) codec bs)"
    by (simp add: Cons encode_chain_def)
  then have "undo_all zc (length bs) (rev codecs) (encode_chain gzip zstd (zc_crc32c zc) codecs bs) = Ok bs"
    using checksums_undone [OF laws, of rest "length bs" "[codec]"] tail undo_one_encoded [OF laws] Cons by simp
  then show ?thesis by (simp add: undo_def)
qed

lemma undo_length: "undo zc codecs bs n = Ok out \<Longrightarrow> length out = n"
  by (auto simp: undo_def res_bind_Ok split: if_splits)

text \<open>A checksum under a compressor is a chain the specification allows, and no chunk of it can be read.\<close>

lemma checksum_under_zstd:
  assumes "codec_laws zc gzip zstd"
  shows "undo zc [Zarr_Crc32c, Zarr_Zstd] (encode_chain gzip zstd (zc_crc32c zc) [Zarr_Crc32c, Zarr_Zstd] bs) (length bs) = Err MalformedZarr"
  using assms by (simp add: undo_def encode_chain_def unzstd_def codec_laws_def)

end
