(* ===== verification/Zarr_Read.thy ===== *)
theory Zarr_Read
  imports Zarr_Correct
begin

text \<open>
  Reading a Zarr array: the bytes it gives are those its chunks decode to, whatever is in the cache and whoever
  fills it (\<open>zarr_reads\<close>), and nothing it does depends on a file outside the store (\<open>store_agree_read\<close>).
\<close>

section \<open>What opening an array establishes\<close>

definition sharded_ok :: "zarr_array \<Rightarrow> sharded \<Rightarrow> bool" where
  "sharded_ok z sh \<longleftrightarrow>
     grid_ok (sh_shards sh) \<and> cg_shape (sh_shards sh) = za_shape z \<and> cg_itemsize (sh_shards sh) = itemsize (za_dtype z)
     \<and> grid_ok (sh_inner sh) \<and> cg_shape (sh_inner sh) = cg_chunk_shape (sh_shards sh)
     \<and> cg_itemsize (sh_inner sh) = itemsize (za_dtype z)
     \<and> list_all2 (\<lambda>shard chunk. chunk dvd shard) (cg_chunk_shape (sh_shards sh)) (cg_chunk_shape (sh_inner sh))
     \<and> prod_list (cg_grid (sh_shards sh)) * prod_list (cg_grid (sh_inner sh)) \<le> MAX_CHUNKS"

definition za_ok :: "zarr_array \<Rightarrow> bool" where
  "za_ok z \<longleftrightarrow>
     length (za_fill z) = itemsize (za_dtype z) \<and> ke_separator (za_key z) \<in> {CHR ''/'', CHR ''.''}
     \<and> (case za_store z of
          Chunked g _ \<Rightarrow> grid_ok g \<and> cg_shape g = za_shape z \<and> cg_itemsize g = itemsize (za_dtype z)
        | Sharded sh \<Rightarrow> sharded_ok z sh)"

lemma sharded_new_ok:
  assumes "sharded_new serde shards d named = Ok sh" "grid_ok shards"
  shows "sh_shards sh = shards" "grid_ok (sh_inner sh)" "cg_shape (sh_inner sh) = cg_chunk_shape shards"
    "cg_itemsize (sh_inner sh) = itemsize d"
    "list_all2 (\<lambda>shard chunk. chunk dvd shard) (cg_chunk_shape shards) (cg_chunk_shape (sh_inner sh))"
    "prod_list (cg_grid shards) * prod_list (cg_grid (sh_inner sh)) \<le> MAX_CHUNKS"
proof -
  obtain chunk_shape inner entries where inner: "grid_new (cg_chunk_shape shards) chunk_shape (itemsize d) = Some inner"
    and even: "\<not> list_ex (\<lambda>(shard, chunk). shard mod chunk \<noteq> 0) (zip (cg_chunk_shape shards) chunk_shape)"
    and entries: "cmul (chunks shards) (chunks inner) = Some entries" "entries \<le> MAX_CHUNKS"
    and sh: "sh_shards sh = shards" "sh_inner sh = inner"
    using assms(1) by (auto simp: sharded_new_def res_bind_Ok Let_def not_less split: if_splits)
  note ok = grid_new_ok [OF inner itemsize_U64]
  show "sh_shards sh = shards" "grid_ok (sh_inner sh)" "cg_shape (sh_inner sh) = cg_chunk_shape shards"
    "cg_itemsize (sh_inner sh) = itemsize d"
    using ok sh by simp_all
  have "length chunk_shape = length (cg_chunk_shape shards)" using ok by (simp add: grid_ok_def)
  then show "list_all2 (\<lambda>shard chunk. chunk dvd shard) (cg_chunk_shape shards) (cg_chunk_shape (sh_inner sh))"
    using even ok(3) sh by (auto simp: list_all2_conv_all_nth list_ex_iff set_zip mod_eq_0_iff_dvd)
  show "prod_list (cg_grid shards) * prod_list (cg_grid (sh_inner sh)) \<le> MAX_CHUNKS"
    using entries chunks_prod [OF assms(2)] chunks_prod [OF ok(1)] sh by (simp add: cmul_Some)
qed

lemma zarr_array_new_ok:
  assumes "zarr_array_new env root prefix meta c = (Some (Ok z), c')"
  shows "za_ok z" "za_root z = root" "za_prefix z = prefix" "za_shape z = am_shape meta" "za_cache_key z = dc_next_key c"
proof -
  obtain d chunk_shape grid store key fill where
      grid: "grid_new (am_shape meta) chunk_shape (itemsize d) = Some grid"
    and store: "store_new (ze_serde env) grid d (am_codecs meta) = Ok store"
    and key: "key_encoding_of (am_chunk_key_encoding meta) = Ok key"
    and fill: "fill_bytes (ze_half env) d (am_fill_value meta) = Ok fill"
    and z: "z = \<lparr>za_root = root, za_prefix = prefix, za_dtype = d, za_shape = am_shape meta, za_key = key,
      za_store = store, za_fill = fill, za_cache_key = dc_next_key c\<rparr>"
    using assms by (auto simp: zarr_array_new_def res_bind_Ok act_throw_def act_return_def new_key_def split: sum.splits if_splits)
  note g = grid_new_ok [OF grid itemsize_U64]
  show "za_ok z"
  proof (cases store)
    case (Chunked g' codecs)
    then have "g' = grid" using store by (auto simp: store_new_def res_map_Ok split: option.splits)
    then show ?thesis using g fill_bytes_length [OF fill] key_encoding_separator [OF key] Chunked by (simp add: za_ok_def z)
  next
    case (Sharded sh)
    then obtain named where "sharded_new (ze_serde env) grid d named = Ok sh"
      using store by (auto simp: store_new_def res_map_Ok split: option.splits)
    from sharded_new_ok [OF this g(1)] g Sharded show ?thesis
      using fill_bytes_length [OF fill] key_encoding_separator [OF key] by (simp add: za_ok_def z sharded_ok_def)
  qed
  show "za_root z = root" "za_prefix z = prefix" "za_shape z = am_shape meta" "za_cache_key z = dc_next_key c" by (simp_all add: z)
qed

section \<open>What is stored\<close>

text \<open>The chunk of a number, as its file or its shard gives it, and as it is cached.\<close>

definition zarr_chunk :: "zarr_env \<Rightarrow> zarr_array \<Rightarrow> nat \<Rightarrow> aex_error + bytes" where
  "zarr_chunk env z n =
     (case za_store z of
        Chunked g codecs \<Rightarrow> whole_chunk env z g codecs n
      | Sharded sh \<Rightarrow>
          res_bind (sharded_index env z sh) (\<lambda>index. inner_chunk env z sh (n div chunks (sh_inner sh)) (index ! n)))"

definition zarr_chunk_count :: "zarr_array \<Rightarrow> nat" where
  "zarr_chunk_count z =
     (case za_store z of
        Chunked g _ \<Rightarrow> prod_list (cg_grid g)
      | Sharded sh \<Rightarrow> prod_list (cg_grid (sh_shards sh)) * prod_list (cg_grid (sh_inner sh)))"

definition zarr_stored :: "zarr_env \<Rightarrow> zarr_array \<Rightarrow> nat \<Rightarrow> bytes" where
  "zarr_stored env z n = (case zarr_chunk env z n of Ok bs \<Rightarrow> bs | Err _ \<Rightarrow> replicate (zarr_chunk_bytes z) 0)"

text \<open>The array's bytes; a shard is an array of its inner chunks.\<close>

definition shard_bytes :: "zarr_env \<Rightarrow> zarr_array \<Rightarrow> sharded \<Rightarrow> nat \<Rightarrow> bytes" where
  "shard_bytes env z sh shard =
     chunk_store.array_bytes (sh_inner sh) (\<lambda>c. zarr_stored env z (shard * prod_list (cg_grid (sh_inner sh)) + c))"

definition zarr_bytes :: "zarr_env \<Rightarrow> zarr_array \<Rightarrow> bytes" where
  "zarr_bytes env z =
     (case za_store z of
        Chunked g _ \<Rightarrow> chunk_store.array_bytes g (zarr_stored env z)
      | Sharded sh \<Rightarrow> chunk_store.array_bytes (sh_shards sh) (shard_bytes env z sh))"

lemma length_fill_chunk [simp]: "length (fill_chunk z n) = n"
  by (simp add: fill_chunk_def fill_from_def)

lemma zarr_chunk_length: "zarr_chunk env z n = Ok bs \<Longrightarrow> length bs = zarr_chunk_bytes z"
  by (auto simp: zarr_chunk_def zarr_chunk_bytes_def whole_chunk_def inner_chunk_def Let_def res_bind_Ok
      dest: undo_length split: zarr_store.splits option.splits if_splits)

lemma length_zarr_stored [simp]: "length (zarr_stored env z n) = zarr_chunk_bytes z"
  by (auto simp: zarr_stored_def zarr_chunk_length split: sum.split)

text \<open>What a reader finds: the shared cache with this array's chunks in it, and the index or none.\<close>

definition zarr_index :: "zarr_env \<Rightarrow> zarr_array \<Rightarrow> aex_error + shard_entry list" where
  "zarr_index env z = (case za_store z of Chunked _ _ \<Rightarrow> Ok [] | Sharded sh \<Rightarrow> sharded_index env z sh)"

definition zarr_state_ok :: "zarr_env \<Rightarrow> zarr_array \<Rightarrow> (chunk_key \<Rightarrow> bytes) \<Rightarrow> nat \<Rightarrow> shard_entry array_state \<Rightarrow> bool" where
  "zarr_state_ok env z content capacity = array_state_ok content capacity (zarr_index env z)"

definition holds_array :: "(chunk_key \<Rightarrow> bytes) \<Rightarrow> zarr_env \<Rightarrow> zarr_array \<Rightarrow> bool" where
  "holds_array content env z \<longleftrightarrow> (\<forall>n < zarr_chunk_count z. content (za_cache_key z, n) = zarr_stored env z n)"

definition chunk_fails :: "zarr_env \<Rightarrow> zarr_array \<Rightarrow> aex_error \<Rightarrow> bool" where
  "chunk_fails env z e \<longleftrightarrow> (\<exists>n < zarr_chunk_count z. zarr_chunk env z n = Err e)"

lemma cached_chunk_reads:
  assumes "holds_array content env z" "n < zarr_chunk_count z" "start + length out \<le> zarr_chunk_bytes z"
  shows "reads_as (zarr_state_ok env z content capacity) (chunk_fails env z)
    (on_cache (read_cached sole (za_cache_key z, n) start out (\<lambda>_. zarr_chunk env z n)))
    (slice (zarr_stored env z n) start (length out))"
proof -
  have content: "content (za_cache_key z, n) = zarr_stored env z n" using assms by (simp add: holds_array_def)
  have "zarr_chunk env z n = Ok (content (za_cache_key z, n)) \<or> (\<exists>e. zarr_chunk env z n = Err e \<and> chunk_fails env z e)"
    unfolding content using assms(2) by (cases "zarr_chunk env z n") (auto simp: zarr_stored_def chunk_fails_def)
  then show ?thesis
    using read_cached_reads [of "\<lambda>_. zarr_chunk env z n" content "(za_cache_key z, n)" "chunk_fails env z" start out capacity sole]
      assms(3) content unfolding zarr_state_ok_def by (intro on_cache_reads) simp
qed

section \<open>Reading a chunked array\<close>

lemma chunked_reads:
  assumes z: "za_store z = Chunked g codecs" "za_ok z" "holds_array content env z"
    and small: "prod_list (za_shape z) * itemsize (za_dtype z) < U64"
    and room: "at + length dst \<le> prod_list (za_shape z) * itemsize (za_dtype z)"
  shows "reads_as (zarr_state_ok env z content capacity) (chunk_fails env z) (zarr_read_at env z at dst)
    (slice (zarr_bytes env z) at (length dst))"
proof -
  have g: "grid_ok g" "cg_shape g = za_shape z" "cg_itemsize g = itemsize (za_dtype z)" using z(1,2) by (simp_all add: za_ok_def)
  have bytes: "zarr_chunk_bytes z = cg_chunk_bytes g" by (simp add: zarr_chunk_bytes_def z(1))
  have store: "chunk_store g (zarr_stored env z) (\<lambda>c s buf. Ok (slice (zarr_stored env z c) s (length buf)))"
    using g small bytes by (intro ideal_store) simp_all
  have chunk: "zarr_chunk env z = whole_chunk env z g codecs" by (simp add: fun_eq_iff zarr_chunk_def z(1))
  have "reads_as (zarr_state_ok env z content capacity) (chunk_fails env z)
      (on_cache (read_cached (ze_sole env) (za_cache_key z, c) s out (\<lambda>spare. whole_chunk env z g codecs c)))
      (slice (zarr_stored env z c) s (length out))"
    if "c < prod_list (cg_grid g)" "s + length out \<le> cg_chunk_bytes g" for c s out
    using cached_chunk_reads [OF z(3), of c s out capacity "ze_sole env"] that bytes chunk by (simp add: zarr_chunk_count_def z(1))
  from chunk_store.walk_act_reads [OF store this, of at dst] room g
  show ?thesis by (simp add: zarr_read_at_def z(1) zarr_bytes_def)
qed

section \<open>Reading out of shards\<close>

lemma grid_pos:
  assumes "grid_ok g" "0 \<notin> set (cg_shape g)"
  shows "0 < prod_list (cg_grid g)"
proof (rule prod_list_pos)
  have pos: "0 < div_ceil d c" if "0 < d" "0 < c" for d c :: nat
    using div_ceil_bounds(1) [of c d] that by (metis gr0I mult_is_0 not_le)
  have len: "length (cg_chunk_shape g) = length (cg_shape g)" "0 \<notin> set (cg_chunk_shape g)"
    and grid: "cg_grid g = map2 div_ceil (cg_shape g) (cg_chunk_shape g)"
    using assms(1) unfolding grid_ok_def by blast+
  show "0 \<notin> set (cg_grid g)"
  proof
    assume "0 \<in> set (cg_grid g)"
    then obtain i where "i < length (cg_shape g)" "div_ceil (cg_shape g ! i) (cg_chunk_shape g ! i) = 0"
      using len(1) unfolding grid in_set_conv_nth by auto
    then show False using pos [of "cg_shape g ! i" "cg_chunk_shape g ! i"] nth_pos [of "cg_shape g" i] nth_pos [of "cg_chunk_shape g" i]
      len assms(2) by simp
  qed
qed

lemma res_traverse_length: "res_traverse f xs = Ok ys \<Longrightarrow> length ys = length xs"
  using res_traverse_Ok [of f xs ys] by (simp add: list_all2_lengthD)

lemma sharded_index_length:
  assumes "sharded_index env z sh = Ok index" "grid_ok (sh_shards sh)" "grid_ok (sh_inner sh)"
  shows "length index = prod_list (cg_grid (sh_shards sh)) * prod_list (cg_grid (sh_inner sh))"
proof -
  let ?n = "chunks (sh_inner sh)"
  obtain parts where parts: "res_traverse (shard_index env z sh) [0..<chunks (sh_shards sh)] = Ok parts" "index = concat parts"
    using assms(1) by (auto simp: sharded_index_def res_map_Ok)
  have one: "length entries = ?n" if "shard_index env z sh shard = Ok entries" for shard entries
    using that by (auto simp: shard_index_def Let_def res_bind_Ok dest!: res_traverse_length split: option.splits if_splits)
  from parts(1) have all: "list_all2 (\<lambda>shard entries. shard_index env z sh shard = Ok entries) [0..<chunks (sh_shards sh)] parts"
    by (rule res_traverse_Ok)
  have "\<forall>entries \<in> set parts. length entries = ?n"
  proof
    fix entries assume "entries \<in> set parts"
    then obtain i where "i < length parts" "entries = parts ! i" by (auto simp: in_set_conv_nth)
    with all have "shard_index env z sh ([0..<chunks (sh_shards sh)] ! i) = Ok entries" by (simp add: list_all2_conv_all_nth)
    then show "length entries = ?n" by (rule one)
  qed
  then have "length index = length parts * ?n" unfolding parts(2) by (induction parts) simp_all
  moreover have "length parts = chunks (sh_shards sh)" using all by (auto dest: list_all2_lengthD)
  ultimately show ?thesis using chunks_prod assms(2,3) by simp
qed

text \<open>The number of an inner chunk stays in range, and gives the shard and the chunk back.\<close>

lemma inner_number_ok:
  assumes ok: "grid_ok (sh_inner sh)" "m * prod_list (cg_grid (sh_inner sh)) \<le> MAX_CHUNKS"
    and n: "shard < m" "chunk < prod_list (cg_grid (sh_inner sh))"
  shows "inner_number sh shard chunk = shard * prod_list (cg_grid (sh_inner sh)) + chunk"
    "shard * prod_list (cg_grid (sh_inner sh)) + chunk < m * prod_list (cg_grid (sh_inner sh))"
proof -
  let ?k = "prod_list (cg_grid (sh_inner sh))"
  have "(shard + 1) * ?k \<le> m * ?k" using n(1) by (intro mult_le_mono1) simp
  then show less: "shard * ?k + chunk < m * ?k" using n(2) by simp
  then have "shard * ?k + chunk < U64" using ok(2) by (simp add: MAX_CHUNKS_def U64_def)
  then show "inner_number sh shard chunk = shard * ?k + chunk"
    by (simp add: inner_number_def chunks_prod [OF ok(1)] wmul_eq wadd_eq)
qed

lemma sharded_reads:
  assumes z: "za_store z = Sharded sh" "za_ok z" "holds_array content env z"
    and small: "prod_list (za_shape z) * itemsize (za_dtype z) < U64"
    and room: "at + length dst \<le> prod_list (za_shape z) * itemsize (za_dtype z)"
    and index: "sharded_index env z sh = Ok index"
  shows "reads_as (zarr_state_ok env z content capacity) (chunk_fails env z)
    (walk_act (sh_shards sh) at dst (\<lambda>shard in_shard out.
      walk_act (sh_inner sh) in_shard out (\<lambda>chunk start out.
        let n = inner_number sh shard chunk in
        on_cache (read_cached (ze_sole env) (za_cache_key z, n) start out
          (\<lambda>spare. inner_chunk env z sh shard (index ! n))))))
    (slice (zarr_bytes env z) at (length dst))"
proof -
  let ?k = "prod_list (cg_grid (sh_inner sh))" and ?m = "prod_list (cg_grid (sh_shards sh))"
  have sh: "grid_ok (sh_shards sh)" "cg_shape (sh_shards sh) = za_shape z" "cg_itemsize (sh_shards sh) = itemsize (za_dtype z)"
    "grid_ok (sh_inner sh)" "cg_shape (sh_inner sh) = cg_chunk_shape (sh_shards sh)" "cg_itemsize (sh_inner sh) = itemsize (za_dtype z)"
    "?m * ?k \<le> MAX_CHUNKS"
    using z(1,2) by (simp_all add: za_ok_def sharded_ok_def)
  have bytes: "zarr_chunk_bytes z = cg_chunk_bytes (sh_inner sh)" by (simp add: zarr_chunk_bytes_def z(1))
  have shard_len: "prod_list (cg_shape (sh_inner sh)) * cg_itemsize (sh_inner sh) = cg_chunk_bytes (sh_shards sh)"
    "cg_chunk_bytes (sh_shards sh) < U64"
    using sh(1,3,5,6) unfolding grid_ok_def by (simp_all add: mult.commute)
  define part where "part shard c = zarr_stored env z (shard * ?k + c)" for shard c
  have inner: "chunk_store (sh_inner sh) (part shard) (\<lambda>c s buf. Ok (slice (part shard c) s (length buf)))" for shard
    using sh shard_len bytes by (intro ideal_store) (simp_all add: part_def)
  have whole: "shard_bytes env z sh shard = chunk_store.array_bytes (sh_inner sh) (part shard)" for shard
    by (simp add: shard_bytes_def part_def [abs_def])
  have len: "length (shard_bytes env z sh shard) = cg_chunk_bytes (sh_shards sh)" for shard
    using chunk_store.length_array_bytes [OF inner] shard_len(1) by (simp add: whole)
  have outer: "chunk_store (sh_shards sh) (shard_bytes env z sh) (\<lambda>c s buf. Ok (slice (shard_bytes env z sh c) s (length buf)))"
    using sh small len by (intro ideal_store) simp_all
  have one: "reads_as (zarr_state_ok env z content capacity) (chunk_fails env z)
      (let n = inner_number sh shard c in
       on_cache (read_cached (ze_sole env) (za_cache_key z, n) s out (\<lambda>spare. inner_chunk env z sh shard (index ! n))))
      (slice (part shard c) s (length out))"
    if "shard < ?m" "c < ?k" "s + length out \<le> cg_chunk_bytes (sh_inner sh)" for shard c s out
  proof -
    note n = inner_number_ok [OF sh(4,7) that(1,2)]
    have "zarr_chunk env z (shard * ?k + c) = inner_chunk env z sh shard (index ! (shard * ?k + c))"
      using that(2) by (simp add: zarr_chunk_def z(1) index chunks_prod [OF sh(4)])
    then show ?thesis
      using cached_chunk_reads [OF z(3), of "shard * ?k + c" s out capacity "ze_sole env"] that(3) bytes n
      by (simp add: Let_def part_def zarr_chunk_count_def z(1))
  qed
  have "reads_as (zarr_state_ok env z content capacity) (chunk_fails env z)
      (walk_act (sh_inner sh) in_shard out (\<lambda>chunk start out.
        let n = inner_number sh shard chunk in
        on_cache (read_cached (ze_sole env) (za_cache_key z, n) start out (\<lambda>spare. inner_chunk env z sh shard (index ! n)))))
      (slice (shard_bytes env z sh shard) in_shard (length out))"
    if "shard < ?m" "in_shard + length out \<le> cg_chunk_bytes (sh_shards sh)" for shard in_shard out
    unfolding whole
    by (rule chunk_store.walk_act_reads [OF inner one [OF that(1)]]) (use that(2) shard_len(1) in simp_all)
  from chunk_store.walk_act_reads [OF outer this, of at dst] room sh
  show ?thesis by (simp add: zarr_bytes_def z(1))
qed

lemma zarr_reads:
  assumes z: "za_ok z" "holds_array content env z" and small: "prod_list (za_shape z) * itemsize (za_dtype z) < U64"
    and room: "at + length dst \<le> prod_list (za_shape z) * itemsize (za_dtype z)" and some: "0 \<notin> set (za_shape z)"
  shows "reads_as (zarr_state_ok env z content capacity) (chunk_fails env z) (zarr_read_at env z at dst)
    (slice (zarr_bytes env z) at (length dst))"
proof (cases "za_store z")
  case (Chunked g codecs)
  then show ?thesis using chunked_reads assms by blast
next
  case store: (Sharded sh)
  have sh: "grid_ok (sh_shards sh)" "grid_ok (sh_inner sh)" "cg_shape (sh_shards sh) = za_shape z"
    "cg_shape (sh_inner sh) = cg_chunk_shape (sh_shards sh)"
    using z(1) store by (simp_all add: za_ok_def sharded_ok_def)
  have "0 \<notin> set (cg_shape (sh_inner sh))" using sh(1,4) unfolding grid_ok_def by simp
  then have "0 < prod_list (cg_grid (sh_shards sh)) * prod_list (cg_grid (sh_inner sh))"
    using grid_pos sh some by simp
  then have fails: "chunk_fails env z e" if "sharded_index env z sh = Err e" for e
    using that by (auto simp: chunk_fails_def zarr_chunk_count_def zarr_chunk_def store intro!: exI [of _ 0])
  have built: "zarr_index env z = sharded_index env z sh" by (simp add: zarr_index_def store)
  show ?thesis unfolding zarr_read_at_def store zarr_store.case zarr_state_ok_def built
    by (rule once_built_reads)
      (use sharded_reads [OF store z small room, of _ capacity, unfolded zarr_state_ok_def built] fails in simp_all)
qed

end
