(* ===== verification/Zarr_Store.thy ===== *)
theory Zarr_Store
  imports Zarr_Read
begin

text \<open>
  The store as a whole: its groups and arrays depend on nothing outside it, and an array is opened once.
\<close>

section \<open>Two file systems that agree inside the store\<close>

definition store_agree :: "path \<Rightarrow> zarr_env \<Rightarrow> zarr_env \<Rightarrow> bool" where
  "store_agree root env env' \<longleftrightarrow>
     (\<exists>text read opened dir. env' = env\<lparr>ze_text := text, ze_read := read, ze_open := opened, ze_dir := dir\<rparr>
       \<and> (\<forall>p. path_starts_with p root \<longrightarrow>
            text p = ze_text env p \<and> read p = ze_read env p \<and> opened p = ze_open env p \<and> dir p = ze_dir env p))"

lemma store_agreeE:
  assumes "store_agree root env env'"
  obtains a b c d where "env' = env\<lparr>ze_text := a, ze_read := b, ze_open := c, ze_dir := d\<rparr>"
    and "\<And>p. path_starts_with p root \<Longrightarrow> a p = ze_text env p" and "\<And>p. path_starts_with p root \<Longrightarrow> b p = ze_read env p"
    and "\<And>p. path_starts_with p root \<Longrightarrow> c p = ze_open env p" and "\<And>p. path_starts_with p root \<Longrightarrow> d p = ze_dir env p"
  using assms unfolding store_agree_def by blast

lemma store_under_inside: "store_under env root relative = Ok (Some p) \<Longrightarrow> path_starts_with p root"
  by (auto simp: store_under_def split: if_splits sum.splits)

named_theorems agreeing

lemma agree_under [agreeing]: "store_agree root env env' \<Longrightarrow> store_under env' root = store_under env root"
  by (auto simp: fun_eq_iff store_under_def elim!: store_agreeE)

lemma agree_parts [agreeing]:
  assumes "store_agree root env env'"
  shows "ze_serde env' = ze_serde env" "ze_codecs env' = ze_codecs env" "ze_half env' = ze_half env" "ze_sole env' = ze_sole env"
    "ze_canonicalize env' = ze_canonicalize env"
  using assms by (auto elim!: store_agreeE)

lemma agree_files:
  assumes "store_agree root env env'" "path_starts_with p root"
  shows "ze_text env' p = ze_text env p" "ze_read env' p = ze_read env p" "ze_open env' p = ze_open env p" "ze_dir env' p = ze_dir env p"
  using assms by (auto elim!: store_agreeE)

text \<open>What is opened under a name is inside, so the rest of the action agrees.\<close>

lemma agree_found:
  assumes "store_agree root env env'" "\<And>p. path_starts_with p root \<Longrightarrow> f' (Some p) = f (Some p)" "f' None = f None"
  shows "res_bind (store_under env' root relative) f' = res_bind (store_under env root relative) f"
proof (cases "store_under env root relative")
  case (Inr found)
  then show ?thesis
    using assms agree_under [OF assms(1)] store_under_inside [of env root relative] by (cases found) auto
qed (simp add: agree_under [OF assms(1)])

section \<open>Reading\<close>

lemma agree_chunks [agreeing]:
  assumes "store_agree (za_root z) env env'"
  shows "whole_chunk env' z = whole_chunk env z" "shard_index env' z = shard_index env z" "inner_chunk env' z = inner_chunk env z"
  unfolding fun_eq_iff whole_chunk_def shard_index_def inner_chunk_def Let_def agree_parts [OF assms]
  by (auto intro!: agree_found [OF assms] if_cong simp: agree_files [OF assms])

lemma agree_index [agreeing]:
  "store_agree (za_root z) env env' \<Longrightarrow> sharded_index env' z = sharded_index env z"
  by (simp add: fun_eq_iff sharded_index_def agreeing)

lemma agree_read:
  assumes "store_agree (za_root z) env env'"
  shows "zarr_read_at env' z = zarr_read_at env z" "zarr_prepare env' z = zarr_prepare env z"
    "zarr_as_dataset env' z = zarr_as_dataset env z"
proof -
  have built: "sharded_index env' z = sharded_index env z" by (rule agree_index [OF assms])
  show read: "zarr_read_at env' z = zarr_read_at env z"
    unfolding fun_eq_iff zarr_read_at_def built agree_chunks [OF assms] agree_parts [OF assms] by blast
  show prepare: "zarr_prepare env' z = zarr_prepare env z"
    unfolding zarr_prepare_def built by blast
  show "zarr_as_dataset env' z = zarr_as_dataset env z"
    by (simp add: fun_eq_iff zarr_as_dataset_def read prepare)
qed

section \<open>Items\<close>

text \<open>Every array a file has opened is one of its store.\<close>

definition zarr_file_ok :: "zarr_file \<Rightarrow> bool" where
  "zarr_file_ok f \<longleftrightarrow> (\<forall>(path, z) \<in> set (zf_arrays f). za_root z = zf_root f \<and> za_prefix z = path \<and> za_ok z)"

lemma zarr_open_file_ok: "zarr_open env p c = Ok f \<Longrightarrow> zarr_file_ok f \<and> zf_cache f = c \<and> ze_canonicalize env p = Ok (zf_root f)"
  by (auto simp: zarr_open_def zarr_file_ok_def io_def res_bind_Ok split: if_splits)

definition file_from :: "zarr_file \<Rightarrow> zarr_file \<Rightarrow> bool" where
  "file_from f f' \<longleftrightarrow> zarr_file_ok f' \<and> zf_root f' = zf_root f"

lemma file_from_trans: "file_from f g \<Longrightarrow> file_from g h \<Longrightarrow> file_from f h"
  by (simp add: file_from_def)

lemma zarr_array_at_ok:
  assumes "zarr_file_ok f" "zarr_array_at env path meta f = (r, f')"
  shows "file_from f f' \<and> (\<forall>z. r = Some (Ok z) \<longrightarrow> za_root z = zf_root f \<and> za_ok z \<and> za_prefix z = path)"
proof (cases "map_of (zf_arrays f) path")
  case (Some z)
  then have "(path, z) \<in> set (zf_arrays f)" by (rule map_of_SomeD)
  then show ?thesis using assms Some by (auto simp: zarr_array_at_def act_return_def file_from_def zarr_file_ok_def)
next
  case None
  obtain r' c where new: "zarr_array_new env (zf_root f) path meta (zf_cache f) = (r', c)" by fastforce
  show ?thesis
  proof (cases r')
    case (Some x)
    then show ?thesis
      using assms None new zarr_array_new_ok [of env "zf_root f" path meta "zf_cache f" _ c]
      by (cases x) (auto simp: zarr_array_at_def act_return_def act_throw_def file_from_def zarr_file_ok_def)
  qed (use assms None new in \<open>auto simp: zarr_array_at_def act_panic_def file_from_def\<close>)
qed

lemma zarr_item_ok: "zarr_file_ok f \<Longrightarrow> file_from f (snd (zarr_item env path n f))"
  using zarr_array_at_ok [of f env path]
  by (cases n) (auto simp: zarr_item_def act_return_def act_bind_def file_from_def split: prod.split option.split sum.split)

lemma zarr_child_ok: "zarr_file_ok f \<Longrightarrow> file_from f (snd (zarr_child env path name f))"
  using zarr_item_ok [of f env "child_path path name"]
  by (auto simp: zarr_child_def Let_def act_return_def act_bind_def act_attempt_def file_from_def
      split: prod.splits option.splits sum.splits) (metis snd_conv)+

lemma zarr_children_ok: "zarr_file_ok f \<Longrightarrow> file_from f (snd (zarr_children env path entries f))"
proof (induction env path entries arbitrary: f rule: zarr_children.induct)
  case (2 env path entry entries)
  show ?case
  proof (cases "\<exists>name. entry = Ok (Some name)")
    case True
    then obtain name where name: "entry = Ok (Some name)" by blast
    obtain r g where here: "zarr_child env path name f = (r, g)" by fastforce
    then have g: "file_from f g" using zarr_child_ok [OF "2.prems", of env path name] by simp
    then have "file_from g (snd (zarr_children env path entries g))" using "2.IH"(2) [OF name refl] by (simp add: file_from_def)
    then show ?thesis using g here name
      by (auto simp: act_bind_def act_return_def file_from_def split: option.split sum.split prod.splits)
  qed (use 2 in \<open>auto simp: act_throw_def file_from_def split: sum.split option.split\<close>)
qed (simp add: act_return_def file_from_def)

lemma agree_node [agreeing]:
  "store_agree root env env' \<Longrightarrow> zarr_node_at env' root = zarr_node_at env root"
  by (auto simp: fun_eq_iff zarr_node_at_def Let_def agree_files agree_parts intro!: agree_found)

lemma agree_array_at:
  assumes "store_agree (zf_root f) env env'"
  shows "zarr_array_at env' path meta f = zarr_array_at env path meta f"
  unfolding zarr_array_at_def zarr_array_new_def agree_parts [OF assms] by blast

lemma agree_item:
  assumes "store_agree (zf_root f) env env'" "zarr_file_ok f"
  shows "zarr_item env' path n f = zarr_item env path n f"
proof (cases n)
  case (Zarr_Array meta)
  obtain r f' where r: "zarr_array_at env path meta f = (r, f')" by fastforce
  note ok = zarr_array_at_ok [OF assms(2) r]
  have "zarr_as_dataset env' z = zarr_as_dataset env z" if "r = Some (Ok z)" for z
    using ok that assms(1) agree_read(3) [of z env env'] by simp
  then show ?thesis using r Zarr_Array
    by (auto simp: zarr_item_def act_bind_def agree_array_at [OF assms(1)] split: option.split sum.split)
qed (simp add: zarr_item_def)

lemma agree_child:
  assumes "store_agree (zf_root f) env env'" "zarr_file_ok f"
  shows "zarr_child env' path name f = zarr_child env path name f"
proof -
  have attempt: "act_attempt (zarr_item env' child n) f = act_attempt (zarr_item env child n) f" for child n
    unfolding act_attempt_def agree_item [OF assms] by (rule refl)
  have "act_bind (act_attempt (zarr_item env' child n)) k f = act_bind (act_attempt (zarr_item env child n)) k f"
    for child n and k :: "item option \<Rightarrow> (zarr_file, aex_error, (string \<times> item) list) act"
    unfolding act_bind_def [of "act_attempt _"] attempt by (rule refl)
  then show ?thesis unfolding zarr_child_def Let_def agree_node [OF assms(1)] by (auto split: sum.split option.split)
qed

lemma agree_children:
  "store_agree (zf_root f) env env' \<Longrightarrow> zarr_file_ok f \<Longrightarrow> zarr_children env' path entries f = zarr_children env path entries f"
proof (induction env path entries arbitrary: f rule: zarr_children.induct)
  case (2 env path entry entries)
  show ?case
  proof (cases "\<exists>name. entry = Ok (Some name)")
    case True
    then obtain name where name: "entry = Ok (Some name)" by blast
    obtain r g where here: "zarr_child env path name f = (r, g)" by fastforce
    then have g: "file_from f g" using zarr_child_ok [OF "2.prems"(2), of env path name] by simp
    then have "zarr_children env' path entries g = zarr_children env path entries g"
      using "2.IH"(2) [OF name refl, of g] "2.prems"(1) by (simp add: file_from_def)
    then show ?thesis using name here agree_child [OF "2.prems"]
      by (auto simp: act_bind_def split: option.split sum.split)
  qed (use 2 in \<open>auto split: sum.split option.split\<close>)
qed simp

lemma agree_calls:
  assumes "store_agree (zf_root f) env env'" "zarr_file_ok f"
  shows "zarr_get_item env' path f = zarr_get_item env path f"
    and "zarr_list_children env' path f = zarr_list_children env path f"
    and "zarr_attrs env' f path = zarr_attrs env f path"
proof -
  show "zarr_get_item env' path f = zarr_get_item env path f"
    unfolding zarr_get_item_def Let_def agree_node [OF assms(1)]
    using agree_item [OF assms] by (auto split: sum.split option.split)
  show "zarr_attrs env' f path = zarr_attrs env f path"
    unfolding zarr_attrs_def Let_def agree_node [OF assms(1)] by (rule refl)
  have "act_bind (act_of (io (ze_dir env' dir))) (\<lambda>entries. act_bind (zarr_children env' p entries) k) f
      = act_bind (act_of (io (ze_dir env dir))) (\<lambda>entries. act_bind (zarr_children env p entries) k) f"
    if "store_under env (zf_root f) relative = Ok (Some dir)"
    for dir p relative and k :: "(string \<times> item) list \<Rightarrow> (zarr_file, aex_error, (string \<times> item) list) act"
    unfolding agree_files(4) [OF assms(1) store_under_inside [OF that]]
    by (simp add: act_bind_def act_of_def agree_children [OF assms] split: sum.split option.split)
  then show "zarr_list_children env' path f = zarr_list_children env path f"
    unfolding zarr_list_children_def Let_def agree_node [OF assms(1)] agree_under [OF assms(1)]
    by (auto split: sum.split option.split zarr_node.split)
qed

text \<open>The calls keep to the arrays of the store.\<close>

lemma zarr_get_item_ok: "zarr_file_ok f \<Longrightarrow> file_from f (snd (zarr_get_item env path f))"
  using zarr_item_ok [of f env]
  by (auto simp: zarr_get_item_def Let_def act_throw_def file_from_def split: sum.split option.split)

lemma zarr_list_children_ok:
  assumes "zarr_file_ok f"
  shows "file_from f (snd (zarr_list_children env path f))"
proof -
  have "file_from f (snd (act_bind (act_of r) (\<lambda>entries. act_bind (zarr_children env p entries)
      (\<lambda>children. act_return (sort_key fst children))) f))" for r p
  proof (cases r)
    case (Inr entries)
    then show ?thesis using zarr_children_ok [OF assms] by (simp add: act_of_simps snd_act_bind_return)
  qed (use assms in \<open>simp add: act_of_simps act_throw_def file_from_def\<close>)
  then show ?thesis using assms
    by (auto simp: zarr_list_children_def Let_def act_throw_def file_from_def split: sum.split option.split zarr_node.split)
qed

section \<open>An example\<close>

text \<open>A store with the metadata of one array, of which no chunk was written.\<close>

definition sample_store :: zarr_env where
  "sample_store =
     \<lparr>ze_canonicalize = (\<lambda>_. Err Io_NotFound), ze_text = (\<lambda>_. Err Io_NotFound), ze_read = (\<lambda>_. Err Io_NotFound),
      ze_open = (\<lambda>_. Err Io_NotFound), ze_dir = (\<lambda>_. Ok []),
      ze_serde = \<lparr>zs_node = (\<lambda>_. None), zs_u64s = (\<lambda>_. Some [2]), zs_named = (\<lambda>_. None)\<rparr>,
      ze_codecs = \<lparr>zc_gunzip = (\<lambda>bs. (bs, True)), zc_unzstd = (\<lambda>bs n. Some bs), zc_crc32c = (\<lambda>_. 0)\<rparr>,
      ze_half = \<lparr>half_widen = (\<lambda>_. 0), half_narrow = (\<lambda>_. 0)\<rparr>, ze_sole = (\<lambda>_. True)\<rparr>"

definition sample_meta :: array_meta where
  "sample_meta =
     \<lparr>am_zarr_format = 3, am_shape = [3], am_data_type = JString ''uint8'',
      am_chunk_grid = \<lparr>nm_name = ''regular'', nm_configuration = []\<rparr>, am_chunk_key_encoding = None,
      am_fill_value = JNumber (PosInt 7), am_codecs = [], am_storage_transformers = [], am_attributes = []\<rparr>"

definition sample_array :: zarr_array where
  "sample_array =
     \<lparr>za_root = (True, [''s'']), za_prefix = [], za_dtype = Uint8, za_shape = [3],
      za_key = \<lparr>ke_prefix = True, ke_separator = CHR ''/''\<rparr>,
      za_store = Chunked \<lparr>cg_shape = [3], cg_chunk_shape = [2], cg_grid = [2], cg_itemsize = 1, cg_chunk_bytes = 2, cg_run_axis = 0\<rparr> [],
      za_fill = [7], za_cache_key = 0\<rparr>"

lemma sample_array_new:
  "zarr_array_new sample_store (True, [''s'']) [] sample_meta (cache_new 8)
   = (Some (Ok sample_array), (cache_new 8)\<lparr>dc_next_key := 1\<rparr>)"
  by (simp add: zarr_array_new_def sample_store_def sample_meta_def sample_array_def dtype_from_name_def grid_new_def checked_fold_def
      cmul_def U64_def div_ceil_def store_new_def parse_codecs_def key_encoding_of_def fill_bytes_def real_fill_def int_bytes_def
      int_range_def json_get_or_null_def json_get_def new_key_def cache_new_def wadd_def act_return_def Let_def)

lemma sample_chunks: "\<not> chunk_fails sample_store sample_array e"
proof -
  have "store_under sample_store (True, [''s'']) ''c/0'' = Ok None" "store_under sample_store (True, [''s'']) ''c/1'' = Ok None"
    by (simp_all add: store_under_def store_name_def path_of_def sample_store_def)
  moreover have "char_of (48 :: nat) = CHR ''0''" "char_of (49 :: nat) = CHR ''1''" by code_simp+
  ultimately have "zarr_chunk sample_store sample_array n \<noteq> Err e" if "n < 2" for n
    using that by (auto simp: less_2_cases_iff zarr_chunk_def sample_array_def whole_chunk_def key_of_def chunk_key_of_def coords_of_def
        decimal_cases Let_def)
  then show ?thesis by (auto simp: chunk_fails_def zarr_chunk_count_def sample_array_def)
qed

end
