(* ===== verification/Hdf5_Filters.thy ===== *)
theory Hdf5_Filters
  imports Errors
begin

unbundle bit_operations_syntax

text \<open>
  The filters of HDF5 that are undone here (\<open>aex-core/src/backends/hdf5.rs\<close>): zlib by a library, shuffle, and the
  fletcher32 checksum, computed on 32-bit sums as the code does with the wrap-around written out. \<open>fletcher32_value\<close>
  shows that nothing wraps and which sums the checksum is of.
\<close>

section \<open>Inflate\<close>

text \<open>What a zlib stream expands to and whether it ends well, which is not asked of one longer than the limit.\<close>

definition inflate :: "(bytes \<Rightarrow> bytes \<times> bool) \<Rightarrow> bytes \<Rightarrow> nat \<Rightarrow> bytes option" where
  "inflate unzlib bs limit =
     (case unzlib bs of (out, ok) \<Rightarrow>
        if limit + 1 \<le> length out then Some (take (limit + 1) out) else if ok then Some out else None)"

section \<open>Shuffle\<close>

definition unshuffle_byte :: "bytes \<Rightarrow> nat \<Rightarrow> nat \<Rightarrow> nat \<Rightarrow> bytes \<Rightarrow> bytes" where
  "unshuffle_byte bs itemsize b e out = out[e * itemsize + b := bs ! (b * (length bs div itemsize) + e)]"

definition unshuffle :: "bytes \<Rightarrow> nat \<Rightarrow> bytes" where
  "unshuffle bs itemsize =
     (if itemsize > 1 then
        fold (\<lambda>b. fold (\<lambda>e. unshuffle_byte bs itemsize b e) [0..<length bs div itemsize]) [0..<itemsize] bs
      else bs)"

section \<open>Fletcher32\<close>

fun be_words :: "bytes \<Rightarrow> nat list" where
  "be_words [] = []"
| "be_words [x] = [unat x * 256]"
| "be_words (x # y # bs) = (unat x * 256 + unat y) # be_words bs"

definition add32 :: "nat \<Rightarrow> nat \<Rightarrow> nat" where "add32 x y = (x + y) mod U32"

definition sum_word :: "nat \<Rightarrow> nat \<times> nat \<Rightarrow> nat \<times> nat" where
  "sum_word w acc = (case acc of (a, b) \<Rightarrow> let a = add32 a w in (a, add32 b a))"

definition reduce16 :: "nat \<Rightarrow> nat" where "reduce16 x = add32 (x mod 2 ^ 16) (x div 2 ^ 16)"

definition reduce_both :: "nat \<times> nat \<Rightarrow> nat \<times> nat" where
  "reduce_both acc = (case acc of (a, b) \<Rightarrow> (reduce16 a, reduce16 b))"

definition FLETCHER_BLOCK :: nat where "FLETCHER_BLOCK = 720"

function fletcher_blocks :: "bytes \<Rightarrow> nat \<times> nat \<Rightarrow> nat \<times> nat" where
  "fletcher_blocks bs acc =
     (if bs = [] then acc
      else fletcher_blocks (drop FLETCHER_BLOCK bs) (reduce_both (fold sum_word (be_words (take FLETCHER_BLOCK bs)) acc)))"
  by pat_completeness auto
termination by (relation "measure (\<lambda>(bs, acc). length bs)") (auto simp: FLETCHER_BLOCK_def length_greater_0_conv [symmetric] simp del: length_greater_0_conv)

declare fletcher_blocks.simps [simp del]

definition fletcher32 :: "bytes \<Rightarrow> u32" where
  "fletcher32 data =
     (case reduce_both (fletcher_blocks data (0, 0)) of (a, b) \<Rightarrow> push_bit 16 (of_nat b) OR of_nat a)"

definition swapped_halves :: "u32 \<Rightarrow> u32" where
  "swapped_halves x = push_bit 8 (x AND 0x00FF00FF) OR (drop_bit 8 x AND 0x00FF00FF)"

definition strip_fletcher32 :: "bytes \<Rightarrow> bytes option" where
  "strip_fletcher32 bs =
     (if length bs < 4 then None
      else
        let body = length bs - 4; stored = of_le (drop body bs); checksum = fletcher32 (take body bs)
        in if stored \<noteq> checksum \<and> stored \<noteq> swapped_halves checksum then None else Some (take body bs))"

section \<open>Shuffling and back\<close>

text \<open>The specification: byte \<open>b\<close> of element \<open>e\<close> is stored in block \<open>b\<close>, at \<open>e\<close>; what is left over stays.\<close>

definition shuffled_place :: "nat \<Rightarrow> nat \<Rightarrow> nat \<Rightarrow> nat" where
  "shuffled_place n itemsize i =
     (let elements = n div itemsize in
      if i < elements * itemsize then (i mod itemsize) * elements + i div itemsize else i)"

definition shuffle :: "bytes \<Rightarrow> nat \<Rightarrow> bytes" where
  "shuffle bs itemsize =
     map (\<lambda>j. let elements = length bs div itemsize in
       if j < elements * itemsize then bs ! ((j mod elements) * itemsize + j div elements) else bs ! j) [0..<length bs]"

lemma length_unshuffle_row [simp]: "length (fold (\<lambda>e. unshuffle_byte bs isz b e) es out) = length out"
  by (induction es arbitrary: out) (simp_all add: unshuffle_byte_def)

lemma length_unshuffle_rows [simp]:
  "length (fold (\<lambda>b. fold (\<lambda>e. unshuffle_byte bs isz b e) es) rows out) = length out"
  by (induction rows arbitrary: out) simp_all

lemma length_unshuffle [simp]: "length (unshuffle bs isz) = length bs"
  by (simp add: unshuffle_def)

text \<open>A row of the loop writes one byte of every element.\<close>

lemma unshuffle_row_nth:
  assumes "b < isz" "m \<le> length out div isz" "i < length out"
  shows "fold (\<lambda>e. unshuffle_byte bs isz b e) [0..<m] out ! i =
    (if i mod isz = b \<and> i div isz < m then bs ! (b * (length bs div isz) + i div isz) else out ! i)"
  using assms(2)
proof (induction m)
  case (Suc m)
  let ?row = "fold (\<lambda>e. unshuffle_byte bs isz b e) [0..<m] out"
  have isz: "0 < isz" using assms(1) by simp
  have place: "m * isz + b = i \<longleftrightarrow> i mod isz = b \<and> i div isz = m"
    using assms(1) isz by (auto simp: div_mult_mod_eq [symmetric])
  have "(m + 1) * isz \<le> length out"
    using Suc.prems isz by (metis Suc_eq_plus1 div_times_less_eq_dividend mult_le_mono1 order_trans)
  then have inside: "m * isz + b < length ?row" using assms(1) by simp
  have "fold (\<lambda>e. unshuffle_byte bs isz b e) [0..<Suc m] out = ?row[m * isz + b := bs ! (b * (length bs div isz) + m)]"
    by (simp add: unshuffle_byte_def)
  then have "fold (\<lambda>e. unshuffle_byte bs isz b e) [0..<Suc m] out ! i =
      (if m * isz + b = i then bs ! (b * (length bs div isz) + m) else ?row ! i)"
    using inside by (simp add: nth_list_update)
  then show ?case using Suc place by auto
qed simp

lemma unshuffle_rows_nth:
  assumes "1 < isz" "i < length bs" "r \<le> isz"
  shows "fold (\<lambda>b. fold (\<lambda>e. unshuffle_byte bs isz b e) [0..<length bs div isz]) [0..<r] bs ! i =
    (if i mod isz < r \<and> i div isz < length bs div isz then bs ! (i mod isz * (length bs div isz) + i div isz) else bs ! i)"
  using assms(3)
proof (induction r)
  case (Suc r)
  let ?rows = "fold (\<lambda>b. fold (\<lambda>e. unshuffle_byte bs isz b e) [0..<length bs div isz]) [0..<r] bs"
  have "fold (\<lambda>b. fold (\<lambda>e. unshuffle_byte bs isz b e) [0..<length bs div isz]) [0..<Suc r] bs ! i
      = fold (\<lambda>e. unshuffle_byte bs isz r e) [0..<length bs div isz] ?rows ! i" by simp
  also have "\<dots> = (if i mod isz = r \<and> i div isz < length bs div isz then bs ! (r * (length bs div isz) + i div isz) else ?rows ! i)"
    using Suc.prems assms(2) by (intro unshuffle_row_nth) simp_all
  finally show ?case using Suc by auto
qed simp

lemma div_less_elements: "0 < isz \<Longrightarrow> i div isz < n div isz \<longleftrightarrow> i < n div isz * (isz :: nat)"
  by (simp add: div_less_iff_less_mult)

lemma unshuffle_nth:
  assumes "0 < isz" "i < length bs"
  shows "unshuffle bs isz ! i = bs ! shuffled_place (length bs) isz i"
proof (cases "1 < isz")
  case True
  have "i mod isz < isz" using assms(1) by simp
  then show ?thesis
    using unshuffle_rows_nth [OF True assms(2) order_refl] True div_less_elements [OF assms(1), of i "length bs"]
    by (simp add: unshuffle_def shuffled_place_def Let_def)
next
  case False
  then have "isz = 1" using assms(1) by simp
  then show ?thesis by (simp add: unshuffle_def shuffled_place_def Let_def)
qed

lemma length_shuffle [simp]: "length (shuffle bs isz) = length bs" by (simp add: shuffle_def)

lemma shuffled_place_less:
  assumes "0 < isz" "i < n"
  shows "shuffled_place n isz i < n"
proof (cases "i < n div isz * isz")
  case True
  then have "i div isz < n div isz" using div_less_elements [OF assms(1)] by simp
  moreover have "i mod isz < isz" using assms(1) by simp
  ultimately have "i mod isz * (n div isz) + i div isz < isz * (n div isz)"
    by (metis add_less_mono1 add_mult_distrib less_eq_Suc_le mult_le_mono1 mult_Suc add.commute nat_add_left_cancel_less order_less_le_trans)
  also have "\<dots> \<le> n" by simp
  finally show ?thesis using True by (simp add: shuffled_place_def Let_def)
qed (use assms in \<open>simp add: shuffled_place_def Let_def\<close>)

lemma unshuffle_shuffle:
  assumes isz: "0 < isz"
  shows "unshuffle (shuffle bs isz) isz = bs"
proof (rule nth_equalityI)
  fix i assume "i < length (unshuffle (shuffle bs isz) isz)"
  then have i: "i < length bs" by simp
  let ?m = "length bs div isz" and ?p = "shuffled_place (length bs) isz i"
  have p: "?p < length bs" by (rule shuffled_place_less [OF isz i])
  have "shuffle bs isz ! ?p = bs ! i"
  proof (cases "i < ?m * isz")
    case True
    then have d: "i div isz < ?m" using div_less_elements [OF isz] by simp
    have place: "?p = i mod isz * ?m + i div isz" using True by (simp add: shuffled_place_def Let_def)
    have "?p mod ?m = i div isz" "?p div ?m = i mod isz" using d by (simp_all add: place)
    moreover have "?p < ?m * isz"
    proof -
      have "(i mod isz + 1) * ?m \<le> isz * ?m" using isz by (intro mult_le_mono1) (simp add: Suc_leI)
      then show ?thesis using d by (simp add: place mult.commute)
    qed
    ultimately show ?thesis using p by (simp add: shuffle_def Let_def)
  next
    case False
    then have "?p = i" by (simp add: shuffled_place_def Let_def)
    then show ?thesis using i False by (simp add: shuffle_def Let_def)
  qed
  then show "unshuffle (shuffle bs isz) isz ! i = bs ! i" using unshuffle_nth [OF isz, of i "shuffle bs isz"] i by simp
qed simp

section \<open>The sums\<close>

lemma byte_less: "unat (x :: u8) < 256"
  using unsigned_less [of x, where ?'a = nat] by simp

lemma be_words_le: "\<forall>w \<in> set (be_words bs). w \<le> 65535"
proof (induction bs rule: be_words.induct)
  case (2 x)
  then show ?case using byte_less [of x] by simp
next
  case (3 x y bs)
  then show ?case using byte_less [of x] byte_less [of y] by simp
qed simp

lemma length_be_words: "length (be_words bs) = (length bs + 1) div 2"
  by (induction bs rule: be_words.induct) simp_all

lemma be_words_append: "even (length xs) \<Longrightarrow> be_words (xs @ ys) = be_words xs @ be_words ys"
  by (induction xs rule: be_words.induct) simp_all

text \<open>The sums without any bound: of the words, and of those sums.\<close>

definition sums :: "nat list \<Rightarrow> nat \<times> nat \<Rightarrow> nat \<times> nat" where
  "sums ws acc = fold (\<lambda>w (a, b). (a + w, b + (a + w))) ws acc"

lemma sums_simps [simp]: "sums [] acc = acc" "sums (w # ws) (a, b) = sums ws (a + w, b + (a + w))"
  by (simp_all add: sums_def)

lemma sums_append: "sums (xs @ ys) acc = sums ys (sums xs acc)"
  by (simp add: sums_def)

text \<open>A block of 360 words keeps them below \<open>2 ^ 32\<close>.\<close>

lemma sums_bound:
  assumes "\<forall>w \<in> set ws. w \<le> 65535"
  shows "fst (sums ws (a, b)) \<le> a + 65535 * length ws
    \<and> 2 * snd (sums ws (a, b)) \<le> 2 * b + 2 * (length ws * a) + 65535 * (length ws * (length ws + 1))"
  using assms
proof (induction ws arbitrary: a b)
  case (Cons w ws)
  let ?n = "length ws"
  have w: "w \<le> 65535" and IH: "fst (sums ws (a + w, b + (a + w))) \<le> a + w + 65535 * ?n"
    "2 * snd (sums ws (a + w, b + (a + w))) \<le> 2 * (b + (a + w)) + 2 * (?n * (a + w)) + 65535 * (?n * (?n + 1))"
    using Cons.IH [of "a + w" "b + (a + w)"] Cons.prems by auto
  have "2 * (b + (a + w)) + 2 * (?n * (a + w)) + 65535 * (?n * (?n + 1))
      = 2 * b + 2 * a + 2 * w + 2 * (?n * a) + 2 * (?n * w) + 65535 * (?n * ?n) + 65535 * ?n"
    by (simp add: algebra_simps)
  moreover have "2 * b + 2 * ((?n + 1) * a) + 65535 * ((?n + 1) * (?n + 2))
      = 2 * b + 2 * (?n * a) + 2 * a + 65535 * (?n * ?n) + 196605 * ?n + 131070"
    by (simp add: algebra_simps)
  moreover have "?n * w \<le> ?n * 65535" using w by (rule mult_le_mono2)
  ultimately have "2 * (b + (a + w)) + 2 * (?n * (a + w)) + 65535 * (?n * (?n + 1))
      \<le> 2 * b + 2 * ((?n + 1) * a) + 65535 * ((?n + 1) * (?n + 2))"
    using w by linarith
  then show ?case using w IH by simp
qed simp

text \<open>What the code keeps between blocks.\<close>

definition small_sums :: "nat \<times> nat \<Rightarrow> bool" where
  "small_sums acc \<longleftrightarrow> fst acc \<le> 65896 \<and> snd acc \<le> 131070"

lemma block_unwrapped:
  assumes "\<forall>w \<in> set ws. w \<le> 65535" "length ws \<le> 360" "small_sums acc"
  shows "fold sum_word ws acc = sums ws acc \<and> fst (sums ws acc) < U32 \<and> snd (sums ws acc) < U32"
proof -
  have bound: "fst (sums vs acc) < U32 \<and> snd (sums vs acc) < U32"
    if "\<forall>w \<in> set vs. w \<le> 65535" "length vs \<le> 360" for vs
  proof -
    obtain a b where ab: "acc = (a, b)" "a \<le> 65896" "b \<le> 131070" using assms(3) by (cases acc) (simp add: small_sums_def)
    have "length vs * a \<le> 360 * 65896" "length vs * (length vs + 1) \<le> 360 * (360 + 1)"
      using that(2) ab(2) by (intro mult_le_mono; simp)+
    then show ?thesis using sums_bound [OF that(1), of a b] ab that(2) by (simp add: U32_def)
  qed
  have "fold sum_word ws acc = sums ws acc" using assms(1,2)
  proof (induction ws rule: rev_induct)
    case (snoc w ws)
    obtain a b where ab: "sums ws acc = (a, b)" by fastforce
    have "sums (ws @ [w]) acc = (a + w, b + (a + w))" by (simp add: sums_append ab)
    then have "a + w < U32" "b + (a + w) < U32" using bound [of "ws @ [w]"] snoc.prems by simp_all
    then show ?case using snoc ab by (simp add: sum_word_def add32_def sums_append Let_def)
  qed simp
  then show ?thesis using bound [OF assms(1,2)] by simp
qed

lemma reduce16_mod: "x < U32 \<Longrightarrow> reduce16 x mod 65535 = x mod 65535 \<and> reduce16 x \<le> 65535 + x div 65536 \<and> reduce16 x \<le> 131070"
proof -
  assume x: "x < U32"
  then have "x div 65536 \<le> 65535" by (simp add: U32_def)
  moreover have "x mod 65536 \<le> 65535" by simp
  ultimately have sum: "reduce16 x = x mod 65536 + x div 65536" by (simp add: reduce16_def add32_def U32_def)
  have "x = x mod 65536 + x div 65536 + x div 65536 * 65535" using div_mult_mod_eq [of x 65536] by linarith
  then have "x mod 65535 = (x mod 65536 + x div 65536) mod 65535" by (metis mod_mult_self1)
  then show ?thesis using sum \<open>x div 65536 \<le> 65535\<close> \<open>x mod 65536 \<le> 65535\<close> by simp
qed

definition same_sums :: "nat \<times> nat \<Rightarrow> nat \<times> nat \<Rightarrow> bool" where
  "same_sums x y \<longleftrightarrow> fst x mod 65535 = fst y mod 65535 \<and> snd x mod 65535 = snd y mod 65535"

lemma sums_cong: "same_sums x y \<Longrightarrow> same_sums (sums ws x) (sums ws y)"
proof (induction ws arbitrary: x y)
  case (Cons w ws)
  obtain a b a' b' where xy: "x = (a, b)" "y = (a', b')" by fastforce
  have a: "(a + w) mod 65535 = (a' + w) mod 65535"
    by (rule mod_add_cong) (use Cons.prems xy in \<open>simp_all add: same_sums_def\<close>)
  have "(b + (a + w)) mod 65535 = (b' + (a' + w)) mod 65535"
    by (rule mod_add_cong [OF _ a]) (use Cons.prems xy in \<open>simp add: same_sums_def\<close>)
  then have "same_sums (a + w, b + (a + w)) (a' + w, b' + (a' + w))" unfolding same_sums_def fst_conv snd_conv using a by (rule conjI [rotated])
  from Cons.IH [OF this] show ?case by (simp add: xy)
qed simp

lemma fletcher_blocks_sums:
  "small_sums acc \<Longrightarrow> small_sums (fletcher_blocks bs acc) \<and> same_sums (fletcher_blocks bs acc) (sums (be_words bs) acc)"
proof (induction bs acc rule: fletcher_blocks.induct)
  case (1 bs acc)
  show ?case
  proof (cases "bs = []")
    case True
    then show ?thesis using 1 by (subst (1 2) fletcher_blocks.simps) (simp add: same_sums_def)
  next
    case False
    let ?ws = "be_words (take FLETCHER_BLOCK bs)" and ?rest = "drop FLETCHER_BLOCK bs"
    have "length ?ws \<le> 360" by (simp add: length_be_words FLETCHER_BLOCK_def)
    note block = block_unwrapped [OF be_words_le this "1.prems"]
    let ?s = "sums ?ws acc" and ?r = "reduce_both (sums ?ws acc)"
    have fst_le: "fst ?s \<le> 65896 + 65535 * 360"
      using sums_bound [OF be_words_le, of "take FLETCHER_BLOCK bs" "fst acc" "snd acc"] \<open>length ?ws \<le> 360\<close> "1.prems"
      by (simp add: small_sums_def)
    have r: "?r = (reduce16 (fst ?s), reduce16 (snd ?s))" by (simp add: reduce_both_def split_beta)
    have small: "small_sums ?r"
      using reduce16_mod [of "fst ?s"] reduce16_mod [of "snd ?s"] block div_le_mono [OF fst_le, of 65536] by (simp add: r small_sums_def)
    have same: "same_sums ?r ?s"
      using reduce16_mod [of "fst ?s"] reduce16_mod [of "snd ?s"] block by (simp add: r same_sums_def)
    have step: "fletcher_blocks bs acc = fletcher_blocks ?rest ?r"
      using False block by (subst fletcher_blocks.simps) simp
    have IH: "small_sums (fletcher_blocks ?rest ?r)" "same_sums (fletcher_blocks ?rest ?r) (sums (be_words ?rest) ?r)"
      using "1.IH" [OF False] block small by simp_all
    have words: "be_words bs = ?ws @ be_words ?rest"
    proof (cases "length bs \<le> FLETCHER_BLOCK")
      case False
      then have "even (length (take FLETCHER_BLOCK bs))" by (simp add: FLETCHER_BLOCK_def)
      from be_words_append [OF this, of ?rest] show ?thesis by simp
    qed simp
    have "same_sums (sums (be_words ?rest) ?r) (sums (be_words ?rest) ?s)"
      using same by (rule sums_cong)
    then show ?thesis using IH by (simp add: step words sums_append same_sums_def)
  qed
qed

text \<open>The checksum is the two sums modulo 65535, each in a half of the word.\<close>

lemma halves_joined:
  assumes "a < 2 ^ 16" "b < 2 ^ 16"
  shows "(push_bit 16 (of_nat b) OR of_nat a :: u32) = of_nat (b * 2 ^ 16 + a)"
proof -
  have high: "\<not> bit a n" if "16 \<le> n" for n
    using that assms(1) by (metis bit_take_bit_iff linorder_not_le take_bit_nat_eq_self)
  have "push_bit 16 b AND a = 0" by (rule bit_eqI) (auto simp: bit_simps high)
  then have "push_bit 16 b + a = push_bit 16 b OR a" by (rule disjunctive_add_eq_or)
  then have "push_bit 16 b OR a = b * 2 ^ 16 + a" by (metis push_bit_eq_mult)
  then show ?thesis by (metis of_nat_or_eq of_nat_push_bit)
qed

lemma fletcher32_value:
  "\<exists>a b. fletcher32 bs = of_nat (b * 2 ^ 16 + a) \<and> a \<le> 65535 \<and> b \<le> 65535
    \<and> a mod 65535 = fst (sums (be_words bs) (0, 0)) mod 65535 \<and> b mod 65535 = snd (sums (be_words bs) (0, 0)) mod 65535"
proof -
  let ?f = "fletcher_blocks bs (0, 0)"
  have f: "small_sums ?f" "same_sums ?f (sums (be_words bs) (0, 0))"
    using fletcher_blocks_sums [of "(0, 0)" bs] by (simp_all add: small_sums_def)
  have once: "reduce16 x \<le> 65535 \<and> reduce16 x mod 65535 = x mod 65535" if "x \<le> 131070" for x
  proof -
    have "x mod 65536 + x div 65536 \<le> 65535" using that by (cases "x < 65536") (auto simp: not_less mod_if div_if)
    then show ?thesis using that reduce16_mod [of x] by (simp add: reduce16_def add32_def U32_def)
  qed
  have a: "reduce16 (fst ?f) \<le> 65535" "reduce16 (snd ?f) \<le> 65535" using f(1) once by (simp_all add: small_sums_def)
  have "fletcher32 bs = of_nat (reduce16 (snd ?f) * 2 ^ 16 + reduce16 (fst ?f))"
    using halves_joined [of "reduce16 (fst ?f)" "reduce16 (snd ?f)"] a by (simp add: fletcher32_def reduce_both_def split_beta)
  then show ?thesis using a f once [of "fst ?f"] once [of "snd ?f"] by (auto simp: same_sums_def small_sums_def)
qed

text \<open>A single byte that was changed changes the checksum.\<close>

lemma fst_sums: "fst (sums ws acc) = fst acc + sum_list ws"
proof (induction ws arbitrary: acc)
  case (Cons w ws)
  obtain a b where "acc = (a, b)" by fastforce
  then show ?case using Cons.IH [of "(a + w, b + (a + w))"] by simp
qed simp

lemma be_words_update:
  "i < length bs \<Longrightarrow> sum_list (be_words (bs[i := x])) + (if even i then 256 else 1) * unat (bs ! i)
    = sum_list (be_words bs) + (if even i then 256 else 1) * unat x"
proof (induction bs arbitrary: i rule: be_words.induct)
  case (3 y z bs)
  consider "i = 0" | "i = 1" | j where "i = Suc (Suc j)" by (metis One_nat_def not0_implies_Suc)
  then show ?case
  proof cases
    case (3 j)
    then show ?thesis using "3.IH" [of j] "3.prems" by simp
  qed simp_all
qed auto

lemma fletcher32_detects:
  assumes i: "i < length bs" and eq: "fletcher32 (bs[i := x]) = fletcher32 bs"
  shows "x = bs ! i"
proof -
  let ?k = "if even i then 256 else 1 :: nat" and ?S = "\<lambda>bs. sum_list (be_words bs)"
  have low: "\<exists>n. fletcher32 cs = of_nat n \<and> n < 2 ^ 32 \<and> n mod 2 ^ 16 mod 65535 = ?S cs mod 65535" for cs
  proof -
    obtain a b where "fletcher32 cs = of_nat (b * 2 ^ 16 + a)" "a \<le> 65535" "b \<le> 65535" "a mod 65535 = ?S cs mod 65535"
      using fletcher32_value [of cs] by (auto simp: fst_sums)
    moreover from this have "b * 2 ^ 16 + a < 2 ^ 32" "(b * 2 ^ 16 + a) mod 2 ^ 16 = a" by simp_all
    ultimately show ?thesis by metis
  qed
  obtain m n where m: "fletcher32 (bs[i := x]) = of_nat m" "m < 2 ^ 32" "m mod 2 ^ 16 mod 65535 = ?S (bs[i := x]) mod 65535"
    and n: "fletcher32 bs = of_nat n" "n < 2 ^ 32" "n mod 2 ^ 16 mod 65535 = ?S bs mod 65535"
    using low by metis
  have "unat (of_nat m :: u32) = unat (of_nat n :: u32)" using eq m(1) n(1) by simp
  then have "m = n" using m(2) n(2) by (simp add: unat_of_nat)
  then have "(?S (bs[i := x]) + ?k * unat (bs ! i)) mod 65535 = (?S bs + ?k * unat (bs ! i)) mod 65535"
    using m(3) n(3) by (metis mod_add_left_eq)
  then have "(?S bs + ?k * unat x) mod 65535 = (?S bs + ?k * unat (bs ! i)) mod 65535" using be_words_update [OF i, of x] by simp
  then have "(?k * unat x) mod 65535 = (?k * unat (bs ! i)) mod 65535" unfolding nat_mod_eq_iff by auto
  moreover have "?k * unat y < 65535" for y :: u8 using byte_less [of y] by simp
  ultimately have "?k * unat x = ?k * unat (bs ! i)" by (metis mod_less)
  then have "unat x = unat (bs ! i)" by (simp split: if_splits)
  then show ?thesis by (rule word_unat_eq_iff [THEN iffD2])
qed

text \<open>What the filter appended is taken off again.\<close>

lemma strip_fletcher32_appended: "strip_fletcher32 (bs @ to_le (fletcher32 bs)) = Some bs"
  by (simp add: strip_fletcher32_def Let_def)

lemma strip_fletcher32_old: "strip_fletcher32 (bs @ to_le (swapped_halves (fletcher32 bs))) = Some bs"
  by (simp add: strip_fletcher32_def Let_def)

lemma strip_fletcher32_Some: "strip_fletcher32 bs = Some out \<Longrightarrow> length bs = length out + 4"
  by (auto simp: strip_fletcher32_def Let_def split: if_splits)

end
