(* ===== verification/Hdf5.thy ===== *)
theory Hdf5
  imports Hdf5_Filters Chunk_Reads Paths
begin

text \<open>
  HDF5 files (\<open>aex-core/src/backends/hdf5.rs\<close>). The HDF5 library answers for the metadata: what is at a path, a
  dataset's type, shape, layout, filters, fill value and where its chunks are; those answers are the records
  \<open>hdf5_library\<close>, \<open>hdf5_source\<close> and \<open>hdf5_attribute\<close>. The bytes are read from the file itself (\<open>raw_file\<close>), and the filters are
  undone here. Messages for people are left out.
\<close>

section \<open>Element types\<close>

datatype int_size = IU1 | IU2 | IU4 | IU8
datatype float_size = FU2 | FU4 | FU8

datatype type_descriptor =
  TD_Integer int_size
| TD_Unsigned int_size
| TD_Float float_size
| TD_Boolean
| TD_Compound nat "(string \<times> type_descriptor \<times> nat) list"
| TD_VarLenUnicode
| TD_VarLenAscii
| TD_FixedAscii nat
| TD_FixedUnicode nat
| TD_Other

record hdf5_datatype =
  ht_descriptor :: "type_descriptor option"
  ht_size :: nat
  ht_little_endian :: bool

fun float_size_bytes :: "float_size \<Rightarrow> nat" where
  "float_size_bytes FU2 = 2"
| "float_size_bytes FU4 = 4"
| "float_size_bytes FU8 = 8"

definition complex_float :: "nat \<Rightarrow> (string \<times> type_descriptor \<times> nat) list \<Rightarrow> float_size option" where
  "complex_float sz members =
     (case members of
        [(rname, TD_Float fsz, roff), (iname, ity, ioff)] \<Rightarrow>
          (let half = sz div 2;
               laid_out = (rname = ''r'' \<and> iname = ''i'' \<and> roff = 0 \<and> ioff = half)
           in if laid_out \<and> ity = TD_Float fsz \<and> float_size_bytes fsz = half then Some fsz else None)
      | _ \<Rightarrow> None)"

fun int_dtype :: "int_size \<Rightarrow> dtype" where
  "int_dtype IU1 = Int8" | "int_dtype IU2 = Int16" | "int_dtype IU4 = Int32" | "int_dtype IU8 = Int64"

fun uint_dtype :: "int_size \<Rightarrow> dtype" where
  "uint_dtype IU1 = Uint8" | "uint_dtype IU2 = Uint16" | "uint_dtype IU4 = Uint32" | "uint_dtype IU8 = Uint64"

fun float_dtype :: "float_size \<Rightarrow> dtype" where
  "float_dtype FU2 = Float16" | "float_dtype FU4 = Float32" | "float_dtype FU8 = Float64"

definition dtype_of_descriptor :: "type_descriptor \<Rightarrow> dtype option" where
  "dtype_of_descriptor desc =
     (case desc of
        TD_Integer isz \<Rightarrow> Some (int_dtype isz)
      | TD_Unsigned isz \<Rightarrow> Some (uint_dtype isz)
      | TD_Float fsz \<Rightarrow> Some (float_dtype fsz)
      | TD_Boolean \<Rightarrow> Some Bool
      | TD_Compound sz members \<Rightarrow>
          if complex_float sz members = Some FU4 then Some Complex64
          else if complex_float sz members = Some FU8 then Some Complex128
          else None
      | _ \<Rightarrow> None)"

definition hdf5_dtype_of :: "hdf5_datatype \<Rightarrow> dtype option" where
  "hdf5_dtype_of t =
     Option.bind (ht_descriptor t) (\<lambda>desc.
       if ht_size t > 1 \<and> \<not> ht_little_endian t then None else dtype_of_descriptor desc)"

section \<open>A dataset as the library describes it\<close>

datatype hdf5_filter = Deflate | Shuffle | Fletcher32 | Other_Filter

datatype hdf5_layout = Layout_Contiguous | Layout_Chunked | Layout_Other

record chunk_info =
  ci_offset :: "nat list"
  ci_addr :: nat
  ci_size :: nat
  ci_filter_mask :: u32

record hdf5_source =
  hs_dtype :: "aex_error + hdf5_datatype"
  hs_null_space :: "aex_error + bool"
  hs_shape :: "nat list"
  hs_dcpl :: "aex_error + unit"
  hs_external :: bool
  hs_layout :: hdf5_layout
  hs_offset :: "nat option"
  hs_chunk :: "nat list option"
  hs_filters :: "hdf5_filter list"
  hs_chunks :: "chunk_info list"
  hs_visit_end :: "aex_error + unit"
  hs_visit_stopped :: "aex_error + unit"
  hs_fill_defined :: bool
  hs_fill :: "(nat \<Rightarrow> u8) option"

section \<open>Opening\<close>

record chunk_entry =
  en_addr :: nat
  en_size :: nat
  en_filter_mask :: u32

definition CHUNK_MISSING :: chunk_entry where
  "CHUNK_MISSING = \<lparr>en_addr = U64 - 1, en_size = 0, en_filter_mask = 0\<rparr>"

record hdf5_chunked =
  hc_source :: hdf5_source
  hc_grid :: chunk_grid
  hc_filters :: "hdf5_filter list"
  hc_cache_key :: nat

datatype hdf5_storage = Contiguous_At nat | Unallocated | Chunked_In hdf5_chunked

record hdf5_dataset =
  hd_raw :: raw_file
  hd_dtype :: dtype
  hd_shape :: "nat list"
  hd_storage :: hdf5_storage
  hd_fill :: bytes

definition fill_value :: "hdf5_source \<Rightarrow> dtype \<Rightarrow> aex_error + bytes" where
  "fill_value src d =
     (if \<not> hs_fill_defined src then Ok (replicate (itemsize d) 0)
      else res_bind (hs_dtype src) (\<lambda>_. res_map (\<lambda>fill. map fill [0..<itemsize d]) (ok_or (hs_fill src) MalformedHdf5)))"

definition hdf5_chunked_new ::
    "hdf5_source \<Rightarrow> nat list \<Rightarrow> dtype \<Rightarrow> nat list \<Rightarrow> hdf5_filter list \<Rightarrow> (cache, aex_error, hdf5_chunked) act" where
  "hdf5_chunked_new src shape d chunk_shape filters c =
     (case grid_new shape chunk_shape (itemsize d) of
        None \<Rightarrow> act_throw MalformedHdf5 c
      | Some grid \<Rightarrow>
          if chunks grid > MAX_CHUNKS then act_throw UnsupportedHdf5 c
          else case new_key c of (key, c) \<Rightarrow>
            act_return \<lparr>hc_source = src, hc_grid = grid, hc_filters = filters, hc_cache_key = key\<rparr> c)"

definition data_len_of :: "dtype \<Rightarrow> nat list \<Rightarrow> nat option" where
  "data_len_of d shape = checked_fold (itemsize d) shape"

definition hdf5_storage_of :: "hdf5_source \<Rightarrow> dtype \<Rightarrow> (cache, aex_error, hdf5_storage) act" where
  "hdf5_storage_of src d =
     (case hs_layout src of
        Layout_Contiguous \<Rightarrow> act_return (case hs_offset src of Some offset \<Rightarrow> Contiguous_At offset | None \<Rightarrow> Unallocated)
      | Layout_Chunked \<Rightarrow>
          act_bind (act_of (ok_or (hs_chunk src) MalformedHdf5)) (\<lambda>chunk_shape.
            if Other_Filter \<in> set (hs_filters src) then act_throw UnsupportedHdf5
            else act_bind (hdf5_chunked_new src (hs_shape src) d chunk_shape (hs_filters src)) (\<lambda>hc.
              act_return (Chunked_In hc)))
      | Layout_Other \<Rightarrow> act_throw UnsupportedHdf5)"

definition check_contiguous :: "raw_file \<Rightarrow> hdf5_storage \<Rightarrow> nat \<Rightarrow> aex_error + unit" where
  "check_contiguous raw storage data_len =
     (case storage of
        Contiguous_At offset \<Rightarrow>
          res_bind (io (rf_len raw)) (\<lambda>file_len.
            case cadd offset data_len of
              None \<Rightarrow> Err MalformedHdf5
            | Some stop \<Rightarrow> if stop > file_len then Err MalformedHdf5 else Ok ())
      | _ \<Rightarrow> Ok ())"

definition hdf5_dataset_open :: "hdf5_source \<Rightarrow> raw_file \<Rightarrow> (cache, aex_error, hdf5_dataset) act" where
  "hdf5_dataset_open src raw =
     act_bind (act_of (res_bind (hs_dtype src) (\<lambda>t. ok_or (hdf5_dtype_of t) UnsupportedDType))) (\<lambda>d.
     act_bind (act_of (hs_null_space src)) (\<lambda>null.
       if null then act_throw UnsupportedHdf5
       else
         act_bind (act_of (ok_or (data_len_of d (hs_shape src)) MalformedHdf5)) (\<lambda>data_len.
         act_bind (act_of (hs_dcpl src)) (\<lambda>_.
           if hs_external src then act_throw UnsupportedHdf5
           else
             act_bind (hdf5_storage_of src d) (\<lambda>storage.
             act_bind (act_of (check_contiguous raw storage data_len)) (\<lambda>_.
             act_bind (act_of (fill_value src d)) (\<lambda>fill.
               act_return \<lparr>hd_raw = raw, hd_dtype = d, hd_shape = hs_shape src, hd_storage = storage, hd_fill = fill\<rparr>)))))))"

section \<open>The index of chunks\<close>

text \<open>
  What the callback of \<open>chunks_visit\<close> does with the chunks the library lists: \<open>None\<close> when it stops at a bad one. A
  chunk that is not in the grid is left out.
\<close>

definition entry_of :: "chunk_info \<Rightarrow> chunk_entry" where
  "entry_of c = \<lparr>en_addr = ci_addr c, en_size = ci_size c, en_filter_mask = ci_filter_mask c\<rparr>"

definition bad_entry :: "chunk_grid \<Rightarrow> bool \<Rightarrow> nat \<Rightarrow> chunk_entry \<Rightarrow> bool" where
  "bad_entry grid unfiltered file_len e \<longleftrightarrow>
     (unfiltered \<and> en_size e \<noteq> cg_chunk_bytes grid)
     \<or> (case cadd (en_addr e) (en_size e) of None \<Rightarrow> True | Some stop \<Rightarrow> stop > file_len)"

fun visit_chunks ::
    "chunk_grid \<Rightarrow> bool \<Rightarrow> nat \<Rightarrow> chunk_info list \<Rightarrow> chunk_entry list \<Rightarrow> chunk_entry list option" where
  "visit_chunks grid unfiltered file_len [] index = Some index"
| "visit_chunks grid unfiltered file_len (c # cs) index =
     (case chunk_of grid (map2 (div) (ci_offset c) (cg_chunk_shape grid)) of
        None \<Rightarrow> visit_chunks grid unfiltered file_len cs index
      | Some n \<Rightarrow>
          if bad_entry grid unfiltered file_len (entry_of c) then None
          else visit_chunks grid unfiltered file_len cs (index[n := entry_of c]))"

definition hdf5_index :: "raw_file \<Rightarrow> hdf5_chunked \<Rightarrow> aex_error + chunk_entry list" where
  "hdf5_index raw hc =
     res_bind (io (rf_len raw)) (\<lambda>file_len.
       case visit_chunks (hc_grid hc) (hc_filters hc = []) file_len (hs_chunks (hc_source hc))
           (replicate (chunks (hc_grid hc)) CHUNK_MISSING) of
         None \<Rightarrow> res_bind (hs_visit_stopped (hc_source hc)) (\<lambda>_. Err MalformedHdf5)
       | Some index \<Rightarrow> res_map (\<lambda>_. index) (hs_visit_end (hc_source hc)))"

section \<open>Reading\<close>

text \<open>The filters backwards, with their places in the pipeline. A filter of another kind was refused at open.\<close>

fun undo_filter :: "(bytes \<Rightarrow> bytes \<times> bool) \<Rightarrow> chunk_grid \<Rightarrow> hdf5_filter \<Rightarrow> bytes \<Rightarrow> aex_error + bytes" where
  "undo_filter unzlib grid Fletcher32 bs = ok_or (strip_fletcher32 bs) MalformedHdf5"
| "undo_filter unzlib grid Deflate bs = ok_or (inflate unzlib bs (cg_chunk_bytes grid)) MalformedHdf5"
| "undo_filter unzlib grid Shuffle bs = Ok (unshuffle bs (cg_itemsize grid))"
| "undo_filter unzlib grid Other_Filter bs = undefined"

fun undo_filters ::
    "(bytes \<Rightarrow> bytes \<times> bool) \<Rightarrow> chunk_grid \<Rightarrow> u32 \<Rightarrow> (nat \<times> hdf5_filter) list \<Rightarrow> bytes \<Rightarrow> aex_error + bytes" where
  "undo_filters unzlib grid skip [] bs = Ok bs"
| "undo_filters unzlib grid skip ((i, f) # filters) bs =
     (if bit skip i then undo_filters unzlib grid skip filters bs
      else res_bind (undo_filter unzlib grid f bs) (\<lambda>bs. undo_filters unzlib grid skip filters bs))"

definition decode_bytes :: "(bytes \<Rightarrow> bytes \<times> bool) \<Rightarrow> hdf5_chunked \<Rightarrow> u32 \<Rightarrow> bytes \<Rightarrow> aex_error + bytes" where
  "decode_bytes unzlib hc skip bs =
     res_bind (undo_filters unzlib (hc_grid hc) skip (rev (enumerate 0 (hc_filters hc))) bs) (\<lambda>bs.
       if length bs \<noteq> cg_chunk_bytes (hc_grid hc) then Err MalformedHdf5 else Ok bs)"

definition hdf5_decode :: "(bytes \<Rightarrow> bytes \<times> bool) \<Rightarrow> hdf5_chunked \<Rightarrow> raw_file \<Rightarrow> chunk_entry \<Rightarrow> aex_error + bytes" where
  "hdf5_decode unzlib hc raw e =
     res_bind (io (rf_read_exact_at raw (en_addr e) (en_size e))) (\<lambda>bs. decode_bytes unzlib hc (en_filter_mask e) bs)"

record hdf5_env =
  he_unzlib :: "bytes \<Rightarrow> bytes \<times> bool"
  he_sole :: "chunk_key \<times> bytes \<Rightarrow> bool"

definition chunk_piece ::
    "hdf5_env \<Rightarrow> hdf5_dataset \<Rightarrow> hdf5_chunked \<Rightarrow> chunk_entry list \<Rightarrow> chunk_entry array_state chunk_action" where
  "chunk_piece env ds hc index chunk start out =
     (let e = index ! chunk in
      if en_addr e = en_addr CHUNK_MISSING then
        act_return (fill_from (hd_fill ds) (start mod cg_itemsize (hc_grid hc)) (length out))
      else if hc_filters hc = [] then act_of (io (rf_read_exact_at (hd_raw ds) (wadd (en_addr e) start) (length out)))
      else on_cache (read_cached (he_sole env) (hc_cache_key hc, chunk) start out
        (\<lambda>spare. hdf5_decode (he_unzlib env) hc (hd_raw ds) e)))"

definition hdf5_chunked_read ::
    "hdf5_env \<Rightarrow> hdf5_dataset \<Rightarrow> hdf5_chunked \<Rightarrow> nat \<Rightarrow> bytes \<Rightarrow> (chunk_entry array_state, aex_error, bytes) act" where
  "hdf5_chunked_read env ds hc at dst =
     act_bind (once_built (hdf5_index (hd_raw ds) hc)) (\<lambda>index. walk_act (hc_grid hc) at dst (chunk_piece env ds hc index))"

text \<open>The closure \<open>read_range\<close> gives to \<open>read_with\<close>.\<close>

definition hdf5_read :: "hdf5_env \<Rightarrow> hdf5_dataset \<Rightarrow> nat \<Rightarrow> bytes \<Rightarrow> (chunk_entry array_state, aex_error, bytes) act" where
  "hdf5_read env ds at dst =
     (case hd_storage ds of
        Contiguous_At base \<Rightarrow> act_of (io (rf_read_exact_at (hd_raw ds) (wadd base at) (length dst)))
      | Unallocated \<Rightarrow> act_return (fill_from (hd_fill ds) at (length dst))
      | Chunked_In hc \<Rightarrow> hdf5_chunked_read env ds hc at dst)"

definition hdf5_prepare :: "hdf5_dataset \<Rightarrow> (chunk_entry array_state, aex_error, unit) act" where
  "hdf5_prepare ds =
     (case hd_storage ds of
        Chunked_In hc \<Rightarrow> act_bind (once_built (hdf5_index (hd_raw ds) hc)) (\<lambda>_. act_return ())
      | _ \<Rightarrow> act_return ())"

definition hdf5_will_need :: "hdf5_dataset \<Rightarrow> layout \<Rightarrow> nat \<Rightarrow> nat \<Rightarrow> (nat \<times> nat) option" where
  "hdf5_will_need ds lay offset len =
     (case hd_storage ds of
        Contiguous_At base \<Rightarrow> map_option (\<lambda>(at, len). (wadd base at, len)) (source_run lay offset len)
      | _ \<Rightarrow> None)"

definition hdf5_chunk_bytes :: "hdf5_dataset \<Rightarrow> nat option" where
  "hdf5_chunk_bytes ds =
     (case hd_storage ds of
        Chunked_In hc \<Rightarrow> if hc_filters hc \<noteq> [] then Some (cg_chunk_bytes (hc_grid hc)) else None
      | _ \<Rightarrow> None)"

definition hdf5_as_dataset :: "hdf5_env \<Rightarrow> hdf5_dataset \<Rightarrow> chunk_entry array_state \<Rightarrow> dataset" where
  "hdf5_as_dataset env ds s =
     \<lparr>ds_dtype = hd_dtype ds, ds_shape = hd_shape ds,
      ds_read = (\<lambda>at n. result_of (hdf5_read env ds at (replicate n 0)) s),
      ds_decoded_chunk_bytes = hdf5_chunk_bytes ds, ds_prepare = result_of (hdf5_prepare ds) s\<rparr>"

end
