(* ===== verification/Hdf5_Pipeline.thy ===== *)
theory Hdf5_Pipeline
  imports Hdf5
begin

text \<open>
  The pipeline of filters of a chunk, as HDF5 applies it when writing (\<open>write_filters\<close>, the specification), against
  \<open>decode_bytes\<close>, which undoes it. Pipelines that shuffle, then compress, then checksum are undone
  (\<open>filters_undone\<close>); one that compresses the checksum along with the data is refused, because the limit on what a
  stream may expand to cuts off the last of it (\<open>checksum_under_deflate\<close>).
\<close>

section \<open>Writing\<close>

text \<open>What zlib promises: a stream expands to what was compressed, and ends well.\<close>

definition zlib_law :: "(bytes \<Rightarrow> bytes) \<Rightarrow> (bytes \<Rightarrow> bytes \<times> bool) \<Rightarrow> bool" where
  "zlib_law zlib unzlib \<longleftrightarrow> (\<forall>bs. unzlib (zlib bs) = (bs, True))"

fun apply_filter :: "(bytes \<Rightarrow> bytes) \<Rightarrow> nat \<Rightarrow> hdf5_filter \<Rightarrow> bytes \<Rightarrow> bytes" where
  "apply_filter zlib isz Fletcher32 bs = bs @ to_le (fletcher32 bs)"
| "apply_filter zlib isz Deflate bs = zlib bs"
| "apply_filter zlib isz Shuffle bs = shuffle bs isz"
| "apply_filter zlib isz Other_Filter bs = bs"

fun write_filters :: "(bytes \<Rightarrow> bytes) \<Rightarrow> nat \<Rightarrow> u32 \<Rightarrow> nat \<Rightarrow> hdf5_filter list \<Rightarrow> bytes \<Rightarrow> bytes" where
  "write_filters zlib isz skip i [] bs = bs"
| "write_filters zlib isz skip i (f # fs) bs =
     write_filters zlib isz skip (Suc i) fs (if bit skip i then bs else apply_filter zlib isz f bs)"

text \<open>Whether no stream of the pipeline expands to more than the limit lets through.\<close>

fun in_limit :: "nat \<Rightarrow> (bytes \<Rightarrow> bytes) \<Rightarrow> nat \<Rightarrow> u32 \<Rightarrow> nat \<Rightarrow> hdf5_filter list \<Rightarrow> bytes \<Rightarrow> bool" where
  "in_limit limit zlib isz skip i [] bs = True"
| "in_limit limit zlib isz skip i (f # fs) bs =
     (if bit skip i then in_limit limit zlib isz skip (Suc i) fs bs
      else (f = Deflate \<longrightarrow> length bs \<le> Suc limit) \<and> f \<noteq> Other_Filter
        \<and> in_limit limit zlib isz skip (Suc i) fs (apply_filter zlib isz f bs))"

section \<open>Undoing\<close>

lemma undo_filters_append:
  "undo_filters unzlib grid skip (xs @ ys) bs = res_bind (undo_filters unzlib grid skip xs bs) (undo_filters unzlib grid skip ys)"
  by (induction xs arbitrary: bs) (auto simp: res_bind_def split: sum.splits)

lemma inflate_deflated:
  "zlib_law zlib unzlib \<Longrightarrow> length bs \<le> Suc limit \<Longrightarrow> inflate unzlib (zlib bs) limit = Some bs"
  by (simp add: inflate_def zlib_law_def)

lemma undo_apply_filter:
  assumes "zlib_law zlib unzlib" "f = Deflate \<longrightarrow> length bs \<le> Suc (cg_chunk_bytes grid)" "f \<noteq> Other_Filter" "0 < cg_itemsize grid"
  shows "undo_filter unzlib grid f (apply_filter zlib (cg_itemsize grid) f bs) = Ok bs"
  using assms inflate_deflated [OF assms(1)] by (cases f) (simp_all add: strip_fletcher32_appended unshuffle_shuffle)

lemma undo_filters_written:
  assumes "zlib_law zlib unzlib" "0 < cg_itemsize grid"
  shows "in_limit (cg_chunk_bytes grid) zlib (cg_itemsize grid) skip i fs bs \<Longrightarrow>
    undo_filters unzlib grid skip (rev (enumerate i fs)) (write_filters zlib (cg_itemsize grid) skip i fs bs) = Ok bs"
proof (induction fs arbitrary: i bs)
  case (Cons f fs)
  then show ?case using undo_apply_filter [OF assms(1) _ _ assms(2), of f bs]
    by (simp add: undo_filters_append split: if_splits)
qed simp

section \<open>Which pipelines are within the limit\<close>

lemma in_limit_shuffles:
  "set fs \<subseteq> {Shuffle} \<Longrightarrow> in_limit limit zlib isz skip (i + length fs) gs (write_filters zlib isz skip i fs bs) \<Longrightarrow>
    in_limit limit zlib isz skip i (fs @ gs) bs"
  by (induction fs arbitrary: i bs) auto

lemma write_shuffles_length: "set fs \<subseteq> {Shuffle} \<Longrightarrow> length (write_filters zlib isz skip i fs bs) = length bs"
  by (induction fs arbitrary: i bs) auto

lemma in_limit_sums: "set fs \<subseteq> {Fletcher32, Shuffle} \<Longrightarrow> in_limit limit zlib isz skip i fs bs"
  by (induction fs arbitrary: i bs) auto

lemma in_limit_usual:
  assumes "set pre \<subseteq> {Shuffle}" "mid \<in> {[], [Deflate]}" "set post \<subseteq> {Fletcher32, Shuffle}" "length bs \<le> Suc limit"
  shows "in_limit limit zlib isz skip i (pre @ mid @ post) bs"
proof (rule in_limit_shuffles [OF assms(1)])
  show "in_limit limit zlib isz skip (i + length pre) (mid @ post) (write_filters zlib isz skip i pre bs)"
    using assms(2,4) write_shuffles_length [OF assms(1)] in_limit_sums [OF assms(3)] by auto
qed

lemma decode_usual:
  assumes zlib: "zlib_law zlib unzlib" and grid: "0 < cg_itemsize (hc_grid hc)" "length bs = cg_chunk_bytes (hc_grid hc)"
    and fs: "hc_filters hc = pre @ mid @ post"
      "set pre \<subseteq> {Shuffle}" "mid \<in> {[], [Deflate]}" "set post \<subseteq> {Fletcher32, Shuffle}"
  shows "decode_bytes unzlib hc skip (write_filters zlib (cg_itemsize (hc_grid hc)) skip 0 (hc_filters hc) bs) = Ok bs"
  using undo_filters_written [OF zlib grid(1), of skip 0 "hc_filters hc" bs] grid(2)
    in_limit_usual [OF fs(2-4), of bs "cg_chunk_bytes (hc_grid hc)"]
  by (simp add: decode_bytes_def fs(1))

text \<open>A pipeline that checksums first and then compresses.\<close>

lemma decode_checksum_under_deflate:
  assumes zlib: "zlib_law zlib unzlib" and fs: "hc_filters hc = [Fletcher32, Deflate]" and len: "length bs = cg_chunk_bytes (hc_grid hc)"
  shows "decode_bytes unzlib hc 0 (write_filters zlib (cg_itemsize (hc_grid hc)) 0 0 (hc_filters hc) bs) = Err MalformedHdf5"
proof -
  let ?cut = "take (Suc (length bs)) (bs @ to_le (fletcher32 bs))"
  have "inflate unzlib (zlib (bs @ to_le (fletcher32 bs))) (length bs) = Some ?cut"
    using zlib by (simp add: inflate_def zlib_law_def)
  moreover have "length out + 4 = Suc (length bs)" if "strip_fletcher32 ?cut = Some out" for out
    using strip_fletcher32_Some [OF that] by simp
  ultimately show ?thesis
    using len by (cases "strip_fletcher32 ?cut") (auto simp: decode_bytes_def fs)
qed

end
