(* ===== verification/Hdf5_Correct.thy ===== *)
theory Hdf5_Correct
  imports Hdf5
begin

text \<open>
  What reading an HDF5 dataset gives: the bytes where the library says they are, the fill value where nothing was
  written, and for compressed chunks what their filters are undone to, whatever is cached. \<open>raw_law\<close> is what the file
  promises: exactly the bytes asked for when they are there.
\<close>

section \<open>The file\<close>

definition raw_law :: "bytes \<Rightarrow> raw_file \<Rightarrow> bool" where
  "raw_law content raw \<longleftrightarrow> length content < U64 \<and> rf_len raw = Ok (length content)
     \<and> (\<forall>at n. at + n \<le> length content \<longrightarrow> rf_read_exact_at raw at n = Ok (slice content at n))"

lemma fill_from_slice:
  assumes "start + n \<le> all_of_it" "pattern \<noteq> []"
  shows "fill_from pattern (start mod length pattern) n = slice (fill_from pattern 0 all_of_it) start n"
proof (rule nth_equalityI)
  show "length (fill_from pattern (start mod length pattern) n) = length (slice (fill_from pattern 0 all_of_it) start n)"
    using assms by (simp add: fill_from_def slice_def Let_def)
  fix i assume "i < length (fill_from pattern (start mod length pattern) n)"
  then have i: "i < n" by (simp add: fill_from_def Let_def)
  then have "slice (fill_from pattern 0 all_of_it) start n ! i = fill_from pattern 0 all_of_it ! (start + i)"
    using assms by (intro nth_slice) (simp_all add: fill_from_def Let_def)
  then show "fill_from pattern (start mod length pattern) n ! i = slice (fill_from pattern 0 all_of_it) start n ! i"
    using i assms by (simp add: fill_from_def Let_def mod_add_left_eq)
qed

section \<open>What opening establishes\<close>

definition hd_ok :: "hdf5_dataset \<Rightarrow> bool" where
  "hd_ok ds \<longleftrightarrow>
     length (hd_fill ds) = itemsize (hd_dtype ds) \<and> prod_list (hd_shape ds) * itemsize (hd_dtype ds) < U64
     \<and> (\<forall>base. hd_storage ds = Contiguous_At base \<longrightarrow>
          (\<exists>len. rf_len (hd_raw ds) = Ok len \<and> base + prod_list (hd_shape ds) * itemsize (hd_dtype ds) \<le> len
            \<and> base + prod_list (hd_shape ds) * itemsize (hd_dtype ds) < U64))
     \<and> (\<forall>hc. hd_storage ds = Chunked_In hc \<longrightarrow>
          grid_ok (hc_grid hc) \<and> cg_shape (hc_grid hc) = hd_shape ds \<and> cg_itemsize (hc_grid hc) = itemsize (hd_dtype ds)
          \<and> Other_Filter \<notin> set (hc_filters hc))"

lemma io_Ok: "io r = Ok x \<longleftrightarrow> r = Ok x" by (simp add: io_def)

lemma hdf5_storage_chunked:
  assumes "hdf5_storage_of src d c = (Some (Ok (Chunked_In hc)), c')"
  shows "grid_ok (hc_grid hc)" "cg_shape (hc_grid hc) = hs_shape src" "cg_itemsize (hc_grid hc) = itemsize d"
    "Other_Filter \<notin> set (hc_filters hc)" "hc_source hc = src"
proof -
  obtain chunk_shape where "grid_new (hs_shape src) chunk_shape (itemsize d) = Some (hc_grid hc)"
      "Other_Filter \<notin> set (hc_filters hc)" "hc_source hc = src"
    using assms
    by (auto simp: hdf5_storage_of_def hdf5_chunked_new_def act_bind_Ok act_return_def act_throw_def act_of_def new_key_def
        split: hdf5_layout.splits option.splits if_splits)
  then show "grid_ok (hc_grid hc)" "cg_shape (hc_grid hc) = hs_shape src" "cg_itemsize (hc_grid hc) = itemsize d"
    "Other_Filter \<notin> set (hc_filters hc)" "hc_source hc = src"
    using grid_new_ok [OF _ itemsize_U64] by auto
qed

lemma fill_value_length: "fill_value src d = Ok fill \<Longrightarrow> length fill = itemsize d"
  by (auto simp: fill_value_def res_bind_Ok res_map_Ok split: if_splits)

lemma hdf5_dataset_open_ok:
  assumes "hdf5_dataset_open src raw c = (Some (Ok ds), c')"
  shows "hd_ok ds" "hd_raw ds = raw" "hd_shape ds = hs_shape src"
    "\<And>hc. hd_storage ds = Chunked_In hc \<Longrightarrow> hc_source hc = src"
proof -
  obtain d data_len storage fill c1 where
      len: "data_len_of d (hs_shape src) = Some data_len" and storage: "hdf5_storage_of src d c = (Some (Ok storage), c1)"
    and check: "check_contiguous raw storage data_len = Ok ()" and fill: "fill_value src d = Ok fill"
    and ds: "ds = \<lparr>hd_raw = raw, hd_dtype = d, hd_shape = hs_shape src, hd_storage = storage, hd_fill = fill\<rparr>"
    using assms
    by (auto simp: hdf5_dataset_open_def act_bind_Ok act_of_def act_return_def act_throw_def split: if_splits)
  have data: "data_len = prod_list (hs_shape src) * itemsize d" "data_len < U64"
    using checked_fold_Some [OF len [unfolded data_len_of_def] itemsize_U64] by (simp_all add: mult.commute)
  have "\<exists>len. rf_len raw = Ok len \<and> base + data_len \<le> len \<and> base + data_len < U64" if "storage = Contiguous_At base" for base
    using check that by (auto simp: check_contiguous_def res_bind_Ok io_Ok cadd_Some not_less split: option.splits if_splits)
  then show "hd_ok ds"
    using data fill_value_length [OF fill] hdf5_storage_chunked(1-4) [of src d c _ c1] storage by (auto simp: hd_ok_def ds)
  show "hd_raw ds = raw" "hd_shape ds = hs_shape src" by (simp_all add: ds)
  show "hc_source hc = src" if "hd_storage ds = Chunked_In hc" for hc
    using hdf5_storage_chunked(5) [of src d c hc c1] storage that by (simp add: ds)
qed

section \<open>The index points into the file\<close>

lemma visit_chunks_ok:
  "visit_chunks grid unfiltered file_len cs index = Some index' \<Longrightarrow>
   length index' = length index \<and> (\<forall>e \<in> set index'. e \<in> set index \<or> \<not> bad_entry grid unfiltered file_len e)"
proof (induction cs arbitrary: index)
  case (Cons c cs)
  show ?case
  proof (cases "chunk_of grid (map2 (div) (ci_offset c) (cg_chunk_shape grid))")
    case None
    then show ?thesis using Cons by simp
  next
    case (Some n)
    then have good: "\<not> bad_entry grid unfiltered file_len (entry_of c)"
      and rest: "visit_chunks grid unfiltered file_len cs (index[n := entry_of c]) = Some index'"
      using Cons.prems by (simp_all split: if_splits)
    then show ?thesis using Cons.IH [OF rest] set_update_subset_insert [of index n "entry_of c"] by auto
  qed
qed simp

lemma good_entry:
  assumes "\<not> bad_entry grid unfiltered file_len e"
  shows "en_addr e + en_size e \<le> file_len" "unfiltered \<Longrightarrow> en_size e = cg_chunk_bytes grid"
  using assms by (simp_all add: bad_entry_def cadd_def split: if_splits)

lemma hdf5_index_ok:
  assumes "hdf5_index raw hc = Ok index" "raw_law content raw"
  shows "length index = chunks (hc_grid hc)"
    and "\<forall>e \<in> set index. en_addr e = en_addr CHUNK_MISSING \<or>
      (en_addr e + en_size e \<le> length content \<and> (hc_filters hc = [] \<longrightarrow> en_size e = cg_chunk_bytes (hc_grid hc)))"
proof -
  have v: "visit_chunks (hc_grid hc) (hc_filters hc = []) (length content) (hs_chunks (hc_source hc))
      (replicate (chunks (hc_grid hc)) CHUNK_MISSING) = Some index"
    using assms by (auto simp: hdf5_index_def raw_law_def io_def res_bind_Ok res_map_Ok split: option.splits)
  show "length index = chunks (hc_grid hc)" using visit_chunks_ok [OF v] by simp
  have "en_addr e = en_addr CHUNK_MISSING \<or> \<not> bad_entry (hc_grid hc) (hc_filters hc = []) (length content) e" if "e \<in> set index" for e
    using visit_chunks_ok [OF v] that by (auto split: if_splits)
  then show "\<forall>e \<in> set index. en_addr e = en_addr CHUNK_MISSING \<or>
      (en_addr e + en_size e \<le> length content \<and> (hc_filters hc = [] \<longrightarrow> en_size e = cg_chunk_bytes (hc_grid hc)))"
    using good_entry by metis
qed

section \<open>What is stored\<close>

definition hdf5_chunk :: "hdf5_env \<Rightarrow> hdf5_dataset \<Rightarrow> hdf5_chunked \<Rightarrow> chunk_entry list \<Rightarrow> nat \<Rightarrow> aex_error + bytes" where
  "hdf5_chunk env ds hc index n =
     (let e = index ! n; chunk_bytes = cg_chunk_bytes (hc_grid hc) in
      if en_addr e = en_addr CHUNK_MISSING then Ok (fill_from (hd_fill ds) 0 chunk_bytes)
      else if hc_filters hc = [] then io (rf_read_exact_at (hd_raw ds) (en_addr e) chunk_bytes)
      else hdf5_decode (he_unzlib env) hc (hd_raw ds) e)"

definition hdf5_stored :: "hdf5_env \<Rightarrow> hdf5_dataset \<Rightarrow> hdf5_chunked \<Rightarrow> chunk_entry list \<Rightarrow> nat \<Rightarrow> bytes" where
  "hdf5_stored env ds hc index n =
     (case hdf5_chunk env ds hc index n of Ok bs \<Rightarrow> bs | Err _ \<Rightarrow> replicate (cg_chunk_bytes (hc_grid hc)) 0)"

definition hdf5_bytes :: "hdf5_env \<Rightarrow> bytes \<Rightarrow> hdf5_dataset \<Rightarrow> bytes" where
  "hdf5_bytes env content ds =
     (let n = prod_list (hd_shape ds) * itemsize (hd_dtype ds) in
      case hd_storage ds of
        Contiguous_At base \<Rightarrow> slice content base n
      | Unallocated \<Rightarrow> fill_from (hd_fill ds) 0 n
      | Chunked_In hc \<Rightarrow>
          (case hdf5_index (hd_raw ds) hc of
             Ok index \<Rightarrow> chunk_store.array_bytes (hc_grid hc) (hdf5_stored env ds hc index)
           | Err _ \<Rightarrow> []))"

text \<open>How a read can fail: the index cannot be built, or a chunk cannot be decoded.\<close>

definition hdf5_fails :: "hdf5_env \<Rightarrow> hdf5_dataset \<Rightarrow> aex_error \<Rightarrow> bool" where
  "hdf5_fails env ds e \<longleftrightarrow>
     (\<exists>hc. hd_storage ds = Chunked_In hc \<and>
       (hdf5_index (hd_raw ds) hc = Err e
        \<or> (\<exists>index n. hdf5_index (hd_raw ds) hc = Ok index \<and> n < chunks (hc_grid hc) \<and> hdf5_chunk env ds hc index n = Err e)))"

definition hdf5_built :: "hdf5_dataset \<Rightarrow> aex_error + chunk_entry list" where
  "hdf5_built ds = (case hd_storage ds of Chunked_In hc \<Rightarrow> hdf5_index (hd_raw ds) hc | _ \<Rightarrow> Ok [])"

text \<open>The cache holds this dataset's decoded chunks under its key.\<close>

definition holds_dataset :: "(chunk_key \<Rightarrow> bytes) \<Rightarrow> hdf5_env \<Rightarrow> hdf5_dataset \<Rightarrow> bool" where
  "holds_dataset content env ds \<longleftrightarrow>
     (\<forall>hc index n. hd_storage ds = Chunked_In hc \<longrightarrow> hdf5_index (hd_raw ds) hc = Ok index \<longrightarrow> n < chunks (hc_grid hc) \<longrightarrow>
        content (hc_cache_key hc, n) = hdf5_stored env ds hc index n)"

section \<open>Reading\<close>

lemma fill_piece:
  assumes "start + n \<le> all_of_it" "length pattern = itemsize d"
  shows "fill_from pattern (start mod itemsize d) n = slice (fill_from pattern 0 all_of_it) start n"
    "fill_from pattern start n = slice (fill_from pattern 0 all_of_it) start n"
proof -
  have "pattern \<noteq> []" using assms(2) itemsize_pos [of d] by auto
  from fill_from_slice [OF assms(1) this]
  show one: "fill_from pattern (start mod itemsize d) n = slice (fill_from pattern 0 all_of_it) start n" by (simp add: assms(2))
  have "fill_from pattern (start mod itemsize d) n = fill_from pattern start n"
    using assms(2) by (simp add: fill_from_def Let_def mod_add_left_eq)
  then show "fill_from pattern start n = slice (fill_from pattern 0 all_of_it) start n" using one by simp
qed

lemma reads_as_act_of: "reads_as I P (act_of (Ok bs)) bs"
  by (simp add: reads_as_def act_of_def)

lemma hdf5_decode_length: "hdf5_decode unzlib hc raw e = Ok bs \<Longrightarrow> length bs = cg_chunk_bytes (hc_grid hc)"
  by (auto simp: hdf5_decode_def decode_bytes_def res_bind_Ok split: if_splits)

lemma raw_read: "raw_law content raw \<Longrightarrow> at + n \<le> length content \<Longrightarrow> io (rf_read_exact_at raw at n) = Ok (slice content at n)"
  by (simp add: raw_law_def io_def)

lemma length_hdf5_stored:
  assumes "hdf5_index (hd_raw ds) hc = Ok index" "raw_law content (hd_raw ds)" "n < chunks (hc_grid hc)"
  shows "length (hdf5_stored env ds hc index n) = cg_chunk_bytes (hc_grid hc)"
proof -
  have "index ! n \<in> set index" using hdf5_index_ok(1) [OF assms(1,2)] assms(3) by simp
  with hdf5_index_ok(2) [OF assms(1,2)] raw_read [OF assms(2), of "en_addr (index ! n)" "cg_chunk_bytes (hc_grid hc)"]
  show ?thesis
    by (auto simp: hdf5_stored_def hdf5_chunk_def Let_def fill_from_def hdf5_decode_length split: sum.splits if_splits)
qed

lemma chunk_piece_reads:
  assumes storage: "hd_storage ds = Chunked_In hc" and ds: "hd_ok ds" "raw_law content (hd_raw ds)" "holds_dataset held env ds"
    and index: "hdf5_index (hd_raw ds) hc = Ok index"
    and n: "n < chunks (hc_grid hc)" "start + length out \<le> cg_chunk_bytes (hc_grid hc)"
  shows "reads_as (array_state_ok held capacity built) (hdf5_fails env ds) (chunk_piece env ds hc index n start out)
    (slice (hdf5_stored env ds hc index n) start (length out))"
proof -
  define e where "e = index ! n"
  have e: "e \<in> set index" using hdf5_index_ok(1) [OF index ds(2)] n(1) by (simp add: e_def)
  have hc: "length (hd_fill ds) = itemsize (hd_dtype ds)" "cg_itemsize (hc_grid hc) = itemsize (hd_dtype ds)"
    using ds(1) storage by (simp_all add: hd_ok_def)
  consider (missing) "en_addr e = en_addr CHUNK_MISSING"
    | (plain) "en_addr e \<noteq> en_addr CHUNK_MISSING" "hc_filters hc = []"
    | (coded) "en_addr e \<noteq> en_addr CHUNK_MISSING" "hc_filters hc \<noteq> []" by blast
  then show ?thesis
  proof cases
    case missing
    then show ?thesis using fill_piece(1) [OF n(2) hc(1)] hc(2)
      by (simp add: chunk_piece_def hdf5_stored_def hdf5_chunk_def e_def [symmetric] reads_as_return)
  next
    case plain
    then have room: "en_addr e + cg_chunk_bytes (hc_grid hc) \<le> length content"
      using hdf5_index_ok(2) [OF index ds(2)] e by auto
    moreover have "length content < U64" using ds(2) by (simp add: raw_law_def)
    ultimately have "wadd (en_addr e) start = en_addr e + start" "en_addr e + start + length out \<le> length content"
      using n(2) by (simp_all add: wadd_eq)
    then show ?thesis using plain raw_read [OF ds(2)] room slice_slice [OF n(2), of content "en_addr e"]
      by (simp add: chunk_piece_def hdf5_stored_def hdf5_chunk_def e_def [symmetric] Let_def reads_as_act_of)
  next
    case coded
    have chunk: "hdf5_chunk env ds hc index n = hdf5_decode (he_unzlib env) hc (hd_raw ds) e"
      using coded by (simp add: hdf5_chunk_def e_def [symmetric] Let_def)
    have held: "held (hc_cache_key hc, n) = hdf5_stored env ds hc index n"
      using ds(3) storage index n(1) by (simp add: holds_dataset_def)
    have "hdf5_decode (he_unzlib env) hc (hd_raw ds) e = Ok (held (hc_cache_key hc, n))
        \<or> (\<exists>err. hdf5_decode (he_unzlib env) hc (hd_raw ds) e = Err err \<and> hdf5_fails env ds err)"
      unfolding held using chunk index storage n(1)
      by (cases "hdf5_decode (he_unzlib env) hc (hd_raw ds) e") (auto simp: hdf5_stored_def hdf5_fails_def)
    then show ?thesis
      using read_cached_reads [of "\<lambda>_. hdf5_decode (he_unzlib env) hc (hd_raw ds) e" held "(hc_cache_key hc, n)"
          "hdf5_fails env ds" start out capacity "he_sole env"] n(2) held length_hdf5_stored [OF index ds(2) n(1)] coded
      by (simp add: chunk_piece_def e_def [symmetric] Let_def on_cache_reads)
  qed
qed

lemma chunked_read_reads:
  assumes storage: "hd_storage ds = Chunked_In hc" and ds: "hd_ok ds" "raw_law content (hd_raw ds)" "holds_dataset held env ds"
    and room: "at + length dst \<le> prod_list (hd_shape ds) * itemsize (hd_dtype ds)"
  shows "reads_as (array_state_ok held capacity (hdf5_built ds)) (hdf5_fails env ds) (hdf5_chunked_read env ds hc at dst)
    (slice (hdf5_bytes env content ds) at (length dst))"
proof -
  have g: "grid_ok (hc_grid hc)" "cg_shape (hc_grid hc) = hd_shape ds" "cg_itemsize (hc_grid hc) = itemsize (hd_dtype ds)"
    and small: "prod_list (hd_shape ds) * itemsize (hd_dtype ds) < U64"
    using ds(1) storage by (simp_all add: hd_ok_def)
  have built: "hdf5_built ds = hdf5_index (hd_raw ds) hc" by (simp add: hdf5_built_def storage)
  show ?thesis unfolding hdf5_chunked_read_def built
  proof (rule once_built_reads)
    fix index assume index: "hdf5_index (hd_raw ds) hc = Ok index"
    let ?stored = "hdf5_stored env ds hc index"
    have store: "chunk_store (hc_grid hc) ?stored (\<lambda>c s buf. Ok (slice (?stored c) s (length buf)))"
      using g small length_hdf5_stored [OF index ds(2)] chunks_prod [OF g(1)] by (intro ideal_store) simp_all
    have bytes: "hdf5_bytes env content ds = chunk_store.array_bytes (hc_grid hc) ?stored"
      by (simp add: hdf5_bytes_def storage index)
    show "reads_as (array_state_ok held capacity (hdf5_index (hd_raw ds) hc)) (hdf5_fails env ds)
        (walk_act (hc_grid hc) at dst (chunk_piece env ds hc index)) (slice (hdf5_bytes env content ds) at (length dst))"
      unfolding bytes using room g chunks_prod [OF g(1)]
      by (intro chunk_store.walk_act_reads [OF store] chunk_piece_reads [OF storage ds index]) simp_all
  qed (use storage in \<open>simp add: hdf5_fails_def\<close>)
qed

theorem hdf5_read_reads:
  assumes ds: "hd_ok ds" "raw_law content (hd_raw ds)" "holds_dataset held env ds"
    and room: "at + length dst \<le> prod_list (hd_shape ds) * itemsize (hd_dtype ds)"
  shows "reads_as (array_state_ok held capacity (hdf5_built ds)) (hdf5_fails env ds) (hdf5_read env ds at dst)
    (slice (hdf5_bytes env content ds) at (length dst))"
proof (cases "hd_storage ds")
  case (Contiguous_At base)
  let ?n = "prod_list (hd_shape ds) * itemsize (hd_dtype ds)"
  have "base + ?n \<le> length content" "base + ?n < U64"
    using ds(1,2) Contiguous_At by (auto simp: hd_ok_def raw_law_def)
  then show ?thesis using raw_read [OF ds(2), of "base + at" "length dst"] room slice_slice [OF room, of content base] Contiguous_At
    by (simp add: hdf5_read_def hdf5_bytes_def wadd_eq reads_as_act_of)
next
  case Unallocated
  then show ?thesis using fill_piece(2) [OF room, of "hd_fill ds" "hd_dtype ds"] ds(1)
    by (simp add: hdf5_read_def hdf5_bytes_def hd_ok_def reads_as_return)
next
  case (Chunked_In hc)
  with chunked_read_reads [OF Chunked_In ds room] show ?thesis by (simp add: hdf5_read_def)
qed

end
