(* ===== verification/Hdf5_File.thy ===== *)
theory Hdf5_File
  imports Hdf5_Correct Frame "HOL-Library.Char_ord" "HOL-Library.List_Lexorder"
begin

text \<open>
  An HDF5 file as a whole (\<open>Hdf5File\<close> in \<open>aex-core/src/backends/hdf5.rs\<close>): its items, its listings and its
  attributes, over what the HDF5 library answers (\<open>hdf5_library\<close>). A dataset is opened once and kept under its path.
\<close>

section \<open>What the library answers\<close>

datatype loc_type = Loc_Group | Loc_Dataset | Loc_Other

text \<open>
  An attribute: its type, its shape, its strings when they are of variable length, and its bytes in a buffer of a
  length, \<open>None\<close> where the call fails.
\<close>

record hdf5_attribute =
  ha_dtype :: "hdf5_datatype option"
  ha_shape :: "nat list"
  ha_strings :: "string list option"
  ha_read :: "nat \<Rightarrow> bytes option"

record hdf5_library =
  hl_loc :: "string \<Rightarrow> loc_type option"
  hl_dataset :: "string \<Rightarrow> aex_error + hdf5_source"
  hl_members :: "string \<Rightarrow> aex_error + string list"
  hl_attr_names :: "string \<Rightarrow> aex_error + string list"
  hl_attr :: "string \<Rightarrow> string \<Rightarrow> hdf5_attribute option"

section \<open>Items\<close>

record hdf5_file =
  hf_lib :: hdf5_library
  hf_raw :: raw_file
  hf_cache :: cache
  hf_datasets :: "(string \<times> hdf5_dataset) list"

text \<open>
  External links are turned off first, or the program panics. The file is opened as a file before it is opened as HDF5.
\<close>

definition hdf5_open ::
    "bool \<Rightarrow> io_kind + raw_file \<Rightarrow> hdf5_library option \<Rightarrow> cache \<Rightarrow> (aex_error + hdf5_file) option" where
  "hdf5_open links_off raw lib c =
     (if \<not> links_off then None
      else Some (res_bind (io raw) (\<lambda>raw. res_bind (ok_or lib UnsupportedHdf5) (\<lambda>lib.
        Ok \<lparr>hf_lib = lib, hf_raw = raw, hf_cache = c, hf_datasets = []\<rparr>))))"

definition hdf5_dataset_at :: "string \<Rightarrow> (hdf5_file, aex_error, hdf5_dataset) act" where
  "hdf5_dataset_at path f =
     (case map_of (hf_datasets f) path of
        Some ds \<Rightarrow> act_return ds f
      | None \<Rightarrow>
          (case hl_dataset (hf_lib f) path of
             Err e \<Rightarrow> act_throw e f
           | Ok src \<Rightarrow>
               (case hdf5_dataset_open src (hf_raw f) (hf_cache f) of
                  (Some (Ok ds), c) \<Rightarrow> act_return ds (f\<lparr>hf_cache := c, hf_datasets := (path, ds) # hf_datasets f\<rparr>)
                | (Some (Err e), c) \<Rightarrow> act_throw e (f\<lparr>hf_cache := c\<rparr>)
                | (None, c) \<Rightarrow> act_panic f)))"

definition hdf5_item :: "hdf5_env \<Rightarrow> string \<Rightarrow> (hdf5_file, aex_error, item) act" where
  "hdf5_item env path f =
     (if path = [] then act_return Group f
      else case hl_loc (hf_lib f) path of
        None \<Rightarrow> act_throw NotFound f
      | Some Loc_Group \<Rightarrow> act_return Group f
      | Some Loc_Dataset \<Rightarrow>
          act_bind (hdf5_dataset_at path) (\<lambda>ds f.
            act_return (Dataset (hdf5_as_dataset env ds \<lparr>as_cache = hf_cache f, as_index = None\<rparr>)) f) f
      | Some Loc_Other \<Rightarrow> act_throw NotFound f)"

definition hdf5_get_item :: "hdf5_env \<Rightarrow> string \<Rightarrow> (hdf5_file, aex_error, item) act" where
  "hdf5_get_item env path = hdf5_item env (normalize_path path)"

text \<open>The children that can be served, in the order of their names.\<close>

fun hdf5_children :: "hdf5_env \<Rightarrow> string \<Rightarrow> string list \<Rightarrow> (hdf5_file, aex_error, (string \<times> item) list) act" where
  "hdf5_children env path [] = act_return []"
| "hdf5_children env path (name # names) =
     act_bind (act_attempt (hdf5_item env (child_path path name))) (\<lambda>found.
     act_bind (hdf5_children env path names) (\<lambda>rest.
       act_return (case found of Some it \<Rightarrow> (name, it) # rest | None \<Rightarrow> rest)))"

definition hdf5_list_children :: "hdf5_env \<Rightarrow> string \<Rightarrow> (hdf5_file, aex_error, (string \<times> item) list) act" where
  "hdf5_list_children env path =
     (let path = normalize_path path in
      act_bind (hdf5_item env path) (\<lambda>it.
        case it of
          Dataset _ \<Rightarrow> act_throw NotAGroup
        | Group \<Rightarrow> (\<lambda>f.
            act_bind (act_of (hl_members (hf_lib f) path)) (\<lambda>names. hdf5_children env path (sort names)) f)))"

section \<open>Attributes\<close>

definition read_raw :: "hdf5_attribute \<Rightarrow> nat \<Rightarrow> bytes option" where
  "read_raw attr len = (if len > MAX_ATTR_BYTES then None else ha_read attr len)"

definition text_of_bytes :: "bytes \<Rightarrow> string" where
  "text_of_bytes bs = map (\<lambda>b. char_of (unat b)) bs"

definition fixed_text :: "hdf5_attribute \<Rightarrow> nat \<Rightarrow> attr_value option" where
  "fixed_text attr len =
     Option.bind (read_raw attr len) (\<lambda>raw.
       let text = takeWhile (\<lambda>b. b \<noteq> 0) raw in if utf8_valid text then Some (Text (text_of_bytes text)) else None)"

definition varlen_text :: "hdf5_attribute \<Rightarrow> attr_value option" where
  "varlen_text attr =
     Option.bind (ha_strings attr) (\<lambda>read. if read = [] then None else Some (Text (last read)))"

definition numeric_attr :: "hdf5_attribute \<Rightarrow> hdf5_datatype \<Rightarrow> nat \<Rightarrow> attr_value option" where
  "numeric_attr attr t elements =
     Option.bind (hdf5_dtype_of t) (\<lambda>d.
     Option.bind (cmul (itemsize d) elements) (\<lambda>len.
     map_option (Array d (ha_shape attr)) (read_raw attr len)))"

definition hdf5_attr_value :: "hdf5_attribute \<Rightarrow> attr_value option" where
  "hdf5_attr_value attr =
     Option.bind (ha_dtype attr) (\<lambda>t.
     let elements = wprod (ha_shape attr) in
     Option.bind (ht_descriptor t) (\<lambda>desc.
       if elements = 1 then
         (case desc of
            TD_VarLenUnicode \<Rightarrow> varlen_text attr
          | TD_VarLenAscii \<Rightarrow> varlen_text attr
          | TD_FixedAscii len \<Rightarrow> fixed_text attr len
          | TD_FixedUnicode len \<Rightarrow> fixed_text attr len
          | _ \<Rightarrow> numeric_attr attr t elements)
       else numeric_attr attr t elements))"

definition read_attrs :: "hdf5_library \<Rightarrow> string \<Rightarrow> aex_error + (string \<times> attr_value) list" where
  "read_attrs lib path =
     res_map (List.map_filter (\<lambda>name. map_option (Pair name) (Option.bind (hl_attr lib path name) hdf5_attr_value)))
       (hl_attr_names lib path)"

definition hdf5_attrs :: "hdf5_file \<Rightarrow> string \<Rightarrow> aex_error + (string \<times> attr_value) list" where
  "hdf5_attrs f path =
     (let path = normalize_path path in
      if path = [] then read_attrs (hf_lib f) []
      else case hl_loc (hf_lib f) path of
        None \<Rightarrow> Err NotFound
      | Some Loc_Other \<Rightarrow> Err NotFound
      | Some _ \<Rightarrow> read_attrs (hf_lib f) path)"

section \<open>What is opened stays\<close>

definition hdf5_file_ok :: "hdf5_file \<Rightarrow> bool" where
  "hdf5_file_ok f \<longleftrightarrow> (\<forall>(path, ds) \<in> set (hf_datasets f). hd_ok ds \<and> hd_raw ds = hf_raw f)"

definition hdf5_later :: "hdf5_file \<Rightarrow> hdf5_file \<Rightarrow> bool" where
  "hdf5_later f f' \<longleftrightarrow> hdf5_file_ok f' \<and> hf_raw f' = hf_raw f \<and> hf_lib f' = hf_lib f
     \<and> (\<forall>path ds. map_of (hf_datasets f) path = Some ds \<longrightarrow> map_of (hf_datasets f') path = Some ds)"

lemma hdf5_later_refl: "hdf5_file_ok f \<Longrightarrow> hdf5_later f f" by (simp add: hdf5_later_def)
lemma hdf5_later_trans: "hdf5_later f g \<Longrightarrow> hdf5_later g h \<Longrightarrow> hdf5_later f h" by (simp add: hdf5_later_def)

lemma hdf5_dataset_at_ok:
  assumes "hdf5_file_ok f" "hdf5_dataset_at path f = (r, f')"
  shows "hdf5_later f f'"
    and "r = Some (Ok ds) \<Longrightarrow> map_of (hf_datasets f') path = Some ds \<and> hd_ok ds \<and> hd_raw ds = hf_raw f"
proof -
  have "hdf5_later f f' \<and> (r = Some (Ok ds) \<longrightarrow> map_of (hf_datasets f') path = Some ds \<and> hd_ok ds \<and> hd_raw ds = hf_raw f)"
  proof (cases "map_of (hf_datasets f) path")
    case (Some d)
    then have "(path, d) \<in> set (hf_datasets f)" by (rule map_of_SomeD)
    then show ?thesis using assms Some by (auto simp: hdf5_dataset_at_def act_return_def hdf5_later_def hdf5_file_ok_def)
  next
    case None
    show ?thesis
    proof (cases "hl_dataset (hf_lib f) path")
      case (Inr src)
      obtain r' c where new: "hdf5_dataset_open src (hf_raw f) (hf_cache f) = (r', c)" by fastforce
      show ?thesis
      proof (cases "\<exists>d. r' = Some (Ok d)")
        case True
        then obtain d where d: "r' = Some (Ok d)" by blast
        then show ?thesis
          using assms None new Inr hdf5_dataset_open_ok(1,2) [of src "hf_raw f" "hf_cache f" d c]
          by (auto simp: hdf5_dataset_at_def act_return_def hdf5_later_def hdf5_file_ok_def)
      next
        case False
        then have "f' = f \<or> f' = f\<lparr>hf_cache := c\<rparr>" "\<forall>d. r \<noteq> Some (Ok d)"
          using assms(2) None new Inr
          by (auto simp: hdf5_dataset_at_def act_throw_def act_panic_def split: option.splits sum.splits)
        then show ?thesis using assms(1) by (auto simp: hdf5_later_def hdf5_file_ok_def)
      qed
    qed (use assms None in \<open>auto simp: hdf5_dataset_at_def act_throw_def hdf5_later_def\<close>)
  qed
  then show "hdf5_later f f'"
    and "r = Some (Ok ds) \<Longrightarrow> map_of (hf_datasets f') path = Some ds \<and> hd_ok ds \<and> hd_raw ds = hf_raw f"
    by simp_all
qed

lemma hdf5_item_ok:
  assumes "hdf5_file_ok f" "hdf5_item env path f = (r, f')"
  shows "hdf5_later f f'"
    and "r = Some (Ok (Dataset view)) \<Longrightarrow> \<exists>ds. map_of (hf_datasets f') path = Some ds \<and> hd_ok ds \<and> hd_raw ds = hf_raw f
      \<and> view = hdf5_as_dataset env ds \<lparr>as_cache = hf_cache f', as_index = None\<rparr>"
proof -
  obtain r' g where at: "hdf5_dataset_at path f = (r', g)" by fastforce
  note ok = hdf5_dataset_at_ok [OF assms(1) at]
  show "hdf5_later f f'"
    using assms at ok(1) hdf5_later_refl [OF assms(1)]
    by (auto simp: hdf5_item_def act_return_def act_throw_def act_bind_def split: if_splits option.splits loc_type.splits sum.splits)
  show "\<exists>ds. map_of (hf_datasets f') path = Some ds \<and> hd_ok ds \<and> hd_raw ds = hf_raw f
      \<and> view = hdf5_as_dataset env ds \<lparr>as_cache = hf_cache f', as_index = None\<rparr>" if "r = Some (Ok (Dataset view))"
    using assms(2) at ok(2) that
    by (auto simp: hdf5_item_def act_return_def act_throw_def act_bind_def split: if_splits option.splits loc_type.splits sum.splits)
qed

lemma hdf5_attempt_ok: "hdf5_file_ok f \<Longrightarrow> hdf5_later f (snd (act_attempt (hdf5_item env path) f))"
  using hdf5_item_ok(1) [of f env path]
  by (auto simp: act_attempt_def split: prod.split option.split sum.split)

lemma hdf5_children_ok: "hdf5_file_ok f \<Longrightarrow> hdf5_later f (snd (hdf5_children env path names f))"
proof (induction names arbitrary: f)
  case (Cons name names)
  obtain r g where here: "act_attempt (hdf5_item env (child_path path name)) f = (r, g)" by fastforce
  then have g: "hdf5_later f g" using hdf5_attempt_ok [OF Cons.prems, of env "child_path path name"] by simp
  obtain q h where rest: "hdf5_children env path names g = (q, h)" by fastforce
  have "hdf5_later g h" using Cons.IH [of g] g rest by (simp add: hdf5_later_def)
  then have "hdf5_later f h" by (rule hdf5_later_trans [OF g])
  then show ?case using here g rest by (simp add: act_bind_def act_return_def split: option.split sum.split)
qed (simp add: act_return_def hdf5_later_refl)

lemma hdf5_list_children_ok:
  assumes "hdf5_file_ok f"
  shows "hdf5_later f (snd (hdf5_list_children env path f))"
proof -
  obtain r g where item: "hdf5_item env (normalize_path path) f = (r, g)" by fastforce
  then have g: "hdf5_later f g" by (rule hdf5_item_ok(1) [OF assms])
  have "hdf5_later f (snd (hdf5_children env (normalize_path path) names g))" for names
    using g by (intro hdf5_later_trans [OF g] hdf5_children_ok) (simp add: hdf5_later_def)
  then show ?thesis using item g
    by (simp add: hdf5_list_children_def Let_def act_bind_def act_of_def act_throw_def split: option.split sum.split item.split)
qed

text \<open>A listing names children of the group in order, and hides those it cannot serve.\<close>

lemma hdf5_children_names:
  "hdf5_children env path names f = (Some (Ok children), f') \<Longrightarrow> sorted names \<Longrightarrow>
    sorted (map fst children) \<and> fst ` set children \<subseteq> set names"
proof (induction names arbitrary: f children f')
  case (Cons name names)
  then obtain found g rest where "hdf5_children env path names g = (Some (Ok rest), f')"
      "children = (case found of Some it \<Rightarrow> (name, it) # rest | None \<Rightarrow> rest)"
    by (auto simp: act_bind_Ok act_return_def)
  then show ?case using Cons.IH [of g rest f'] Cons.prems(2) by (cases found) auto
qed (simp add: act_return_def)

lemma hdf5_list_children_sorted:
  assumes "hdf5_list_children env path f = (Some (Ok children), f')"
  shows "sorted (map fst children)"
proof -
  obtain names g where "hdf5_children env (normalize_path path) (sort names) g = (Some (Ok children), f')"
    using assms
    by (auto simp: hdf5_list_children_def Let_def act_bind_Ok act_of_def act_throw_def split: item.splits) (metis item.exhaust)
  from hdf5_children_names [OF this] show ?thesis by simp
qed

section \<open>Attributes that go out\<close>

definition attr_read_law :: "hdf5_attribute \<Rightarrow> bool" where
  "attr_read_law attr \<longleftrightarrow> (\<forall>n bs. ha_read attr n = Some bs \<longrightarrow> length bs = n)"

lemma read_raw_bound: "attr_read_law attr \<Longrightarrow> read_raw attr n = Some bs \<Longrightarrow> length bs = n \<and> n \<le> MAX_ATTR_BYTES"
  by (auto simp: read_raw_def attr_read_law_def split: if_splits)

lemma numeric_attr_shape:
  assumes "numeric_attr attr t elements = Some v" "attr_read_law attr"
  shows "\<exists>d bs. v = Array d (ha_shape attr) bs \<and> hdf5_dtype_of t = Some d \<and> length bs = itemsize d * elements
    \<and> length bs \<le> MAX_ATTR_BYTES"
  using assms by (auto simp: numeric_attr_def cmul_Some dest: read_raw_bound split: bind_splits)

lemma fixed_text_bound:
  assumes "fixed_text attr len = Some v" "attr_read_law attr"
  shows "\<exists>s. v = Text s \<and> length s \<le> MAX_ATTR_BYTES"
proof -
  obtain raw where "read_raw attr len = Some raw" "v = Text (text_of_bytes (takeWhile (\<lambda>b. b \<noteq> 0) raw))"
    using assms(1) by (auto simp: fixed_text_def Let_def split: bind_splits if_splits)
  moreover have "length (takeWhile (\<lambda>b. b \<noteq> 0) raw) \<le> length raw" by (rule length_takeWhile_le)
  ultimately show ?thesis using read_raw_bound [OF assms(2)] by (auto simp: text_of_bytes_def intro: order_trans)
qed

lemma hdf5_attr_value_cases:
  assumes "hdf5_attr_value attr = Some v"
  obtains (varlen) "varlen_text attr = Some v" "wprod (ha_shape attr) = 1"
    | (fixed) len where "fixed_text attr len = Some v" "wprod (ha_shape attr) = 1"
    | (numeric) t where "ha_dtype attr = Some t" "numeric_attr attr t (wprod (ha_shape attr)) = Some v"
  using assms
  by (auto simp: hdf5_attr_value_def Let_def split: bind_splits if_splits type_descriptor.splits)

section \<open>An example\<close>

text \<open>Three bytes in chunks of two, compressed by a stand-in that leaves them as they are; the second was never written.\<close>

definition h5_content :: bytes where "h5_content = [0, 4, 5]"

definition h5_raw :: raw_file where
  "h5_raw = \<lparr>rf_len = Ok 3, rf_read_exact_at = (\<lambda>at n. if at + n \<le> 3 then Ok (slice h5_content at n) else Err Io_UnexpectedEof)\<rparr>"

definition h5_source :: hdf5_source where
  "h5_source =
     \<lparr>hs_dtype = Ok \<lparr>ht_descriptor = Some (TD_Unsigned IU1), ht_size = 1, ht_little_endian = True\<rparr>,
      hs_null_space = Ok False, hs_shape = [3], hs_dcpl = Ok (), hs_external = False, hs_layout = Layout_Chunked,
      hs_offset = None, hs_chunk = Some [2], hs_filters = [Deflate],
      hs_chunks = [\<lparr>ci_offset = [0], ci_addr = 1, ci_size = 2, ci_filter_mask = 0\<rparr>],
      hs_visit_end = Ok (), hs_visit_stopped = Ok (), hs_fill_defined = True, hs_fill = Some (\<lambda>_. 7)\<rparr>"

definition h5_chunked :: hdf5_chunked where
  "h5_chunked =
     \<lparr>hc_source = h5_source,
      hc_grid = \<lparr>cg_shape = [3], cg_chunk_shape = [2], cg_grid = [2], cg_itemsize = 1, cg_chunk_bytes = 2, cg_run_axis = 0\<rparr>,
      hc_filters = [Deflate], hc_cache_key = 0\<rparr>"

definition h5_dataset :: hdf5_dataset where
  "h5_dataset =
     \<lparr>hd_raw = h5_raw, hd_dtype = Uint8, hd_shape = [3], hd_storage = Chunked_In h5_chunked, hd_fill = [7]\<rparr>"

definition h5_index :: "chunk_entry list" where
  "h5_index = [\<lparr>en_addr = 1, en_size = 2, en_filter_mask = 0\<rparr>, CHUNK_MISSING]"

definition h5_unzlib :: hdf5_env where
  "h5_unzlib = \<lparr>he_unzlib = (\<lambda>bs. (bs, True)), he_sole = (\<lambda>_. True)\<rparr>"

definition h5_file :: hdf5_file where
  "h5_file =
     \<lparr>hf_lib = \<lparr>hl_loc = (\<lambda>path. Some Loc_Dataset), hl_dataset = (\<lambda>path. Ok h5_source), hl_members = (\<lambda>path. Ok [''x'']),
        hl_attr_names = (\<lambda>path. Ok []), hl_attr = (\<lambda>path name. None)\<rparr>,
      hf_raw = h5_raw, hf_cache = cache_new 8, hf_datasets = []\<rparr>"

lemma h5_raw_law: "raw_law h5_content h5_raw"
  by (simp add: raw_law_def h5_raw_def h5_content_def U64_def)

lemma h5_opened:
  "hdf5_dataset_open h5_source h5_raw (cache_new 8) = (Some (Ok h5_dataset), (cache_new 8)\<lparr>dc_next_key := 1\<rparr>)"
  by (simp add: hdf5_dataset_open_def h5_source_def h5_dataset_def h5_chunked_def act_of_simps hdf5_dtype_of_def
      dtype_of_descriptor_def data_len_of_def checked_fold_def cmul_def U64_def hdf5_storage_of_def hdf5_chunked_new_def
      grid_new_def div_ceil_def chunks_def wprod_def wmul_def MAX_CHUNKS_def new_key_def cache_new_def wadd_def act_bind_def
      act_return_def check_contiguous_def fill_value_def Let_def)

lemma h5_count: "chunks (hc_grid h5_chunked) = 2"
  by (simp add: h5_chunked_def chunks_def wprod_def wmul_def U64_def)

lemma h5_indexed: "hdf5_index (hd_raw h5_dataset) h5_chunked = Ok h5_index"
proof -
  have "replicate 2 CHUNK_MISSING = [CHUNK_MISSING, CHUNK_MISSING]" by (simp add: numeral_2_eq_2)
  then show ?thesis
    using h5_count
    by (simp add: hdf5_index_def h5_dataset_def h5_raw_def h5_chunked_def h5_source_def h5_index_def io_def
        chunk_of_def linear_def wadd_def wmul_def bad_entry_def entry_of_def cadd_def U64_def)
qed

lemma h5_chunks:
  "hdf5_chunk h5_unzlib h5_dataset h5_chunked h5_index 0 = Ok [4, 5]"
  "hdf5_chunk h5_unzlib h5_dataset h5_chunked h5_index (Suc 0) = Ok [7, 7]"
  by (simp_all add: hdf5_chunk_def h5_index_def CHUNK_MISSING_def U64_def h5_chunked_def hdf5_decode_def decode_bytes_def
      h5_unzlib_def h5_dataset_def h5_raw_def h5_content_def io_def inflate_def slice_def fill_from_def upt_conv_Cons Let_def)

lemma h5_held:
  "holds_dataset (\<lambda>(key, n). hdf5_stored h5_unzlib h5_dataset h5_chunked h5_index n) h5_unzlib h5_dataset"
  using h5_indexed by (auto simp: holds_dataset_def) (simp_all add: h5_dataset_def)

lemma h5_sound: "\<not> hdf5_fails h5_unzlib h5_dataset e"
proof -
  have "hdf5_chunk h5_unzlib h5_dataset h5_chunked h5_index n \<noteq> Err e" if "n < 2" for n
    using that h5_chunks by (auto simp: less_2_cases_iff)
  moreover have "hd_storage h5_dataset = Chunked_In h5_chunked" by (simp add: h5_dataset_def)
  ultimately show ?thesis using h5_indexed h5_count by (auto simp: hdf5_fails_def)
qed

lemma h5_bytes: "hdf5_bytes h5_unzlib h5_content h5_dataset = [4, 5, 7]"
proof -
  have "hd_storage h5_dataset = Chunked_In h5_chunked" by (simp add: h5_dataset_def)
  moreover have "chunk_store (hc_grid h5_chunked) (hdf5_stored h5_unzlib h5_dataset h5_chunked h5_index)
      (\<lambda>c s buf. Ok (slice (hdf5_stored h5_unzlib h5_dataset h5_chunked h5_index c) s (length buf)))"
    using h5_chunks
    by (intro ideal_store) (auto simp: h5_chunked_def hdf5_stored_def grid_ok_def div_ceil_def U64_def less_2_cases_iff)
  moreover have "[0..<3] = [0, 1, 2 :: nat]" by code_simp
  moreover have "cg_shape (hc_grid h5_chunked) = [3]" "cg_chunk_shape (hc_grid h5_chunked) = [2]"
      "cg_grid (hc_grid h5_chunked) = [2]" "cg_itemsize (hc_grid h5_chunked) = 1"
    by (simp_all add: h5_chunked_def)
  ultimately show ?thesis using h5_indexed h5_chunks
    by (simp add: hdf5_bytes_def chunk_store.array_bytes_def chunk_store.elem_def hdf5_stored_def chunk_no_def within_def
        chunk_coords_def within_coords_def slice_def)
qed

lemma h5_item:
  "\<exists>view f'. hdf5_get_item h5_unzlib ''/x'' h5_file = (Some (Ok (Dataset view)), f')
     \<and> hf_datasets f' = [(''x'', h5_dataset)] \<and> hf_lib f' = hf_lib h5_file"
  using h5_opened
  by (simp add: hdf5_get_item_def hdf5_item_def h5_file_def normalize_path_def trim_matches_def hdf5_dataset_at_def act_bind_def
      act_return_def)

lemma h5_listing:
  "hf_lib f = hf_lib h5_file \<Longrightarrow> hf_datasets f = [(''x'', h5_dataset)] \<Longrightarrow>
     \<exists>children f'. hdf5_list_children h5_unzlib [] f = (Some (Ok children), f')"
  by (simp add: hdf5_list_children_def hdf5_item_def h5_file_def normalize_path_def trim_matches_def hdf5_dataset_at_def act_bind_def
      act_return_def act_attempt_def act_of_def child_path_def)

end
