(* ===== verification/Spec2Isabelle.thy ===== *)
theory Spec2Isabelle
  imports Null_Backend Decode_Cache Codec Pool_Buffers Control_Plans Npy Zarr_Store Hdf5_Pipeline Hdf5_File
begin

text \<open>
  AEX serves slices of large arrays over the network. A client opens a session over gRPC (the control
  plane), names a dataset and a numpy-style selection, and gets back a transfer plan: an id, a secret ticket,
  a shape, an element type and the number of bytes of the result. It then fetches byte ranges of that result
  over one or more TCP connections (the data plane), in any order and in parallel, and writes each range into
  its place. The Rust workspace has one crate per layer, all under \<open>src/crates/\<close>.

  \<^bold>\<open>The data (\<open>aex-core\<close>).\<close>
  \<^item> \<open>Errors\<close>, \<open>Dtype\<close>, \<open>Quality\<close>: the error types of all crates with their classes and gRPC codes
    (\<open>error.rs\<close> of each crate), element types (\<open>dtype.rs\<close>), encodings and codecs (\<open>quality.rs\<close>).
  \<^item> \<open>Selection\<close>, \<open>Gather\<close>, \<open>Layout\<close>: \<open>selection.rs\<close>. A list of indices is resolved against a shape, laid
    out as one run of the source or as a walk over strided and listed dimensions, and any byte range of the
    result is read from the source, joined into spans, cast if asked. \<open>Normalise\<close> proves what \<open>resolve\<close>
    guarantees, \<open>Numpy\<close> that the elements a layout walks are the ones numpy selects, \<open>Gather_Walk\<close> and
    \<open>Gather_Read\<close> that the walk and the reader give them, \<open>Layout_Read\<close> puts the three together.
  \<^item> \<open>Backend\<close>, \<open>Null_Backend\<close>, \<open>Chunks\<close>, \<open>Decode_Cache\<close>: the contract of a dataset (\<open>backend.rs\<close>), the
    generated dataset (\<open>null.rs\<close>), the walk over a chunk grid (\<open>chunks.rs\<close>) and the LRU of decoded chunks
    (\<open>decode_cache.rs\<close>). The contract that the reader relies on is the locale \<open>byte_source\<close> of \<open>Gather_Read\<close>;
    a chunked store is the locale \<open>chunk_store\<close> of \<open>Chunks\<close>, which provides a \<open>byte_source\<close>. They are interpreted
    on the null dataset and on a grid read through the cache.
  \<^item> \<open>Npy\<close>: \<open>npy.rs\<close>, the checks at open and reads through short \<open>pread\<close>s, a \<open>byte_source\<close> too.
  \<^item> \<open>Json\<close>, \<open>Zarr_Meta\<close>, \<open>Chunk_Reads\<close>, \<open>Zarr\<close>: \<open>zarr.rs\<close>. Metadata (documents, attributes, chunk keys, codec chains, fill
    values), the walk with a callback that has a state, and the store: what may be opened, arrays in chunks and in
    shards, items and listings. \<open>Zarr_Correct\<close> proves the metadata right, \<open>Zarr_Read\<close> that a read gives what the chunks
    decode to whatever is cached, \<open>Zarr_Store\<close> that nothing outside the store matters.
  \<^item> \<open>Hdf5_Filters\<close>, \<open>Hdf5\<close>, \<open>Hdf5_File\<close>: \<open>hdf5.rs\<close>. The filters of a chunk, a dataset with its storage and its index of chunks,
    and the file with its items, listings and attributes. \<open>Hdf5_Correct\<close> proves that a read gives what is stored,
    \<open>Hdf5_Pipeline\<close> which pipelines of filters are undone.
  \<^item> \<open>Codec\<close>: \<open>codec/\<close>, the block header and the calls around the compressors.
  \<^item> \<open>Floats\<close>, \<open>Reduce_Walk\<close>, \<open>Reduce\<close>, \<open>Reduce_Correct\<close>: \<open>reduce.rs\<close>, numpy's reductions over a selection. \<open>Floats\<close> is
    double precision on the bits of a word, with rounding to nearest even; \<open>Reduce_Walk\<close> goes over the selection
    block by block with an index and a cell carried along; \<open>Reduce\<close> has the element types and the accumulators. An
    accumulator keeps a value per cell, and a push changes its own cell only: that is the locale \<open>cell_accumulator\<close>,
    interpreted on all six. \<open>Reduce_Correct\<close> shows that every reduction returns, and what integers reduce to.

  \<^bold>\<open>The wire (\<open>aex-wire\<close>, \<open>aex-proto\<close>).\<close>
  \<^item> \<open>Frame\<close>, \<open>Handshake\<close>: \<open>frame.rs\<close> and \<open>handshake.rs\<close>, with the locale \<open>wire_message\<close> for a message of fixed
    length, interpreted on frame headers and on \<open>READY\<close>.
  \<^item> \<open>Scatter\<close>: \<open>scatter.rs\<close>, the buffer that the connections of a transfer write into at once.
  \<^item> \<open>Convert\<close>: \<open>convert.rs\<close>, selections and qualities as protobuf messages.

  \<^bold>\<open>The server (\<open>aex-server\<close>).\<close>
  \<^item> \<open>Paths\<close>, \<open>Server_Config\<close>: paths, \<open>config.rs\<close> and \<open>paths.rs\<close>. \<open>Assoc\<close>: hash maps. \<open>Session\<close>: \<open>session.rs\<close>.
    \<open>Transfers\<close>: \<open>transfer.rs\<close>. \<open>Fetch_Reader\<close>: \<open>reader.rs\<close>.
  \<^item> \<open>Data_Plane\<close>: \<open>dataplane.rs\<close>, one connection in a monad of the state, the socket's events and \<open>Err\<close>. The locale
    \<open>link_relation\<close> is a relation every send keeps; its interpretations say what a connection sends and leaves alone.
  \<^item> \<open>Effects\<close>: the monad of a state and \<open>Err\<close> that connections and handlers run in. \<open>Control\<close>: \<open>control.rs\<close> and the
    sweep of \<open>lib.rs\<close>, every handler as it runs alone with its registry operations atomic. \<open>Control_Correct\<close> is the
    invariant of the whole server over calls, sweeps and fetches in any order; \<open>Control_Plans\<close> puts layout,
    registry and client together: an accepted selection gives a plan the client accepts and the data plane serves.

  \<^bold>\<open>The client (\<open>aex-client\<close>).\<close>
  \<^item> \<open>Client_Plan\<close>: \<open>config.rs\<close>, \<open>transfer.rs\<close> and the pure parts of \<open>client.rs\<close>.
  \<^item> \<open>Client_Conn\<close>, \<open>Pool\<close>, \<open>Pool_Buffers\<close>: \<open>pool.rs\<close>. The first is what one connection sends and does with a frame; the
    second the threads of a transfer as steps of an inductive relation, with the invariant that no chunk goes
    missing and no thread waits for ever; the third what a transfer leaves in the buffers.

  \<^bold>\<open>How state and failure are modelled.\<close> A structure is a record, an enumeration a datatype, a hash map an
  association list with distinct keys, a buffer a list of bytes. What runs under a lock is one step; where
  threads meet (\<open>Scatter\<close>, \<open>Decode_Cache\<close>, \<open>Session\<close>, \<open>Pool\<close>) an inductive relation gives every interleaving of such
  steps and the properties are invariants of the states it reaches. A fallible operation returns \<open>Ok\<close> or \<open>Err\<close>; where the
  code can panic the result is an option. Wire fields are words of their width; sizes and offsets are natural
  numbers with the wrap-around of a release build written out (\<open>Prelude\<close>). Clocks, random bytes, the file
  system and what a socket returns are arguments.

  \<^bold>\<open>Loops.\<close> Recursion is structural or has its measure, except for two: \<open>stretch_rows\<close> (\<open>Gather\<close>) and \<open>walk_loop\<close>
  (\<open>Chunks\<close>) take fuel, one round for each element and for each byte, and the lemmas \<open>stretch_rows_enough\<close> and \<open>walk_correct\<close>
  show that it does not run out. \<open>serve_loop\<close> is a partial function, since an empty buffer makes the code loop for
  ever; \<open>serve_correct\<close> shows that any other returns. \<open>fold_blocks\<close> gives up on a block of no bytes, where the code would
  loop, and \<open>reduction_returns\<close> shows that there is none.

  \<^bold>\<open>Foreign code.\<close> The compressors (flate2, SZ3, ZFP), the conversions to and from half precision (\<open>half\<close>), the parsers
  (\<open>npyz\<close>, \<open>serde\<close>) and \<open>crc32c\<close> are arguments, and so is what the HDF5 C library answers about a file. Where a property needs one of their documented laws, such as that expanding what was
  compressed gives the input back, the law is a hypothesis, and the witness instantiates it.

  \<^bold>\<open>Not modelled.\<close> the asynchronous wiring of server and client (the rest of \<open>lib.rs\<close>, and \<open>main.rs\<close>), the Python bindings, and all logging.
\<close>




text \<open>C2: Whatever selection is accepted, every element it names is in the array, its axes and index arrays are
consistent, and its output shape counts exactly the elements it names.\<close>

lemma resolve_in_bounds:
  assumes "resolve shape ixs = Ok r" and "list_all index_i64 ixs"
  shows "resolved_ok shape r \<and> length (selected shape r) = prod_list (rs_out_shape r)
    \<and> (\<forall>i \<in> set (selected shape r). i < prod_list shape)"
  using resolve_ok [OF assms] length_selected selected_less by blast

lemma resolve_in_bounds_witness:
  "resolved_ok [3] \<lparr>rs_axes = [Point 2], rs_out_shape = [], rs_advanced = None\<rparr>"
proof -
  have "resolve [3] [Single (- 1)] = Ok \<lparr>rs_axes = [Point 2], rs_out_shape = [], rs_advanced = None\<rparr>"
    by (simp add: resolve_def expand_def resolve_axis_def normalize_index_def out_shape_def u64_of_i64_def first_of_def
        i64_of_u64_def i64_sat_add_def I64_MAX_def I64_MIN_def wholes_def joins_group_def Let_def)
  from resolve_in_bounds [OF this] show ?thesis by (simp add: is_i64_def I64_MAX_def I64_MIN_def)
qed

text \<open>C3: A slice selects exactly the positions that Python's \<open>range(*slice.indices(dim))\<close> lists, for every
start, stop and step an \<open>i64\<close> can hold.\<close>

lemma slice_is_python:
  assumes "resolve_slice start stop step (int dim) = Ok sel"
    and "opt_i64 start" and "opt_i64 stop" and "is_i64 (int dim)"
  shows "map int (axis_indices sel) =
    py_range (py_start start (unwrap_or step 1) (int dim)) (py_stop stop (unwrap_or step 1) (int dim))
      (unwrap_or step 1)"
  using assms by (rule resolve_slice_ok(2))

lemma slice_is_python_witness: "py_range 3 (- 1) (- 2) = [3, 1]"
proof -
  have "resolve_slice None None (Some (- 2)) (int 4) = Ok (Range 3 2 (- 2))"
    by (simp add: resolve_slice_def slice_step_def slice_start_def slice_stop_def slice_count_def u64_of_i64_def Let_def)
  from slice_is_python [OF this] show ?thesis
    by (simp add: opt_i64_def is_i64_def I64_MAX_def I64_MIN_def py_start_def py_stop_def upt_rec)
qed

text \<open>C4: A read that reaches past the end of the stream is refused with the range and the size, and nothing is read.\<close>

lemma read_past_end_refused:
  assumes "lay_total_bytes lay < offset + length dst"
  shows "read_with half lay offset dst read_src = Some (Err (OutOfRange offset (length dst) (lay_total_bytes lay)))"
  using assms by (rule read_with_range)

lemma read_past_end_refused_witness:
  "read_with (\<lambda>w. w) \<lparr>lay_out_shape = [2], lay_dtype = Uint8, lay_src_dtype = Uint8, lay_total_bytes = 2,
      lay_quality = exact, lay_kind = Contiguous 0 2\<rparr> 1 [0, 0] (\<lambda>_ _. Err BadBlock) = Some (Err (OutOfRange 1 2 2))"
  by (subst read_past_end_refused) simp_all

text \<open>Every synthetic dataset a specification can name reads as the low byte of each position, whatever its
pattern's period, and no read of it fails or goes round for ever.\<close>

lemma null_dataset_reads:
  assumes "from_spec spec = Ok ds" and "at + n \<le> nd_data_len ds"
  shows "null_read ds at n = Ok (map of_nat [at..<at + n])
    \<and> nd_data_len ds = prod_list (nd_shape ds) * itemsize (nd_dtype ds)"
proof -
  note ok = from_spec_ok [OF assms(1)]
  have "null_read ds at n = Ok (slice (null_bytes ds) at n)"
    using byte_source.read_ok [OF null_source [OF ok]] assms(2) by (simp add: null_bytes_def)
  then show ?thesis using ok assms(2) by (simp add: null_bytes_def slice_map slice_upt null_ok_def)
qed

lemma null_dataset_reads_witness:
  "\<exists>ds. from_spec ''uint8:2x3@256'' = Ok ds \<and> null_read ds 2 3 = Ok [2, 3, 4]"
proof -
  have spec: "from_spec ''uint8:2x3@256'' = Ok \<lparr>nd_dtype = Uint8, nd_shape = [2, 3], nd_data_len = 6, nd_pattern = pattern_of 256\<rparr>"
    by (simp add: from_spec_def split_once_def parse_u64_def digit_of_def PERIOD_MULTIPLE_def U64_def
        dtype_from_name_def with_period_def checked_product_def cmul_def Let_def)
  show ?thesis using null_dataset_reads [OF spec, of 2 3] spec by (simp add: upt_rec)
qed

text \<open>C5: On 32-byte headers decoding is the exact inverse of encoding: what decodes to a header is its encoding, and
the encoding of every header decodes to it.\<close>

lemma header_bijection:
  assumes "length b = HEADER_LEN"
  shows "header_decode b = Ok h \<longleftrightarrow> header_encode h = b"
  using assms header_encode_decode header_decode_encode by blast

lemma header_bijection_witness:
  "header_decode (header_encode (data_header 7 4096 65536)) = Ok (data_header 7 4096 65536)"
  using header_bijection [of "header_encode (data_header 7 4096 65536)" "data_header 7 4096 65536"] by simp

text \<open>However the system calls split or fail a write, what reached the peer is a front of the frame, and the
whole frame exactly when the write reports success.\<close>

lemma write_frame_prefix:
  "(\<exists>k. snd (write_frame calls h payload) = take k (header_encode h @ payload))
   \<and> (fst (write_frame calls h payload) \<noteq> WriteDone \<or> snd (write_frame calls h payload) = header_encode h @ payload)"
  using write_loop_prefix [of calls "[header_encode h, payload]"]
  by (cases "write_frame calls h payload") (auto simp: write_frame_def)

lemma write_frame_prefix_witness:
  "snd (write_frame [WriteFailed Io_Interrupted, Wrote 34] (data_header 7 0 2) [1, 2]) = header_encode (data_header 7 0 2) @ [1, 2]"
proof -
  have "fst (write_frame [WriteFailed Io_Interrupted, Wrote 34] h [1, 2]) = WriteDone" for h
    by (simp add: write_frame_def HEADER_LEN_def)
  then show ?thesis
    using write_frame_prefix [of "[WriteFailed Io_Interrupted, Wrote 34]" "data_header 7 0 2" "[1, 2]"] by blast
qed

text \<open>A header is read off the front of a byte stream and leaves the rest; two frames' headers that start the
same stream are the same; a stream cut inside a header is an unexpected end.\<close>

lemma headers_in_a_stream:
  assumes "k < HEADER_LEN"
  shows "read_frame_header (header_encode h @ rest) = Ok (h, rest)
    \<and> read_frame_header (take k (header_encode h)) = Err (WireIo Io_UnexpectedEof)"
  using header.receive_encode header.truncated_is_refused [OF assms] by (simp add: read_frame_header_receive)

lemma headers_in_a_stream_witness:
  "read_frame_header (take 31 (header_encode (bare_header FT_Pong))) = Err (WireIo Io_UnexpectedEof)"
  using headers_in_a_stream [of 31 "bare_header FT_Pong" "[]"] by (simp add: HEADER_LEN_def)

text \<open>The class of an error survives its frame whatever bytes the message has, and a UTF-8 message survives too.\<close>

lemma error_payload_keeps_class:
  "\<exists>q. payload_decode (payload_encode p) = Ok q \<and> ep_class q = ep_class p
    \<and> (\<not> utf8_valid (ep_message p) \<or> q = p)"
  using payload_decode_encode [of p] by (auto simp: payload_decode_def payload_encode_def)

lemma error_payload_keeps_class_witness:
  "payload_decode (payload_encode \<lparr>ep_class = Class_Plan, ep_message = [0x67, 0x6f]\<rparr>) = Ok \<lparr>ep_class = Class_Plan, ep_message = [0x67, 0x6f]\<rparr>"
proof -
  have "utf8_valid [0x67, 0x6f]"
    by (simp add: utf8_valid.simps [of "[_, _]"] utf8_valid.simps [of "[_]"] utf8_valid.simps [of "[]"] utf8_next_def byte_at_def)
  then show ?thesis
    using error_payload_keeps_class [of "\<lparr>ep_class = Class_Plan, ep_message = [0x67, 0x6f]\<rparr>"] by auto
qed

text \<open>A \<open>HELLO\<close> is 48 bytes and decodes to what was encoded; a first message with any other magic is refused.\<close>

lemma hello_roundtrip:
  assumes "hello_wf h"
  shows "length (hello_encode h) = HELLO_LEN \<and> hello_decode (hello_encode h) = Ok h
    \<and> (take 8 b = MAGIC \<or> hello_decode b = Err WireProtocol)"
  using length_hello_encode [OF assms] hello_decode_encode [OF assms]
  by (simp add: hello_decode_def check_magic_def slice_def)

lemma hello_roundtrip_witness:
  "hello_decode (hello_encode (hello_new (replicate 16 1) (replicate 16 2))) = Ok (hello_new (replicate 16 1) (replicate 16 2))"
  using hello_roundtrip [of "hello_new (replicate 16 1) (replicate 16 2)"] by (simp add: hello_wf_def hello_new_def)

text \<open>The class of every server error is the class the client reads from the gRPC status it became, so the
client's decisions to retry and to prepare again are the server's.\<close>

lemma classes_survive_grpc:
  "class_of (status_code e) = server_class e
   \<and> is_retryable (client_of_status (status_code e)) = (server_class e = Class_Transient)
   \<and> needs_reprepare (client_of_status (status_code e)) = (server_class e = Class_Plan)"
  using class_of_status_code [of e] by (simp add: is_retryable_def needs_reprepare_def client_of_status_def)

text \<open>C6: However threads claim, write and release non-empty ranges of a buffer, the live slices never overlap, stay
inside the buffer, and a store through one is never seen through another.\<close>

lemma scatter_slices_disjoint:
  assumes "scatter_reach (\<lambda>len. 0 < len) (sb, live)"
  shows "pairwise_disjoint live \<and> (\<forall>s \<in> set live. sl_offset s + sl_len s \<le> length (sb_bytes sb))
    \<and> (\<forall>s t at data sb'. s \<in> set live \<longrightarrow> t \<in> set live \<longrightarrow> s \<noteq> t \<longrightarrow> slice_store s at data sb = Some sb' \<longrightarrow>
          slice_load t sb' = slice_load t sb)"
proof -
  have inv: "scatter_inv (sb, live)" using assms by (rule scatter_inv_reach)
  then show ?thesis using slice_store_frame [OF inv] by (auto simp: scatter_inv_def)
qed

lemma scatter_slices_disjoint_witness:
  "pairwise_disjoint [\<lparr>sl_offset = 2, sl_len = 2\<rparr>, \<lparr>sl_offset = 0, sl_len = 2\<rparr>]"
proof -
  let ?b = "[0, 0, 0, 0] :: bytes"
  have "scatter_reach (\<lambda>len. 0 < len) (scatter_new ?b, [])" by (rule reach_new) (simp add: U64_def)
  moreover have "scatter_step (\<lambda>len. 0 < len) (scatter_new ?b, [])
      (\<lparr>sb_len = 4, sb_claimed = [(0, 2)], sb_bytes = ?b\<rparr>, [\<lparr>sl_offset = 0, sl_len = 2\<rparr>])"
    by (rule step_claim [of _ 2 0]) (simp_all add: claim_Ok scatter_new_def U64_def)
  moreover have "scatter_step (\<lambda>len. 0 < len) (\<lparr>sb_len = 4, sb_claimed = [(0, 2)], sb_bytes = ?b\<rparr>, [\<lparr>sl_offset = 0, sl_len = 2\<rparr>])
      (\<lparr>sb_len = 4, sb_claimed = [(0, 2), (2, 4)], sb_bytes = ?b\<rparr>, [\<lparr>sl_offset = 2, sl_len = 2\<rparr>, \<lparr>sl_offset = 0, sl_len = 2\<rparr>])"
    by (rule step_claim [of _ 2 2]) (simp_all add: claim_Ok overlaps_def U64_def)
  ultimately have "scatter_reach (\<lambda>len. 0 < len)
      (\<lparr>sb_len = 4, sb_claimed = [(0, 2), (2, 4)], sb_bytes = ?b\<rparr>, [\<lparr>sl_offset = 2, sl_len = 2\<rparr>, \<lparr>sl_offset = 0, sl_len = 2\<rparr>])"
    by (meson reach_step)
  from scatter_slices_disjoint [OF this] show ?thesis by blast
qed

text \<open>C7: A selection sent as protobuf messages arrives as it was exactly when the client's own check lets it be
sent, and is refused with the same error otherwise.\<close>

lemma indices_roundtrip:
  "indices_from_proto max_fancy (indices_to_proto ixs) = res_map (\<lambda>_. ixs) (check_fancy_limit max_fancy ixs)
   \<and> (check_fancy_limit max_fancy ixs = Ok () \<longleftrightarrow> (\<forall>i \<in> set ixs. fancy_len i \<le> max_fancy))"
  using indices_from_to_proto check_fancy_limit_Ok by blast

lemma indices_roundtrip_witness:
  "indices_from_proto 2 (indices_to_proto [Single 3, Ellipsis, Fancy [0, -1]]) = Ok [Single 3, Ellipsis, Fancy [0, -1]]"
  using indices_roundtrip [of 2 "[Single 3, Ellipsis, Fancy [0, -1]]"] by simp

text \<open>A quality travels unchanged but for the codec, which has its own field; what the server applies instead of
it is always something it can do and a layout understands, with a codec its build has.\<close>

lemma quality_negotiation:
  "quality_from_proto (Some (quality_to_proto q)) = q\<lparr>q_codec := None\<rparr>
   \<and> can_apply b (applied b q d) d
   \<and> understood b (applied b q d) d \<and> codec_supported b (codec_of b (applied b q d))"
  using can_apply_applied [of b q d] codec_of_applied_supported [of b q d]
  by (cases "q_cast_dtype q")
    (auto simp: quality_to_proto_def quality_from_proto_def understood_def wire_dtype_def can_apply_def
      simp del: encoding_as_i32.simps split: encoding.splits)

text \<open>Every code on the wire names at most one dtype, encoding, codec and frame type, and each has one.\<close>

lemma dtype_codes_roundtrip:
  "(dtype_from_i32 v = Ok d \<longleftrightarrow> v = as_i32 d) \<and> (encoding_from_u8 x = Some e \<longleftrightarrow> x = encoding_as_u8 e)
   \<and> (codec_from_u8 x = Some c \<longleftrightarrow> x = codec_as_u8 c) \<and> codec_from_u32 (codec_as_u32 c) = Some c
   \<and> (frame_type_from_u8 x = Some t \<longleftrightarrow> x = frame_type_as_u8 t)"
  using dtype_from_i32_Ok encoding_from_u8_Some codec_from_u8_Some frame_type_from_u8_Some codec_from_as_u32
  by (auto simp del: codec_as_u32.simps)



text \<open>C9: However readers interleave their lookups, insertions and evictions, the cache holds each chunk at most
once and with its own content, its byte count is right, and it is never over its capacity.\<close>

lemma cache_coherent:
  assumes "cache_reach content capacity c" and "2 * capacity < U64"
  shows "distinct (map fst (lru_entries (dc_lru c))) \<and> lru_bytes (dc_lru c) = entry_bytes (lru_entries (dc_lru c))
    \<and> lru_bytes (dc_lru c) \<le> capacity \<and> (\<forall>(key, chunk) \<in> set (lru_entries (dc_lru c)). chunk = content key)
    \<and> length (lru_spare (dc_lru c)) \<le> MAX_SPARES"
  using cache_reach_ok [OF assms(2,1)] by (auto simp: cache_ok_def)

lemma cache_coherent_witness:
  "cache_reach (\<lambda>_. [1]) 4 (cache_new 4) \<and> lru_bytes (dc_lru (cache_new 4)) \<le> 4"
  using cache_coherent [of "\<lambda>_. [1]" 4 "cache_new 4"] cache_reach.Start [of "\<lambda>_. [1]" 4] by (simp add: U64_def)

text \<open>An insertion never fails and drops from the front, the entries used longest ago, exactly as many as it
takes to be under the capacity again.\<close>

lemma cache_evicts_oldest:
  assumes "cache_ok content c" and "2 * dc_capacity c < U64"
    and "0 < dc_capacity c" and "length (content key) \<le> dc_capacity c" and "key \<notin> fst ` set (lru_entries (dc_lru c))"
  shows "\<exists>c' n. cache_insert sole key (content key) c = Some c'
    \<and> lru_entries (dc_lru c') = drop n (lru_entries (dc_lru c) @ [(key, content key)])
    \<and> lru_bytes (dc_lru c') \<le> dc_capacity c
    \<and> (\<forall>m < n. dc_capacity c < entry_bytes (drop m (lru_entries (dc_lru c) @ [(key, content key)])))"
  using assms cache_insert_evicts [OF assms(1,2)] by blast

lemma cache_evicts_oldest_witness:
  "\<exists>c' n. cache_insert (\<lambda>_. True) (0, 0) [7] (cache_new 1) = Some c'
    \<and> lru_entries (dc_lru c') = drop n [((0, 0), [7])] \<and> lru_bytes (dc_lru c') \<le> 1
    \<and> (\<forall>m < n. 1 < entry_bytes (drop m [((0, 0), [7])]))"
  using cache_evicts_oldest [OF cache_new_ok [of "\<lambda>_. [7]" 1], of "(0, 0)" "\<lambda>_. True"] by (simp add: cache_new_def U64_def)

text \<open>A block made for a range holds exactly the range's elements: its axes multiply to their number without
overflow, there are one to three of them, and none is 1 unless it is the only one.\<close>

lemma block_describes_range:
  assumes "for_range oshape d bound offset len = Ok spec" and "len < U64"
  shows "prod_list (used_dims spec) * itemsize d = len \<and> block_bytes spec = len \<and> spec_ok spec
    \<and> bs_dtype spec = d \<and> bs_eps spec = bound"
  using for_range_ok [OF assms] by simp

lemma block_describes_range_witness:
  "\<exists>spec. for_range [3, 4] Float32 0 16 32 = Ok spec \<and> block_bytes spec = 32"
proof -
  have spec: "for_range [3, 4] Float32 0 16 32 = Ok \<lparr>bs_dtype = Float32, bs_dims = [2, 4, 0], bs_ndim = 2, bs_eps = 0\<rparr>"
    by (simp add: for_range_def slab_axes_def cmul_def U64_def U32_def u32_of_def MAX_BLOCK_DIMS_def Let_def)
  show ?thesis using block_describes_range [OF spec] spec by (simp add: U64_def)
qed

text \<open>The header of every block the server makes is 24 bytes and decodes to the block, whatever follows it.\<close>

lemma block_header_roundtrip:
  assumes "for_range oshape d bound offset len = Ok spec" and "len < U64"
    and "f64_is_finite bound" and "\<not> f64_lt_zero bound"
  shows "block_decode (block_encode spec @ stream) = Ok spec \<and> length (block_encode spec) = BLOCK_HEADER_LEN"
  using for_range_ok [OF assms(1,2)] block_decode_encode assms(3,4) length_block_encode by simp

lemma block_header_roundtrip_witness:
  "\<exists>spec. for_range [6] Float32 0 0 24 = Ok spec \<and> block_decode (block_encode spec @ [1, 2]) = Ok spec"
proof -
  have spec: "for_range [6] Float32 0 0 24 = Ok \<lparr>bs_dtype = Float32, bs_dims = [6, 0, 0], bs_ndim = 1, bs_eps = 0\<rparr>"
    by (simp add: for_range_def slab_axes_def cmul_def U64_def U32_def u32_of_def MAX_BLOCK_DIMS_def Let_def)
  show ?thesis using block_header_roundtrip [OF spec, of "[1, 2]"] spec
    by (simp add: U64_def f64_is_finite_def f64_lt_zero_def f64_exponent_def f64_sign_def)
qed

text \<open>C10: A block that went out gzip-compressed expands to the very bytes it was made from, provided the library's
inflate undoes its deflate, and it is shorter than they are.\<close>

lemma gzip_block_roundtrip:
  assumes "for_range oshape d 0 offset (length src) = Ok spec" and "length src < U64"
    and "compress b lib Gzip spec src dst0 = (Ok True, dst)"
    and "\<And>stream. lib_deflate lib src = Some stream \<Longrightarrow> lib_inflate lib stream (length src) = Some src"
  shows "decompress_into b lib Gzip dst (length src) = Ok src \<and> length dst < length src"
  using gzip_roundtrip_lemma [OF assms(1,2) _ _ assms(3,4)] compress_Ok(1) [OF assms(3)]
  by (simp add: f64_is_finite_def f64_lt_zero_def f64_exponent_def f64_sign_def)

lemma gzip_block_roundtrip_witness:
  "\<exists>b lib dst. decompress_into b lib Gzip dst 32 = Ok (replicate 32 7) \<and> length dst < 32"
proof -
  let ?lib = "\<lparr>lib_deflate = \<lambda>src. Some [hd src], lib_inflate = \<lambda>s n. Some (replicate n (hd s)),
    lib_sz_compress = \<lambda>_ _ _ _. None, lib_sz_expand = \<lambda>_ _ _. None, lib_zfp_compress = \<lambda>_ _ _ _. None, lib_zfp_expand = \<lambda>_ _ _ _. None\<rparr>"
  let ?b = "\<lparr>feat_sz = False, feat_zfp = False\<rparr>" and ?src = "replicate 32 7 :: bytes"
  let ?spec = "\<lparr>bs_dtype = Uint8, bs_dims = [32, 0, 0], bs_ndim = 1, bs_eps = 0\<rparr>"
  have spec: "for_range [32] Uint8 0 0 (length ?src) = Ok ?spec"
    by (simp add: for_range_def slab_axes_def cmul_def U64_def U32_def u32_of_def MAX_BLOCK_DIMS_def Let_def)
  have len: "length ?src < U64" by (simp add: U64_def)
  have "spec_ok ?spec" "block_bytes ?spec = length ?src" using for_range_ok [OF spec len] by simp_all
  then have c: "compress ?b ?lib Gzip ?spec ?src [] = (Ok True, block_encode ?spec @ [7])"
    using length_block_encode [of ?spec] by (simp add: compress_def gzip_compress_def Let_def BLOCK_HEADER_LEN_def)
  show ?thesis
    using gzip_block_roundtrip [OF spec len c] by (intro exI [of _ ?b] exI [of _ ?lib] exI [of _ "block_encode ?spec @ [7]"]) simp
qed

text \<open>A configuration passes exactly when every limit that must be positive is, the fetch limit holds a default
chunk, inline data fits a message, and there is a root; the only error is a configuration error.\<close>

lemma validate_is_exact:
  "validate c = (if config_ok c then Ok () else Err SrvConfig)"
  by (auto simp: validate_def config_ok_def Let_def)



text \<open>However requests arrive one at a time, there are never more sessions than the limit, each is found under
its own identifier only, and each was granted between one and the limit of data connections.\<close>

lemma sessions_bounded:
  assumes "session_reach c reg" and "config_ok c"
  shows "keys_distinct reg \<and> length reg \<le> max_sessions (cfg_limits c)
    \<and> (\<forall>sid s. (sid, s) \<in> set reg \<longrightarrow> ss_id s = sid \<and> 0 < ss_granted_streams s
          \<and> ss_granted_streams s \<le> max_streams_per_session (cfg_limits c))"
  using session_reach_ok [OF assms(2,1)] by (auto simp: sessions_ok_def session_ok_def)

lemma sessions_bounded_witness: "length ([] :: nat sessions) \<le> max_sessions (cfg_limits default_config)"
  using sessions_bounded [OF session_reach.Start, of default_config]
  by (simp add: config_ok_def default_config_def default_limits_def default_transfer_def)

text \<open>A request is let in only for a session that exists and has been idle no longer than the timeout, and
letting it in makes the session young again.\<close>

lemma live_session_only:
  assumes "get_at c sid now_ms reg = (Ok s, reg')"
  shows "\<exists>old. map_of reg sid = Some old \<and> now_ms - ss_last_seen_ms old \<le> idle_timeout_ms c
    \<and> ss_last_seen_ms s = now_ms \<and> map_of reg' sid = Some s"
  using assms by (rule get_at_live)

lemma live_session_only_witness:
  "\<exists>s reg'. get_at default_config (replicate 16 1) 5 [(replicate 16 1, new_session default_config ''c'' 0 3 (replicate 16 1) [])]
     = (Ok s, reg') \<and> ss_last_seen_ms (s :: nat session) = 5"
proof -
  let ?reg = "[(replicate 16 1, new_session default_config ''c'' 0 3 (replicate 16 1) [])] :: nat sessions"
  obtain s reg' where g: "get_at default_config (replicate 16 1) 5 ?reg = (Ok s, reg')"
    by (simp add: get_at_def session_expired_def new_session_def idle_timeout_ms_def default_config_def default_limits_def
        sat_mul_def U64_def Let_def)
  then show ?thesis using live_session_only [OF g] by blast
qed

text \<open>However connections race through the compare-and-exchange, the count of a session's data connections is
the number that are open and never exceeds what the session was granted.\<close>

lemma data_conns_bounded:
  assumes "conn_reach granted_streams s" and "granted_streams < U32"
  shows "dc_conns s = dc_open s \<and> dc_open s \<le> granted_streams"
  using conn_reach_bound [OF assms(2,1)] .

lemma data_conns_bounded_witness: "dc_open \<lparr>dc_conns = 0, dc_loaded = [], dc_open = 0\<rparr> \<le> 8"
  using data_conns_bounded [OF conn_reach.Start, of 8] by (simp add: U32_def)

text \<open>Until the 64-bit counter wraps, opening a file gives a handle that is not 0 and no other open file has,
and leaves every other handle as it was.\<close>

lemma handles_fresh:
  assumes "files_ok r" and "fr_next_handle r + 1 < U64" and "files_insert file r = (handle, r')"
  shows "files_ok r' \<and> handle \<noteq> 0 \<and> files_get handle r = Err SrvBadRequest \<and> files_get handle r' = Ok file
    \<and> (\<forall>h. h = handle \<or> files_get h r' = files_get h r)"
  using files_insert_ok [OF assms] by blast

lemma handles_fresh_witness: "\<exists>r'. files_insert ''f'' files_new = (1, r') \<and> files_get 1 r' = Ok ''f''"
proof -
  obtain r' where ins: "files_insert ''f'' files_new = (1, r')" by (simp add: files_insert_def files_new_def Let_def)
  show ?thesis using handles_fresh [OF files_new_ok _ ins] ins by (simp add: files_new_def U64_def)
qed

text \<open>Until the identifier counter wraps, a new plan gets an identifier no plan has and a session has at most
its limit of plans, made by dropping its own plans idle longest and nobody else's.\<close>

lemma plan_insert_ok:
  assumes "transfers_ok tr" and "tr_next_id tr + 1 < U32" and "0 < max_transfers_per_session (cfg_limits c)"
    and "insert_at_time c session ds lay now_ms (Ok ticket) tr = (res, tr')"
  shows "transfers_ok tr' \<and> map_of (tr_entries tr) (tr_next_id tr) = None
    \<and> (\<exists>e. res = Ok e \<and> te_session e = session \<and> te_ticket e = ticket \<and> te_layout e = lay
        \<and> map_of (tr_entries tr') (te_request_id e) = Some e \<and> te_request_id e \<noteq> 0)
    \<and> (\<exists>ids. map_of (tr_by_session tr') session = Some ids \<and> length ids \<le> max_transfers_per_session (cfg_limits c))
    \<and> (\<forall>i e. map_of (tr_entries tr) i = Some e \<longrightarrow> te_session e \<noteq> session \<longrightarrow> map_of (tr_entries tr') i = Some e)"
proof -
  have "0 < tr_next_id tr" using assms(1) by (simp add: transfers_ok_def)
  moreover have "map_of (tr_entries tr) (tr_next_id tr) = None"
    using transfers_ok_entry(3) [OF assms(1), of "tr_next_id tr"] by (cases "map_of (tr_entries tr) (tr_next_id tr)") auto
  ultimately show ?thesis using insert_at_time_ok [OF assms] by fastforce
qed

lemma plan_insert_ok_witness:
  "\<exists>e tr'. insert_at_time default_config (replicate 16 1) \<lparr>ds_dtype = Uint8, ds_shape = [], ds_read = (\<lambda>_ n. Ok (replicate n 0)), ds_decoded_chunk_bytes = None, ds_prepare = Ok ()\<rparr>
      \<lparr>lay_out_shape = [], lay_dtype = Uint8, lay_src_dtype = Uint8, lay_total_bytes = 1, lay_quality = exact, lay_kind = Contiguous 0 1\<rparr>
      0 (Ok (replicate 16 9)) transfers_new = (Ok e, tr') \<and> transfers_ok tr' \<and> te_request_id e \<noteq> 0"
proof -
  let ?ds = "\<lparr>ds_dtype = Uint8, ds_shape = [], ds_read = (\<lambda>_ n. Ok (replicate n 0)), ds_decoded_chunk_bytes = None, ds_prepare = Ok ()\<rparr>"
  let ?lay = "\<lparr>lay_out_shape = [], lay_dtype = Uint8, lay_src_dtype = Uint8, lay_total_bytes = 1, lay_quality = exact, lay_kind = Contiguous 0 1\<rparr>"
  obtain res tr' where ins: "insert_at_time default_config (replicate 16 1) ?ds ?lay 0 (Ok (replicate 16 9)) transfers_new = (res, tr')"
    by fastforce
  show ?thesis using plan_insert_ok [OF transfers_new_ok _ _ ins] ins
    by (auto simp: transfers_new_def U32_def default_config_def default_limits_def)
qed

text \<open>C12: The data plane is given a plan only by the session it was made for, with all sixteen bytes of its ticket,
and before it has been idle for longer than its time to live.\<close>

lemma fetch_authorised_only:
  assumes "fetch c request_id ticket session now_ms tr = (Ok e, tr')"
    and "\<forall>i e. map_of (tr_entries tr) i = Some e \<longrightarrow> length (te_ticket e) = length ticket"
  shows "te_session e = session \<and> te_ticket e = ticket
    \<and> (\<exists>old. map_of (tr_entries tr) request_id = Some old \<and> te_layout e = te_layout old \<and> te_dataset e = te_dataset old
        \<and> now_ms - te_last_used_ms old \<le> ttl_ms c)"
  using transfer_fetch_authorised [OF assms] by blast

lemma fetch_authorised_only_witness:
  "\<exists>e tr'. fetch default_config 1 [7, 7] [1] 5 \<lparr>tr_entries = [(1, \<lparr>te_request_id = 1, te_session = [1], te_ticket = [7, 7],
       te_dataset = \<lparr>ds_dtype = Uint8, ds_shape = [], ds_read = (\<lambda>_ n. Ok (replicate n 0)), ds_decoded_chunk_bytes = None, ds_prepare = Ok ()\<rparr>,
       te_layout = \<lparr>lay_out_shape = [], lay_dtype = Uint8, lay_src_dtype = Uint8, lay_total_bytes = 1, lay_quality = exact, lay_kind = Contiguous 0 1\<rparr>,
       te_last_used_ms = 2\<rparr>)], tr_by_session = [([1], [1])], tr_next_id = 2\<rparr> = (Ok e, tr') \<and> te_ticket e = [7, 7]"
proof -
  let ?tr = "\<lparr>tr_entries = [(1, \<lparr>te_request_id = 1, te_session = [1], te_ticket = [7, 7],
       te_dataset = \<lparr>ds_dtype = Uint8, ds_shape = [], ds_read = (\<lambda>_ n. Ok (replicate n 0)), ds_decoded_chunk_bytes = None, ds_prepare = Ok ()\<rparr>,
       te_layout = \<lparr>lay_out_shape = [], lay_dtype = Uint8, lay_src_dtype = Uint8, lay_total_bytes = 1, lay_quality = exact, lay_kind = Contiguous 0 1\<rparr>,
       te_last_used_ms = 2\<rparr>)], tr_by_session = [([1], [1])], tr_next_id = 2\<rparr>"
  obtain e tr' where f: "fetch default_config 1 [7, 7] [1] 5 ?tr = (Ok e, tr')"
    by (simp add: fetch_def entry_expired_def ttl_ms_def sat_mul_def default_config_def default_limits_def U64_def
        constant_time_eq_iff Let_def)
  show ?thesis using fetch_authorised_only [OF f] f by auto
qed

text \<open>Ending a session drops exactly its own plans; a sweep drops exactly the plans that expired or whose
session is gone, and says how many.\<close>

lemma session_end_drops_its_plans:
  assumes "transfers_ok tr" and "remove_session session tr = (n, tr1)" and "sweep_at c now_ms is_live tr = (m, tr2)"
  shows "transfers_ok tr1 \<and> transfers_ok tr2
    \<and> (\<forall>i e. map_of (tr_entries tr1) i = Some e \<longleftrightarrow> map_of (tr_entries tr) i = Some e \<and> te_session e \<noteq> session)
    \<and> (\<forall>i e. map_of (tr_entries tr2) i = Some e \<longleftrightarrow>
        map_of (tr_entries tr) i = Some e \<and> \<not> entry_expired now_ms (ttl_ms c) e \<and> is_live (te_session e))
    \<and> length (tr_entries tr2) + m = length (tr_entries tr)"
  using remove_session_ok [OF assms(1,2)] sweep_at_ok [OF assms(1,3)] by blast

lemma session_end_drops_its_plans_witness:
  "\<exists>n tr1. remove_session [1] transfers_new = (n, tr1) \<and> transfers_ok tr1"
proof -
  obtain n tr1 where r: "remove_session [1] transfers_new = (n, tr1)" by fastforce
  obtain m tr2 where s: "sweep_at default_config 0 (\<lambda>_. True) transfers_new = (m, tr2)" by fastforce
  show ?thesis using session_end_drops_its_plans [OF transfers_new_ok r s] r by blast
qed

text \<open>C13: A fetch inside its stream is read and sent whole: pieces follow each other without gap or overlap, none
is empty or larger than the buffer, together they are the bytes asked for, and the loop ends.\<close>

lemma fetch_served_whole:
  assumes "reads_stream half (te_dataset e) (te_layout e) stream" and "lay_total_bytes (te_layout e) < U64"
    and "0 < length (fr_buffer rd)" and "offset + len \<le> lay_total_bytes (te_layout e)"
  shows "\<exists>rd' pieces. serve half e (\<lambda>at bs st. (Ok () :: 'e + unit, st @ [(at, bs)])) rd offset len [] = Some (Ok (Ok ()), rd', pieces)
    \<and> tiles offset len (map (\<lambda>(at, bs). (at, length bs)) pieces)
    \<and> concat (map snd pieces) = slice stream offset len
    \<and> (\<forall>(at, bs) \<in> set pieces. length bs \<le> length (fr_buffer rd))"
  using serve_collects [OF assms] .

lemma fetch_served_whole_witness:
  "\<exists>rd' pieces. serve (\<lambda>w. w) \<lparr>te_request_id = 1, te_session = [1], te_ticket = [7],
       te_dataset = \<lparr>ds_dtype = Uint8, ds_shape = [3], ds_read = (\<lambda>a n. Ok (slice [1, 2, 3] a n)), ds_decoded_chunk_bytes = None, ds_prepare = Ok ()\<rparr>,
       te_layout = \<lparr>lay_out_shape = [3], lay_dtype = Uint8, lay_src_dtype = Uint8, lay_total_bytes = 3, lay_quality = exact, lay_kind = Contiguous 0 3\<rparr>,
       te_last_used_ms = 0\<rparr> (\<lambda>at bs st. (Ok () :: nat + unit, st @ [(at, bs)])) (fetch_reader_new 2) 0 3 [] = Some (Ok (Ok ()), rd', pieces)
    \<and> concat (map snd pieces) = [1, 2, 3]"
proof -
  let ?ds = "\<lparr>ds_dtype = Uint8, ds_shape = [3], ds_read = (\<lambda>a n. Ok (slice [1, 2, 3] a n)), ds_decoded_chunk_bytes = None, ds_prepare = Ok ()\<rparr>"
  let ?lay = "\<lparr>lay_out_shape = [3], lay_dtype = Uint8, lay_src_dtype = Uint8, lay_total_bytes = 3, lay_quality = exact, lay_kind = Contiguous 0 3\<rparr>"
  let ?e = "\<lparr>te_request_id = 1, te_session = [1], te_ticket = [7], te_dataset = ?ds, te_layout = ?lay, te_last_used_ms = 0\<rparr>"
  have "reads_stream (\<lambda>w. w) ?ds ?lay [1, 2, 3]"
    by (auto simp: reads_stream_def read_range_def read_with_def check_range_def cadd_def read_source_def wadd_def U64_def)
  then show ?thesis
    using fetch_served_whole [of "\<lambda>w. w" ?e "[1, 2, 3]" "fetch_reader_new 2" 0 3]
    by (auto simp: U64_def fetch_reader_new_def slice_def)
qed

text \<open>The chunks a plan is fetched in follow each other from the first byte to the last, none is empty, and none
is larger than the server's limit for one fetch, whatever the client was configured with.\<close>

lemma chunks_cover_stream:
  "covers 0 (pl_total_bytes p) (plan_chunks p (choose_chunk_bytes c si streams remote_bytes))
   \<and> (\<forall>(offset, len) \<in> set (plan_chunks p (choose_chunk_bytes c si streams remote_bytes)). 0 < len \<and> len \<le> max (si_max_fetch_bytes si) 1)"
  using plan_chunks_cover plan_chunks_bounds by blast

lemma chunks_cover_stream_witness:
  "covers 0 2400004 (plan_chunks \<lparr>pl_request_id = 1, pl_ticket = [], pl_dtype = Float32, pl_shape = [600001],
       pl_total_bytes = 2400004, pl_applied_quality = exact, pl_requested_quality = exact, pl_inline_data = []\<rparr>
     (choose_chunk_bytes (client_default ''c'') \<lparr>si_granted_streams = 8, si_default_chunk_bytes = 4194304,
        si_max_fetch_bytes = 16777216, si_max_fancy_indices = 262144\<rparr> 8 2400004))"
  using chunks_cover_stream [of "\<lparr>pl_request_id = 1, pl_ticket = [], pl_dtype = Float32, pl_shape = [600001],
       pl_total_bytes = 2400004, pl_applied_quality = exact, pl_requested_quality = exact, pl_inline_data = []\<rparr>"] by simp

section \<open>A data connection\<close>

text \<open>C14: A data connection is let in only when its first 48 bytes are a \<open>HELLO\<close> of the server's version that names a
session which has not timed out, with that session's token, and the session has a connection to spare; then
it is counted and told so.\<close>

lemma handshake_authenticates:
  assumes "handshake env s = (Some (Ok session), s')"
    and "\<And>sid session. map_of (st_sessions s) sid = Some session \<Longrightarrow> length (ss_token session) = 16"
  shows "\<exists>bs h old. fst (read_full HANDSHAKE_TIMEOUT_MS HELLO_LEN 0 [] (st_in s)) = Read_All bs \<and> hello_decode bs = Ok h
    \<and> h_version h = PROTOCOL_VERSION \<and> map_of (st_sessions s) (h_session_id h) = Some old
    \<and> \<not> session_expired (dp_clock env (st_ticks s)) (idle_timeout_ms (dp_config env)) old
    \<and> h_session_token h = ss_token old
    \<and> conn_count (ss_id session) s < ss_granted_streams session
    \<and> conn_count (ss_id session) s' = conn_count (ss_id session) s + 1
    \<and> st_sent s' = st_sent s @ [Sent_Ready ready_accepted]"
proof -
  from handshake_Ok [OF assms(1)] obtain bs h old where ok:
    "fst (read_full HANDSHAKE_TIMEOUT_MS HELLO_LEN 0 [] (st_in s)) = Read_All bs" "hello_decode bs = Ok h"
    "h_version h = PROTOCOL_VERSION" "map_of (st_sessions s) (h_session_id h) = Some old"
    "\<not> session_expired (dp_clock env (st_ticks s)) (idle_timeout_ms (dp_config env)) old"
    "constant_time_eq (ss_token old) (h_session_token h)" "conn_count (ss_id session) s < ss_granted_streams session"
    "st_conns s' = AList.update (ss_id session) (conn_count (ss_id session) s + 1) (st_conns s)"
    "st_sent s' = st_sent s @ [Sent_Ready ready_accepted]"
    by blast
  have "hello_wf h" using hello_decode_wf [OF ok(2)] length_read_full [OF _ ok(1)] by simp
  then have "h_session_token h = ss_token old"
    using ok(4,6) assms(2) by (simp add: hello_wf_def constant_time_eq_iff)
  then show ?thesis using ok by (auto simp: conn_count_def update_conv)
qed

lemma handshake_authenticates_witness:
  "\<exists>session s'. handshake sample_env (sample_state [Got (hello_encode sample_hello)] []) = (Some (Ok session), s')
    \<and> conn_count (ss_id session) s' = 1"
proof -
  obtain session s' where run: "handshake sample_env (sample_state [Got (hello_encode sample_hello)] []) = (Some (Ok session), s')"
    using sample_handshake by blast
  have "length (ss_token session) = 16"
    if "map_of (st_sessions (sample_state [Got (hello_encode sample_hello)] [])) sid = Some session" for sid session
    using that by (auto simp: sample_state_def new_session_def split: if_splits)
  with handshake_authenticates [OF run]
  have "conn_count (ss_id session) s' = conn_count (ss_id session) (sample_state [Got (hello_encode sample_hello)] []) + 1" by blast
  then show ?thesis using run by (simp add: conn_count_def sample_state_def)
qed

text \<open>C15: Whatever the socket does, an answer to a fetch holds data only if the plan it names belongs to the session of
the connection, the sixteen bytes after the header are the plan's ticket, and the range is inside the stream
and the server's limit; and all of that data names the fetch's plan.\<close>

lemma data_needs_ticket:
  assumes "handle_fetch env h sid s = (r, s')"
    and "\<And>i e. map_of (tr_entries (st_transfers s)) i = Some e \<Longrightarrow> length (te_ticket e) = TICKET_LEN"
  shows "\<exists>new. st_sent s' = st_sent s @ new
    \<and> (\<forall>x \<in> set new. is_data x \<longrightarrow> sent_request x = fh_request_id h
        \<and> (\<exists>e. map_of (tr_entries (st_transfers s)) (unat (fh_request_id h)) = Some e \<and> te_session e = sid
              \<and> fst (read_full (idle_ms env) TICKET_LEN 0 [] (st_in s)) = Read_All (te_ticket e)
              \<and> unat (fh_logical_len h) \<le> max_fetch_bytes (cfg_transfer (dp_config env))
              \<and> unat (fh_offset h) + unat (fh_logical_len h) \<le> lay_total_bytes (te_layout e)))"
proof -
  from handle_fetch_data [OF assms(1)] obtain new where new: "st_sent s' = st_sent s @ new"
    "\<And>x. x \<in> set new \<Longrightarrow> is_data x \<Longrightarrow> sent_request x = fh_request_id h \<and> (\<exists>ticket e.
       fst (read_full (idle_ms env) TICKET_LEN 0 [] (st_in s)) = Read_All ticket \<and> fetch_allowed env h sid ticket (st_transfers s) e)"
    by blast
  have "te_ticket e = ticket" if "fst (read_full (idle_ms env) TICKET_LEN 0 [] (st_in s)) = Read_All ticket"
    "fetch_allowed env h sid ticket (st_transfers s) e" for ticket e
    using that length_read_full [OF _ that(1)] assms(2) by (auto simp: fetch_allowed_def constant_time_eq_iff)
  then show ?thesis using new by (intro exI [of _ new]) (fastforce simp: fetch_allowed_def)
qed

lemma data_needs_ticket_witness:
  "\<not> list_ex is_data
     (st_sent (snd (handle_fetch sample_env (fetch_header 1 0 3) (replicate 16 1) (sample_state [Got (replicate 16 8)] []))))"
proof -
  let ?h = "fetch_header 1 0 3" and ?s = "sample_state [Got (replicate 16 8)] []"
  obtain r s' where run: "handle_fetch sample_env ?h (replicate 16 1) ?s = (r, s')" by fastforce
  have tickets: "length (te_ticket e) = TICKET_LEN" if "map_of (tr_entries (st_transfers ?s)) i = Some e" for i e
    using that by (auto simp: sample_state_def sample_entry_def TICKET_LEN_def split: if_splits)
  have "fst (read_full (idle_ms sample_env) TICKET_LEN 0 [] (st_in ?s)) = Read_All (replicate 16 8)"
    by (simp add: sample_state_def read_full_at_once TICKET_LEN_def del: read_full.simps)
  moreover have "te_ticket e = replicate 16 9" if "map_of (tr_entries (st_transfers ?s)) i = Some e" for i e
    using that by (auto simp: sample_state_def sample_entry_def split: if_splits)
  moreover have "replicate 16 8 \<noteq> (replicate 16 9 :: bytes)" by (simp add: replicate_eq_replicate)
  ultimately show ?thesis
    using data_needs_ticket [OF run tickets] run by (fastforce simp: sample_state_def list_ex_iff)
qed



text \<open>A connection whose \<open>READY\<close> cannot be written was counted in and is never counted out: the error of the write
leaves the handshake before the caller has the session to close. Each such failure takes one of the session's
connections away for good.\<close>

lemma ready_failure_leaks:
  "\<exists>s'. serve_connection sample_env (sample_state [Got (hello_encode sample_hello)] [Some Io_Other]) = (Some (Err (SrvIo Io_Other)), s')
     \<and> conn_count (replicate 16 1) s' = 1 \<and> conn_count (replicate 16 1) (sample_state [] []) = 0"
proof -
  let ?s = "sample_state [Got (hello_encode sample_hello)] [Some Io_Other]"
  have "read_full HANDSHAKE_TIMEOUT_MS HELLO_LEN 0 [] (st_in ?s) = (Read_All (hello_encode sample_hello), [])"
    using sample_read by (simp add: sample_state_def del: read_full.simps)
  moreover obtain session s1 where
    "check_hello sample_env (hello_encode sample_hello) (?s\<lparr>st_in := []\<rparr>) = (Some (Ok session), s1)" "ss_id session = replicate 16 1"
    using sample_check [of "[]" "[Some Io_Other]"] by (auto simp: sample_state_def)
  ultimately show ?thesis
    using handshake_leaks [of ?s "hello_encode sample_hello" "[]" sample_env session s1 Io_Other "[]"]
    by (auto simp: sample_state_def conn_count_def)
qed

section \<open>A transfer over several connections\<close>

text \<open>C17: However the threads of a transfer interleave and whatever the server sends, as long as one of them has not left,
one that is not waiting can take its next step, and none ever finds chunks unaccounted for.\<close>

lemma transfer_never_stuck:
  assumes "pool_reach spec b lib good ps (ws, sh)" and "\<exists>w \<in> set ws. wk_phase w \<noteq> Gone"
  shows "(\<exists>as w bs w' sh'. ws = as @ w # bs \<and> wk_phase w \<noteq> Asleep \<and> work_step spec b lib good w sh w' sh')
    \<and> (\<forall>w \<in> set ws. wk_phase w = Ready \<longrightarrow> fst (take_turn spec (wk_flight w) sh) \<noteq> Unaccounted)"
proof -
  note ok = pool_reach_ok [OF assms(1)]
  have "fst (take_turn spec (wk_flight w) sh) \<noteq> Unaccounted" if "w \<in> set ws" "wk_phase w = Ready" for w
    using split_list [OF that(1)] never_unaccounted [OF _ that(2)] ok by blast
  then show ?thesis using pool_can_move [OF ok assms(2)] by blast
qed

lemma transfer_never_stuck_witness:
  "\<exists>w' sh'. work_step sample_spec (dp_build sample_env) (dp_codecs sample_env) (\<lambda>_ _ _ _. True)
     \<lparr>wk_conn = True, wk_flight = [], wk_phase = Ready\<rparr> (start_transfer [sample_part] 1) w' sh'"
proof -
  let ?w = "\<lparr>wk_conn = True, wk_flight = [], wk_phase = Ready\<rparr>"
  have "pool_reach sample_spec (dp_build sample_env) (dp_codecs sample_env) (\<lambda>_ _ _ _. True) [sample_part] ([?w], start_transfer [sample_part] (length [?w]))"
    by (rule begun) (simp_all add: fresh_worker_def sample_queue)
  from transfer_never_stuck [OF this] show ?thesis by (auto simp: Cons_eq_append_conv)
qed



text \<open>C19: Whatever the server sends and whichever connections break, the ranges that two threads of a transfer may be
writing at the same time do not overlap.\<close>

lemma ranges_written_apart:
  assumes "pool_reach spec b lib good ps (as @ w # bs, sh)" and "parts_ok src ps"
    and "f \<in> set (wk_flight w)" and "u \<in> set (as @ bs)" and "g \<in> set (wk_flight u)"
    and "ck_part (fl_chunk f) = ck_part (fl_chunk g)"
  shows "disjoint_slices (fl_slice f) (fl_slice g)"
  using flights_apart [OF pool_reach_ok [OF assms(1)] parts_ok_sep [OF assms(2)]] assms(3-6) by blast

lemma ranges_written_apart_witness:
  "disjoint_slices (fl_slice (byte_flight 0)) (fl_slice (byte_flight 1)) \<and> ck_part (fl_chunk (byte_flight 0)) = ck_part (fl_chunk (byte_flight 1))"
proof -
  have "parts_ok (\<lambda>_. [7, 7]) [pair_part]" by (simp add: parts_ok_def pair_part_def U64_def)
  from ranges_written_apart [of pair_spec "dp_build sample_env" "dp_codecs sample_env" "\<lambda>_ _ _ _. True" "[pair_part]" "[]",
      unfolded append_Nil, OF pair_run this, of "byte_flight 0" _ "byte_flight 1"]
  show ?thesis by (simp add: byte_flight_def byte_chunk_def)
qed





section \<open>Reductions\<close>

text \<open>C22: An axis argument is accepted exactly when each axis is in range, counted from the end when negative, none is
named twice, and argmax or argmin gets no tuple; then the axes it names are the ones reduced.\<close>

lemma axes_like_numpy:
  "reduced_axes nd ax fn =
     (if axes_in_range nd ax \<and> distinct (named_axes nd ax) \<and> (\<exists>axes. ax = Axis_Many axes \<and> fn \<in> {F_Argmax, F_Argmin}) = False
      then Ok (map (\<lambda>d. int d \<in> set (named_axes nd ax)) [0..<nd])
      else Err BadFunction)"
proof (cases ax)
  case Axis_All
  have "map (\<lambda>d. int d \<in> set (map int [0..<nd])) [0..<nd] = replicate nd True" by (rule nth_equalityI) auto
  then show ?thesis using Axis_All by (simp add: reduced_axes_def named_axes_def axes_in_range_def distinct_map)
next
  case (Axis_One a)
  then show ?thesis
    using mark_axes_exact [of nd "[a]"] by (simp add: reduced_axes_def named_axes_def axes_in_range_def del: mark_axes.simps)
next
  case (Axis_Many axes)
  then show ?thesis
    using mark_axes_exact [of nd axes] by (auto simp: reduced_axes_def named_axes_def axes_in_range_def simp del: mark_axes.simps)
qed

text \<open>The walk that carries an index and a cell along, block by block, gives the accumulator what an index
computed by division gives it: every element once, in order, with its cell and its position.\<close>

lemma walk_visits_by_division:
  assumes "reducible half ds lay stream" and "reduced_axes (length (lay_out_shape lay)) (ra_axis args) fn = Ok reduced"
  shows "fold_walk half ds lay (walk_of lay fn args reduced) (itemsize (lay_dtype lay)) elem push acc
    = map_option Ok (push_all push
        (map (\<lambda>n. (cell_of (lay_out_shape lay) reduced n, arg_position args (lay_out_shape lay) n,
                    elem (slice stream (n * itemsize (lay_dtype lay)) (itemsize (lay_dtype lay)))))
           [0..<prod_list (lay_out_shape lay)]) acc)"
  using assms by (rule fold_walk_by_division)

lemma walk_visits_by_division_witness:
  "fold_walk (\<lambda>b. b) sample_bytes sample_grid (walk_of sample_grid F_Sum (reduce_args_default\<lparr>ra_axis := Axis_One 0\<rparr>) [True, False])
      1 (\<lambda>bs. bs ! 0) (\<lambda>cell pos x acc. Some (acc @ [(cell, pos, x)])) []
    = Some (Ok [(0, 0, 1), (1, 0, 2), (2, 0, 3), (0, 1, 4), (1, 1, 5), (2, 1, 250)])"
  using walk_visits_by_division [OF sample_reducible, where args = "reduce_args_default\<lparr>ra_axis := Axis_One 0\<rparr>" and fn = F_Sum
      and reduced = "[True, False]" and elem = "\<lambda>bs. bs ! 0" and push = "\<lambda>cell pos x acc. Some (acc @ [(cell, pos, x)])" and acc = "[]"]
  by (simp add: sample_axes cell_of_def arg_position_def kept_of_def slice_def upt_rec reduce_args_default_def sample_grid_def)

text \<open>C23: Every reduction of a readable selection returns, whatever its function and element type: it neither
panics nor goes round for ever, and the only error is of the argument, for bad axes, a result over the limit
or an empty selection that has no maximum.\<close>

lemma reduction_returns:
  assumes "reducible f16 ds lay stream" and "max_bytes < U64 - 1"
  shows "(\<exists>r. reduce half f16 ds lay fn args max_bytes = Some (Ok r))
    \<or> reduce half f16 ds lay fn args max_bytes = Some (Err BadFunction)
      \<and> (case reduced_axes (length (lay_out_shape lay)) (ra_axis args) fn of
           Err e \<Rightarrow> True
         | Ok reduced \<Rightarrow> prod_list (kept_of reduced (lay_out_shape lay)) * itemsize (result_dtype fn (lay_dtype lay)) > max_bytes
             \<or> needs_an_element fn \<and> 0 \<in> set (lay_out_shape lay))"
  using reduce_returns [OF assms, where half = half and fn = fn and args = args] by (auto split: option.splits sum.splits)

lemma reduction_returns_witness:
  "\<exists>r. reduce sample_half (\<lambda>b. b) sample_bytes sample_grid F_Var reduce_args_default 100 = Some (Ok r)"
  using reduction_returns [OF sample_reducible, where max_bytes = 100 and half = sample_half and fn = F_Var
      and args = reduce_args_default]
  by (simp add: reduced_axes_def reduce_args_default_def sample_grid_def U64_def kept_of_def result_dtype_def needs_an_element_def)



text \<open>C25: Each item of an integer reduction is the sum or product of its cell's elements modulo 2 ^ 64, their
greatest or least, or whether all or any of them are not 0; the cell's elements are those whose coordinates
along the kept axes are the item's.\<close>

lemma integers_reduced:
  assumes "reducible f16 ds lay stream" and "int_format (lay_dtype lay) = Some (sg, sz)"
    and "reduce half f16 ds lay fn args max_bytes = Some (Ok r)"
    and "reduced_axes (length (lay_out_shape lay)) (ra_axis args) fn = Ok reduced"
    and "c < prod_list (kept_of reduced (lay_out_shape lay))"
    and "vs = cell_values (lay_out_shape lay) reduced c (elements sz (int_read sg sz) stream)"
  shows "(fn = F_Sum \<longrightarrow> nth_item r c = to_le (of_int (sum_list vs) :: u64))
    \<and> (fn = F_Prod \<longrightarrow> nth_item r c = to_le (of_int (prod_list vs) :: u64))
    \<and> (fn = F_Max \<longrightarrow> vs \<noteq> [] \<and> int_read sg sz (nth_item r c) = Max (set vs))
    \<and> (fn = F_Min \<longrightarrow> vs \<noteq> [] \<and> int_read sg sz (nth_item r c) = Min (set vs))
    \<and> (fn = F_All \<longrightarrow> nth_item r c = [of_bool (\<forall>x \<in> set vs. x \<noteq> 0)])
    \<and> (fn = F_Any \<longrightarrow> nth_item r c = [of_bool (\<exists>x \<in> set vs. x \<noteq> 0)])"
  using int_sums_values [OF assms(1-5) _ assms(6)] int_extremes_values [OF assms(1-5) _ assms(6)]
    int_logic_values [OF assms(1-5) _ assms(6)]
  by (cases fn) simp_all

lemma integers_reduced_witness:
  "\<exists>r. reduce sample_half (\<lambda>b. b) sample_bytes sample_grid F_Max (reduce_args_default\<lparr>ra_axis := Axis_One 0\<rparr>) 100 = Some (Ok r)
     \<and> int_read False 1 (nth_item r 2) = 250"
proof -
  let ?args = "reduce_args_default\<lparr>ra_axis := Axis_One 0\<rparr>"
  obtain r where r: "reduce sample_half (\<lambda>b. b) sample_bytes sample_grid F_Max ?args 100 = Some (Ok r)"
    using sample_reduces [of F_Max sample_half] by (auto simp: result_dtype_def sample_grid_def)
  have "cell_values (lay_out_shape sample_grid) [True, False] 2 (elements 1 (int_read False 1) [1, 2, 3, 4, 5, 250]) = [3, 250]"
    by (simp add: cell_values_def cell_of_def sample_grid_def kept_of_def elements_def chunks_exact_def slice_def int_read_def upt_rec)
  then show ?thesis
    using integers_reduced [OF sample_reducible _ r, where c = 2 and sg = False and sz = 1] sample_axes [of F_Max] r
    by (simp add: int_format_def sample_grid_def kept_of_def reduce_args_default_def)
qed

text \<open>Argmax of integers reports the first place a cell's greatest element is found: its index along the axis,
or in the flattened selection when there is none.\<close>

lemma argmax_is_first:
  assumes "reducible f16 ds lay stream" and "int_format (lay_dtype lay) = Some (sg, sz)"
    and "reduce half f16 ds lay F_Argmax args max_bytes = Some (Ok r)"
    and "reduced_axes (length (lay_out_shape lay)) (ra_axis args) F_Argmax = Ok reduced"
    and "c < prod_list (kept_of reduced (lay_out_shape lay))"
    and "xs = elements sz (int_read sg sz) stream" and "vs = cell_values (lay_out_shape lay) reduced c xs"
  shows "\<exists>n < length xs. nth_item r c = to_le (of_nat (arg_position args (lay_out_shape lay) n) :: u64)
    \<and> cell_of (lay_out_shape lay) reduced n = c \<and> xs ! n = Max (set vs)
    \<and> (\<forall>j < n. cell_of (lay_out_shape lay) reduced j = c \<longrightarrow> xs ! j \<noteq> Max (set vs))"
  using assms by (rule int_argmax_values)

lemma argmax_is_first_witness:
  "\<exists>r. reduce sample_half (\<lambda>b. b) sample_bytes sample_grid F_Argmax (reduce_args_default\<lparr>ra_axis := Axis_One 0\<rparr>) 100 = Some (Ok r)
     \<and> nth_item r 2 = to_le (1 :: u64)"
proof -
  let ?args = "reduce_args_default\<lparr>ra_axis := Axis_One 0\<rparr>"
  obtain r where r: "reduce sample_half (\<lambda>b. b) sample_bytes sample_grid F_Argmax ?args 100 = Some (Ok r)"
    using sample_reduces [of F_Argmax sample_half] by (auto simp: result_dtype_def sample_grid_def)
  have xs: "[1, 2, 3, 4, 5, 250] = elements 1 (int_read False 1) [1, 2, 3, 4, 5, 250]"
    by (simp add: elements_def chunks_exact_def slice_def int_read_def upt_rec)
  have vs: "[3, 250] = cell_values (lay_out_shape sample_grid) [True, False] 2 [1, 2, 3, 4, 5, 250 :: int]"
    by (simp add: cell_values_def cell_of_def sample_grid_def kept_of_def upt_rec)
  have c: "2 < prod_list (kept_of [True, False] (lay_out_shape sample_grid))" by (simp add: kept_of_def sample_grid_def)
  have fmt: "int_format (lay_dtype sample_grid) = Some (False, 1)" by (simp add: int_format_def sample_grid_def)
  have ax: "reduced_axes (length (lay_out_shape sample_grid)) (ra_axis ?args) F_Argmax = Ok [True, False]"
    by (simp add: sample_grid_def reduce_args_default_def sample_axes)
  have greatest: "Max (set [3, 250 :: int]) = 250" by simp
  obtain n where n: "n < length [1, 2, 3, 4, 5, 250 :: int]" "nth_item r 2 = to_le (of_nat (arg_position ?args [2, 3] n) :: u64)" "[1, 2, 3, 4, 5, 250 :: int] ! n = 250"
    using argmax_is_first [OF sample_reducible fmt r ax c xs vs] unfolding greatest sample_grid_def layout.select_convs by blast
  then have "n = 5" by (auto simp: less_Suc_eq nth_Cons split: nat.splits)
  then show ?thesis using r n(2) by (simp add: arg_position_def reduce_args_default_def)
qed

section \<open>The control plane\<close>

text \<open>C26: However calls, sweeps and fetches follow one another, the server keeps at most its limit of sessions, each
under its own identifier with a granted number of connections in bounds and open files under distinct handles,
and its transfers stay consistent, each with a ticket of sixteen bytes.\<close>

lemma server_stays_sound:
  assumes "env_ok env" and "server_reach env n s" and "n + 1 < U64" and "ct_draws s + 1 < U32"
  shows "keys_distinct (ct_sessions s) \<and> length (ct_sessions s) \<le> max_sessions (cfg_limits (ce_config env))
    \<and> (\<forall>sid ses. map_of (ct_sessions s) sid = Some ses \<longrightarrow> ss_id ses = sid \<and> 0 < ss_granted_streams ses
          \<and> ss_granted_streams ses \<le> max_streams_per_session (cfg_limits (ce_config env)) \<and> files_ok (ss_files ses))
    \<and> transfers_ok (ct_transfers s)
    \<and> (\<forall>i e. map_of (tr_entries (ct_transfers s)) i = Some e \<longrightarrow> length (te_ticket e) = 16)"
proof -
  have ok: "server_ok env n s" using server_reach_ok [OF assms(1,2,3)] .
  then have "file_bound n ses" "session_ok (ce_config env) sid ses" if "map_of (ct_sessions s) sid = Some ses" for sid ses
    using that files_boundD map_of_SomeD [OF that] by (auto simp only: server_ok_def sessions_ok_def)
  then show ?thesis
    using ok assms(4) by (simp add: server_ok_def sessions_ok_def session_ok_def file_bound_def tickets_whole_def)
qed

lemma server_stays_sound_witness:
  "\<exists>s. server_reach sample_server 1 s \<and> length (ct_sessions s) = 1
     \<and> length (ct_sessions s) \<le> max_sessions (cfg_limits (ce_config sample_server))"
proof -
  let ?req = "\<lparr>cr_protocol_version = 2, cr_desired_streams = 3, cr_client_name = ''c''\<rparr>"
  let ?s = "snd (connect sample_server ?req ctl_start)"
  have s: "server_reach sample_server 1 ?s"
    using server_reach.Step [OF server_reach.Start server_step.Connect, of sample_server ?req] by simp
  have "length (ct_sessions ?s) = 1" "ct_draws ?s = 2"
    by (simp_all add: connect_def CTL_PROTOCOL_VERSION_def rpc_of_def act_bind_def ctl_create_def ctl_now_def create_at_def has_room_def
        ctl_start_def sample_server_def default_config_def default_limits_def act_return_def Let_def)
  then show ?thesis using server_stays_sound [OF sample_env_ok s] s by (auto simp: U64_def U32_def)
qed





text \<open>C29: A call that names no live session is refused as unauthenticated, whatever else it asks; no transfer and no
other session changes.\<close>

lemma no_session_no_service:
  assumes "no_session env sid s" and "oq_session_id file_req = sid" and "aq_session_id apply_req = sid"
  shows "refused sid (open_file env file_req) s \<and> refused sid (close_file env sid handle) s
    \<and> refused sid (get_item env sid handle name) s \<and> refused sid (list_children env sid handle name) s
    \<and> refused sid (prepare_selection env sid req) s \<and> refused sid (prepare_selections env sid reqs) s
    \<and> refused sid (apply_function env apply_req) s \<and> refused sid (disconnect env sid) s"
  using refused_calls [OF assms(1)] assms(2,3) by blast

lemma no_session_no_service_witness:
  "fst (close_file sample_server (replicate 16 7) 1 sample_ctl) = Some (Err Code_Unauthenticated)"
proof -
  have none: "no_session sample_server (replicate 16 7) sample_ctl" by (simp add: no_session_def sample_ctl_def ctl_start_def)
  have "refused (replicate 16 7) (close_file sample_server (replicate 16 7) 1) sample_ctl"
    using no_session_no_service [OF none,
        where file_req = "\<lparr>oq_session_id = replicate 16 7, oq_path = [], oq_format = []\<rparr>"
        and apply_req = "\<lparr>aq_session_id = replicate 16 7, aq_handle = 0, aq_name = [], aq_function_name = [], aq_kwargs = [], aq_indices = []\<rparr>"]
    by (simp only: open_request.simps apply_request.simps simp_thms)
  then show ?thesis by (simp add: refused_def split_beta)
qed



text \<open>Keyword arguments come out of a hash map in no particular order, and the arguments of a reduction, or the
refusal of them, are the same in any.\<close>

lemma kwargs_in_any_order:
  assumes "distinct (map fst kwargs)" and "mset kwargs' = mset kwargs"
  shows "reduce_args_of kwargs' = reduce_args_of kwargs"
  using assms by (rule reduce_args_order)

lemma kwargs_in_any_order_witness:
  "reduce_args_of [(''keepdims'', Some (Bool_Value True)), (''axis'', Some (Int_Value 1))]
   = Ok \<lparr>ra_axis = Axis_One 1, ra_keepdims = True, ra_ddof = 0\<rparr>"
proof -
  let ?kwargs = "[(''axis'', Some (Int_Value 1)), (''keepdims'', Some (Bool_Value True))]"
  have "reduce_args_of ?kwargs = Ok \<lparr>ra_axis = Axis_One 1, ra_keepdims = True, ra_ddof = 0\<rparr>"
    by (simp add: reduce_args_of_def reduce_arg_def reduce_args_default_def)
  then show ?thesis
    using kwargs_in_any_order [of ?kwargs "[(''keepdims'', Some (Bool_Value True)), (''axis'', Some (Int_Value 1))]"] by simp
qed

section \<open>NumPy files and Zarr stores\<close>







text \<open>Two chunks of an array never share a file name, in either key encoding, with either separator.\<close>

lemma chunk_keys_distinct:
  assumes "key_encoding_of named = Ok ke" and "grid_new shape chunk_shape (itemsize d) = Some g"
    and "m < chunks g" and "n < chunks g"
  shows "key_of prefix ke g m = key_of prefix ke g n \<longleftrightarrow> m = n"
proof -
  have g: "grid_ok g" using grid_new_ok(1) [OF assms(2) itemsize_U64] .
  then show ?thesis
    using key_of_inject [OF g separator_no_digit [OF key_encoding_separator [OF assms(1)]]] assms(3,4) by (auto simp: chunks_prod)
qed

lemma chunk_keys_distinct_witness:
  "\<exists>ke g. key_encoding_of None = Ok ke \<and> grid_new [3, 12] [2, 1] 1 = Some g \<and> key_of ''a'' ke g 1 \<noteq> key_of ''a'' ke g 11"
proof -
  let ?ke = "\<lparr>ke_prefix = True, ke_separator = CHR ''/''\<rparr>"
  have ke: "key_encoding_of None = Ok ?ke" by (simp add: key_encoding_of_def)
  obtain g where g: "grid_new [3, 12] [2, 1] (itemsize Uint8) = Some g" "chunks g = 24"
    by (simp add: grid_new_def Let_def checked_fold_def cmul_def U64_def div_ceil_def chunks_def wprod_def wmul_def)
  have "key_of ''a'' ?ke g 1 \<noteq> key_of ''a'' ?ke g 11"
    using chunk_keys_distinct [OF ke g(1), where m = 1 and n = 11 and prefix = "''a''"] g(2) by (simp del: One_nat_def)
  then show ?thesis using ke g(1) by auto
qed

text \<open>C34: A chunk written through a compressor and then checksums is read back as it was, given that the libraries
expand what they compressed.\<close>

lemma codec_chain_undone:
  assumes "codec_laws zc gzip zstd" and "set (tl codecs) \<subseteq> {Zarr_Crc32c}"
  shows "undo zc codecs (encode_chain gzip zstd (zc_crc32c zc) codecs bs) (length bs) = Ok bs"
  using assms by (rule undo_encoded)

lemma codec_chain_undone_witness:
  "undo \<lparr>zc_gunzip = (\<lambda>bs. (rev bs, True)), zc_unzstd = (\<lambda>bs n. if length bs \<le> n then Some (rev bs) else None), zc_crc32c = (\<lambda>_. 5)\<rparr>
     [Zarr_Gzip, Zarr_Crc32c] [3, 2, 1, 5, 0, 0, 0] 3 = Ok [1, 2, 3]"
proof -
  let ?zc = "\<lparr>zc_gunzip = (\<lambda>bs. (rev bs, True)), zc_unzstd = (\<lambda>bs n. if length bs \<le> n then Some (rev bs) else None), zc_crc32c = (\<lambda>_. 5 :: u32)\<rparr>"
  have "codec_laws ?zc rev rev" by (simp add: codec_laws_def)
  then have "undo ?zc [Zarr_Gzip, Zarr_Crc32c] (encode_chain rev rev (zc_crc32c ?zc) [Zarr_Gzip, Zarr_Crc32c] [1, 2, 3]) (length ([1, 2, 3] :: bytes))
      = Ok [1, 2, 3]"
    by (rule codec_chain_undone) simp
  moreover have "encode_chain rev rev (zc_crc32c ?zc) [Zarr_Gzip, Zarr_Crc32c] [1, 2, 3] = [3, 2, 1, 5, 0, 0, 0]" by code_simp
  moreover have "length ([1, 2, 3] :: bytes) = 3" by simp
  ultimately show ?thesis by (simp only:)
qed

text \<open>An attribute carried as an array is a rectangular nest of its shape, and its data is the bytes of its leaves
in order, each of the element type's size.\<close>

lemma attributes_rectangular:
  assumes "zarr_attr_value v = Some (Array d shape bs)"
  shows "rectangular v shape \<and> length bs = prod_list shape * itemsize d
    \<and> (\<exists>parts. list_all2 (\<lambda>leaf part. leaf_bytes d leaf = Some part) (leaves_of v) parts \<and> bs = concat parts)"
  using assms by (rule attr_array_sized)

lemma attributes_rectangular_witness:
  "\<exists>bs. zarr_attr_value (JArray [JArray [JBool True, JBool False], JArray [JBool False, JBool True]]) = Some (Array Bool [2, 2] bs)
     \<and> length bs = 4"
proof -
  have "zarr_attr_value (JArray [JArray [JBool True, JBool False], JArray [JBool False, JBool True]]) = Some (Array Bool [2, 2] [1, 0, 0, 1])"
    by (simp add: zarr_attr_value_def flat_empty_def flatten_leaf_def attr_array_def leaves_dtype_def is_boolean_def leaf_bytes_def
        wmul_def U64_def MAX_ATTR_BYTES_def Let_def)
  from attributes_rectangular [OF this] this show ?thesis by auto
qed

section \<open>HDF5 files\<close>



text \<open>C36: A chunk that was shuffled, compressed and then checksummed, with any of the steps left out or skipped for this
chunk, decodes to what was written, given that zlib expands what it compressed.\<close>

lemma hdf5_filters_undone:
  assumes "zlib_law zlib unzlib" and "0 < cg_itemsize (hc_grid hc)" and "length bs = cg_chunk_bytes (hc_grid hc)"
    and "hc_filters hc = pre @ mid @ post"
    and "set pre \<subseteq> {Shuffle}" and "mid \<in> {[], [Deflate]}" and "set post \<subseteq> {Fletcher32, Shuffle}"
  shows "decode_bytes unzlib hc skip (write_filters zlib (cg_itemsize (hc_grid hc)) skip 0 (hc_filters hc) bs) = Ok bs"
  using assms by (rule decode_usual)

lemma hdf5_filters_undone_witness:
  "decode_bytes (\<lambda>bs. (rev bs, True)) (h5_chunked\<lparr>hc_filters := [Shuffle, Deflate, Fletcher32]\<rparr>) 0
     ([2, 1] @ to_le (fletcher32 [2, 1])) = Ok [1, 2]"
proof -
  let ?hc = "h5_chunked\<lparr>hc_filters := [Shuffle, Deflate, Fletcher32]\<rparr>"
  have law: "zlib_law rev (\<lambda>bs. (rev bs, True))" by (simp add: zlib_law_def)
  have "decode_bytes (\<lambda>bs. (rev bs, True)) ?hc 0 (write_filters rev (cg_itemsize (hc_grid ?hc)) 0 0 (hc_filters ?hc) [1, 2]) = Ok [1, 2]"
    by (rule hdf5_filters_undone [OF law, where pre = "[Shuffle]" and mid = "[Deflate]" and post = "[Fletcher32]"])
      (simp_all add: h5_chunked_def)
  moreover have "write_filters rev (cg_itemsize (hc_grid ?hc)) 0 0 (hc_filters ?hc) [1, 2] = [2, 1] @ to_le (fletcher32 [2, 1])"
    by (simp add: h5_chunked_def shuffle_def)
  ultimately show ?thesis by (simp only:)
qed

text \<open>C37: A chunk whose checksum was compressed along with the data (the filters fletcher32, then deflate) is always
refused as malformed, although it is sound: the stream may only expand to one byte more than the data.\<close>

lemma checksum_under_compression_refused:
  assumes "zlib_law zlib unzlib" and "hc_filters hc = [Fletcher32, Deflate]" and "length bs = cg_chunk_bytes (hc_grid hc)"
  shows "decode_bytes unzlib hc 0 (write_filters zlib (cg_itemsize (hc_grid hc)) 0 0 (hc_filters hc) bs) = Err MalformedHdf5"
  using assms by (rule decode_checksum_under_deflate)

lemma checksum_under_compression_refused_witness:
  "decode_bytes (\<lambda>bs. (rev bs, True)) (h5_chunked\<lparr>hc_filters := [Fletcher32, Deflate]\<rparr>) 0
     (rev ([1, 2] @ to_le (fletcher32 [1, 2]))) = Err MalformedHdf5"
proof -
  let ?hc = "h5_chunked\<lparr>hc_filters := [Fletcher32, Deflate]\<rparr>"
  have law: "zlib_law rev (\<lambda>bs. (rev bs, True))" by (simp add: zlib_law_def)
  have "decode_bytes (\<lambda>bs. (rev bs, True)) ?hc 0 (write_filters rev (cg_itemsize (hc_grid ?hc)) 0 0 (hc_filters ?hc) [1, 2]) = Err MalformedHdf5"
    by (rule checksum_under_compression_refused [OF law]) (simp_all add: h5_chunked_def)
  moreover have "write_filters rev (cg_itemsize (hc_grid ?hc)) 0 0 (hc_filters ?hc) [1, 2] = rev ([1, 2] @ to_le (fletcher32 [1, 2]))"
    by simp
  ultimately show ?thesis by (simp only:)
qed

text \<open>C38: The checksum is Fletcher's: the sum of the 16-bit words and the sum of those sums, each modulo 65535, for
data of any length, since 360 words between two reductions never leave 32 bits; and no change of one byte
keeps it.\<close>

lemma fletcher32_sums:
  "(\<exists>a b. fletcher32 bs = of_nat (b * 2 ^ 16 + a) \<and> a \<le> 65535 \<and> b \<le> 65535
     \<and> a mod 65535 = fst (sums (be_words bs) (0, 0)) mod 65535 \<and> b mod 65535 = snd (sums (be_words bs) (0, 0)) mod 65535)
   \<and> (fletcher32 (bs[i := x]) = fletcher32 bs \<longleftrightarrow> bs[i := x] = bs)"
proof
  show "fletcher32 (bs[i := x]) = fletcher32 bs \<longleftrightarrow> bs[i := x] = bs"
    using fletcher32_detects [of i bs x] by (cases "i < length bs") (auto simp: not_less list_update_beyond)
qed (rule fletcher32_value)





section \<open>What the code gets wrong\<close>

text \<open>
  \<open>ScatterSlice::drop\<close> releases the first claim that starts where the slice does. With an empty claim at the
  same start it releases the wrong one, and a third claim is given a range that is still being written.
\<close>

lemma scatter_empty_claim_releases_another:
  "\<exists>sb live. scatter_reach (\<lambda>_. True) (sb, live) \<and> \<not> pairwise_disjoint live"
proof -
  let ?b = "[0, 0] :: bytes"
  let ?full = "\<lparr>sl_offset = 0, sl_len = 2\<rparr>" and ?none = "\<lparr>sl_offset = 0, sl_len = 0\<rparr>"
  have "scatter_reach (\<lambda>_. True) (scatter_new ?b, [])" by (rule reach_new) (simp add: U64_def)
  moreover have "scatter_step (\<lambda>_. True) (scatter_new ?b, []) (\<lparr>sb_len = 2, sb_claimed = [(0, 2)], sb_bytes = ?b\<rparr>, [?full])"
    by (rule step_claim [of _ 2 0]) (simp_all add: claim_Ok scatter_new_def U64_def)
  moreover have "scatter_step (\<lambda>_. True) (\<lparr>sb_len = 2, sb_claimed = [(0, 2)], sb_bytes = ?b\<rparr>, [?full])
      (\<lparr>sb_len = 2, sb_claimed = [(0, 2), (0, 0)], sb_bytes = ?b\<rparr>, [?none, ?full])"
    by (rule step_claim [of _ 0 0]) (simp_all add: claim_Ok U64_def)
  moreover have "scatter_step (\<lambda>_. True) (\<lparr>sb_len = 2, sb_claimed = [(0, 2), (0, 0)], sb_bytes = ?b\<rparr>, [?none, ?full])
      (\<lparr>sb_len = 2, sb_claimed = [(0, 0)], sb_bytes = ?b\<rparr>, [?full])"
    using step_drop [of ?none "[?none, ?full]" "\<lambda>_. True" "\<lparr>sb_len = 2, sb_claimed = [(0, 2), (0, 0)], sb_bytes = ?b\<rparr>"]
    by (simp add: drop_slice_def swap_remove_def)
  moreover have "scatter_step (\<lambda>_. True) (\<lparr>sb_len = 2, sb_claimed = [(0, 0)], sb_bytes = ?b\<rparr>, [?full])
      (\<lparr>sb_len = 2, sb_claimed = [(0, 0), (0, 2)], sb_bytes = ?b\<rparr>, [?full, ?full])"
    by (rule step_claim [of _ 2 0]) (simp_all add: claim_Ok overlaps_def U64_def)
  ultimately have "scatter_reach (\<lambda>_. True) (\<lparr>sb_len = 2, sb_claimed = [(0, 0), (0, 2)], sb_bytes = ?b\<rparr>, [?full, ?full])"
    by (meson reach_step)
  moreover have "\<not> pairwise_disjoint [?full, ?full]" by (simp add: disjoint_slices_def)
  ultimately show ?thesis by blast
qed

text \<open>
  \<open>num_elements\<close> multiplies unchecked: two elements of an axis of \<open>2 ^ 63\<close> bytes are \<open>2 ^ 64\<close>, which is 0.
\<close>

lemma num_elements_wraps:
  "num_elements \<lparr>rs_axes = [Listed [0, 0], Range 0 (2 ^ 63) 1], rs_out_shape = [2, 2 ^ 63],
     rs_advanced = Some \<lparr>adv_axes = [0], adv_len = 2, adv_adjacent = True\<rparr>\<rparr> = 0"
  by (simp add: num_elements_def wprod_def wmul_def U64_def)

text \<open>
  The product of a block's axes wraps as well, so a header from the wire can pass for four elements and
  describe \<open>2 ^ 64 + 4\<close> of them to the codec.
\<close>

lemma block_count_wraps:
  "block_count \<lparr>bs_dtype = Float32, bs_dims = [769546, 494770, 48448661], bs_ndim = 3, bs_eps = 0\<rparr> = 4
   \<and> prod_list (used_dims \<lparr>bs_dtype = Float32, bs_dims = [769546, 494770, 48448661], bs_ndim = 3, bs_eps = 0\<rparr>) = 2 ^ 64 + 4"
  by (simp add: block_count_def used_dims_def wprod_def wmul_def U64_def)

text \<open>
  \<open>create_at\<close> counts the sessions and inserts under separate locks: two requests that both find the last place
  free leave one session more than the limit.
\<close>

lemma two_creations_exceed_limit:
  "\<exists>c. config_ok c \<and> max_sessions (cfg_limits c) = 1 \<and> has_room c ([] :: nat sessions)
    \<and> length (create_insert c ''b'' 0 0 [2] [] (create_insert c ''a'' 0 0 [1] [] ([] :: nat sessions))) = 2"
  by (rule exI [of _ "default_config\<lparr>cfg_limits := default_limits\<lparr>max_sessions := 1\<rparr>\<rparr>"])
    (simp add: config_ok_def default_config_def default_limits_def default_transfer_def has_room_def create_insert_def)

text \<open>
  The chunk size is not a multiple of the item size. A transfer of 600001 \<open>float32\<close> elements over eight
  connections is cut every 300001 bytes, in the middle of an element, which the server refuses for an
  error-bounded transfer.
\<close>

lemma chunks_split_elements:
  "\<exists>c si. cc_chunk_bytes c = 0 \<and> (let n = choose_chunk_bytes c si 8 2400004 in n = 300001 \<and> n mod itemsize Float32 \<noteq> 0)"
  by (rule exI [of _ "client_default ''c''"], rule exI [of _ "\<lparr>si_granted_streams = 8, si_default_chunk_bytes = 4 * 1024 * 1024,
        si_max_fetch_bytes = 16 * 1024 * 1024, si_max_fancy_indices = 262144\<rparr>"])
    (simp add: client_default_def choose_chunk_bytes_def clamp_def split_for_streams_def div_ceil_def MIN_CHUNK_BYTES_def)

text \<open>
  A lossless block has to hold whole elements too, and nothing refuses or aligns a fetch that does not: the
  block cannot be described, and the connection is closed without an answer.
\<close>

lemma gzip_needs_whole_elements:
  "layout_block b \<lparr>lay_out_shape = [600001], lay_dtype = Float32, lay_src_dtype = Float32, lay_total_bytes = 2400004,
      lay_quality = exact\<lparr>q_codec := Some Gzip\<rparr>, lay_kind = Contiguous 0 2400004\<rparr> 0 300001 = Err BadBlock"
  by (simp add: layout_block_def codec_of_def for_range_def exact_def Let_def)

text \<open>
  \<open>reduce\<close> multiplies the kept axes unchecked. An empty selection of shape \<open>[0, 2 ^ 40, 2 ^ 40]\<close> has a layout, and its
  sum over the first axis would have \<open>2 ^ 80\<close> cells, which wrap to none: the limit on the result does not apply,
  and the result claims a shape that it has no data for.
\<close>

lemma walk_over_nothing: "lay_total_bytes lay = 0 \<Longrightarrow> fold_walk f16 ds lay w sz elem push acc = Some (Ok acc)"
  by (simp add: fold_walk_def fold_blocks.simps Let_def)

lemma cells_of_an_empty_selection_wrap:
  assumes "lay_out_shape lay = [0, 2 ^ 40, 2 ^ 40]" "lay_dtype lay = Float64" "lay_total_bytes lay = 0"
  shows "reduce half f16 ds lay F_Sum (reduce_args_default\<lparr>ra_axis := Axis_One 0\<rparr>) max_bytes
     = Some (Ok \<lparr>rd_dtype = Float64, rd_shape = [2 ^ 40, 2 ^ 40], rd_data = []\<rparr>)"
proof -
  have axes: "reduced_axes 3 (Axis_One 0) F_Sum = Ok [True, False, False]" by (simp add: reduced_axes_def numeral_3_eq_3)
  have cells: "cell_strides [0, 2 ^ 40, 2 ^ 40] [True, False, False] = ([0, 2 ^ 40, 1], 0)" by (simp add: wmul_def U64_def)
  have "run_by_dtype half f16 ds lay F_Sum (walk_of lay F_Sum (reduce_args_default\<lparr>ra_axis := Axis_One 0\<rparr>) [True, False, False])
      = Some (Ok [])"
    using assms cells
    by (simp add: run_by_dtype_def int_format_def run_reduction_def walk_over_nothing walk_of_def sum_new_def float_elem_def
        sum_finish_def wmul_def U64_def Let_def)
  then show ?thesis
    using assms axes cells
    by (simp add: reduce_def reduce_args_default_def walk_of_def numeral_3_eq_3 sat_mul_def needs_an_element_def result_dtype_def
        wmul_def U64_def Let_def)
qed

lemma empty_selection_has_a_layout:
  "layout_resolve \<lparr>feat_sz = True, feat_zfp = False\<rparr> [0, 2 ^ 40, 2 ^ 40] Float64 [] exact
     = Ok \<lparr>lay_out_shape = [0, 2 ^ 40, 2 ^ 40], lay_dtype = Float64, lay_src_dtype = Float64, lay_total_bytes = 0,
        lay_quality = exact, lay_kind = Contiguous 0 0\<rparr>"
  by (simp add: layout_resolve_def resolve_def expand_def resolve_axis_def whole_def wholes_def first_of_def out_shape_def understood_def
      exact_def wire_dtype_def num_elements_def wprod_def contiguous_run_def walks_independently_def cmul_def wmul_def wadd_def U64_def Let_def)

text \<open>
  The index of a shard may be written big-endian, and that is not noticed: the same codec is refused for the chunks.
\<close>

lemma big_endian_index_accepted:
  "\<exists>codec. index_checksum [codec] False = Ok False \<and> parse_codecs serde [codec] = Err UnsupportedZarr"
proof -
  let ?codec = "\<lparr>nm_name = ''bytes'', nm_configuration = [(''endian'', JString ''big'')]\<rparr>"
  have "index_checksum [?codec] False = Ok False" "parse_codecs serde [?codec] = Err UnsupportedZarr"
    by (simp_all add: parse_codecs_def parse_codec_def json_get_def)
  then show ?thesis by blast
qed

end
